(* ===== verification/Maeros_Prelude.thy ===== *)
theory Maeros_Prelude
  imports Main "HOL-Library.Word" "HOL-Library.Signed_Division"
begin

text \<open>
  The shared base of the development: the machine integer types, the outcomes a C function can
  have (a value, an access outside an object, a kernel panic, a loop that does not end), the
  constants of \<open>src/src/config.h\<close> and \<open>src/src/status.h\<close>, the flat 32-bit physical memory with
  byte and little-endian word accesses, and the generic lemmas on these that the component
  theories use.

  Conventions. An unsigned C integer of \<open>w\<close> bits and a pointer are a \<open>w word\<close>, whose arithmetic
  wraps as the compiled code does. A C \<open>int\<close> is an \<^typ>\<open>int\<close>; a conversion from an unsigned value
  is \<^term>\<open>sint\<close> and a conversion to one is \<^term>\<open>word_of_int\<close>. A plain \<open>char\<close> is a byte, read by
  \<^term>\<open>sint\<close> where the code compares it, because \<open>char\<close> is signed on the target.
\<close>

unbundle bit_operations_syntax

named_theorems mem_simps \<open>reads of a memory after writes\<close>
named_theorems word_small \<open>conversions of words in range\<close>

section \<open>Types and outcomes\<close>

type_synonym u8 = "8 word"
type_synonym u16 = "16 word"
type_synonym u32 = "32 word"

text \<open>
  \<open>Fault\<close> is an access outside the object the source names (a local or static array, a null or
  freed structure), \<open>Panic\<close> is \<open>panic(msg)\<close> of \<open>kernel.c\<close>, which prints and never returns, and
  \<open>Diverge\<close> is a loop of the source that does not end.
\<close>

datatype trap = Fault | Panic string | Diverge

type_synonym 'a exec = "trap + 'a"

abbreviation Ret :: "'a \<Rightarrow> 'a exec" where
  "Ret \<equiv> Inr"

abbreviation Trap :: "trap \<Rightarrow> 'a exec" where
  "Trap \<equiv> Inl"

definition bindx :: "'a exec \<Rightarrow> ('a \<Rightarrow> 'b exec) \<Rightarrow> 'b exec" where
  "bindx m f = (case m of Inl t \<Rightarrow> Inl t | Inr x \<Rightarrow> f x)"

definition guardx :: "bool \<Rightarrow> trap \<Rightarrow> unit exec" where
  "guardx b t = (if b then Ret () else Trap t)"

lemma bindx_Trap [simp]: "bindx (Trap t) f = Trap t"
  by (simp add: bindx_def)

lemma bindx_Ret [simp]: "bindx (Ret x) f = f x"
  by (simp add: bindx_def)

lemma bindx_eq_Ret [simp]: "bindx m f = Ret y \<longleftrightarrow> (\<exists>x. m = Ret x \<and> f x = Ret y)"
  by (cases m) auto

lemma bindx_eq_Trap: "bindx m f = Trap t \<longleftrightarrow> m = Trap t \<or> (\<exists>x. m = Ret x \<and> f x = Trap t)"
  by (cases m) auto

lemma bindx_cong [fundef_cong]:
  "m = m' \<Longrightarrow> (\<And>x. m' = Ret x \<Longrightarrow> f x = g x) \<Longrightarrow> bindx m f = bindx m' g"
  by (cases m') auto

lemma guardx_True [simp]: "guardx True t = Ret ()"
  by (simp add: guardx_def)

lemma guardx_False [simp]: "guardx False t = Trap t"
  by (simp add: guardx_def)

lemma guardx_eq_Ret [simp]: "guardx b t = Ret u \<longleftrightarrow> b"
  by (simp add: guardx_def)

section \<open>Constants of config.h and status.h\<close>

abbreviation (input) MAEROS_TOTAL_INTERRUPTS :: "'a::numeral" where "MAEROS_TOTAL_INTERRUPTS \<equiv> 512"
abbreviation (input) MAEROS_HEAP_SIZE_BYTES :: "'a::numeral" where "MAEROS_HEAP_SIZE_BYTES \<equiv> 104857600"
abbreviation (input) MAEROS_HEAP_BLOCK_SIZE :: "'a::numeral" where "MAEROS_HEAP_BLOCK_SIZE \<equiv> 4096"
abbreviation (input) MAEROS_HEAP_ADDRESS :: "'a::numeral" where "MAEROS_HEAP_ADDRESS \<equiv> 0x01000000"
abbreviation (input) MAEROS_HEAP_TABLE_ADDRESS :: "'a::numeral" where "MAEROS_HEAP_TABLE_ADDRESS \<equiv> 0x00007E00"
abbreviation (input) MAEROS_SECTOR_SIZE :: "'a::numeral" where "MAEROS_SECTOR_SIZE \<equiv> 512"
abbreviation (input) MAEROS_MAX_PATH :: "'a::numeral" where "MAEROS_MAX_PATH \<equiv> 108"
abbreviation (input) MAEROS_MAX_FILESYSTEMS :: "'a::numeral" where "MAEROS_MAX_FILESYSTEMS \<equiv> 12"
abbreviation (input) MAEROS_MAX_FILE_DESCRIPTORS :: "'a::numeral" where "MAEROS_MAX_FILE_DESCRIPTORS \<equiv> 512"
abbreviation (input) MAEROS_TOTAL_GDT_SEGMENTS :: "'a::numeral" where "MAEROS_TOTAL_GDT_SEGMENTS \<equiv> 6"
abbreviation (input) MAEROS_PROGRAM_VIRTUAL_ADDRESS :: "'a::numeral" where "MAEROS_PROGRAM_VIRTUAL_ADDRESS \<equiv> 0x400000"
abbreviation (input) MAEROS_USER_PROGRAM_STACK_SIZE :: "'a::numeral" where "MAEROS_USER_PROGRAM_STACK_SIZE \<equiv> 16384"
abbreviation (input) MAEROS_PROGRAM_VIRTUAL_STACK_ADDRESS_START :: "'a::numeral" where
  "MAEROS_PROGRAM_VIRTUAL_STACK_ADDRESS_START \<equiv> 0x3FF000"
abbreviation (input) MAEROS_PROGRAM_VIRTUAL_STACK_ADDRESS_END :: u32 where
  "MAEROS_PROGRAM_VIRTUAL_STACK_ADDRESS_END \<equiv>
     MAEROS_PROGRAM_VIRTUAL_STACK_ADDRESS_START - MAEROS_USER_PROGRAM_STACK_SIZE"
abbreviation (input) MAEROS_MAX_PROGRAM_ALLOCATIONS :: "'a::numeral" where "MAEROS_MAX_PROGRAM_ALLOCATIONS \<equiv> 1024"
abbreviation (input) MAEROS_MAX_PROCESSES :: "'a::numeral" where "MAEROS_MAX_PROCESSES \<equiv> 12"
abbreviation (input) USER_DATA_SEGMENT :: "'a::numeral" where "USER_DATA_SEGMENT \<equiv> 0x23"
abbreviation (input) USER_CODE_SEGMENT :: "'a::numeral" where "USER_CODE_SEGMENT \<equiv> 0x1b"
abbreviation (input) MAEROS_MAX_ISR80H_COMMANDS :: "'a::numeral" where "MAEROS_MAX_ISR80H_COMMANDS \<equiv> 1024"
abbreviation (input) MAEROS_KEYBOARD_BUFFER_SIZE :: "'a::numeral" where "MAEROS_KEYBOARD_BUFFER_SIZE \<equiv> 1024"

abbreviation (input) MAEROS_ALL_OK :: "'a::zero" where "MAEROS_ALL_OK \<equiv> 0"
abbreviation (input) EIO :: "'a::numeral" where "EIO \<equiv> 1"
abbreviation (input) EINVARG :: "'a::numeral" where "EINVARG \<equiv> 2"
abbreviation (input) ENOMEM :: "'a::numeral" where "ENOMEM \<equiv> 3"
abbreviation (input) EBADPATH :: "'a::numeral" where "EBADPATH \<equiv> 4"
abbreviation (input) EFSNOTUS :: "'a::numeral" where "EFSNOTUS \<equiv> 5"
abbreviation (input) ERDONLY :: "'a::numeral" where "ERDONLY \<equiv> 6"
abbreviation (input) EUNIMP :: "'a::numeral" where "EUNIMP \<equiv> 7"
abbreviation (input) EISTKN :: "'a::numeral" where "EISTKN \<equiv> 8"
abbreviation (input) EINFORMAT :: "'a::numeral" where "EINFORMAT \<equiv> 9"

section \<open>Words in range\<close>

lemma sint_of_nat_small [word_small]: "i < 2 ^ 31 \<Longrightarrow> sint (of_nat i :: u32) = int i"
  by (simp add: signed_of_nat signed_take_bit_int_eq_self)

lemma sint_word_of_int [word_small]:
  "- (2 ^ 31) \<le> x \<Longrightarrow> x < 2 ^ 31 \<Longrightarrow> sint (word_of_int x :: u32) = x"
  by (simp add: signed_of_int signed_take_bit_int_eq_self)

lemma sint_small [word_small]: "unat (w :: u32) < 2 ^ 31 \<Longrightarrow> sint w = int (unat w)"
  using sint_of_nat_small [of "unat w"] by simp

lemma unat_less32: "unat (w :: u32) < 2 ^ 32"
  using unsigned_less [of w] by simp

lemma of_nat_eq_unat: "k < 2 ^ 32 \<Longrightarrow> (of_nat k = (w :: u32)) \<longleftrightarrow> k = unat w"
  by (auto simp: unat_of_nat)

lemma unat_of_nat_small [word_small]: "k < 2 ^ 32 \<Longrightarrow> unat (of_nat k :: u32) = k"
  by (simp add: unat_of_nat)

lemma of_nat_inj32: "x < 2 ^ 32 \<Longrightarrow> y < 2 ^ 32 \<Longrightarrow> (of_nat x :: u32) = of_nat y \<longleftrightarrow> x = y"
  by (simp add: word_of_nat_eq_iff take_bit_nat_eq_self)

lemma word_of_int_inj32:
  "0 \<le> x \<Longrightarrow> x < 2 ^ 32 \<Longrightarrow> 0 \<le> y \<Longrightarrow> y < 2 ^ 32 \<Longrightarrow>
    (word_of_int x :: u32) = word_of_int y \<longleftrightarrow> x = y"
  by (simp add: word_of_int_inj)

lemma uint8_less: "uint (c :: u8) < 256"
  using unsigned_less [of c, where ?'a = int] by simp

lemma sint8: "sint (c :: u8) = (if uint c < 128 then uint c else uint c - 256)"
proof (cases "uint c < 128")
  case True
  have "- 128 \<le> uint c" using uint_ge_0 [of c] by linarith
  with True have "signed_take_bit 7 (uint c) = uint c"
    by (intro signed_take_bit_int_eq_self) simp_all
  with True show ?thesis by (simp add: sint_uint)
next
  case False
  then have "signed_take_bit 7 (uint c - 256) = uint c - 256"
    using uint8_less [of c] by (intro signed_take_bit_int_eq_self) simp_all
  moreover have "signed_take_bit 7 (uint c - 256) = signed_take_bit 7 (uint c)"
    by (rule signed_take_bit_eq_iff_take_bit_eq [THEN iffD2]) (simp add: take_bit_eq_mod)
  ultimately show ?thesis using False by (simp add: sint_uint)
qed

section \<open>Physical memory\<close>

text \<open>
  The kernel runs with the whole 32-bit physical address space mapped to itself, so raw memory
  is one total function from addresses to bytes. An index that leaves a table reaches the bytes
  next to it, as it does on the machine.
\<close>

type_synonym mem = "u32 \<Rightarrow> u8"

fun mem_write :: "mem \<Rightarrow> u32 \<Rightarrow> u8 list \<Rightarrow> mem" where
  "mem_write m p [] = m"
| "mem_write m p (b # bs) = mem_write (m(p := b)) (p + 1) bs"

definition mem_bytes :: "mem \<Rightarrow> u32 \<Rightarrow> nat \<Rightarrow> u8 list" where
  "mem_bytes m p n = map (\<lambda>i. m (p + of_nat i)) [0..<n]"

text \<open>Address \<open>a\<close> lies among the \<open>n\<close> bytes that start at \<open>p\<close>.\<close>

definition in_range :: "u32 \<Rightarrow> nat \<Rightarrow> u32 \<Rightarrow> bool" where
  "in_range p n a \<longleftrightarrow> unat (a - p) < n"

lemma unat_diff_Suc:
  fixes a p :: u32
  assumes "a \<noteq> p"
  shows "unat (a - p) = Suc (unat (a - (p + 1)))"
proof -
  have "a - p \<noteq> 0" using assms by simp
  then have *: "unat (a - p - 1) = unat (a - p) - 1" and "0 < unat (a - p)"
    by (simp_all add: unat_minus_one unat_gt_0)
  from * have "unat (a - (p + 1)) = unat (a - p) - 1" by (simp only: diff_diff_add)
  with \<open>0 < unat (a - p)\<close> show ?thesis by simp
qed

lemma in_range_0 [simp]: "\<not> in_range p 0 a"
  by (simp add: in_range_def)

lemma in_range_Suc: "in_range p (Suc n) a \<longleftrightarrow> a = p \<or> in_range (p + 1) n a"
  by (cases "a = p") (auto simp: in_range_def unat_diff_Suc)

lemma in_range_self: "in_range (p + 1) n p \<Longrightarrow> 2 ^ 32 \<le> n"
proof -
  assume "in_range (p + 1) n p"
  moreover have "unat (p - (p + 1)) = 2 ^ 32 - 1"
    by (simp add: unsigned_minus_1_eq_mask mask_eq_exp_minus_1)
  ultimately show ?thesis by (simp add: in_range_def)
qed

lemma in_range_offset: "i < 2 ^ 32 \<Longrightarrow> in_range p n (p + of_nat i) \<longleftrightarrow> i < n"
  by (simp add: in_range_def unat_of_nat)

lemma mem_write_apply:
  assumes "length bs \<le> 2 ^ 32"
  shows "mem_write m p bs a = (if in_range p (length bs) a then bs ! unat (a - p) else m a)"
  using assms
proof (induction bs arbitrary: m p)
  case Nil
  then show ?case by simp
next
  case (Cons b bs)
  have len: "length bs < 2 ^ 32" using Cons.prems by simp
  then have IH: "mem_write (m(p := b)) (p + 1) bs a =
      (if in_range (p + 1) (length bs) a then bs ! unat (a - (p + 1)) else (m(p := b)) a)"
    using Cons.IH by simp
  show ?case
  proof (cases "a = p")
    case True
    have "\<not> in_range (p + 1) (length bs) p"
      using len by (auto dest: in_range_self)
    with True IH show ?thesis by (simp add: in_range_def)
  next
    case False
    with IH show ?thesis by (simp add: in_range_Suc unat_diff_Suc)
  qed
qed

lemma mem_bytes_write [mem_simps]:
  "length bs \<le> 2 ^ 32 \<Longrightarrow> mem_bytes (mem_write m p bs) p (length bs) = bs"
  by (rule nth_equalityI) (simp_all add: mem_bytes_def mem_write_apply in_range_offset word_small)

lemma length_mem_bytes [simp]: "length (mem_bytes m p n) = n"
  by (simp add: mem_bytes_def)

lemma mem_bytes_Suc: "mem_bytes m p (Suc n) = m p # mem_bytes m (p + 1) n"
  unfolding mem_bytes_def by (simp add: upt_conv_Cons del: upt_Suc flip: map_Suc_upt) (simp add: algebra_simps)

subsection \<open>Little-endian words\<close>

definition load32 :: "mem \<Rightarrow> u32 \<Rightarrow> u32" where
  "load32 m p = ucast (m p) OR push_bit 8 (ucast (m (p + 1))) OR
     push_bit 16 (ucast (m (p + 2))) OR push_bit 24 (ucast (m (p + 3)))"

definition le32 :: "u32 \<Rightarrow> u8 list" where
  "le32 v = [ucast v, ucast (drop_bit 8 v), ucast (drop_bit 16 v), ucast (drop_bit 24 v)]"

definition store32 :: "mem \<Rightarrow> u32 \<Rightarrow> u32 \<Rightarrow> mem" where
  "store32 m p v = mem_write m p (le32 v)"

lemma le32_bits:
  "ucast (ucast v :: u8) OR push_bit 8 (ucast (ucast (drop_bit 8 v) :: u8)) OR
     push_bit 16 (ucast (ucast (drop_bit 16 v) :: u8)) OR
     push_bit 24 (ucast (ucast (drop_bit 24 v) :: u8)) = (v :: u32)" (is "?l = v")
proof (rule bit_eqI)
  fix n
  assume "possible_bit TYPE(32 word) n"
  then consider "n < 8" | "8 \<le> n" "n < 16" | "16 \<le> n" "n < 24" | "24 \<le> n" "n < 32"
    by (auto simp: possible_bit_word) linarith
  then show "bit ?l n = bit v n"
    by cases (auto simp: bit_simps)
qed

lemma load32_store32_same [mem_simps]: "load32 (store32 m p v) p = v"
  by (simp add: load32_def store32_def le32_def le32_bits)

lemma length_le32 [simp]: "length (le32 v) = 4"
  by (simp add: le32_def)

lemma store32_apply: "store32 m p v a = (if in_range p 4 a then le32 v ! unat (a - p) else m a)"
  by (simp add: store32_def mem_write_apply)

lemma load32_cong:
  assumes "\<And>i. i < 4 \<Longrightarrow> m (p + of_nat i) = m' (p + of_nat i)"
  shows "load32 m p = load32 m' p"
  using assms [of 0] assms [of 1] assms [of 2] assms [of 3] by (simp add: load32_def)

text \<open>Two cells whose addresses are multiples of four are the same or do not overlap.\<close>

definition word_aligned :: "u32 \<Rightarrow> bool" where
  "word_aligned p \<longleftrightarrow> unat p mod 4 = 0"

lemma word_aligned_disjoint:
  assumes "word_aligned p" and "word_aligned q" and "p \<noteq> q" and "i < 4"
  shows "\<not> in_range p 4 (q + of_nat i)"
proof
  define j where "j = unat (q + of_nat i - p)"
  assume "in_range p 4 (q + of_nat i)"
  then have j: "j < 4" "q + of_nat i = p + of_nat j"
    by (simp_all add: in_range_def j_def)
  have bound: "unat x + k < 2 ^ 32" if "word_aligned x" "k < 4" for x :: u32 and k
  proof -
    have "unat x < 2 ^ 32" by (rule unat_less32)
    moreover have "4 dvd unat x"
      using that(1) by (simp add: word_aligned_def dvd_eq_mod_eq_0)
    then obtain y where "unat x = 4 * y" by (rule dvdE)
    ultimately show ?thesis using that(2) by simp
  qed
  have "unat (q + of_nat i) = unat q + i" and "unat (p + of_nat j) = unat p + j"
    using bound [OF assms(1) j(1)] bound [OF assms(2,4)] by (simp_all add: unat_word_ariths unat_of_nat)
  with assms j have "unat q = unat p"
    unfolding word_aligned_def by presburger
  with assms(3) show False by (simp add: word_unat_eq_iff)
qed

lemma load32_store32_other [mem_simps]:
  "word_aligned p \<Longrightarrow> word_aligned q \<Longrightarrow> p \<noteq> q \<Longrightarrow> load32 (store32 m p v) q = load32 m q"
  by (rule load32_cong) (simp add: store32_apply word_aligned_disjoint)

end
