(* ===== verification/Kernel_Heap.thy ===== *)
theory Kernel_Heap
  imports Maeros_Prelude
begin

text \<open>
  The block allocator of \<open>src/src/memory/heap/heap.c\<close>. A heap is a table of one byte per 4096-byte
  block and a data area; the table's bytes live in physical memory at \<open>entries\<close>. The operations
  are translated one by one; the second half relates the table to an abstract allocator, a finite
  map from the first block of each live allocation to its length.
\<close>

section \<open>heap.h: entries, table and heap\<close>

abbreviation (input) HEAP_BLOCK_TABLE_ENTRY_TAKEN :: u8 where "HEAP_BLOCK_TABLE_ENTRY_TAKEN \<equiv> 0x01"
abbreviation (input) HEAP_BLOCK_TABLE_ENTRY_FREE :: u8 where "HEAP_BLOCK_TABLE_ENTRY_FREE \<equiv> 0x00"
abbreviation (input) HEAP_BLOCK_HAS_NEXT :: u8 where "HEAP_BLOCK_HAS_NEXT \<equiv> 0x80"
abbreviation (input) HEAP_BLOCK_IS_FIRST :: u8 where "HEAP_BLOCK_IS_FIRST \<equiv> 0x40"

record heap_table =
  ht_entries :: u32
  ht_total :: u32

record heap =
  h_table :: heap_table
  h_saddr :: u32

text \<open>The byte \<open>table->entries[i]\<close>; \<open>i\<close> is a C \<open>int\<close> and may leave the table.\<close>

definition entry_addr :: "heap_table \<Rightarrow> int \<Rightarrow> u32" where
  "entry_addr t i = ht_entries t + word_of_int i"

section \<open>heap.c: operations\<close>

definition heap_validate_alignment :: "u32 \<Rightarrow> bool" where
  "heap_validate_alignment ptr \<longleftrightarrow> (ptr AND MAEROS_HEAP_BLOCK_SIZE) = 0"

definition heap_validate_table :: "u32 \<Rightarrow> u32 \<Rightarrow> heap_table \<Rightarrow> int" where
  "heap_validate_table ptr end_ptr t =
     (let table_size = end_ptr - ptr;
          total_blocks = table_size div MAEROS_HEAP_BLOCK_SIZE
      in if ht_total t \<noteq> total_blocks then - EINVARG else 0)"

text \<open>
  \<open>heap_create\<close> fills the heap structure before it validates the table, and clears the table
  only when the table is valid.
\<close>

definition heap_create :: "heap \<Rightarrow> u32 \<Rightarrow> u32 \<Rightarrow> heap_table \<Rightarrow> mem \<Rightarrow> int \<times> heap \<times> mem" where
  "heap_create h ptr end_ptr t m =
     (if \<not> heap_validate_alignment ptr \<or> \<not> heap_validate_alignment end_ptr then (- EINVARG, h, m)
      else
        let h' = \<lparr>h_table = t, h_saddr = ptr\<rparr>;
            res = heap_validate_table ptr end_ptr t
        in if res < 0 then (res, h', m)
           else (res, h', mem_write m (ht_entries t)
                            (replicate (unat (ht_total t)) HEAP_BLOCK_TABLE_ENTRY_FREE)))"

definition heap_align_value_to_upper :: "u32 \<Rightarrow> u32" where
  "heap_align_value_to_upper val =
     (if val mod MAEROS_HEAP_BLOCK_SIZE = 0 then val
      else (val - val mod MAEROS_HEAP_BLOCK_SIZE) + MAEROS_HEAP_BLOCK_SIZE)"

definition heap_get_entry_type :: "u8 \<Rightarrow> int" where
  "heap_get_entry_type e = uint (e AND 0x0f)"

text \<open>
  The loop of \<open>heap_get_start_block\<close>: \<open>bc\<close> is \<open>block_current\<close> and \<open>bs\<close> is \<open>block_start\<close>. The
  comparison of \<open>block_current\<close> with the unsigned \<open>total_blocks\<close> converts to unsigned.
\<close>

function heap_get_start_block_loop ::
    "heap_table \<Rightarrow> u32 \<Rightarrow> mem \<Rightarrow> nat \<Rightarrow> int \<Rightarrow> int \<Rightarrow> int" where
  "heap_get_start_block_loop t tb m i bc bs =
     (if i < unat (ht_total t) then
        if heap_get_entry_type (m (entry_addr t (int i))) \<noteq> uint HEAP_BLOCK_TABLE_ENTRY_FREE
        then heap_get_start_block_loop t tb m (Suc i) 0 (-1)
        else
          let bs' = (if bs = -1 then sint (of_nat i :: u32) else bs);
              bc' = bc + 1
          in if word_of_int bc' = tb then bs'
             else heap_get_start_block_loop t tb m (Suc i) bc' bs'
      else bs)"
  by pat_completeness auto
termination
  by (relation "measure (\<lambda>(t, tb, m, i, bc, bs). unat (ht_total t) - i)") auto

declare heap_get_start_block_loop.simps [simp del]

definition heap_get_start_block :: "heap \<Rightarrow> u32 \<Rightarrow> mem \<Rightarrow> int" where
  "heap_get_start_block h tb m =
     (let bs = heap_get_start_block_loop (h_table h) tb m 0 0 (-1)
      in if bs = -1 then - ENOMEM else bs)"

definition heap_block_to_address :: "heap \<Rightarrow> int \<Rightarrow> u32" where
  "heap_block_to_address h block = h_saddr h + word_of_int (block * MAEROS_HEAP_BLOCK_SIZE)"

function heap_mark_taken_loop :: "heap_table \<Rightarrow> int \<Rightarrow> int \<Rightarrow> u8 \<Rightarrow> mem \<Rightarrow> mem" where
  "heap_mark_taken_loop t i end_block entry m =
     (if i \<le> end_block then
        heap_mark_taken_loop t (i + 1) end_block
          (if i \<noteq> end_block - 1 then HEAP_BLOCK_TABLE_ENTRY_TAKEN OR HEAP_BLOCK_HAS_NEXT
           else HEAP_BLOCK_TABLE_ENTRY_TAKEN)
          (m(entry_addr t i := entry))
      else m)"
  by pat_completeness auto
termination
  by (relation "measure (\<lambda>(t, i, end_block, entry, m). nat (end_block + 1 - i))") auto

declare heap_mark_taken_loop.simps [simp del]

definition heap_mark_blocks_taken :: "heap \<Rightarrow> int \<Rightarrow> int \<Rightarrow> mem \<Rightarrow> mem" where
  "heap_mark_blocks_taken h start_block total_blocks m =
     (let end_block = start_block + total_blocks - 1;
          entry = HEAP_BLOCK_TABLE_ENTRY_TAKEN OR HEAP_BLOCK_IS_FIRST;
          entry = (if 1 < total_blocks then entry OR HEAP_BLOCK_HAS_NEXT else entry)
      in heap_mark_taken_loop (h_table h) start_block end_block entry m)"

definition heap_malloc_blocks :: "heap \<Rightarrow> u32 \<Rightarrow> mem \<Rightarrow> u32 \<times> mem" where
  "heap_malloc_blocks h total_blocks m =
     (let start_block = heap_get_start_block h total_blocks m
      in if start_block < 0 then (0, m)
         else (heap_block_to_address h start_block,
               heap_mark_blocks_taken h start_block (sint total_blocks) m))"

function heap_mark_blocks_free :: "heap_table \<Rightarrow> int \<Rightarrow> mem \<Rightarrow> mem" where
  "heap_mark_blocks_free t i m =
     (if i < sint (ht_total t) then
        let entry = m (entry_addr t i);
            m' = m(entry_addr t i := HEAP_BLOCK_TABLE_ENTRY_FREE)
        in if entry AND HEAP_BLOCK_HAS_NEXT = 0 then m' else heap_mark_blocks_free t (i + 1) m'
      else m)"
  by pat_completeness auto
termination
  by (relation "measure (\<lambda>(t, i, m). nat (sint (ht_total t) - i))") auto

declare heap_mark_blocks_free.simps [simp del]

definition heap_address_to_block :: "heap \<Rightarrow> u32 \<Rightarrow> int" where
  "heap_address_to_block h address = sint (address - h_saddr h) sdiv MAEROS_HEAP_BLOCK_SIZE"

definition heap_malloc :: "heap \<Rightarrow> u32 \<Rightarrow> mem \<Rightarrow> u32 \<times> mem" where
  "heap_malloc h sz m =
     (let aligned_size = heap_align_value_to_upper sz;
          total_blocks = aligned_size div MAEROS_HEAP_BLOCK_SIZE
      in heap_malloc_blocks h total_blocks m)"

definition heap_free :: "heap \<Rightarrow> u32 \<Rightarrow> mem \<Rightarrow> mem" where
  "heap_free h ptr m = heap_mark_blocks_free (h_table h) (heap_address_to_block h ptr) m"

section \<open>The search for a run of free blocks\<close>

definition blk_free :: "mem \<Rightarrow> heap_table \<Rightarrow> nat \<Rightarrow> bool" where
  "blk_free m t i \<longleftrightarrow> heap_get_entry_type (m (entry_addr t (int i))) = 0"

definition run_free :: "mem \<Rightarrow> heap_table \<Rightarrow> nat \<Rightarrow> nat \<Rightarrow> bool" where
  "run_free m t s n \<longleftrightarrow> (\<forall>k. s \<le> k \<and> k < s + n \<longrightarrow> blk_free m t k)"

lemma run_free_Suc: "run_free m t s (Suc n) \<longleftrightarrow> run_free m t s n \<and> blk_free m t (s + n)"
  by (auto simp: run_free_def less_Suc_eq)

text \<open>
  What the scan knows before it looks at block \<open>i\<close>: exactly \<open>c\<close> free blocks end there, and no
  run of \<open>n\<close> free blocks ends at or before \<open>i\<close>.
\<close>

definition scan_inv :: "mem \<Rightarrow> heap_table \<Rightarrow> nat \<Rightarrow> nat \<Rightarrow> nat \<Rightarrow> bool" where
  "scan_inv m t n i c \<longleftrightarrow>
     c \<le> i \<and> run_free m t (i - c) c \<and> (c < i \<longrightarrow> \<not> blk_free m t (i - c - 1)) \<and>
     (\<forall>s. s + n \<le> i \<longrightarrow> \<not> run_free m t s n)"

lemma scan_inv_taken:
  "scan_inv m t n i c \<Longrightarrow> \<not> blk_free m t i \<Longrightarrow> 0 < n \<Longrightarrow> scan_inv m t n (Suc i) 0"
  unfolding scan_inv_def
  by (auto simp: le_Suc_eq) (auto simp: run_free_def)

lemma scan_inv_free:
  assumes inv: "scan_inv m t n i c" and "blk_free m t i" and "Suc c < n"
  shows "scan_inv m t n (Suc i) (Suc c)"
proof -
  have "run_free m t (i - c) (Suc c)"
    using assms by (simp add: scan_inv_def run_free_Suc)
  moreover have "\<not> run_free m t s n" if "s + n = Suc i" for s
  proof -
    from that assms(3) have "s \<le> i - c - 1" "c < i" "i - c - 1 < s + n" by auto
    moreover have "\<not> blk_free m t (i - c - 1)"
      using inv \<open>c < i\<close> by (simp add: scan_inv_def)
    ultimately show ?thesis unfolding run_free_def by blast
  qed
  ultimately show ?thesis using inv by (auto simp: scan_inv_def le_Suc_eq)
qed

definition scan_start :: "nat \<Rightarrow> nat \<Rightarrow> int" where
  "scan_start i c = (if c = 0 then -1 else int (i - c))"

lemma start_loop_end:
  "heap_get_start_block_loop t tb m (unat (ht_total t)) bc bs = bs"
  by (simp add: heap_get_start_block_loop.simps)

lemma start_loop_taken:
  "i < unat (ht_total t) \<Longrightarrow> \<not> blk_free m t i \<Longrightarrow>
    heap_get_start_block_loop t tb m i bc bs = heap_get_start_block_loop t tb m (Suc i) 0 (-1)"
  by (subst heap_get_start_block_loop.simps) (simp add: blk_free_def)

lemma start_loop_free:
  assumes "i < unat (ht_total t)" and "unat (ht_total t) < 2 ^ 31" and "blk_free m t i" and "c \<le> i"
  shows "heap_get_start_block_loop t tb m i (int c) (scan_start i c) =
    (if Suc c = unat tb then int (i - c)
     else heap_get_start_block_loop t tb m (Suc i) (int (Suc c)) (scan_start (Suc i) (Suc c)))"
proof -
  have i: "sint (of_nat i :: u32) = int i"
    using assms by (simp add: word_small)
  have "(word_of_int (int c + 1) = tb) = (of_nat (Suc c) = tb)"
    by (simp add: add.commute)
  also have "\<dots> = (Suc c = unat tb)"
    using assms by (intro of_nat_eq_unat) simp
  finally have tb: "(word_of_int (int c + 1) = tb) = (Suc c = unat tb)" .
  have bs: "(if scan_start i c = -1 then sint (of_nat i :: u32) else scan_start i c) = int (i - c)"
    using assms by (simp add: scan_start_def i)
  have "scan_start (Suc i) (Suc c) = int (i - c)" and "int (Suc c) = int c + 1"
    by (simp_all add: scan_start_def)
  with assms tb bs show ?thesis
    by (subst heap_get_start_block_loop.simps) (simp only: blk_free_def Let_def unsigned_0 if_True if_False not_False_eq_True simp_thms)
qed

lemma start_loop_spec:
  assumes "unat (ht_total t) < 2 ^ 31" and "0 < unat tb"
    and "i \<le> unat (ht_total t)" and "c < unat tb" and "scan_inv m t (unat tb) i c"
  shows "(\<exists>s. heap_get_start_block_loop t tb m i (int c) (scan_start i c) = int s \<and>
            s + unat tb \<le> unat (ht_total t) \<and>
            run_free m t s (unat tb) \<and> (\<forall>s' < s. \<not> run_free m t s' (unat tb)))
       \<or> (\<exists>d. heap_get_start_block_loop t tb m i (int c) (scan_start i c) =
              scan_start (unat (ht_total t)) d \<and>
            d < unat tb \<and> scan_inv m t (unat tb) (unat (ht_total t)) d)"
  using assms(3-5)
proof (induction "unat (ht_total t) - i" arbitrary: i c)
  case 0
  then have "i = unat (ht_total t)" by simp
  with 0 show ?case by (auto simp: start_loop_end)
next
  case (Suc k)
  then have lt: "i < unat (ht_total t)" and ci: "c \<le> i" by (simp_all add: scan_inv_def)
  show ?case
  proof (cases "blk_free m t i")
    case False
    have "scan_inv m t (unat tb) (Suc i) 0"
      using Suc.prems False assms(2) by (intro scan_inv_taken) auto
    moreover have "scan_start (Suc i) 0 = -1" by (simp add: scan_start_def)
    ultimately show ?thesis
      using Suc.hyps(1) [of "Suc i" 0] Suc.hyps(2) lt assms(2) start_loop_taken [OF lt False] by simp
  next
    case free: True
    note step = start_loop_free [OF lt assms(1) free ci]
    show ?thesis
    proof (cases "Suc c = unat tb")
      case True
      have "run_free m t (i - c) (Suc c)"
        using Suc.prems free by (simp add: scan_inv_def run_free_Suc)
      moreover have "\<not> run_free m t s' (unat tb)" if "s' < i - c" for s'
        using that True Suc.prems by (simp add: scan_inv_def)
      ultimately show ?thesis
        using step True lt ci by (intro disjI1 exI [of _ "i - c"]) auto
    next
      case False
      then have "scan_inv m t (unat tb) (Suc i) (Suc c)"
        using Suc.prems free by (intro scan_inv_free) auto
      then show ?thesis
        using step False Suc.hyps(1) [of "Suc i" "Suc c"] Suc.hyps(2) Suc.prems(2) lt by simp
    qed
  qed
qed

section \<open>The abstract allocator\<close>

text \<open>
  A live allocation is its first block and its number of blocks. \<open>entry_code n k\<close> is the table
  entry of the \<open>k\<close>-th of \<open>n\<close> blocks, and \<open>heap_rel\<close> says that the table in memory is exactly the
  encoding of a set of disjoint live allocations.
\<close>

type_synonym allocs = "nat \<rightharpoonup> nat"

definition owns :: "allocs \<Rightarrow> nat \<Rightarrow> bool" where
  "owns A i \<longleftrightarrow> (\<exists>s n. A s = Some n \<and> s \<le> i \<and> i < s + n)"

definition fits :: "allocs \<Rightarrow> nat \<Rightarrow> nat \<Rightarrow> nat \<Rightarrow> bool" where
  "fits A T n s \<longleftrightarrow> s + n \<le> T \<and> (\<forall>k. s \<le> k \<and> k < s + n \<longrightarrow> \<not> owns A k)"

definition entry_code :: "nat \<Rightarrow> nat \<Rightarrow> u8" where
  "entry_code n k = HEAP_BLOCK_TABLE_ENTRY_TAKEN OR (if k = 0 then HEAP_BLOCK_IS_FIRST else 0) OR
     (if Suc k < n then HEAP_BLOCK_HAS_NEXT else 0)"

definition allocs_wf :: "nat \<Rightarrow> allocs \<Rightarrow> bool" where
  "allocs_wf T A \<longleftrightarrow>
     (\<forall>s n. A s = Some n \<longrightarrow> 0 < n \<and> s + n \<le> T) \<and>
     (\<forall>s n s' n'. A s = Some n \<longrightarrow> A s' = Some n' \<longrightarrow> s < s' \<longrightarrow> s + n \<le> s')"

abbreviation heap_blocks :: "heap \<Rightarrow> nat" where
  "heap_blocks h \<equiv> unat (ht_total (h_table h))"

definition heap_ok :: "heap \<Rightarrow> bool" where
  "heap_ok h \<longleftrightarrow> heap_blocks h \<le> 2 ^ 19"

definition heap_rel :: "heap \<Rightarrow> mem \<Rightarrow> allocs \<Rightarrow> bool" where
  "heap_rel h m A \<longleftrightarrow> allocs_wf (heap_blocks h) A \<and>
     (\<forall>s n k. A s = Some n \<longrightarrow> k < n \<longrightarrow> m (entry_addr (h_table h) (int (s + k))) = entry_code n k) \<and>
     (\<forall>i < heap_blocks h. \<not> owns A i \<longrightarrow> m (entry_addr (h_table h) (int i)) = 0)"

subsection \<open>Table entries\<close>

definition tbl_off :: "heap_table \<Rightarrow> u32 \<Rightarrow> nat" where
  "tbl_off t a = unat (a - ht_entries t)"

lemma entry_addr_eq: "i < 2 ^ 32 \<Longrightarrow> a = entry_addr t (int i) \<longleftrightarrow> tbl_off t a = i"
  by (auto simp: entry_addr_def tbl_off_def unat_of_nat)

lemma tbl_off_entry [simp]: "i < 2 ^ 32 \<Longrightarrow> tbl_off t (entry_addr t (int i)) = i"
  using entry_addr_eq by blast

lemma entry_code_type: "heap_get_entry_type (entry_code n k) = 1"
  by (simp add: entry_code_def heap_get_entry_type_def)

lemma entry_code_next: "entry_code n k AND HEAP_BLOCK_HAS_NEXT = 0 \<longleftrightarrow> n \<le> Suc k"
  by (simp add: entry_code_def)

lemma mark_taken_loop_apply:
  assumes "s + n < 2 ^ 31" and "k \<le> n" and "k < n \<Longrightarrow> e = entry_code n k"
  shows "heap_mark_taken_loop t (int (s + k)) (int (s + n) - 1) e m a =
    (if s + k \<le> tbl_off t a \<and> tbl_off t a < s + n then entry_code n (tbl_off t a - s) else m a)"
  using assms(2,3)
proof (induction "n - k" arbitrary: k e m)
  case 0
  then show ?case by (auto simp: heap_mark_taken_loop.simps)
next
  case (Suc j)
  then have k: "k < n" and e: "e = entry_code n k" by simp_all
  let ?e = "if int (s + k) \<noteq> int (s + n) - 1 - 1 then HEAP_BLOCK_TABLE_ENTRY_TAKEN OR HEAP_BLOCK_HAS_NEXT
            else HEAP_BLOCK_TABLE_ENTRY_TAKEN"
  have "Suc k < n \<Longrightarrow> ?e = entry_code n (Suc k)"
    by (auto simp: entry_code_def)
  then have IH: "heap_mark_taken_loop t (int (s + Suc k)) (int (s + n) - 1) ?e m' a =
      (if s + Suc k \<le> tbl_off t a \<and> tbl_off t a < s + n then entry_code n (tbl_off t a - s) else m' a)" for m'
    using Suc.hyps k by (intro Suc.hyps(1)) simp_all
  have "heap_mark_taken_loop t (int (s + k)) (int (s + n) - 1) e m a =
      heap_mark_taken_loop t (int (s + Suc k)) (int (s + n) - 1) ?e (m(entry_addr t (int (s + k)) := e)) a"
    using k by (subst heap_mark_taken_loop.simps) (simp add: add.commute add.left_commute)
  also have "\<dots> = (if s + k \<le> tbl_off t a \<and> tbl_off t a < s + n then entry_code n (tbl_off t a - s) else m a)"
    using IH [of "m(entry_addr t (int (s + k)) := e)"] k e assms(1) entry_addr_eq [of "s + k" a t] by auto
  finally show ?case .
qed

lemma mark_blocks_taken_apply:
  assumes "s + n < 2 ^ 31" and "0 < n"
  shows "heap_mark_blocks_taken h (int s) (int n) m a =
    (let i = tbl_off (h_table h) a in if s \<le> i \<and> i < s + n then entry_code n (i - s) else m a)"
proof -
  have "entry_code n 0 = (if 1 < int n then 0xC1 else 0x41)"
    by (simp add: entry_code_def)
  then show ?thesis
    using mark_taken_loop_apply [of s n 0 "entry_code n 0" "h_table h" m a] assms
    by (cases "1 < int n") (simp_all add: heap_mark_blocks_taken_def Let_def)
qed

lemma mark_blocks_free_apply:
  assumes "s + n \<le> unat (ht_total t)" and "unat (ht_total t) < 2 ^ 31" and "k < n"
    and "\<And>j. k \<le> j \<Longrightarrow> j < n \<Longrightarrow> m (entry_addr t (int (s + j))) = entry_code n j"
  shows "heap_mark_blocks_free t (int (s + k)) m a =
    (if s + k \<le> tbl_off t a \<and> tbl_off t a < s + n then 0 else m a)"
  using assms(3,4)
proof (induction "n - k" arbitrary: k m)
  case 0
  then show ?case by simp
next
  case (Suc j)
  let ?m = "m(entry_addr t (int (s + k)) := 0)"
  have lt: "int (s + k) < sint (ht_total t)"
    using Suc.prems(1) assms(1) sint_small [OF assms(2)] by linarith
  have e: "m (entry_addr t (int (s + k))) = entry_code n k"
    using Suc.prems by simp
  have upd: "?m a = (if tbl_off t a = s + k then 0 else m a)"
    using entry_addr_eq [of "s + k" a t] Suc.prems assms(1,2) by simp
  show ?case
  proof (cases "Suc k < n")
    case True
    have "?m (entry_addr t (int (s + i))) = entry_code n i" if "Suc k \<le> i" "i < n" for i
      using that Suc.prems assms(1,2) entry_addr_eq [of "s + k" "entry_addr t (int (s + i))" t]
      by (simp del: of_nat_add)
    then have "heap_mark_blocks_free t (int (s + Suc k)) ?m a =
        (if s + Suc k \<le> tbl_off t a \<and> tbl_off t a < s + n then 0 else ?m a)"
      using Suc.hyps True by (intro Suc.hyps(1)) simp_all
    moreover have "heap_mark_blocks_free t (int (s + k)) m = heap_mark_blocks_free t (int (s + Suc k)) ?m"
      using lt e True by (subst heap_mark_blocks_free.simps) (simp add: entry_code_next Let_def add.commute add.left_commute)
    ultimately show ?thesis using upd Suc.prems by auto
  next
    case False
    then have "heap_mark_blocks_free t (int (s + k)) m = ?m"
      using lt e by (subst heap_mark_blocks_free.simps) (simp add: entry_code_next Let_def)
    with upd False Suc.prems show ?thesis by auto
  qed
qed

subsection \<open>Allocation and release refine the abstract allocator\<close>

lemma rel_blk_free:
  assumes "heap_rel h m A" and "i < heap_blocks h"
  shows "blk_free m (h_table h) i \<longleftrightarrow> \<not> owns A i"
proof (cases "owns A i")
  case True
  then obtain s n where sn: "A s = Some n" "s \<le> i" "i < s + n" by (auto simp: owns_def)
  define k where "k = i - s"
  with sn have "i = s + k" and "k < n" by simp_all
  then have "m (entry_addr (h_table h) (int i)) = entry_code n k"
    using assms(1) sn(1) by (simp add: heap_rel_def)
  with True show ?thesis by (simp add: blk_free_def entry_code_type)
next
  case False
  with assms have "m (entry_addr (h_table h) (int i)) = 0" by (simp add: heap_rel_def)
  with False show ?thesis by (simp add: blk_free_def heap_get_entry_type_def)
qed

lemma rel_run_free:
  assumes "heap_rel h m A" and "s + n \<le> heap_blocks h"
  shows "run_free m (h_table h) s n \<longleftrightarrow> fits A (heap_blocks h) n s"
  using assms by (auto simp: run_free_def fits_def rel_blk_free)

lemma ownsI [intro]: "A s = Some n \<Longrightarrow> s \<le> i \<Longrightarrow> i < s + n \<Longrightarrow> owns A i"
  by (auto simp: owns_def)

lemma ownsE [elim]:
  assumes "owns A i"
  obtains s n where "A s = Some n" and "s \<le> i" and "i < s + n"
  using assms by (auto simp: owns_def)

lemma allocs_wfD:
  assumes "allocs_wf T A" and "A s = Some n"
  shows "0 < n" and "s + n \<le> T" and "A s' = Some n' \<Longrightarrow> s < s' \<Longrightarrow> s + n \<le> s'"
  using assms unfolding allocs_wf_def by blast+

lemma fits_fresh: "allocs_wf T A \<Longrightarrow> fits A T n s \<Longrightarrow> 0 < n \<Longrightarrow> A s = None"
  using ownsI [of A s _ s] by (cases "A s") (auto simp: fits_def dest: allocs_wfD(1))

lemma fits_not_owned: "fits A T n s \<Longrightarrow> s \<le> k \<Longrightarrow> k < s + n \<Longrightarrow> \<not> owns A k"
  by (simp add: fits_def)

lemma owns_upd:
  "A s = None \<Longrightarrow> owns (A(s \<mapsto> n)) i \<longleftrightarrow> owns A i \<or> s \<le> i \<and> i < s + n"
  unfolding owns_def by (auto split: if_splits)

lemma owns_same:
  assumes "allocs_wf T A" and "A s = Some n" and "s \<le> i" "i < s + n"
    and "A s' = Some n'" and "s' \<le> i" "i < s' + n'"
  shows "s' = s"
proof (rule ccontr)
  assume "s' \<noteq> s"
  then consider "s' < s" | "s < s'" by linarith
  then show False
    using assms allocs_wfD(3) [OF assms(1,2,5)] allocs_wfD(3) [OF assms(1,5,2)] by cases auto
qed

lemma owns_del:
  assumes "allocs_wf T A" and "A s = Some n"
  shows "owns (A(s := None)) i \<longleftrightarrow> owns A i \<and> \<not> (s \<le> i \<and> i < s + n)"
proof -
  have "\<not> (s \<le> i \<and> i < s + n)" if "A s' = Some n'" "s' \<noteq> s" "s' \<le> i" "i < s' + n'" for s' n'
    using owns_same [OF assms, of i s' n'] that by blast
  moreover have "owns (A(s := None)) i" if "A s' = Some n'" "s' \<le> i" "i < s' + n'" "\<not> (s \<le> i \<and> i < s + n)" for s' n'
    using that assms(2) by (intro ownsI [of _ s' n']) auto
  ultimately show ?thesis by (fastforce elim!: ownsE intro: ownsI split: if_splits)
qed

lemma allocs_wf_upd:
  assumes wf: "allocs_wf T A" and fits: "fits A T n s" and "0 < n"
  shows "allocs_wf T (A(s \<mapsto> n))"
proof -
  have new: "s + n \<le> s' \<or> s' + n' \<le> s" if "A s' = Some n'" for s' n'
  proof (rule ccontr)
    assume *: "\<not> ?thesis"
    moreover have "0 < n'" using allocs_wfD(1) [OF wf that] .
    ultimately have "owns A (max s s')"
      by (intro ownsI [of A s' n']) (use that in \<open>auto simp: max_def\<close>)
    with fits * \<open>0 < n\<close> show False
      using fits_not_owned [OF fits, of "max s s'"] by (auto simp: max_def split: if_splits)
  qed
  show ?thesis
    unfolding allocs_wf_def
  proof (intro conjI allI impI)
    fix s' n'
    assume "(A(s \<mapsto> n)) s' = Some n'"
    then show "0 < n'" and "s' + n' \<le> T"
      using assms allocs_wfD(1,2) [OF wf, of s' n'] by (auto simp: fits_def split: if_splits)
  next
    fix s1 n1 s2 n2
    assume "(A(s \<mapsto> n)) s1 = Some n1" "(A(s \<mapsto> n)) s2 = Some n2" "s1 < s2"
    then show "s1 + n1 \<le> s2"
      using new [of s1 n1] new [of s2 n2] allocs_wfD(3) [OF wf, of s1 n1 s2 n2]
      by (auto split: if_splits)
  qed
qed

lemma allocs_wf_del: "allocs_wf T A \<Longrightarrow> allocs_wf T (A(s := None))"
  unfolding allocs_wf_def by auto

lemma heap_rel_malloc_blocks:
  assumes rel: "heap_rel h m A" and ok: "heap_ok h" and fits: "fits A (heap_blocks h) n s" and "0 < n"
  shows "heap_rel h (heap_mark_blocks_taken h (int s) (int n) m) (A(s \<mapsto> n))"
proof -
  let ?t = "h_table h" and ?m = "heap_mark_blocks_taken h (int s) (int n) m"
  have sn: "s + n \<le> heap_blocks h" "heap_blocks h < 2 ^ 31" and wf: "allocs_wf (heap_blocks h) A"
    using fits ok rel by (simp_all add: fits_def heap_ok_def heap_rel_def)
  have at: "?m (entry_addr ?t (int i)) =
      (if s \<le> i \<and> i < s + n then entry_code n (i - s) else m (entry_addr ?t (int i)))"
    if "i < heap_blocks h" for i
    using that sn \<open>0 < n\<close> by (subst mark_blocks_taken_apply) (simp_all add: Let_def)
  have no: "\<forall>k. s \<le> k \<and> k < s + n \<longrightarrow> \<not> owns A k" using fits by (simp add: fits_def)
  have "?m (entry_addr ?t (int (s' + k))) = entry_code n' k"
    if "(A(s \<mapsto> n)) s' = Some n'" "k < n'" for s' n' k
  proof (cases "s' = s")
    case True
    with that sn at [of "s + k"] show ?thesis by simp
  next
    case False
    with that have a: "A s' = Some n'" by simp
    then have "owns A (s' + k)" and "s' + k < heap_blocks h"
      using that(2) allocs_wfD(2) [OF wf a] by auto
    moreover from this no have "\<not> (s \<le> s' + k \<and> s' + k < s + n)" by blast
    ultimately show ?thesis
      using a that rel at [of "s' + k"] by (auto simp: heap_rel_def)
  qed
  moreover have "?m (entry_addr ?t (int i)) = 0" if "i < heap_blocks h" "\<not> owns (A(s \<mapsto> n)) i" for i
    using that rel at [of i] owns_upd [of A s n i] fits_fresh [OF wf fits \<open>0 < n\<close>] by (auto simp: heap_rel_def)
  ultimately show ?thesis
    using allocs_wf_upd [OF wf fits \<open>0 < n\<close>] by (simp add: heap_rel_def)
qed

lemma start_block_fits:
  assumes rel: "heap_rel h m A" and ok: "heap_ok h" and tb: "0 < unat tb"
    and "fits A (heap_blocks h) (unat tb) s"
  shows "heap_get_start_block h tb m = int (LEAST s. fits A (heap_blocks h) (unat tb) s)"
proof -
  let ?t = "h_table h" and ?fits = "fits A (heap_blocks h) (unat tb)"
  have small: "heap_blocks h < 2 ^ 31" using ok by (simp add: heap_ok_def)
  have fr: "run_free m ?t s' (unat tb) \<longleftrightarrow> ?fits s'" if "s' + unat tb \<le> heap_blocks h" for s'
    using rel_run_free [OF rel that] .
  have init: "scan_inv m ?t (unat tb) 0 0" using tb by (simp add: scan_inv_def run_free_def)
  have s: "s + unat tb \<le> heap_blocks h" using assms(4) by (simp add: fits_def)
  have start: "scan_start 0 0 = -1" by (simp add: scan_start_def)
  from start_loop_spec [OF small tb le0 tb init] s assms(4) fr [of s]
  obtain f where f: "heap_get_start_block_loop ?t tb m 0 0 (-1) = int f"
      "f + unat tb \<le> heap_blocks h" "run_free m ?t f (unat tb)"
      "\<forall>s' < f. \<not> run_free m ?t s' (unat tb)"
    by (auto simp: start scan_inv_def)
  have "(LEAST s. ?fits s) = f"
  proof (rule Least_equality)
    show "?fits f" using f fr by blast
    show "f \<le> s'" if "?fits s'" for s'
      using that f(4) fr [of s'] by (meson fits_def not_le_imp_less)
  qed
  with f(1) show ?thesis by (simp add: heap_get_start_block_def)
qed

lemma start_block_none:
  assumes rel: "heap_rel h m A" and ok: "heap_ok h" and tb: "0 < unat tb"
    and none: "\<And>s. \<not> fits A (heap_blocks h) (unat tb) s"
  shows "if 0 < heap_blocks h \<and> \<not> owns A (heap_blocks h - 1)
    then \<exists>s. heap_get_start_block h tb m = int s \<and> s < heap_blocks h \<and> heap_blocks h < s + unat tb \<and>
           (\<forall>k. s \<le> k \<and> k < heap_blocks h \<longrightarrow> \<not> owns A k)
    else heap_get_start_block h tb m = - ENOMEM"
proof -
  let ?t = "h_table h" and ?T = "heap_blocks h"
  have small: "?T < 2 ^ 31" using ok by (simp add: heap_ok_def)
  have init: "scan_inv m ?t (unat tb) 0 0" using tb by (simp add: scan_inv_def run_free_def)
  have start: "scan_start 0 0 = -1" by (simp add: scan_start_def)
  from start_loop_spec [OF small tb le0 tb init] none rel_run_free [OF rel]
  obtain d where d: "heap_get_start_block_loop ?t tb m 0 0 (-1) = scan_start ?T d"
      "d < unat tb" "scan_inv m ?t (unat tb) ?T d"
    by (auto simp: start)
  from d(3) have dT: "d \<le> ?T" and run: "run_free m ?t (?T - d) d"
    and max: "d < ?T \<Longrightarrow> \<not> blk_free m ?t (?T - d - 1)" by (simp_all add: scan_inv_def)
  show ?thesis
  proof (cases "d = 0")
    case True
    then have "heap_get_start_block h tb m = - ENOMEM"
      using d(1) by (simp add: heap_get_start_block_def scan_start_def)
    moreover have "0 < ?T \<Longrightarrow> owns A (?T - 1)"
      using True max rel_blk_free [OF rel, of "?T - 1"] by simp
    ultimately show ?thesis by auto
  next
    case False
    then have "heap_get_start_block h tb m = int (?T - d)"
      using d(1) by (simp add: heap_get_start_block_def scan_start_def)
    moreover have "\<not> owns A k" if "?T - d \<le> k" "k < ?T" for k
      using that run dT rel_blk_free [OF rel that(2)] by (simp add: run_free_def)
    moreover from this [of "?T - 1"] have "\<not> owns A (?T - 1)" and "0 < ?T"
      using False dT by auto
    ultimately show ?thesis using False dT d(2) by (auto intro!: exI [of _ "?T - d"])
  qed
qed

text \<open>The number of blocks \<open>heap_malloc\<close> asks for.\<close>

definition blocks_for :: "u32 \<Rightarrow> nat" where
  "blocks_for sz = unat (heap_align_value_to_upper sz div MAEROS_HEAP_BLOCK_SIZE)"

lemma heap_malloc_fits:
  assumes rel: "heap_rel h m A" and ok: "heap_ok h" and n: "0 < blocks_for sz"
    and fits: "fits A (heap_blocks h) (blocks_for sz) s"
  defines "f \<equiv> LEAST s. fits A (heap_blocks h) (blocks_for sz) s"
  shows "heap_malloc h sz m =
      (heap_block_to_address h (int f), heap_mark_blocks_taken h (int f) (int (blocks_for sz)) m)"
    and "fits A (heap_blocks h) (blocks_for sz) f"
proof -
  let ?tb = "heap_align_value_to_upper sz div MAEROS_HEAP_BLOCK_SIZE"
  have tb: "unat ?tb = blocks_for sz" by (simp add: blocks_for_def)
  show ff: "fits A (heap_blocks h) (blocks_for sz) f"
    unfolding f_def using fits by (rule LeastI)
  have "heap_get_start_block h ?tb m = int f"
    using start_block_fits [OF rel ok, of ?tb s] n fits by (simp add: tb f_def)
  moreover have "sint ?tb = int (blocks_for sz)"
  proof -
    have "unat ?tb < 2 ^ 31" using ff ok tb by (simp add: fits_def heap_ok_def)
    then show ?thesis by (simp only: sint_small tb)
  qed
  ultimately show "heap_malloc h sz m =
      (heap_block_to_address h (int f), heap_mark_blocks_taken h (int f) (int (blocks_for sz)) m)"
    by (simp add: heap_malloc_def heap_malloc_blocks_def Let_def)
qed

lemma block_address_roundtrip:
  assumes "heap_ok h" and "s < heap_blocks h"
  shows "heap_address_to_block h (heap_block_to_address h (int s)) = int s"
proof -
  have "sint (word_of_int (int s * 4096) :: u32) = int s * 4096"
    using assms by (intro sint_word_of_int) (auto simp: heap_ok_def)
  then show ?thesis
    by (simp add: heap_address_to_block_def heap_block_to_address_def signed_divide_int_def sgn_if)
qed

lemma heap_free_apply:
  assumes rel: "heap_rel h m A" and ok: "heap_ok h" and s: "A s = Some n"
  shows "heap_free h (heap_block_to_address h (int s)) m a =
    (let i = tbl_off (h_table h) a in if s \<le> i \<and> i < s + n then 0 else m a)"
proof -
  have wf: "0 < n" "s + n \<le> heap_blocks h"
    using rel s allocs_wfD [of "heap_blocks h" A s n] by (simp_all add: heap_rel_def)
  have "heap_address_to_block h (heap_block_to_address h (int s)) = int (s + 0)"
    using block_address_roundtrip [OF ok, of s] wf by simp
  moreover have "heap_mark_blocks_free (h_table h) (int (s + 0)) m a =
      (if s + 0 \<le> tbl_off (h_table h) a \<and> tbl_off (h_table h) a < s + n then 0 else m a)"
    using wf ok rel s by (intro mark_blocks_free_apply) (simp_all add: heap_ok_def heap_rel_def)
  ultimately show ?thesis by (simp add: heap_free_def Let_def)
qed

lemma heap_rel_free:
  assumes rel: "heap_rel h m A" and ok: "heap_ok h" and s: "A s = Some n"
  shows "heap_rel h (heap_free h (heap_block_to_address h (int s)) m) (A(s := None))"
proof -
  let ?t = "h_table h" and ?m = "heap_free h (heap_block_to_address h (int s)) m"
  have wf: "allocs_wf (heap_blocks h) A" using rel by (simp add: heap_rel_def)
  have at: "?m (entry_addr ?t (int i)) = (if s \<le> i \<and> i < s + n then 0 else m (entry_addr ?t (int i)))"
    if "i < heap_blocks h" for i
    using that ok by (subst heap_free_apply [OF assms]) (simp add: Let_def heap_ok_def)
  have "?m (entry_addr ?t (int (s' + k))) = entry_code n' k"
    if "(A(s := None)) s' = Some n'" "k < n'" for s' n' k
  proof -
    from that have a: "A s' = Some n'" "s' \<noteq> s" by (auto split: if_splits)
    then have "\<not> (s \<le> s' + k \<and> s' + k < s + n)"
      using owns_same [OF wf s, of "s' + k" s' n'] that(2) by auto
    moreover have "s' + k < heap_blocks h" using allocs_wfD(2) [OF wf a(1)] that(2) by simp
    ultimately show ?thesis using a that(2) rel at [of "s' + k"] by (auto simp: heap_rel_def)
  qed
  moreover have "?m (entry_addr ?t (int i)) = 0" if "i < heap_blocks h" "\<not> owns (A(s := None)) i" for i
    using that rel at [of i] owns_del [OF wf s, of i] by (auto simp: heap_rel_def)
  ultimately show ?thesis using allocs_wf_del [OF wf] by (simp add: heap_rel_def)
qed

lemma heap_create_rel:
  assumes "heap_create h0 p e t m = (0, h, m')"
  shows "heap_rel h m' Map.empty" and "h_saddr h = p" and "h_table h = t"
    and "\<And>a. \<not> in_range (ht_entries t) (heap_blocks h) a \<Longrightarrow> m' a = m a"
proof -
  have h: "h = \<lparr>h_table = t, h_saddr = p\<rparr>"
    and m': "m' = mem_write m (ht_entries t) (replicate (unat (ht_total t)) 0)"
    using assms by (auto simp: heap_create_def Let_def split: if_splits)
  have len: "length (replicate (unat (ht_total t)) (0 :: u8)) \<le> 2 ^ 32"
    using unat_less32 [of "ht_total t"] by simp
  have at: "m' a = (if in_range (ht_entries t) (unat (ht_total t)) a then 0 else m a)" for a
    unfolding m' using mem_write_apply [OF len, of m "ht_entries t" a] by (simp add: in_range_def)
  have "in_range (ht_entries t) (unat (ht_total t)) (entry_addr t (int i))" if "i < unat (ht_total t)" for i
    using that unat_less32 [of "ht_total t"] in_range_offset [of i] by (simp add: entry_addr_def)
  then show "heap_rel h m' Map.empty"
    by (simp add: heap_rel_def allocs_wf_def h at)
  show "h_saddr h = p" and "h_table h = t"
    and "\<And>a. \<not> in_range (ht_entries t) (heap_blocks h) a \<Longrightarrow> m' a = m a"
    by (simp_all add: h at)
qed

section \<open>Sizes\<close>

lemma align_upper_mod:
  "sz mod 4096 = 0 \<longleftrightarrow> unat sz mod 4096 = 0" for sz :: u32
  by (simp add: word_unat_eq_iff unat_mod)

lemma align_upper_div:
  assumes "unat sz = 4096 * q + r" and "0 < r" and "r < 4096"
  shows "heap_align_value_to_upper sz = of_nat (4096 * (q + 1))"
proof -
  have r: "unat sz mod 4096 = r" using assms by simp
  then have "sz mod 4096 \<noteq> 0" using assms(2) align_upper_mod [of sz] by simp
  moreover have "sz = of_nat (4096 * q + r)" using assms(1) of_nat_eq_unat [of "4096 * q + r" sz] unat_less32 [of sz] by simp
  moreover have "sz mod 4096 = of_nat r" using r assms(3) by (simp add: word_unat_eq_iff unat_mod unat_of_nat)
  ultimately show ?thesis by (simp add: heap_align_value_to_upper_def algebra_simps)
qed

lemma blocks_for_ceil:
  assumes "unat sz \<le> 0xFFFFF000"
  shows "blocks_for sz = (unat sz + 4095) div 4096"
proof -
  define q r where "q = unat sz div 4096" and "r = unat sz mod 4096"
  have n: "unat sz = 4096 * q + r" "r < 4096" by (simp_all add: q_def r_def)
  show ?thesis
  proof (cases "r = 0")
    case True
    then have "heap_align_value_to_upper sz = sz"
      using align_upper_mod [of sz] by (simp add: heap_align_value_to_upper_def r_def)
    with n True show ?thesis by (simp add: blocks_for_def unat_div)
  next
    case False
    then have "q < 1048575" using assms n by linarith
    moreover have "heap_align_value_to_upper sz = of_nat (4096 * (q + 1))"
      using align_upper_div [OF n(1)] False n(2) by simp
    ultimately have "unat (heap_align_value_to_upper sz) = 4096 * (q + 1)"
      by (simp only: unat_of_nat) simp
    then have "blocks_for sz = q + 1"
      by (simp add: blocks_for_def unat_div)
    moreover have "(unat sz + 4095) div 4096 = q + 1" using n False by simp
    ultimately show ?thesis by simp
  qed
qed

lemma blocks_for_wrap:
  assumes "0xFFFFF000 < unat sz"
  shows "blocks_for sz = 0"
proof -
  have n: "unat sz = 4096 * 1048575 + (unat sz - 0xFFFFF000)" using assms by simp
  have "heap_align_value_to_upper sz = of_nat (4096 * (1048575 + 1))"
    using align_upper_div [OF n] assms unat_less32 [of sz] by simp
  then show ?thesis by (simp add: blocks_for_def)
qed

lemma blocks_for_less: "blocks_for sz < 2 ^ 31"
  using blocks_for_ceil [of sz] blocks_for_wrap [of sz] unat_less32 [of sz]
  by (cases "unat sz \<le> 0xFFFFF000") (simp_all add: div_less_iff_less_mult)

section \<open>Properties\<close>

text \<open>
  C5. Allocation. If some run of \<open>blocks_for sz\<close> blocks is free, \<open>heap_malloc\<close> returns the address
  of the first such run, the table afterwards encodes exactly the old allocations plus this one,
  and no byte of memory outside the table entries of the run changes.
\<close>

theorem heap_malloc_refines:
  assumes "heap_rel h m A" and "heap_ok h" and "0 < blocks_for sz"
    and "fits A (heap_blocks h) (blocks_for sz) s"
  shows "\<exists>f m'. heap_malloc h sz m = (heap_block_to_address h (int f), m') \<and>
    fits A (heap_blocks h) (blocks_for sz) f \<and> (\<forall>g < f. \<not> fits A (heap_blocks h) (blocks_for sz) g) \<and>
    heap_rel h m' (A(f \<mapsto> blocks_for sz)) \<and>
    (\<forall>a. \<not> (f \<le> tbl_off (h_table h) a \<and> tbl_off (h_table h) a < f + blocks_for sz) \<longrightarrow> m' a = m a)"
proof -
  define f where "f = (LEAST s. fits A (heap_blocks h) (blocks_for sz) s)"
  let ?m = "heap_mark_blocks_taken h (int f) (int (blocks_for sz)) m"
  note F = heap_malloc_fits [OF assms, folded f_def]
  have "f + blocks_for sz < 2 ^ 31" using F(2) assms(2) by (simp add: fits_def heap_ok_def)
  then have "\<forall>a. \<not> (f \<le> tbl_off (h_table h) a \<and> tbl_off (h_table h) a < f + blocks_for sz) \<longrightarrow> ?m a = m a"
    using assms(3) by (simp add: mark_blocks_taken_apply Let_def)
  moreover have "\<forall>g < f. \<not> fits A (heap_blocks h) (blocks_for sz) g"
    unfolding f_def by (metis not_less_Least)
  ultimately show ?thesis
    using F heap_rel_malloc_blocks [OF assms(1,2) F(2) assms(3)] by blast
qed

definition demo_heap :: heap where
  "demo_heap = \<lparr>h_table = \<lparr>ht_entries = 0x7E00, ht_total = 4\<rparr>, h_saddr = 0x01000000\<rparr>"

lemma demo_heap_rel: "heap_rel demo_heap (\<lambda>_. 0) Map.empty"
  by (simp add: heap_rel_def allocs_wf_def)

lemma demo_heap_simps [simp]:
  "heap_ok demo_heap" "heap_blocks demo_heap = 4"
  by (simp_all add: heap_ok_def demo_heap_def)

lemma demo_fits: "fits Map.empty 4 2 0"
  by (simp add: fits_def owns_def)

theorem heap_malloc_refines_witness:
  "\<exists>f m'. heap_malloc demo_heap 5000 (\<lambda>_. 0) = (heap_block_to_address demo_heap (int f), m') \<and>
     heap_rel demo_heap m' [f \<mapsto> 2]"
proof -
  have b: "blocks_for 5000 = 2" by (simp add: blocks_for_ceil)
  show ?thesis
    using heap_malloc_refines [OF demo_heap_rel, of 5000 0] demo_fits by (auto simp: b)
qed

text \<open>
  C6. Release. Freeing the address of a live allocation removes exactly that allocation from
  the table and changes no byte of memory outside its entries.
\<close>

theorem heap_free_refines:
  assumes "heap_rel h m A" and "heap_ok h" and "A s = Some n"
  shows "heap_rel h (heap_free h (heap_block_to_address h (int s)) m) (A(s := None)) \<and>
    (\<forall>a. \<not> (s \<le> tbl_off (h_table h) a \<and> tbl_off (h_table h) a < s + n) \<longrightarrow>
       heap_free h (heap_block_to_address h (int s)) m a = m a)"
  using heap_rel_free [OF assms] by (simp add: heap_free_apply [OF assms] Let_def)

lemma demo_heap_taken:
  "heap_rel demo_heap (heap_mark_blocks_taken demo_heap 0 2 (\<lambda>_. 0)) [0 \<mapsto> 2]"
  using heap_rel_malloc_blocks [OF demo_heap_rel, of 2 0] demo_fits by simp

theorem heap_free_refines_witness:
  "heap_rel demo_heap (heap_free demo_heap 0x01000000
     (heap_mark_blocks_taken demo_heap 0 2 (\<lambda>_. 0))) Map.empty"
  using heap_free_refines [OF demo_heap_taken, of 0 2]
  by (simp add: heap_block_to_address_def) (simp add: demo_heap_def)

text \<open>
  C29. Freeing what was just allocated restores the memory, byte for byte.
\<close>

theorem heap_malloc_free_roundtrip:
  assumes "heap_rel h m A" and "heap_ok h" and "0 < blocks_for sz"
    and "fits A (heap_blocks h) (blocks_for sz) s" and "heap_malloc h sz m = (p, m')"
  shows "heap_free h p m' = m"
proof
  fix a
  define f where "f = (LEAST s. fits A (heap_blocks h) (blocks_for sz) s)"
  let ?t = "h_table h"
  note F = heap_malloc_fits [OF assms(1-4), folded f_def]
  have bound: "f + blocks_for sz \<le> heap_blocks h" "heap_blocks h < 2 ^ 31"
    using F(2) assms(2) by (simp_all add: fits_def heap_ok_def)
  have p: "p = heap_block_to_address h (int f)"
    and m': "m' = heap_mark_blocks_taken h (int f) (int (blocks_for sz)) m"
    using assms(5) F(1) by simp_all
  have rel: "heap_rel h m' (A(f \<mapsto> blocks_for sz))"
    unfolding m' using assms(1,2) F(2) assms(3) by (rule heap_rel_malloc_blocks)
  have "m a = 0" if "f \<le> tbl_off ?t a" "tbl_off ?t a < f + blocks_for sz"
  proof -
    have "a = entry_addr ?t (int (tbl_off ?t a))" using that bound by (subst entry_addr_eq) auto
    moreover have "\<not> owns A (tbl_off ?t a)" using fits_not_owned [OF F(2)] that by blast
    ultimately show ?thesis using assms(1) that bound by (metis heap_rel_def less_le_trans)
  qed
  then show "heap_free h p m' a = m a"
    using heap_free_apply [OF rel assms(2), of f "blocks_for sz" a] bound assms(3)
    by (auto simp: p Let_def m' mark_blocks_taken_apply)
qed

theorem heap_malloc_free_roundtrip_witness:
  "heap_free demo_heap (fst (heap_malloc demo_heap 5000 (\<lambda>_. 0))) (snd (heap_malloc demo_heap 5000 (\<lambda>_. 0)))
     = (\<lambda>_. 0)"
proof -
  have b: "blocks_for 5000 = 2" by (simp add: blocks_for_ceil)
  show ?thesis
    using demo_fits
    by (intro heap_malloc_free_roundtrip [OF demo_heap_rel, of 5000 0]) (simp_all add: b)
qed

text \<open>
  C30. Exhaustion. When no run is long enough, \<open>heap_malloc\<close> returns null and leaves memory alone
  only if the last block of the heap is taken. If the last block is free, the search ends with
  \<open>block_start\<close> still set: the function returns a block near the end, and marks entries past the
  end of the table.
\<close>

theorem heap_malloc_exhausted:
  assumes "heap_rel h m A" and "heap_ok h" and "0 < blocks_for sz" and "0 < heap_blocks h"
    and "\<And>s. \<not> fits A (heap_blocks h) (blocks_for sz) s"
  shows "(owns A (heap_blocks h - 1) \<longrightarrow> heap_malloc h sz m = (0, m)) \<and>
    (\<not> owns A (heap_blocks h - 1) \<longrightarrow>
       (\<exists>s m'. heap_malloc h sz m = (heap_block_to_address h (int s), m') \<and>
          s < heap_blocks h \<and> heap_blocks h < s + blocks_for sz \<and>
          m' (entry_addr (h_table h) (int (heap_blocks h))) = entry_code (blocks_for sz) (heap_blocks h - s)))"
proof -
  let ?tb = "heap_align_value_to_upper sz div MAEROS_HEAP_BLOCK_SIZE"
  have tb: "unat ?tb = blocks_for sz" by (simp add: blocks_for_def)
  have sn: "sint ?tb = int (blocks_for sz)"
    using sint_small [of ?tb] blocks_for_less [of sz] unfolding tb by simp
  have S: "if 0 < heap_blocks h \<and> \<not> owns A (heap_blocks h - 1)
    then \<exists>s. heap_get_start_block h ?tb m = int s \<and> s < heap_blocks h \<and> heap_blocks h < s + blocks_for sz \<and>
           (\<forall>k. s \<le> k \<and> k < heap_blocks h \<longrightarrow> \<not> owns A k)
    else heap_get_start_block h ?tb m = - ENOMEM"
    using start_block_none [OF assms(1,2), of ?tb] assms(3,5) unfolding tb by blast
  show ?thesis
  proof (cases "owns A (heap_blocks h - 1)")
    case True
    with S show ?thesis by (simp add: heap_malloc_def heap_malloc_blocks_def)
  next
    case False
    with S assms(4) obtain s where s: "heap_get_start_block h ?tb m = int s"
      "s < heap_blocks h" "heap_blocks h < s + blocks_for sz" by auto
    have "s + blocks_for sz < 2 ^ 31"
      using s(2) assms(2) blocks_for_ceil [of sz] blocks_for_wrap [of sz] unat_less32 [of sz]
      by (cases "unat sz \<le> 0xFFFFF000") (simp_all add: heap_ok_def)
    moreover have "tbl_off (h_table h) (entry_addr (h_table h) (int (heap_blocks h))) = heap_blocks h"
      by (rule tbl_off_entry) (rule unat_less32)
    ultimately have "heap_mark_blocks_taken h (int s) (int (blocks_for sz)) m
        (entry_addr (h_table h) (int (heap_blocks h))) = entry_code (blocks_for sz) (heap_blocks h - s)"
      using s assms(3) by (simp only: mark_blocks_taken_apply Let_def) simp
    moreover have "heap_malloc h sz m =
        (heap_block_to_address h (int s), heap_mark_blocks_taken h (int s) (int (blocks_for sz)) m)"
      using s(1) sn by (simp add: heap_malloc_def heap_malloc_blocks_def Let_def)
    ultimately show ?thesis using s False by blast
  qed
qed

theorem heap_malloc_exhausted_witness:
  "\<exists>s m'. heap_malloc demo_heap 20480 (\<lambda>_. 0) = (heap_block_to_address demo_heap (int s), m') \<and>
     s < 4 \<and> 4 < s + 5"
proof -
  have b: "blocks_for 20480 = 5" by (simp add: blocks_for_ceil)
  have "\<not> owns Map.empty 3" by (simp add: owns_def)
  then show ?thesis
    using heap_malloc_exhausted [OF demo_heap_rel, of 20480] by (auto simp: b fits_def)
qed

text \<open>
  Rounding. Up to 0xFFFFF000 bytes \<open>heap_malloc\<close> asks for the least number of blocks that
  holds the request; above that \<open>heap_align_value_to_upper\<close> wraps around to zero and no block
  is asked for at all.
\<close>

lemma heap_align_blocks:
  "blocks_for sz = (if unat sz \<le> 0xFFFFF000 then (unat sz + 4095) div 4096 else 0)"
  by (simp add: blocks_for_ceil blocks_for_wrap)

end
