(* ===== verification/C_Memory.thy ===== *)
theory C_Memory
  imports Maeros_Prelude
begin

text \<open>
  \<open>memset\<close>, \<open>memcmp\<close> and \<open>memcpy\<close> of \<open>src/src/memory/memory.c\<close>. \<open>memset\<close> and \<open>memcpy\<close> change physical
  memory; \<open>memcmp\<close> reads two objects, given as the list of the bytes from its argument to the end
  of the object.
\<close>

section \<open>memory.c\<close>

text \<open>The index is compared with the unsigned size, so the loop runs \<open>size\<close> times.\<close>

function memset_loop :: "u32 \<Rightarrow> u8 \<Rightarrow> u32 \<Rightarrow> nat \<Rightarrow> mem \<Rightarrow> mem" where
  "memset_loop ptr c sz i m =
     (if i < unat sz then memset_loop ptr c sz (Suc i) (m(ptr + of_nat i := c)) else m)"
  by pat_completeness auto
termination
  by (relation "measure (\<lambda>(ptr, c, sz, i, m). unat sz - i)") auto

declare memset_loop.simps [simp del]

definition memset :: "u32 \<Rightarrow> int \<Rightarrow> u32 \<Rightarrow> mem \<Rightarrow> mem" where
  "memset ptr c sz m = memset_loop ptr (word_of_int c) sz 0 m"

text \<open>\<open>Fault\<close> is a read past the end of one of the objects; bytes compare as signed \<open>char\<close>.\<close>

fun memcmp_loop :: "nat \<Rightarrow> u8 list \<Rightarrow> u8 list \<Rightarrow> int exec" where
  "memcmp_loop 0 c1 c2 = Ret 0"
| "memcmp_loop (Suc count) (x # c1) (y # c2) =
     (if x \<noteq> y then Ret (if sint x < sint y then -1 else 1) else memcmp_loop count c1 c2)"
| "memcmp_loop (Suc count) _ _ = Trap Fault"

definition memcmp :: "u8 list \<Rightarrow> u8 list \<Rightarrow> int \<Rightarrow> int exec" where
  "memcmp s1 s2 count = memcmp_loop (nat count) s1 s2"

text \<open>\<open>while (len--)\<close> ends when \<open>len\<close> is zero, so a negative length counts down through 2^32.\<close>

fun memcpy_loop :: "nat \<Rightarrow> u32 \<Rightarrow> u32 \<Rightarrow> mem \<Rightarrow> mem" where
  "memcpy_loop 0 d s m = m"
| "memcpy_loop (Suc len) d s m = memcpy_loop len (d + 1) (s + 1) (m(d := m s))"

definition memcpy :: "u32 \<Rightarrow> u32 \<Rightarrow> int \<Rightarrow> mem \<Rightarrow> mem" where
  "memcpy dest src len m = memcpy_loop (unat (word_of_int len :: u32)) dest src m"

section \<open>Behaviour\<close>

lemma memset_loop_apply:
  "i \<le> unat sz \<Longrightarrow> memset_loop ptr c sz i m a =
    (if i \<le> unat (a - ptr) \<and> unat (a - ptr) < unat sz then c else m a)"
proof (induction "unat sz - i" arbitrary: i m)
  case 0
  then show ?case by (auto simp: memset_loop.simps)
next
  case (Suc k)
  then have i: "i < unat sz" by simp
  have eq: "a = ptr + of_nat i \<longleftrightarrow> unat (a - ptr) = i"
    using i unat_less32 [of sz] by (auto simp: unat_of_nat)
  have "memset_loop ptr c sz i m a = memset_loop ptr c sz (Suc i) (m(ptr + of_nat i := c)) a"
    using i by (subst memset_loop.simps) simp
  also have "\<dots> = (if Suc i \<le> unat (a - ptr) \<and> unat (a - ptr) < unat sz then c
      else (m(ptr + of_nat i := c)) a)"
    using Suc i by (intro Suc.hyps(1)) simp_all
  finally show ?case using eq i by auto
qed

lemma memset_apply [mem_simps]:
  "memset ptr c sz m a = (if in_range ptr (unat sz) a then word_of_int c else m a)"
  by (simp add: memset_def memset_loop_apply in_range_def)

lemma memcmp_loop_zero:
  "n \<le> length xs \<Longrightarrow> n \<le> length ys \<Longrightarrow> memcmp_loop n xs ys = Ret 0 \<longleftrightarrow> take n xs = take n ys"
  by (induction n xs ys rule: memcmp_loop.induct) auto

lemma memcmp_loop_ret:
  "n \<le> length xs \<Longrightarrow> n \<le> length ys \<Longrightarrow> \<exists>r \<in> {-1, 0, 1}. memcmp_loop n xs ys = Ret r"
  by (induction n xs ys rule: memcmp_loop.induct) auto

lemma memcpy_loop_frame: "\<not> in_range d n a \<Longrightarrow> memcpy_loop n d s m a = m a"
proof (induction n arbitrary: d s m)
  case 0
  then show ?case by simp
next
  case (Suc n)
  then have "a \<noteq> d" and "\<not> in_range (d + 1) n a" by (auto simp: in_range_Suc)
  with Suc.IH show ?case by simp
qed

text \<open>Forward copying is right when no destination byte is a later source byte.\<close>

lemma memcpy_loop_copies:
  assumes "n < 2 ^ 32" and "\<And>i j. i < j \<Longrightarrow> j < n \<Longrightarrow> d + of_nat i \<noteq> s + of_nat j" and "i < n"
  shows "memcpy_loop n d s m (d + of_nat i) = m (s + of_nat i)"
  using assms
proof (induction n arbitrary: d s m i)
  case 0
  then show ?case by simp
next
  case (Suc n)
  let ?m = "m(d := m s)"
  show ?case
  proof (cases i)
    case 0
    have "\<not> in_range (d + 1) n d" using Suc.prems(1) by (auto dest: in_range_self)
    with 0 show ?thesis by (simp add: memcpy_loop_frame)
  next
    case (Suc k)
    have "d + 1 + of_nat i' \<noteq> s + 1 + of_nat j'" if "i' < j'" "j' < n" for i' j'
      using Suc.prems(2) [of "Suc i'" "Suc j'"] that by (simp add: add.assoc)
    then have "memcpy_loop n (d + 1) (s + 1) ?m (d + 1 + of_nat k) = ?m (s + 1 + of_nat k)"
      using Suc.prems(1,3) Suc by (intro Suc.IH) simp_all
    moreover have "s + 1 + of_nat k \<noteq> d"
      using Suc.prems(2) [of 0 i] Suc.prems(3) Suc by (auto simp: ac_simps)
    ultimately show ?thesis using Suc by (simp add: add.assoc add.commute add.left_commute)
  qed
qed

end
