(* ===== verification/KHeap.thy ===== *)
theory KHeap
  imports Kernel_Heap C_Memory
begin

text \<open>
  The kernel heap of \<open>src/src/memory/heap/kheap.c\<close>: the global heap, its initialisation from the
  constants of \<open>config.h\<close>, and \<open>kmalloc\<close>, \<open>kzalloc\<close> and \<open>kfree\<close>. The state is physical memory
  and the global \<open>kernel_heap\<close>; later components extend the record with their own globals. The
  interface the rest of the kernel relies on is the locale \<open>page_allocator\<close>, which is interpreted
  on these operations.
\<close>

section \<open>kheap.c\<close>

record machine =
  pmem :: mem
  kernel_heap :: heap

text \<open>\<open>kheap_init\<close> returns the message it prints, if any.\<close>

definition kheap_init :: "'a machine_scheme \<Rightarrow> string \<times> 'a machine_scheme" where
  "kheap_init st =
     (let total_table_entries = MAEROS_HEAP_SIZE_BYTES div MAEROS_HEAP_BLOCK_SIZE;
          kernel_heap_table = \<lparr>ht_entries = MAEROS_HEAP_TABLE_ADDRESS, ht_total = total_table_entries\<rparr>;
          end_ptr = MAEROS_HEAP_ADDRESS + MAEROS_HEAP_SIZE_BYTES;
          (res, h, m) = heap_create (kernel_heap st) MAEROS_HEAP_ADDRESS end_ptr kernel_heap_table (pmem st)
      in (if res < 0 then ''Failed to create heap'' else '''', st\<lparr>pmem := m, kernel_heap := h\<rparr>))"

definition kmalloc :: "u32 \<Rightarrow> 'a machine_scheme \<Rightarrow> u32 \<times> 'a machine_scheme" where
  "kmalloc sz st = (let (p, m) = heap_malloc (kernel_heap st) sz (pmem st) in (p, st\<lparr>pmem := m\<rparr>))"

definition kzalloc :: "u32 \<Rightarrow> 'a machine_scheme \<Rightarrow> u32 \<times> 'a machine_scheme" where
  "kzalloc sz st =
     (let (ptr, st) = kmalloc sz st
      in if ptr = 0 then (0, st) else (ptr, st\<lparr>pmem := memset ptr 0 sz (pmem st)\<rparr>))"

definition kfree :: "u32 \<Rightarrow> 'a machine_scheme \<Rightarrow> 'a machine_scheme" where
  "kfree ptr st = st\<lparr>pmem := heap_free (kernel_heap st) ptr (pmem st)\<rparr>"

section \<open>Layout\<close>

abbreviation KBLOCKS :: nat where
  "KBLOCKS \<equiv> 25600"

definition kernel_heap_value :: heap where
  "kernel_heap_value = \<lparr>h_table = \<lparr>ht_entries = MAEROS_HEAP_TABLE_ADDRESS, ht_total = 25600\<rparr>,
     h_saddr = MAEROS_HEAP_ADDRESS\<rparr>"

lemma kernel_heap_value_simps [simp]:
  "heap_blocks kernel_heap_value = KBLOCKS" "heap_ok kernel_heap_value"
  "h_saddr kernel_heap_value = 0x01000000" "ht_entries (h_table kernel_heap_value) = 0x7E00"
  by (simp_all add: kernel_heap_value_def heap_ok_def)

definition kblock :: "nat \<Rightarrow> u32" where
  "kblock b = 0x01000000 + of_nat (b * 4096)"

lemma kblock_address: "heap_block_to_address kernel_heap_value (int b) = kblock b"
  by (simp add: heap_block_to_address_def kblock_def)

lemma unat_kblock: "b \<le> KBLOCKS \<Longrightarrow> unat (kblock b) = 0x01000000 + b * 4096"
  by (simp add: kblock_def unat_word_ariths unat_of_nat)

lemma kblock_inj:
  assumes "b < KBLOCKS" and "c < KBLOCKS"
  shows "kblock b = kblock c \<longleftrightarrow> b = c"
proof
  assume "kblock b = kblock c"
  then have "0x01000000 + b * 4096 = 0x01000000 + c * 4096"
    using unat_kblock [of b] unat_kblock [of c] assms by (simp only: less_imp_le)
  then show "b = c" by simp
qed simp

lemma kblock_nonzero [simp]:
  assumes "b < KBLOCKS"
  shows "kblock b \<noteq> 0"
proof -
  have "unat (kblock b) \<noteq> 0" using unat_kblock [of b] assms by simp
  then show ?thesis by (simp only: unat_eq_zero simp_thms)
qed

text \<open>The data area, and the part of it that a run of blocks occupies.\<close>

definition in_data :: "u32 \<Rightarrow> bool" where
  "in_data a \<longleftrightarrow> 0x01000000 \<le> unat a \<and> unat a < 0x01000000 + KBLOCKS * 4096"

definition in_blocks :: "nat \<Rightarrow> nat \<Rightarrow> u32 \<Rightarrow> bool" where
  "in_blocks b n a \<longleftrightarrow> 0x01000000 + b * 4096 \<le> unat a \<and> unat a < 0x01000000 + (b + n) * 4096"

lemma in_blocks_data: "b + n \<le> KBLOCKS \<Longrightarrow> in_blocks b n a \<Longrightarrow> in_data a"
  by (simp add: in_blocks_def in_data_def)

lemma in_blocks_disjoint:
  "b + n \<le> c \<or> c + k \<le> b \<Longrightarrow> in_blocks b n a \<Longrightarrow> \<not> in_blocks c k a"
  by (auto simp: in_blocks_def)

definition in_block :: "nat \<Rightarrow> u32 \<Rightarrow> bool" where
  "in_block b a \<longleftrightarrow> 0x01000000 + b * 4096 \<le> unat a \<and> unat a < 0x01000000 + b * 4096 + 4096"

lemma in_blocks_one: "in_blocks b 1 a \<longleftrightarrow> in_block b a" "in_blocks b (Suc 0) a \<longleftrightarrow> in_block b a"
  by (auto simp: in_blocks_def in_block_def)

lemma unat_diff_ge: "unat (p :: u32) \<le> unat a \<Longrightarrow> unat (a - p) = unat a - unat p"
  by (simp add: unat_sub word_le_nat_alt)

lemma in_range_nowrap:
  assumes "unat p + n \<le> 2 ^ 32"
  shows "in_range p n a \<longleftrightarrow> unat p \<le> unat a \<and> unat a < unat p + n"
proof (cases "unat p \<le> unat a")
  case True
  then show ?thesis by (auto simp: in_range_def unat_diff_ge)
next
  case False
  then have "unat (a - p) = unat a + 2 ^ 32 - unat p"
    using unat_less32 [of p] by (simp add: unat_sub_if' word_le_nat_alt)
  with False assms show ?thesis by (simp add: in_range_def)
qed

lemma in_range_blocks:
  assumes "b + n \<le> KBLOCKS" and "k \<le> n * 4096" and "in_range (kblock b) k a"
  shows "in_blocks b n a"
  using assms in_range_nowrap [of "kblock b" k a] unat_kblock [of b]
  by (auto simp: in_blocks_def)

lemma in_data_not_table:
  assumes "in_data a"
  shows "\<not> tbl_off (h_table kernel_heap_value) a < KBLOCKS"
proof -
  have "unat (a - 0x7E00) = unat a - 0x7E00"
    using assms by (subst unat_diff_ge) (simp_all add: in_data_def)
  moreover have "16777216 \<le> unat a" using assms by (simp add: in_data_def)
  ultimately show ?thesis unfolding tbl_off_def kernel_heap_value_simps by linarith
qed

section \<open>The invariant of the kernel heap\<close>

definition kheap_rel :: "'a machine_scheme \<Rightarrow> allocs \<Rightarrow> bool" where
  "kheap_rel st A \<longleftrightarrow> kernel_heap st = kernel_heap_value \<and> heap_rel kernel_heap_value (pmem st) A"

lemma heap_rel_cong:
  assumes "heap_rel h m A" and "heap_ok h"
    and "\<And>a. tbl_off (h_table h) a < heap_blocks h \<Longrightarrow> m' a = m a"
  shows "heap_rel h m' A"
proof -
  have "m' (entry_addr (h_table h) (int i)) = m (entry_addr (h_table h) (int i))" if "i < heap_blocks h" for i
    using that assms(2) by (intro assms(3)) (simp add: heap_ok_def)
  moreover have "s + k < heap_blocks h" if "A s = Some n" "k < n" for s n k
    using that assms(1) by (auto simp: heap_rel_def dest: allocs_wfD(2))
  ultimately show ?thesis using assms(1) unfolding heap_rel_def by (simp del: of_nat_add)
qed

lemma kheap_rel_upd:
  assumes "kheap_rel st A" and "\<And>a. \<not> in_data a \<Longrightarrow> m a = pmem st a"
  shows "kheap_rel (st\<lparr>pmem := m\<rparr>) A"
proof -
  have "heap_rel kernel_heap_value m A"
  proof (rule heap_rel_cong)
    show "heap_rel kernel_heap_value (pmem st) A" using assms(1) by (simp add: kheap_rel_def)
    show "m a = pmem st a" if "tbl_off (h_table kernel_heap_value) a < heap_blocks kernel_heap_value" for a
      by (rule assms(2)) (use that in_data_not_table [of a] in auto)
  qed simp
  with assms(1) show ?thesis by (simp add: kheap_rel_def)
qed

lemma kmalloc_run:
  assumes rel: "kheap_rel st A" and n: "0 < blocks_for sz" and f: "fits A KBLOCKS (blocks_for sz) s"
  shows "\<exists>b m. kmalloc sz st = (kblock b, st\<lparr>pmem := m\<rparr>) \<and> fits A KBLOCKS (blocks_for sz) b \<and>
    kheap_rel (st\<lparr>pmem := m\<rparr>) (A(b \<mapsto> blocks_for sz)) \<and>
    (\<forall>a. KBLOCKS \<le> tbl_off (h_table kernel_heap_value) a \<longrightarrow> m a = pmem st a)"
proof -
  let ?h = kernel_heap_value
  have H: "kernel_heap st = ?h" "heap_rel ?h (pmem st) A" using rel by (simp_all add: kheap_rel_def)
  define b where "b = (LEAST s. fits A KBLOCKS (blocks_for sz) s)"
  have F: "heap_malloc ?h sz (pmem st) = (kblock b, heap_mark_blocks_taken ?h (int b) (int (blocks_for sz)) (pmem st))"
      "fits A KBLOCKS (blocks_for sz) b"
    using heap_malloc_fits [OF H(2) _ n, of s] f by (simp_all add: b_def kblock_address)
  have R: "heap_rel ?h (heap_mark_blocks_taken ?h (int b) (int (blocks_for sz)) (pmem st)) (A(b \<mapsto> blocks_for sz))"
    using F(2) by (intro heap_rel_malloc_blocks [OF H(2) _ _ n]) simp_all
  have bound: "b + blocks_for sz \<le> KBLOCKS" using F(2) by (simp add: fits_def)
  show ?thesis
    by (rule exI [of _ b], rule exI [of _ "heap_mark_blocks_taken ?h (int b) (int (blocks_for sz)) (pmem st)"])
      (use F R H n bound in \<open>auto simp: kmalloc_def kheap_rel_def mark_blocks_taken_apply Let_def\<close>)
qed

lemma in_data_off: "in_data a \<Longrightarrow> KBLOCKS \<le> tbl_off (h_table kernel_heap_value) a"
  using in_data_not_table [of a] by simp

lemma kheap_rel_wf: "kheap_rel st A \<Longrightarrow> allocs_wf KBLOCKS A"
  by (simp add: kheap_rel_def heap_rel_def)

lemma kfree_run:
  assumes rel: "kheap_rel st A" and b: "A b = Some n"
  shows "kheap_rel (kfree (kblock b) st) (A(b := None))"
    and "in_data a \<Longrightarrow> pmem (kfree (kblock b) st) a = pmem st a"
proof -
  let ?h = kernel_heap_value
  have H: "kernel_heap st = ?h" "heap_rel ?h (pmem st) A" using rel by (simp_all add: kheap_rel_def)
  have m: "pmem (kfree (kblock b) st) = heap_free ?h (heap_block_to_address ?h (int b)) (pmem st)"
    by (simp add: kfree_def H(1) kblock_address)
  show "kheap_rel (kfree (kblock b) st) (A(b := None))"
    using heap_rel_free [OF H(2) _ b] H(1) m by (simp add: kheap_rel_def kfree_def)
  show "pmem (kfree (kblock b) st) a = pmem st a" if "in_data a"
    using in_data_off [OF that] allocs_wfD(2) [OF kheap_rel_wf [OF rel] b]
    unfolding m by (subst heap_free_apply [OF H(2) _ b]) (auto simp: Let_def)
qed

lemma kfree_frame:
  assumes rel: "kheap_rel st A" and b: "A b = Some n" and "KBLOCKS \<le> tbl_off (h_table kernel_heap_value) a"
  shows "pmem (kfree (kblock b) st) a = pmem st a"
proof -
  let ?h = kernel_heap_value
  have H: "kernel_heap st = ?h" "heap_rel ?h (pmem st) A" using rel by (simp_all add: kheap_rel_def)
  have m: "pmem (kfree (kblock b) st) = heap_free ?h (heap_block_to_address ?h (int b)) (pmem st)"
    by (simp add: kfree_def H(1) kblock_address)
  show ?thesis
    using assms(3) allocs_wfD(2) [OF kheap_rel_wf [OF rel] b]
    unfolding m by (subst heap_free_apply [OF H(2) _ b]) (auto simp: Let_def)
qed

lemma blocks_for_bytes:
  assumes "0 < blocks_for sz"
  shows "unat sz \<le> blocks_for sz * 4096"
proof -
  have "unat sz \<le> 0xFFFFF000" using assms blocks_for_wrap [of sz] by (cases "unat sz \<le> 0xFFFFF000") simp_all
  then have "blocks_for sz = (unat sz + 4095) div 4096" by (rule blocks_for_ceil)
  then show ?thesis by simp
qed

lemma kzalloc_run:
  assumes rel: "kheap_rel st A" and n: "0 < blocks_for sz" and f: "fits A KBLOCKS (blocks_for sz) s"
  shows "\<exists>b m. kzalloc sz st = (kblock b, st\<lparr>pmem := m\<rparr>) \<and> fits A KBLOCKS (blocks_for sz) b \<and>
    kheap_rel (st\<lparr>pmem := m\<rparr>) (A(b \<mapsto> blocks_for sz)) \<and>
    (\<forall>a. in_range (kblock b) (unat sz) a \<longrightarrow> m a = 0) \<and>
    (\<forall>a. KBLOCKS \<le> tbl_off (h_table kernel_heap_value) a \<longrightarrow> \<not> in_range (kblock b) (unat sz) a \<longrightarrow>
          m a = pmem st a)"
proof -
  obtain b m where K: "kmalloc sz st = (kblock b, st\<lparr>pmem := m\<rparr>)"
    "fits A KBLOCKS (blocks_for sz) b" "kheap_rel (st\<lparr>pmem := m\<rparr>) (A(b \<mapsto> blocks_for sz))"
    "\<And>a. tbl_off (h_table kernel_heap_value) a \<ge> KBLOCKS \<Longrightarrow> m a = pmem st a"
    using kmalloc_run [OF rel n f] by blast
  have bound: "b + blocks_for sz \<le> KBLOCKS" and "b < KBLOCKS" using K(2) n by (auto simp: fits_def)
  let ?m = "memset (kblock b) 0 sz m"
  have "in_data a" if "in_range (kblock b) (unat sz) a" for a
    using in_range_blocks [OF bound blocks_for_bytes [OF n] that] in_blocks_data [OF bound] by blast
  then have "\<not> in_data a \<Longrightarrow> ?m a = pmem (st\<lparr>pmem := m\<rparr>) a" for a
    by (auto simp: memset_apply)
  from kheap_rel_upd [OF K(3) this] have "kheap_rel (st\<lparr>pmem := ?m\<rparr>) (A(b \<mapsto> blocks_for sz))"
    by simp
  moreover have "kzalloc sz st = (kblock b, st\<lparr>pmem := ?m\<rparr>)"
    using \<open>b < KBLOCKS\<close> by (simp add: kzalloc_def K(1))
  ultimately show ?thesis
    using K by (intro exI [of _ b] exI [of _ ?m]) (simp add: memset_apply)
qed

section \<open>Free blocks\<close>

text \<open>The number of free blocks decides whether a request of at most one block is served.\<close>

definition free_blocks :: "allocs \<Rightarrow> nat" where
  "free_blocks A = card {i. i < KBLOCKS \<and> \<not> owns A i}"

lemma blocks_for_one: "0 < unat sz \<Longrightarrow> unat sz \<le> 4096 \<Longrightarrow> blocks_for sz = 1"
  by (simp add: blocks_for_ceil)

lemma free_blocks_fits:
  assumes "0 < free_blocks A"
  shows "\<exists>s. fits A KBLOCKS 1 s"
proof -
  have "{i. i < KBLOCKS \<and> \<not> owns A i} \<noteq> {}"
    using assms unfolding free_blocks_def by (metis card.empty less_irrefl)
  then obtain s where "s < KBLOCKS" "\<not> owns A s" by blast
  then show ?thesis by (intro exI [of _ s]) (auto simp: fits_def le_less_Suc_eq)
qed

lemma free_blocks_one:
  assumes "allocs_wf KBLOCKS A" and "fits A KBLOCKS 1 s"
  shows "free_blocks (A(s \<mapsto> 1)) = free_blocks A - 1"
proof -
  have s: "s < KBLOCKS" "\<not> owns A s" using assms(2) by (simp_all add: fits_def)
  have "{i. i < KBLOCKS \<and> \<not> owns (A(s \<mapsto> 1)) i} = {i. i < KBLOCKS \<and> \<not> owns A i} - {s}"
    using owns_upd [of A s 1] fits_fresh [OF assms] by auto
  with s show ?thesis by (simp add: free_blocks_def card_Diff_singleton)
qed

text \<open>One block through \<open>kzalloc\<close>: only physical memory changes.\<close>

lemma kzalloc_one:
  assumes "kheap_rel st A" and "0 < unat sz" and "unat sz \<le> 4096" and "0 < free_blocks A"
  shows "\<exists>f m. kzalloc sz st = (kblock f, st\<lparr>pmem := m\<rparr>) \<and> A f = None \<and> f < KBLOCKS \<and>
    kheap_rel (st\<lparr>pmem := m\<rparr>) (A(f \<mapsto> 1)) \<and> free_blocks (A(f \<mapsto> 1)) = free_blocks A - 1"
proof -
  have one: "blocks_for sz = 1" using assms(2,3) by (rule blocks_for_one)
  obtain b where b: "fits A KBLOCKS (blocks_for sz) b" using free_blocks_fits [OF assms(4)] unfolding one ..
  then obtain f m where F: "kzalloc sz st = (kblock f, st\<lparr>pmem := m\<rparr>)" "fits A KBLOCKS 1 f"
    "kheap_rel (st\<lparr>pmem := m\<rparr>) (A(f \<mapsto> 1))"
    using kzalloc_run [OF assms(1) _ b] unfolding one by auto
  have "A f = None" using fits_fresh [OF kheap_rel_wf [OF assms(1)] F(2)] by simp
  moreover have "f < KBLOCKS" using F(2) by (simp add: fits_def)
  ultimately show ?thesis
    using F free_blocks_one [OF kheap_rel_wf [OF assms(1)] F(2)] by blast
qed

section \<open>The interface of the allocator\<close>

text \<open>
  What the rest of the kernel relies on, for \<open>kmalloc\<close> and \<open>kzalloc\<close> alike: a request that fits is
  served by free blocks, and neither operation disturbs the bytes of the data area outside the
  blocks it is about.
\<close>

locale page_allocator =
  fixes alloc :: "u32 \<Rightarrow> 's \<Rightarrow> u32 \<times> 's"
    and release :: "u32 \<Rightarrow> 's \<Rightarrow> 's"
    and bytes :: "'s \<Rightarrow> mem"
    and rel :: "'s \<Rightarrow> allocs \<Rightarrow> bool"
  assumes rel_wf: "rel s A \<Longrightarrow> allocs_wf KBLOCKS A"
    and alloc_law: "rel s A \<Longrightarrow> 0 < blocks_for sz \<Longrightarrow> fits A KBLOCKS (blocks_for sz) b \<Longrightarrow>
      \<exists>f s'. alloc sz s = (kblock f, s') \<and> fits A KBLOCKS (blocks_for sz) f \<and>
        rel s' (A(f \<mapsto> blocks_for sz)) \<and>
        (\<forall>a. in_data a \<longrightarrow> \<not> in_blocks f (blocks_for sz) a \<longrightarrow> bytes s' a = bytes s a)"
    and release_law: "rel s A \<Longrightarrow> A b = Some n \<Longrightarrow>
      rel (release (kblock b) s) (A(b := None)) \<and>
      (\<forall>a. in_data a \<longrightarrow> bytes (release (kblock b) s) a = bytes s a)"
begin

text \<open>Two live allocations never share a byte.\<close>

lemma live_disjoint:
  assumes "rel s A" and "A b = Some n" and "A c = Some k" and "b \<noteq> c" and "in_blocks b n a"
  shows "\<not> in_blocks c k a"
proof -
  have "b + n \<le> c \<or> c + k \<le> b"
    using assms(4) allocs_wfD(3) [OF rel_wf [OF assms(1)] assms(2,3)]
      allocs_wfD(3) [OF rel_wf [OF assms(1)] assms(3,2)] by linarith
  then show ?thesis using assms(5) by (rule in_blocks_disjoint)
qed

text \<open>An allocation leaves the contents of every live allocation as they were.\<close>

lemma alloc_keeps_live:
  assumes "rel s A" and "0 < blocks_for sz" and "fits A KBLOCKS (blocks_for sz) b"
    and "A c = Some k" and "in_blocks c k a"
  shows "bytes (snd (alloc sz s)) a = bytes s a"
proof -
  obtain f s' where F: "alloc sz s = (kblock f, s')" "fits A KBLOCKS (blocks_for sz) f"
    "rel s' (A(f \<mapsto> blocks_for sz))"
    "\<And>a. in_data a \<Longrightarrow> \<not> in_blocks f (blocks_for sz) a \<Longrightarrow> bytes s' a = bytes s a"
    using alloc_law [OF assms(1-3)] by blast
  have "A f = None" using fits_fresh [OF rel_wf [OF assms(1)] F(2) assms(2)] .
  with assms(4) have "c \<noteq> f" by auto
  then have "\<not> in_blocks f (blocks_for sz) a"
    using live_disjoint [OF F(3), of c k f "blocks_for sz" a] assms(4,5) by simp
  moreover have "in_data a"
    using in_blocks_data [OF allocs_wfD(2) [OF rel_wf [OF assms(1)] assms(4)] assms(5)] .
  ultimately show ?thesis using F(1,4) by simp
qed

text \<open>As long as a block is free, a request of at most one block is served and takes one.\<close>

lemma alloc_one:
  assumes "rel s A" and "0 < unat sz" and "unat sz \<le> 4096" and "0 < free_blocks A"
  shows "\<exists>f s'. alloc sz s = (kblock f, s') \<and> A f = None \<and> f < KBLOCKS \<and> rel s' (A(f \<mapsto> 1)) \<and>
    free_blocks (A(f \<mapsto> 1)) = free_blocks A - 1 \<and>
    (\<forall>a. in_data a \<longrightarrow> \<not> in_block f a \<longrightarrow> bytes s' a = bytes s a)"
proof -
  have one: "blocks_for sz = 1" using assms(2,3) by (rule blocks_for_one)
  obtain b where "fits A KBLOCKS 1 b" using free_blocks_fits [OF assms(4)] ..
  then obtain f s' where F: "alloc sz s = (kblock f, s')" "fits A KBLOCKS 1 f" "rel s' (A(f \<mapsto> 1))"
    "\<And>a. in_data a \<Longrightarrow> \<not> in_block f a \<Longrightarrow> bytes s' a = bytes s a"
    using alloc_law [OF assms(1), of sz b] unfolding one in_blocks_one by auto
  moreover have "A f = None" using fits_fresh [OF rel_wf [OF assms(1)] F(2)] by simp
  moreover have "free_blocks (A(f \<mapsto> 1)) = free_blocks A - 1"
    using rel_wf [OF assms(1)] F(2) by (rule free_blocks_one)
  moreover have "f < KBLOCKS" using F(2) by (simp add: fits_def)
  ultimately show ?thesis by blast
qed

lemma alloc_release:
  assumes "rel s A" and "0 < blocks_for sz" and "fits A KBLOCKS (blocks_for sz) b"
  shows "rel (release (fst (alloc sz s)) (snd (alloc sz s))) A"
proof -
  obtain f s' where F: "alloc sz s = (kblock f, s')" "fits A KBLOCKS (blocks_for sz) f"
    "rel s' (A(f \<mapsto> blocks_for sz))"
    using alloc_law [OF assms] by blast
  have "A f = None" using fits_fresh [OF rel_wf [OF assms(1)] F(2) assms(2)] .
  then have "A(f \<mapsto> blocks_for sz, f := None) = A" by auto
  with release_law [OF F(3), of f "blocks_for sz"] F(1) show ?thesis by simp
qed

end

interpretation km: page_allocator kmalloc kfree pmem "kheap_rel :: 'a machine_scheme \<Rightarrow> _"
proof
  fix s :: "'a machine_scheme" and A sz b
  assume *: "kheap_rel s A" "0 < blocks_for sz" "fits A KBLOCKS (blocks_for sz) b"
  obtain f m where "kmalloc sz s = (kblock f, s\<lparr>pmem := m\<rparr>)"
    "fits A KBLOCKS (blocks_for sz) f" "kheap_rel (s\<lparr>pmem := m\<rparr>) (A(f \<mapsto> blocks_for sz))"
    "\<And>a. tbl_off (h_table kernel_heap_value) a \<ge> KBLOCKS \<Longrightarrow> m a = pmem s a"
    using kmalloc_run [OF *] by blast
  then show "\<exists>f s'. kmalloc sz s = (kblock f, s') \<and> fits A KBLOCKS (blocks_for sz) f \<and>
      kheap_rel s' (A(f \<mapsto> blocks_for sz)) \<and>
      (\<forall>a. in_data a \<longrightarrow> \<not> in_blocks f (blocks_for sz) a \<longrightarrow> pmem s' a = pmem s a)"
    using in_data_off by (intro exI [of _ f] exI [of _ "s\<lparr>pmem := m\<rparr>"]) auto
qed (auto simp: kheap_rel_wf kfree_run)

interpretation kz: page_allocator kzalloc kfree pmem "kheap_rel :: 'a machine_scheme \<Rightarrow> _"
proof
  fix s :: "'a machine_scheme" and A sz b
  assume *: "kheap_rel s A" "0 < blocks_for sz" "fits A KBLOCKS (blocks_for sz) b"
  obtain f m where F: "kzalloc sz s = (kblock f, s\<lparr>pmem := m\<rparr>)"
    "fits A KBLOCKS (blocks_for sz) f" "kheap_rel (s\<lparr>pmem := m\<rparr>) (A(f \<mapsto> blocks_for sz))"
    "\<And>a. in_range (kblock f) (unat sz) a \<Longrightarrow> m a = 0"
    "\<And>a. KBLOCKS \<le> tbl_off (h_table kernel_heap_value) a \<Longrightarrow> \<not> in_range (kblock f) (unat sz) a \<Longrightarrow>
          m a = pmem s a"
    using kzalloc_run [OF *] by blast
  have "f + blocks_for sz \<le> KBLOCKS" using F(2) by (simp add: fits_def)
  then have "in_range (kblock f) (unat sz) a \<Longrightarrow> in_blocks f (blocks_for sz) a" for a
    using in_range_blocks blocks_for_bytes [OF *(2)] by blast
  with F show "\<exists>f s'. kzalloc sz s = (kblock f, s') \<and> fits A KBLOCKS (blocks_for sz) f \<and>
      kheap_rel s' (A(f \<mapsto> blocks_for sz)) \<and>
      (\<forall>a. in_data a \<longrightarrow> \<not> in_blocks f (blocks_for sz) a \<longrightarrow> pmem s' a = pmem s a)"
    using in_data_off by (intro exI [of _ f] exI [of _ "s\<lparr>pmem := m\<rparr>"]) auto
qed (auto simp: kheap_rel_wf kfree_run)

section \<open>Properties\<close>

lemma kheap_init_run:
  "kheap_init st = ('''', st\<lparr>pmem := mem_write (pmem st) 0x7E00 (replicate KBLOCKS 0),
     kernel_heap := kernel_heap_value\<rparr>)"
  by (simp add: kheap_init_def heap_create_def heap_validate_alignment_def heap_validate_table_def
      kernel_heap_value_def Let_def)

text \<open>
  Start-up. From any state \<open>kheap_init\<close> succeeds: it prints nothing, leaves a heap of 25600 blocks
  with no allocation, and changes no byte of memory outside the block table.
\<close>

lemma kheap_init_empty:
  "fst (kheap_init st) = '''' \<and> kheap_rel (snd (kheap_init st)) Map.empty \<and>
   {a. pmem (snd (kheap_init st)) a \<noteq> pmem st a} \<subseteq> {a. tbl_off (h_table kernel_heap_value) a < KBLOCKS}"
proof -
  have at: "mem_write (pmem st) 0x7E00 (replicate KBLOCKS 0) a =
      (if unat (a - 0x7E00) < KBLOCKS then 0 else pmem st a)" for a
    using mem_write_apply [of "replicate KBLOCKS 0" "pmem st" "0x7E00" a] by (simp add: in_range_def)
  show ?thesis
    by (auto simp: kheap_init_run kheap_rel_def heap_rel_def allocs_wf_def at tbl_off_def entry_addr_def word_small
        split: if_splits)
qed

lemma kzalloc_block:
  assumes "kheap_rel st A" and "0 < unat sz" and "unat sz \<le> 4096" and "0 < free_blocks A"
  shows "\<exists>f m. kzalloc sz st = (kblock f, st\<lparr>pmem := m\<rparr>) \<and> A f = None \<and> f < KBLOCKS \<and>
    kheap_rel (st\<lparr>pmem := m\<rparr>) (A(f \<mapsto> 1)) \<and> free_blocks (A(f \<mapsto> 1)) = free_blocks A - 1 \<and>
    (\<forall>a. in_data a \<longrightarrow> \<not> in_block f a \<longrightarrow> m a = pmem st a)"
proof -
  obtain f s' where F: "kzalloc sz st = (kblock f, s')" "A f = None" "f < KBLOCKS" "kheap_rel s' (A(f \<mapsto> 1))"
    "free_blocks (A(f \<mapsto> 1)) = free_blocks A - 1" "\<forall>a. in_data a \<longrightarrow> \<not> in_block f a \<longrightarrow> pmem s' a = pmem st a"
    using kz.alloc_one [OF assms] by blast
  obtain m where "kzalloc sz st = (kblock f, st\<lparr>pmem := m\<rparr>)" using kzalloc_one [OF assms] F(1) by auto
  then have "s' = st\<lparr>pmem := m\<rparr>" using F(1) by simp
  with F show ?thesis by (intro exI [of _ f] exI [of _ m]) simp
qed

text \<open>
  C31. Zeroed allocation. A request that fits is served by \<open>kzalloc\<close> from free blocks: the bytes asked
  for are zero, the allocations are the old ones plus this one, and no byte of an older live
  allocation changes.
\<close>

theorem kzalloc_fresh_zeroed:
  assumes "kheap_rel st A" and "0 < blocks_for sz" and "fits A KBLOCKS (blocks_for sz) s"
  shows "\<exists>b st'. kzalloc sz st = (kblock b, st') \<and> fits A KBLOCKS (blocks_for sz) b \<and>
    kheap_rel st' (A(b \<mapsto> blocks_for sz)) \<and>
    (\<forall>a. in_range (kblock b) (unat sz) a \<longrightarrow> pmem st' a = 0) \<and>
    (\<forall>c k a. A c = Some k \<longrightarrow> in_blocks c k a \<longrightarrow> pmem st' a = pmem st a)"
proof -
  obtain b m where K: "kzalloc sz st = (kblock b, st\<lparr>pmem := m\<rparr>)" "fits A KBLOCKS (blocks_for sz) b"
    "kheap_rel (st\<lparr>pmem := m\<rparr>) (A(b \<mapsto> blocks_for sz))"
    "\<forall>a. in_range (kblock b) (unat sz) a \<longrightarrow> m a = 0"
    using kzalloc_run [OF assms] by blast
  have "pmem (snd (kzalloc sz st)) a = pmem st a" if "A c = Some k" "in_blocks c k a" for c k a
    using assms that by (rule kz.alloc_keeps_live)
  with K show ?thesis by (intro exI [of _ b] exI [of _ "st\<lparr>pmem := m\<rparr>"]) simp
qed

definition demo_machine :: machine where
  "demo_machine = \<lparr>pmem = \<lambda>_. 0, kernel_heap = kernel_heap_value\<rparr>"

lemma demo_machine_rel: "kheap_rel demo_machine Map.empty"
  by (simp add: kheap_rel_def demo_machine_def heap_rel_def allocs_wf_def)

lemma empty_fits: "n \<le> KBLOCKS \<Longrightarrow> fits Map.empty KBLOCKS n 0"
  by (simp add: fits_def owns_def)

theorem kzalloc_fresh_zeroed_witness:
  "\<exists>b st'. kzalloc 5000 demo_machine = (kblock b, st') \<and> kheap_rel st' [b \<mapsto> 2] \<and>
     (\<forall>a. in_range (kblock b) 5000 a \<longrightarrow> pmem st' a = 0)"
proof -
  have b: "blocks_for 5000 = 2" by (simp add: blocks_for_ceil)
  show ?thesis
    using kzalloc_fresh_zeroed [OF demo_machine_rel, of 5000 0] empty_fits [of 2] by (auto simp: b)
qed

lemma kfree_null_run:
  assumes "kernel_heap st = kernel_heap_value" and "\<not> bit (pmem st 0x6E00) 7"
  shows "kfree 0 st = st\<lparr>pmem := (pmem st)(0x6E00 := 0)\<rparr>"
proof -
  have "pmem st 0x6E00 AND 0x80 = 0"
    using assms(2) and_exp_eq_0_iff_not_bit [of "pmem st 0x6E00" 7] by simp
  then show ?thesis
    using assms(1) by (simp add: kfree_def heap_free_def heap_address_to_block_def kernel_heap_value_def
        heap_mark_blocks_free.simps entry_addr_def signed_divide_int_def)
qed

text \<open>
  \<open>kfree\<close> does not test for null. Freeing the null pointer computes block -4096 and clears the
  byte 4096 before the table, at 0x6E00, going on upwards from there while the byte it clears has
  the bit HAS_NEXT; when that bit is clear, that byte is the only change.
\<close>

lemma kfree_null_writes:
  assumes "kernel_heap st = kernel_heap_value" and "\<not> bit (pmem st 0x6E00) 7"
  shows "pmem (kfree 0 st) = (pmem st)(0x6E00 := 0)"
  using kfree_null_run [OF assms] by simp

end
