(* ===== verification/Paging.thy ===== *)
theory Paging
  imports KHeap
begin

text \<open>
  Two-level x86 paging, \<open>src/src/memory/paging/paging.c\<close>. Page directories, page tables and the
  \<open>paging_4gb_chunk\<close> structure lie in physical memory and are read and written as little-endian
  words; \<open>paging_new_4gb\<close> takes them from the kernel heap. The abstract view of a directory is a
  function from page numbers to entries; the locale \<open>entry_store\<close> states what \<open>paging_set\<close> and
  \<open>paging_get\<close> promise, and the mapping loops are proved over it.
\<close>

section \<open>paging.h\<close>

abbreviation (input) PAGING_CACHE_DISABLED :: "'a::numeral" where "PAGING_CACHE_DISABLED \<equiv> 0x10"
abbreviation (input) PAGING_WRITE_THROUGH :: "'a::numeral" where "PAGING_WRITE_THROUGH \<equiv> 0x08"
abbreviation (input) PAGING_ACCESS_FROM_ALL :: "'a::numeral" where "PAGING_ACCESS_FROM_ALL \<equiv> 0x04"
abbreviation (input) PAGING_IS_WRITEABLE :: "'a::numeral" where "PAGING_IS_WRITEABLE \<equiv> 0x02"
abbreviation (input) PAGING_IS_PRESENT :: "'a::numeral" where "PAGING_IS_PRESENT \<equiv> 0x01"
abbreviation (input) PAGING_TOTAL_ENTRIES_PER_TABLE :: "'a::numeral" where "PAGING_TOTAL_ENTRIES_PER_TABLE \<equiv> 1024"
abbreviation (input) PAGING_PAGE_SIZE :: "'a::numeral" where "PAGING_PAGE_SIZE \<equiv> 4096"

text \<open>
  The structure \<open>paging_4gb_chunk\<close> is one word in memory, its field \<open>directory_entry\<close>; a value of
  type \<open>paging_4gb_chunk\<close> is the address of such a structure.
\<close>

type_synonym paging_4gb_chunk = u32

definition directory_entry :: "mem \<Rightarrow> paging_4gb_chunk \<Rightarrow> u32" where
  "directory_entry m chunk = load32 m chunk"

text \<open>The global \<open>current_directory\<close>, and the register that \<open>paging_load_directory\<close> loads.\<close>

record pg_machine = machine +
  current_directory :: u32
  cr3 :: u32

section \<open>paging.c\<close>

text \<open>\<open>paging_fill entry offset flags n m\<close> is memory after \<open>n\<close> rounds of the inner loop.\<close>

primrec paging_fill :: "u32 \<Rightarrow> u32 \<Rightarrow> u8 \<Rightarrow> nat \<Rightarrow> mem \<Rightarrow> mem" where
  "paging_fill entry offset flags 0 m = m"
| "paging_fill entry offset flags (Suc b) m =
     store32 (paging_fill entry offset flags b m) (entry + 4 * of_nat b)
       ((offset + of_nat b * PAGING_PAGE_SIZE) OR ucast flags)"

text \<open>\<open>paging_tables directory flags n st\<close> is \<open>offset\<close> and the state after \<open>n\<close> rounds of the outer loop.\<close>

primrec paging_tables :: "u32 \<Rightarrow> u8 \<Rightarrow> nat \<Rightarrow> 'a machine_scheme \<Rightarrow> u32 \<times> 'a machine_scheme" where
  "paging_tables directory flags 0 st = (0, st)"
| "paging_tables directory flags (Suc i) st =
     (let (offset, st) = paging_tables directory flags i st;
          (entry, st) = kzalloc (4 * PAGING_TOTAL_ENTRIES_PER_TABLE) st;
          m = paging_fill entry offset flags PAGING_TOTAL_ENTRIES_PER_TABLE (pmem st);
          m = store32 m (directory + 4 * of_nat i) (entry OR ucast flags OR PAGING_IS_WRITEABLE)
      in (offset + PAGING_TOTAL_ENTRIES_PER_TABLE * PAGING_PAGE_SIZE, st\<lparr>pmem := m\<rparr>))"

definition paging_new_4gb :: "u8 \<Rightarrow> 'a machine_scheme \<Rightarrow> paging_4gb_chunk \<times> 'a machine_scheme" where
  "paging_new_4gb flags st =
     (let (directory, st) = kzalloc (4 * PAGING_TOTAL_ENTRIES_PER_TABLE) st;
          (_, st) = paging_tables directory flags PAGING_TOTAL_ENTRIES_PER_TABLE st;
          (chunk_4gb, st) = kzalloc 4 st
      in (chunk_4gb, st\<lparr>pmem := store32 (pmem st) chunk_4gb directory\<rparr>))"

definition paging_switch :: "paging_4gb_chunk \<Rightarrow> 'a pg_machine_scheme \<Rightarrow> 'a pg_machine_scheme" where
  "paging_switch directory st =
     st\<lparr>cr3 := directory_entry (pmem st) directory, current_directory := directory_entry (pmem st) directory\<rparr>"

text \<open>\<open>paging_free_tables chunk n st\<close> is the state after \<open>n\<close> rounds of the loop.\<close>

primrec paging_free_tables :: "paging_4gb_chunk \<Rightarrow> nat \<Rightarrow> 'a machine_scheme \<Rightarrow> 'a machine_scheme" where
  "paging_free_tables chunk 0 st = st"
| "paging_free_tables chunk (Suc i) st =
     (let st = paging_free_tables chunk i st;
          entry = load32 (pmem st) (directory_entry (pmem st) chunk + 4 * of_nat i);
          table = entry AND 0xfffff000
      in kfree table st)"

definition paging_free_4gb :: "paging_4gb_chunk \<Rightarrow> 'a machine_scheme \<Rightarrow> 'a machine_scheme" where
  "paging_free_4gb chunk st =
     (let st = paging_free_tables chunk 1024 st;
          st = kfree (directory_entry (pmem st) chunk) st
      in kfree chunk st)"

definition paging_4gb_chunk_get_directory :: "paging_4gb_chunk \<Rightarrow> mem \<Rightarrow> u32" where
  "paging_4gb_chunk_get_directory chunk m = directory_entry m chunk"

definition paging_is_aligned :: "u32 \<Rightarrow> bool" where
  "paging_is_aligned addr \<longleftrightarrow> addr mod PAGING_PAGE_SIZE = 0"

text \<open>The last two arguments are what the output variables hold before the call.\<close>

definition paging_get_indexes :: "u32 \<Rightarrow> u32 \<Rightarrow> u32 \<Rightarrow> int \<times> u32 \<times> u32" where
  "paging_get_indexes virtual_address directory_index table_index =
     (if \<not> paging_is_aligned virtual_address then (- EINVARG, directory_index, table_index)
      else (0, virtual_address div (PAGING_TOTAL_ENTRIES_PER_TABLE * PAGING_PAGE_SIZE),
               virtual_address mod (PAGING_TOTAL_ENTRIES_PER_TABLE * PAGING_PAGE_SIZE) div PAGING_PAGE_SIZE))"

definition paging_align_address :: "u32 \<Rightarrow> u32" where
  "paging_align_address ptr =
     (if ptr mod PAGING_PAGE_SIZE \<noteq> 0 then ptr + PAGING_PAGE_SIZE - ptr mod PAGING_PAGE_SIZE else ptr)"

definition paging_align_to_lower_page :: "u32 \<Rightarrow> u32" where
  "paging_align_to_lower_page addr = addr - addr mod PAGING_PAGE_SIZE"

definition paging_set :: "u32 \<Rightarrow> u32 \<Rightarrow> u32 \<Rightarrow> mem \<Rightarrow> int \<times> mem" where
  "paging_set directory virt val m =
     (if \<not> paging_is_aligned virt then (- EINVARG, m)
      else
        let (res, directory_index, table_index) = paging_get_indexes virt 0 0
        in if res < 0 then (res, m)
           else
             let entry = load32 m (directory + 4 * directory_index);
                 table = entry AND 0xfffff000
             in (0, store32 m (table + 4 * table_index) val))"

definition paging_get :: "u32 \<Rightarrow> u32 \<Rightarrow> mem \<Rightarrow> u32" where
  "paging_get directory virt m =
     (let (_, directory_index, table_index) = paging_get_indexes virt 0 0;
          entry = load32 m (directory + 4 * directory_index);
          table = entry AND 0xfffff000
      in load32 m (table + 4 * table_index))"

definition paging_get_physical_address :: "u32 \<Rightarrow> u32 \<Rightarrow> mem \<Rightarrow> u32" where
  "paging_get_physical_address directory virt m =
     (let virt_addr_new = paging_align_to_lower_page virt;
          difference = virt - virt_addr_new
      in (paging_get directory virt_addr_new m AND 0xfffff000) + difference)"

definition paging_map :: "paging_4gb_chunk \<Rightarrow> u32 \<Rightarrow> u32 \<Rightarrow> int \<Rightarrow> mem \<Rightarrow> int \<times> mem" where
  "paging_map directory virt phys flags m =
     (if virt mod PAGING_PAGE_SIZE \<noteq> 0 \<or> phys mod PAGING_PAGE_SIZE \<noteq> 0 then (- EINVARG, m)
      else paging_set (directory_entry m directory) virt (phys OR word_of_int flags) m)"

text \<open>The number of rounds left is the argument of the loop; \<open>res\<close> is the result so far.\<close>

fun paging_map_loop :: "nat \<Rightarrow> paging_4gb_chunk \<Rightarrow> u32 \<Rightarrow> u32 \<Rightarrow> int \<Rightarrow> int \<Rightarrow> mem \<Rightarrow> int \<times> mem" where
  "paging_map_loop 0 directory virt phys flags res m = (res, m)"
| "paging_map_loop (Suc n) directory virt phys flags res m =
     (let (res, m) = paging_map directory virt phys flags m
      in if res < 0 then (res, m)
         else paging_map_loop n directory (virt + PAGING_PAGE_SIZE) (phys + PAGING_PAGE_SIZE) flags res m)"

definition paging_map_range :: "paging_4gb_chunk \<Rightarrow> u32 \<Rightarrow> u32 \<Rightarrow> int \<Rightarrow> int \<Rightarrow> mem \<Rightarrow> int \<times> mem" where
  "paging_map_range directory virt phys count flags m = paging_map_loop (nat count) directory virt phys flags 0 m"

definition paging_map_to :: "paging_4gb_chunk \<Rightarrow> u32 \<Rightarrow> u32 \<Rightarrow> u32 \<Rightarrow> int \<Rightarrow> mem \<Rightarrow> int \<times> mem" where
  "paging_map_to directory virt phys phys_end flags m =
     (if virt mod PAGING_PAGE_SIZE \<noteq> 0 then (- EINVARG, m)
      else if phys mod PAGING_PAGE_SIZE \<noteq> 0 then (- EINVARG, m)
      else if phys_end mod PAGING_PAGE_SIZE \<noteq> 0 then (- EINVARG, m)
      else if phys_end < phys then (- EINVARG, m)
      else
        let total_bytes = phys_end - phys;
            total_pages = sint (total_bytes div PAGING_PAGE_SIZE)
        in paging_map_range directory virt phys total_pages flags m)"

section \<open>Pages\<close>

lemma and_page_mask: "w AND 0xfffff000 = push_bit 12 (drop_bit 12 w)" for w :: u32
proof -
  have "(0xfffff000 :: u32) = NOT (mask 12)" by (simp add: mask_eq_exp_minus_1)
  moreover have "w AND NOT (mask 12) = push_bit 12 (drop_bit 12 w)"
    by (rule bit_eqI) (auto simp: bit_simps)
  ultimately show ?thesis by (simp only:)
qed

lemma of_nat_unat_eq: "unat (w :: u32) = k \<Longrightarrow> w = of_nat k"
  by auto

lemma nat_page_split: "(a :: nat) mod 4096 + a div 4096 * 4096 = a"
  by (rule mod_div_mult_eq)

lemma unat_page_mask: "unat (w AND 0xfffff000 :: u32) = unat w div 4096 * 4096"
proof -
  have "unat w div 4096 * 4096 < 2 ^ 32" using unat_less32 [of w] nat_page_split [of "unat w"] by linarith
  then have "unat (w div 4096 * 4096) = unat w div 4096 * 4096"
    by (simp only: unat_word_ariths unat_div) simp
  then show ?thesis
    by (simp add: and_page_mask drop_bit_eq_div push_bit_eq_mult)
qed

lemma unat_numeral_4096: "unat (4096 :: u32) = 4096"
  by simp

definition page_aligned :: "u32 \<Rightarrow> bool" where
  "page_aligned p \<longleftrightarrow> unat p mod 4096 = 0"

lemma paging_is_aligned_iff: "paging_is_aligned p \<longleftrightarrow> page_aligned p"
  by (simp add: paging_is_aligned_def page_aligned_def word_unat_eq_iff unat_mod)

lemma page_aligned_mod: "w mod 4096 = 0 \<longleftrightarrow> page_aligned w" for w :: u32
  by (simp add: page_aligned_def word_unat_eq_iff unat_mod)

lemma page_aligned_mask [simp]: "page_aligned (w AND 0xfffff000)"
  by (simp add: page_aligned_def unat_page_mask)

lemma page_aligned_unat:
  assumes "page_aligned p"
  shows "unat p = unat p div 4096 * 4096" and "unat p + 4095 < 2 ^ 32"
proof -
  show eq: "unat p = unat p div 4096 * 4096" using assms nat_page_split [of "unat p"] by (simp only: page_aligned_def)
  have "unat p div 4096 < 1048576" using unat_less32 [of p] by (simp add: div_less_iff_less_mult)
  then have "unat p div 4096 * 4096 + 4095 < 4294967296" by linarith
  with eq show "unat p + 4095 < 2 ^ 32" by simp
qed

lemma mask_page_aligned: "page_aligned p \<Longrightarrow> p AND 0xfffff000 = p"
  using page_aligned_unat(1) by (simp add: word_unat_eq_iff unat_page_mask)

lemma page_offset_unat: "page_aligned p \<Longrightarrow> k < 4096 \<Longrightarrow> unat (p + of_nat k) = unat p + k"
  using page_aligned_unat(2) [of p] by (simp add: unat_word_ariths unat_of_nat)

lemma nat_page_offset: "(k :: nat) < 4096 \<Longrightarrow> (q * 4096 + k) div 4096 = q"
  by simp

lemma page_offset_mask:
  assumes "page_aligned p" and "k < 4096"
  shows "(p + of_nat k) AND 0xfffff000 = p"
proof -
  have "unat ((p + of_nat k) AND 0xfffff000) = (unat p div 4096 * 4096 + k) div 4096 * 4096"
    unfolding unat_page_mask page_offset_unat [OF assms] using page_aligned_unat(1) [OF assms(1)] by (simp only:)
  also have "\<dots> = unat p"
    unfolding nat_page_offset [OF assms(2)] using page_aligned_unat(1) [OF assms(1)] by (rule sym)
  finally show ?thesis by (simp only: word_unat_eq_iff)
qed

lemma page_split:
  "p AND 0xfffff000 = p - p mod 4096" "p = (p AND 0xfffff000) + of_nat (unat p mod 4096)" for p :: u32
proof -
  have le: "p mod 4096 \<le> p" by (simp add: word_le_nat_alt unat_mod)
  then show 1: "p AND 0xfffff000 = p - p mod 4096"
    by (simp only: word_unat_eq_iff unat_page_mask unat_sub unat_mod unat_numeral_4096)
      (simp add: minus_mod_eq_div_mult)
  have "p mod 4096 = of_nat (unat p mod 4096)"
    by (rule of_nat_unat_eq) (simp only: unat_mod unat_numeral_4096)
  with 1 show "p = (p AND 0xfffff000) + of_nat (unat p mod 4096)" by simp
qed

lemma or_flags_mask:
  assumes "page_aligned p" and "f AND 0xfffff000 = 0"
  shows "(p OR f) AND 0xfffff000 = p"
  using assms mask_page_aligned [of p] by (simp add: bit.conj_disj_distrib2)

lemma flags_mask: "unat f < 4096 \<Longrightarrow> f AND 0xfffff000 = 0" for f :: u32
  by (simp add: word_unat_eq_iff unat_page_mask)

lemma ucast_flags_mask: "(ucast (f :: u8) :: u32) AND 0xfffff000 = 0"
proof (rule flags_mask)
  have "unat f < 2 ^ LENGTH(8)" by (rule unsigned_less)
  then show "unat (ucast f :: u32) < 4096" by (simp add: unsigned_ucast_eq take_bit_nat_eq_self)
qed

text \<open>The cell of entry \<open>k\<close> of the directory or table at \<open>p\<close>.\<close>

definition cell :: "u32 \<Rightarrow> nat \<Rightarrow> u32" where
  "cell p k = p + 4 * of_nat k"

lemma cell_offset: "cell p k = p + of_nat (4 * k)"
  by (simp add: cell_def)

lemma cell_unat: "page_aligned p \<Longrightarrow> k < 1024 \<Longrightarrow> unat (cell p k) = unat p + 4 * k"
  unfolding cell_offset by (rule page_offset_unat) simp_all

lemma cell_aligned [simp]: "page_aligned p \<Longrightarrow> k < 1024 \<Longrightarrow> word_aligned (cell p k)"
  using mod_mod_cancel [of 4 4096 "unat p"] by (simp add: word_aligned_def cell_unat page_aligned_def)

lemma cell_mask: "page_aligned p \<Longrightarrow> k < 1024 \<Longrightarrow> cell p k AND 0xfffff000 = p"
  unfolding cell_offset by (rule page_offset_mask) simp_all

lemma cell_eq:
  assumes "page_aligned p" and "page_aligned q" and "k < 1024" and "j < 1024"
  shows "cell p k = cell q j \<longleftrightarrow> p = q \<and> k = j"
proof
  assume eq: "cell p k = cell q j"
  have "p = q"
    using cell_mask [OF assms(1,3)] cell_mask [OF assms(2,4)] unfolding eq by (rule box_equals [OF refl])
  moreover have "unat p + 4 * k = unat q + 4 * j"
    using cell_unat [OF assms(1,3)] cell_unat [OF assms(2,4)] eq by (simp only:)
  ultimately show "p = q \<and> k = j" by simp
qed simp

lemma load_cell_store [mem_simps]:
  assumes "page_aligned p" and "page_aligned q" and "k < 1024" and "j < 1024"
  shows "load32 (store32 m (cell p k) v) (cell q j) = (if p = q \<and> k = j then v else load32 m (cell q j))"
  using assms by (auto simp: mem_simps cell_eq)

lemma page_aligned_next: "page_aligned v \<Longrightarrow> page_aligned (v + 4096)"
  by (simp add: page_aligned_def unat_word_ariths mod_mod_cancel)

lemma page_aligned_within:
  assumes "page_aligned v" and "page_aligned w"
  shows "w = v \<longleftrightarrow> unat v \<le> unat w \<and> unat w < unat v + 4096"
proof -
  define a b where "a = unat v div 4096" and "b = unat w div 4096"
  have "unat v = a * 4096" "unat w = b * 4096"
    using page_aligned_unat(1) [OF assms(1)] page_aligned_unat(1) [OF assms(2)] by (simp_all only: a_def b_def)
  then show ?thesis by (auto simp: word_unat_eq_iff)
qed

text \<open>Page numbers.\<close>

definition dir_index :: "u32 \<Rightarrow> nat" where
  "dir_index v = unat v div 4096 div 1024"

definition tab_index :: "u32 \<Rightarrow> nat" where
  "tab_index v = unat v div 4096 mod 1024"

lemma index_less [simp]: "dir_index v < 1024" "tab_index v < 1024"
  using unat_less32 [of v] by (simp_all add: dir_index_def tab_index_def div_less_iff_less_mult)

lemma index_eq: "dir_index v = dir_index w \<and> tab_index v = tab_index w \<longleftrightarrow> unat v div 4096 = unat w div 4096"
  unfolding dir_index_def tab_index_def by (metis div_mult_mod_eq)

lemma page_aligned_eq: "page_aligned v \<Longrightarrow> page_aligned w \<Longrightarrow> unat v div 4096 = unat w div 4096 \<longleftrightarrow> v = w"
  using page_aligned_unat(1) [of v] page_aligned_unat(1) [of w] by (metis word_unat_eq_iff)

lemma get_indexes_aligned:
  assumes "page_aligned v"
  shows "paging_get_indexes v x y = (0, of_nat (dir_index v), of_nat (tab_index v))"
proof -
  have "unat (4194304 :: u32) = 4194304" by simp
  then have "v div 4194304 = of_nat (unat v div 4194304)"
    and "v mod 4194304 div 4096 = of_nat (unat v mod 4194304 div 4096)"
    by (intro of_nat_unat_eq; simp only: unat_div unat_mod unat_numeral_4096)+
  moreover have "unat v div 4194304 = dir_index v"
    using div_mult2_eq [of "unat v" 4096 1024] by (simp add: dir_index_def)
  moreover have "unat v mod 4194304 div 4096 = tab_index v"
    using mod_mult2_eq [of "unat v" 4096 1024] by (simp add: tab_index_def)
  ultimately show ?thesis using assms by (simp add: paging_get_indexes_def paging_is_aligned_iff)
qed

section \<open>The abstract address space\<close>

text \<open>The table behind directory entry \<open>i\<close>, and the entry of the page that starts at \<open>v\<close>.\<close>

definition table_of :: "mem \<Rightarrow> u32 \<Rightarrow> nat \<Rightarrow> u32" where
  "table_of m dir i = load32 m (cell dir i) AND 0xfffff000"

definition entry_of :: "mem \<Rightarrow> u32 \<Rightarrow> u32 \<Rightarrow> u32" where
  "entry_of m dir v = load32 m (cell (table_of m dir (dir_index v)) (tab_index v))"

text \<open>
  A directory is well formed when its 1024 tables are different pages and none is the directory;
  a chunk structure when besides it does not lie in one of the tables.
\<close>

definition pd_wf :: "mem \<Rightarrow> u32 \<Rightarrow> bool" where
  "pd_wf m dir \<longleftrightarrow> page_aligned dir \<and> (\<forall>i < 1024. table_of m dir i \<noteq> dir) \<and>
     inj_on (table_of m dir) {..<1024}"

definition chunk_wf :: "paging_4gb_chunk \<Rightarrow> mem \<Rightarrow> bool" where
  "chunk_wf chunk m \<longleftrightarrow> word_aligned chunk \<and> pd_wf m (directory_entry m chunk) \<and>
     (\<forall>i < 1024. table_of m (directory_entry m chunk) i \<noteq> chunk AND 0xfffff000)"

lemma table_of_aligned [simp]: "page_aligned (table_of m dir i)"
  by (simp add: table_of_def)

lemma paging_set_run:
  "page_aligned v \<Longrightarrow>
    paging_set dir v val m = (0, store32 m (cell (table_of m dir (dir_index v)) (tab_index v)) val)"
  by (simp add: paging_set_def get_indexes_aligned paging_is_aligned_iff table_of_def cell_def)

lemma paging_get_run: "page_aligned v \<Longrightarrow> paging_get dir v m = entry_of m dir v"
  by (simp add: paging_get_def get_indexes_aligned table_of_def cell_def entry_of_def)

lemma table_of_set:
  "pd_wf m dir \<Longrightarrow> k < 1024 \<Longrightarrow> i < 1024 \<Longrightarrow> j < 1024 \<Longrightarrow>
    table_of (store32 m (cell (table_of m dir i) k) val) dir j = table_of m dir j"
  unfolding table_of_def [of "store32 _ _ _"] by (simp add: pd_wf_def mem_simps) (simp add: table_of_def)

lemma pd_wf_set:
  assumes "pd_wf m dir" and "k < 1024" and "i < 1024"
  shows "pd_wf (store32 m (cell (table_of m dir i) k) val) dir"
proof -
  have "inj_on (table_of (store32 m (cell (table_of m dir i) k) val) dir) {..<1024} =
      inj_on (table_of m dir) {..<1024}"
    using table_of_set [OF assms] by (intro inj_on_cong) simp
  then show ?thesis using assms table_of_set [OF assms] by (simp add: pd_wf_def)
qed

lemma entry_of_set:
  assumes "pd_wf m dir" and "page_aligned v" and "page_aligned w"
  shows "entry_of (store32 m (cell (table_of m dir (dir_index v)) (tab_index v)) val) dir w =
    (if w = v then val else entry_of m dir w)"
proof -
  let ?m = "store32 m (cell (table_of m dir (dir_index v)) (tab_index v)) val"
  have "table_of m dir (dir_index v) = table_of m dir (dir_index w) \<longleftrightarrow> dir_index v = dir_index w"
    using assms(1) by (auto simp: pd_wf_def dest: inj_onD)
  then have "entry_of ?m dir w =
      (if dir_index v = dir_index w \<and> tab_index v = tab_index w then val else entry_of m dir w)"
    by (simp add: entry_of_def table_of_set [OF assms(1)] mem_simps)
  then show ?thesis using index_eq [of v w] page_aligned_eq [OF assms(2,3)] by auto
qed

lemma word_page:
  assumes "word_aligned p"
  shows "p = cell (p AND 0xfffff000) (unat p mod 4096 div 4)" and "unat p mod 4096 div 4 < 1024"
proof -
  have "unat p mod 4096 mod 4 = 0" using assms mod_mod_cancel [of 4 4096 "unat p"] by (simp add: word_aligned_def)
  then have "4 * (unat p mod 4096 div 4) = unat p mod 4096" by (metis add_0_right mult_div_mod_eq)
  then show "p = cell (p AND 0xfffff000) (unat p mod 4096 div 4)"
    using page_split(2) [of p] unfolding cell_offset by (simp only:)
  show "unat p mod 4096 div 4 < 1024"
    using mod_less_divisor [of 4096 "unat p"] by (simp add: div_less_iff_less_mult)
qed

lemma directory_entry_set:
  assumes "chunk_wf chunk m" and "k < 1024" and "i < 1024"
  shows "directory_entry (store32 m (cell (table_of m (directory_entry m chunk) i) k) val) chunk = directory_entry m chunk"
proof -
  let ?p = "chunk AND 0xfffff000" and ?j = "unat chunk mod 4096 div 4"
  have "word_aligned chunk" "table_of m (directory_entry m chunk) i \<noteq> ?p"
    using assms by (auto simp: chunk_wf_def)
  then have "cell (table_of m (directory_entry m chunk) i) k \<noteq> chunk"
    using word_page [of chunk] cell_eq [of "table_of m (directory_entry m chunk) i" ?p k ?j] assms(2) by auto
  then show ?thesis
    using assms(2) \<open>word_aligned chunk\<close> unfolding directory_entry_def [of "store32 _ _ _"]
    by (simp add: mem_simps) (simp add: directory_entry_def)
qed

lemma chunk_wf_set:
  assumes "chunk_wf chunk m" and "k < 1024" and "i < 1024"
  shows "chunk_wf chunk (store32 m (cell (table_of m (directory_entry m chunk) i) k) val)"
  using assms table_of_set [OF _ assms(2,3), of m] pd_wf_set [OF _ assms(2,3), of m] directory_entry_set [OF assms]
  by (simp add: chunk_wf_def)

section \<open>The interface of an address space\<close>

text \<open>The effect of storing \<open>n\<close> consecutive pages with an entry store.\<close>

primrec set_pages :: "(u32 \<Rightarrow> u32 \<Rightarrow> 's \<Rightarrow> int \<times> 's) \<Rightarrow> nat \<Rightarrow> u32 \<Rightarrow> u32 \<Rightarrow> u32 \<Rightarrow> 's \<Rightarrow> 's" where
  "set_pages put 0 v p flags s = s"
| "set_pages put (Suc n) v p flags s = set_pages put n (v + 4096) (p + 4096) flags (snd (put v (p OR flags) s))"

locale entry_store =
  fixes put :: "u32 \<Rightarrow> u32 \<Rightarrow> 's \<Rightarrow> int \<times> 's"
    and look :: "u32 \<Rightarrow> 's \<Rightarrow> u32"
    and inv :: "'s \<Rightarrow> bool"
  assumes set_inv: "inv s \<Longrightarrow> page_aligned v \<Longrightarrow> fst (put v e s) = 0 \<and> inv (snd (put v e s))"
    and get_set: "inv s \<Longrightarrow> page_aligned v \<Longrightarrow> page_aligned w \<Longrightarrow>
      look w (snd (put v e s)) = (if w = v then e else look w s)"
begin

lemma set_pages_inv:
  "inv s \<Longrightarrow> page_aligned v \<Longrightarrow> inv (set_pages put n v p flags s)"
  by (induction n arbitrary: v p s) (simp_all add: set_inv page_aligned_next)

lemma get_set_pages:
  assumes "inv s" and "page_aligned v" and "page_aligned w" and "unat v + n * 4096 \<le> 2 ^ 32"
  shows "look w (set_pages put n v p flags s) =
    (if unat v \<le> unat w \<and> unat w < unat v + n * 4096 then (p + (w - v)) OR flags else look w s)"
  using assms
proof (induction n arbitrary: v p s)
  case 0
  then show ?case by auto
next
  case (Suc n)
  let ?s = "snd (put v (p OR flags) s)"
  show ?case
  proof (cases "n = 0")
    case True
    have "w = v \<longleftrightarrow> unat v \<le> unat w \<and> unat w < unat v + 4096"
      using Suc.prems(2,3) by (rule page_aligned_within)
    with True Suc.prems show ?thesis by (cases "w = v") (auto simp: get_set)
  next
    case False
    then have "unat v + 4096 < 2 ^ 32" using Suc.prems(4) by simp
    then have v: "unat (v + 4096) = unat v + 4096" by (simp add: unat_word_ariths)
    then have "look w (set_pages put n (v + 4096) (p + 4096) flags ?s) =
        (if unat v + 4096 \<le> unat w \<and> unat w < unat v + 4096 + n * 4096
         then (p + 4096 + (w - (v + 4096))) OR flags else look w ?s)"
      using Suc.prems by (subst Suc.IH) (simp_all add: set_inv page_aligned_next)
    then show ?thesis
      using page_aligned_within [OF Suc.prems(2,3)] Suc.prems by (auto simp: get_set)
  qed
qed

end

interpretation pt: entry_store "\<lambda>v e m. paging_set (directory_entry m chunk) v e m"
  "\<lambda>v m. paging_get (directory_entry m chunk) v m" "chunk_wf chunk" for chunk
proof
  fix m v w e
  assume wf: "chunk_wf chunk m" and v: "page_aligned v"
  then show "fst (paging_set (directory_entry m chunk) v e m) = 0 \<and>
      chunk_wf chunk (snd (paging_set (directory_entry m chunk) v e m))"
    by (simp add: paging_set_run chunk_wf_set)
  assume w: "page_aligned w"
  have "pd_wf m (directory_entry m chunk)" using wf by (simp add: chunk_wf_def)
  from entry_of_set [OF this v w, of e] directory_entry_set [OF wf] v w
  show "paging_get (directory_entry (snd (paging_set (directory_entry m chunk) v e m)) chunk) w
      (snd (paging_set (directory_entry m chunk) v e m)) =
      (if w = v then e else paging_get (directory_entry m chunk) w m)"
    by (simp add: paging_set_run paging_get_run)
qed

section \<open>Blocks of the kernel heap as pages\<close>

lemma kblock_aligned [simp]: "b < KBLOCKS \<Longrightarrow> page_aligned (kblock b)"
  by (simp add: page_aligned_def unat_kblock)

lemma cell_in_blocks:
  assumes "b < KBLOCKS" and "k < 1024" and "i < 4"
  shows "in_block b (cell (kblock b) k + of_nat i)"
proof -
  have "cell (kblock b) k + of_nat i = kblock b + of_nat (4 * k + i)" by (simp add: cell_offset)
  moreover have "unat (kblock b + of_nat (4 * k + i)) = unat (kblock b) + (4 * k + i)"
    using assms by (intro page_offset_unat) simp_all
  ultimately have "unat (cell (kblock b) k + of_nat i) = 0x01000000 + b * 4096 + (4 * k + i)"
    using assms(1) unat_kblock [of b] by (simp only: less_imp_le)
  then show ?thesis using assms unfolding in_block_def by linarith
qed

lemma load_block_cong:
  assumes "b < KBLOCKS" and "k < 1024" and "\<And>a. in_block b a \<Longrightarrow> m' a = m a"
  shows "load32 m' (cell (kblock b) k) = load32 m (cell (kblock b) k)"
  using cell_in_blocks [OF assms(1,2)] assms(3) by (intro load32_cong) simp

lemma store_block_frame:
  assumes "b < KBLOCKS" and "k < 1024" and "\<not> in_block b a"
  shows "store32 m (cell (kblock b) k) v a = m a"
proof -
  let ?c = "cell (kblock b) k"
  have "\<not> in_range ?c 4 a"
  proof
    assume "in_range ?c 4 a"
    then have "in_block b (?c + of_nat (unat (a - ?c)))"
      using assms(1,2) by (intro cell_in_blocks) (simp_all add: in_range_def)
    with assms(3) show False by simp
  qed
  then show ?thesis by (simp add: store32_apply)
qed

lemma blocks_one_disjoint: "in_block b a \<Longrightarrow> in_block c a \<Longrightarrow> b = c"
  by (auto simp: in_block_def)

lemma fill_frame:
  "f < KBLOCKS \<Longrightarrow> n \<le> 1024 \<Longrightarrow> \<not> in_block f a \<Longrightarrow> paging_fill (kblock f) offset flags n m a = m a"
  by (induction n) (simp_all add: store_block_frame flip: cell_def)

lemma fill_load:
  "f < KBLOCKS \<Longrightarrow> n \<le> 1024 \<Longrightarrow> b < n \<Longrightarrow>
    load32 (paging_fill (kblock f) offset flags n m) (cell (kblock f) b) = (offset + of_nat b * 4096) OR ucast flags"
  by (induction n) (auto simp: mem_simps less_Suc_eq simp flip: cell_def)

section \<open>Building and releasing a directory\<close>

text \<open>The allocator state \<open>A\<close> with one-block allocations at the blocks of \<open>S\<close> added or removed.\<close>

definition grant :: "allocs \<Rightarrow> nat set \<Rightarrow> allocs" where
  "grant A S = (\<lambda>b. if b \<in> S then Some 1 else A b)"

lemma grant_insert: "(grant A S)(b \<mapsto> 1) = grant A (insert b S)" "(grant A S)(b \<mapsto> Suc 0) = grant A (insert b S)"
  by (auto simp: grant_def)

definition tables_built :: "mem \<Rightarrow> nat \<Rightarrow> nat list \<Rightarrow> u8 \<Rightarrow> bool" where
  "tables_built m d ts flags \<longleftrightarrow>
     (\<forall>i < length ts. load32 m (cell (kblock d) i) = kblock (ts ! i) OR ucast flags OR 2 \<and>
        (\<forall>b < 1024. load32 m (cell (kblock (ts ! i)) b) = (of_nat i * 0x400000 + of_nat b * 4096) OR ucast flags))"

text \<open>Memory outside the blocks of \<open>S\<close> is the same.\<close>

definition same_outside :: "nat set \<Rightarrow> mem \<Rightarrow> mem \<Rightarrow> bool" where
  "same_outside S m m' \<longleftrightarrow> (\<forall>a. in_data a \<longrightarrow> (\<forall>b \<in> S. \<not> in_block b a) \<longrightarrow> m' a = m a)"

lemma block_data: "b < KBLOCKS \<Longrightarrow> in_block b a \<Longrightarrow> in_data a"
  by (simp add: in_block_def in_data_def)

lemma tables_step:
  assumes b: "tables_built m d ts flags" and len: "length ts < 1024" and "d < KBLOCKS" "f < KBLOCKS" and "f \<noteq> d"
    and ts: "f \<notin> set ts" "d \<notin> set ts" "set ts \<subseteq> {..<KBLOCKS}"
    and same: "same_outside {f} m m1"
  defines "m' \<equiv> store32 (paging_fill (kblock f) (of_nat (length ts) * 0x400000) flags 1024 m1)
    (cell (kblock d) (length ts)) (kblock f OR ucast flags OR 2)"
  shows "tables_built m' d (ts @ [f]) flags"
    and "same_outside {f, d} m m'" and "\<And>a. \<not> in_data a \<Longrightarrow> m' a = m1 a"
proof -
  let ?fill = "paging_fill (kblock f) (of_nat (length ts) * 0x400000) flags 1024 m1"
  have fr: "m' a = m a" if "in_data a" "\<not> in_block f a" "\<not> in_block d a" for a
    using that len assms(3,4) same by (simp add: m'_def store_block_frame fill_frame same_outside_def)
  then show "same_outside {f, d} m m'" by (simp add: same_outside_def)
  show "m' a = m1 a" if "\<not> in_data a" for a
    using that len assms(3,4) block_data [of f a] block_data [of d a]
    by (simp add: m'_def) (metis store_block_frame fill_frame le_refl)
  have old: "load32 m' (cell (kblock t) k) = load32 m (cell (kblock t) k)"
    if "t \<in> set ts" "k < 1024" for t k
    using that ts by (intro load_block_cong fr) (auto dest: block_data blocks_one_disjoint)
  have dir: "load32 m' (cell (kblock d) i) = load32 m (cell (kblock d) i)" if "i < length ts" for i
  proof -
    have "load32 m' (cell (kblock d) i) = load32 ?fill (cell (kblock d) i)"
      using that len assms(3) by (simp add: m'_def mem_simps)
    also have "\<dots> = load32 m (cell (kblock d) i)"
    proof (rule load_block_cong)
      show "?fill a = m a" if a: "in_block d a" for a
      proof -
        have "\<not> in_block f a" using a assms(5) by (auto dest: blocks_one_disjoint)
        moreover have "in_data a" using assms(3) a by (rule block_data)
        ultimately show ?thesis using assms(4) same by (simp add: fill_frame same_outside_def)
      qed
    qed (use that len assms(3) in simp_all)
    finally show ?thesis .
  qed
  have "load32 m' (cell (kblock f) k) = load32 ?fill (cell (kblock f) k)" if "k < 1024" for k
    using that assms(3-5) len kblock_inj [of f d] by (simp add: m'_def mem_simps)
  then show "tables_built m' d (ts @ [f]) flags"
    using b dir old assms(3,4) len
    by (auto simp: tables_built_def nth_append less_Suc_eq fill_load) (simp add: m'_def mem_simps)
qed

lemma tables_run:
  assumes "kheap_rel st (grant A {d})" and "A d = None" and "d < KBLOCKS"
    and "n \<le> free_blocks (grant A {d})" and "n \<le> 1024"
  shows "\<exists>ts st'. paging_tables (kblock d) flags n st = (of_nat n * 0x400000, st') \<and> length ts = n \<and>
    distinct (d # ts) \<and> set ts \<subseteq> {..<KBLOCKS} \<inter> {b. A b = None} \<and>
    kheap_rel st' (grant A (insert d (set ts))) \<and>
    free_blocks (grant A (insert d (set ts))) = free_blocks (grant A {d}) - n \<and>
    tables_built (pmem st') d ts flags \<and> same_outside (insert d (set ts)) (pmem st) (pmem st')"
  using assms(4,5)
proof (induction n)
  case 0
  then show ?case using assms(1) by (intro exI [of _ "[]"]) (simp add: tables_built_def same_outside_def)
next
  case (Suc n)
  then obtain ts st1 where I: "paging_tables (kblock d) flags n st = (of_nat n * 0x400000, st1)" "length ts = n"
    "distinct (d # ts)" "set ts \<subseteq> {..<KBLOCKS} \<inter> {b. A b = None}"
    "kheap_rel st1 (grant A (insert d (set ts)))"
    "free_blocks (grant A (insert d (set ts))) = free_blocks (grant A {d}) - n"
    "tables_built (pmem st1) d ts flags" "same_outside (insert d (set ts)) (pmem st) (pmem st1)"
    by (auto simp del: of_nat_Suc)
  let ?A = "grant A (insert d (set ts))"
  have "\<exists>f s'. kzalloc 4096 st1 = (kblock f, s') \<and> ?A f = None \<and> f < KBLOCKS \<and> kheap_rel s' (?A(f \<mapsto> 1)) \<and>
    free_blocks (?A(f \<mapsto> 1)) = free_blocks ?A - 1 \<and>
    (\<forall>a. in_data a \<longrightarrow> \<not> in_block f a \<longrightarrow> pmem s' a = pmem st1 a)"
    using I(5,6) Suc.prems by (intro kz.alloc_one) simp_all
  then obtain f st2 where F: "kzalloc 4096 st1 = (kblock f, st2)" "?A f = None" "f < KBLOCKS"
    "kheap_rel st2 (?A(f \<mapsto> 1))" "free_blocks (?A(f \<mapsto> 1)) = free_blocks ?A - 1"
    "same_outside {f} (pmem st1) (pmem st2)"
    by (auto simp: same_outside_def)
  let ?m = "store32 (paging_fill (kblock f) (of_nat (length ts) * 0x400000) flags 1024 (pmem st2))
    (cell (kblock d) (length ts)) (kblock f OR ucast flags OR 2)"
  have f: "f \<noteq> d" "f \<notin> set ts" "A f = None" using F(2) by (auto simp: grant_def split: if_splits)
  have T: "tables_built ?m d (ts @ [f]) flags" "same_outside {f, d} (pmem st1) ?m"
    "\<And>a. \<not> in_data a \<Longrightarrow> ?m a = pmem st2 a"
    using I(2,3,4) Suc.prems assms(3) F(3) f by (auto intro!: tables_step [OF I(7) _ assms(3) F(3) f(1,2) _ _ F(6)])
  have "kheap_rel (st2\<lparr>pmem := ?m\<rparr>) (?A(f \<mapsto> 1))"
    using F(4) T(3) by (rule kheap_rel_upd)
  moreover have "paging_tables (kblock d) flags (Suc n) st = (of_nat (Suc n) * 0x400000, st2\<lparr>pmem := ?m\<rparr>)"
    using I(1,2) F(1) by (simp add: cell_def algebra_simps)
  moreover have "same_outside (insert d (set (ts @ [f]))) (pmem st) ?m"
    using I(8) T(2) by (auto simp: same_outside_def)
  ultimately show ?case
    using I(2-6) F(3,5) f T(1) by (intro exI [of _ "ts @ [f]"] exI [of _ "st2\<lparr>pmem := ?m\<rparr>"])
      (auto simp: grant_insert insert_commute)
qed

text \<open>
  The blocks of a chunk: block \<open>c\<close> holds the structure, block \<open>d\<close> the directory and the blocks \<open>ts\<close>
  the tables; all are live one-block allocations.
\<close>

definition owns_chunk :: "mem \<Rightarrow> allocs \<Rightarrow> nat \<Rightarrow> nat \<Rightarrow> nat list \<Rightarrow> bool" where
  "owns_chunk m A c d ts \<longleftrightarrow> length ts = 1024 \<and> distinct (c # d # ts) \<and>
     (\<forall>b \<in> set (c # d # ts). A b = Some 1 \<and> b < KBLOCKS) \<and> directory_entry m (kblock c) = kblock d \<and>
     (\<forall>i < 1024. table_of m (kblock d) i = kblock (ts ! i))"

lemma owns_chunk_wf:
  assumes "owns_chunk m A c d ts"
  shows "chunk_wf (kblock c) m"
proof -
  have ts: "length ts = 1024" "distinct ts" "d \<notin> set ts" "c \<notin> set ts" "c < KBLOCKS" "d < KBLOCKS"
    and lt: "\<And>i. i < 1024 \<Longrightarrow> ts ! i < KBLOCKS" "\<And>i. i < 1024 \<Longrightarrow> ts ! i \<in> set ts"
    and d: "directory_entry m (kblock c) = kblock d"
    and t: "\<And>i. i < 1024 \<Longrightarrow> table_of m (kblock d) i = kblock (ts ! i)"
    using assms by (auto simp: owns_chunk_def)
  have "inj_on (table_of m (kblock d)) {..<1024}"
    using t lt(1) ts(1,2) by (intro inj_onI) (simp add: kblock_inj nth_eq_iff_index_eq)
  moreover have "kblock (ts ! i) \<noteq> kblock d" "kblock (ts ! i) \<noteq> kblock c" if "i < 1024" for i
    using lt [OF that] ts kblock_inj [of "ts ! i" d] kblock_inj [of "ts ! i" c] by metis+
  moreover have "word_aligned (kblock c)"
    using cell_aligned [of "kblock c" 0] ts(5) by (simp add: cell_def)
  ultimately show ?thesis
    using ts t d by (simp add: chunk_wf_def pd_wf_def mask_page_aligned)
qed

lemma flags2_mask: "(ucast (f :: u8) OR 2 :: u32) AND 0xfffff000 = 0"
  using ucast_flags_mask [of f] by (simp add: bit.conj_disj_distrib2)

lemma tables_built_table_of:
  "tables_built m d ts flags \<Longrightarrow> i < length ts \<Longrightarrow> ts ! i < KBLOCKS \<Longrightarrow> table_of m (kblock d) i = kblock (ts ! i)"
  by (simp add: tables_built_def table_of_def or_flags_mask flags2_mask)

lemma tables_built_cong:
  assumes "tables_built m d ts flags" and "length ts \<le> 1024"
    and "\<And>b k. b \<in> set (d # ts) \<Longrightarrow> k < 1024 \<Longrightarrow> load32 m' (cell (kblock b) k) = load32 m (cell (kblock b) k)"
  shows "tables_built m' d ts flags"
  using assms by (simp add: tables_built_def)

lemma new_4gb_run:
  assumes rel: "kheap_rel st A" and free: "1026 \<le> free_blocks A"
  shows "\<exists>c d ts st'. paging_new_4gb flags st = (kblock c, st') \<and>
    kheap_rel st' (grant A (set (c # d # ts))) \<and> owns_chunk (pmem st') (grant A (set (c # d # ts))) c d ts \<and>
    tables_built (pmem st') d ts flags \<and> (\<forall>b \<in> set (c # d # ts). A b = None) \<and>
    same_outside (set (c # d # ts)) (pmem st) (pmem st')"
proof -
  have "0 < free_blocks A" using free by simp
  then obtain d st1 where D: "kzalloc 4096 st = (kblock d, st1)" "A d = None" "d < KBLOCKS"
    "kheap_rel st1 (A(d \<mapsto> 1))" "free_blocks (A(d \<mapsto> 1)) = free_blocks A - 1"
    "\<forall>a. in_data a \<longrightarrow> \<not> in_block d a \<longrightarrow> pmem st1 a = pmem st a"
    using kz.alloc_one [OF rel, of 4096] by auto
  have g: "A(d \<mapsto> 1) = grant A {d}" by (auto simp: grant_def)
  have "1024 \<le> free_blocks (grant A {d})" using D(5) free unfolding g by linarith
  then obtain ts st2 where T: "paging_tables (kblock d) flags 1024 st1 = (of_nat 1024 * 0x400000, st2)"
    "length ts = 1024" "distinct (d # ts)" "set ts \<subseteq> {..<KBLOCKS} \<inter> {b. A b = None}"
    "kheap_rel st2 (grant A (insert d (set ts)))"
    "free_blocks (grant A (insert d (set ts))) = free_blocks (grant A {d}) - 1024"
    "tables_built (pmem st2) d ts flags" "same_outside (insert d (set ts)) (pmem st1) (pmem st2)"
    using tables_run [OF D(4) [unfolded g] D(2,3), of 1024 flags] by blast
  let ?A = "grant A (insert d (set ts))"
  have "0 < free_blocks ?A" using T(6) D(5) g free by simp
  then obtain c st3 where C: "kzalloc 4 st2 = (kblock c, st3)" "?A c = None" "c < KBLOCKS"
    "kheap_rel st3 (?A(c \<mapsto> 1))" "\<forall>a. in_data a \<longrightarrow> \<not> in_block c a \<longrightarrow> pmem st3 a = pmem st2 a"
    using kz.alloc_one [OF T(5), of 4] by auto
  let ?m = "store32 (pmem st3) (kblock c) (kblock d)"
  have c: "c \<noteq> d" "c \<notin> set ts" "A c = None" using C(2) by (auto simp: grant_def split: if_splits)
  have frame: "?m a = pmem st3 a" if "\<not> in_block c a" for a
    using store_block_frame [OF C(3) _ that, of 0] by (simp add: cell_def)
  have load: "load32 ?m (cell (kblock b) k) = load32 (pmem st2) (cell (kblock b) k)"
    if "b \<in> set (d # ts)" "k < 1024" for b k
  proof (rule load_block_cong)
    show "?m a = pmem st2 a" if a: "in_block b a" for a
    proof -
      have "\<not> in_block c a" using a \<open>b \<in> set (d # ts)\<close> c by (auto dest: blocks_one_disjoint)
      moreover have "in_data a" using a \<open>b \<in> set (d # ts)\<close> D(3) T(4) by (auto intro: block_data)
      ultimately show ?thesis using C(5) frame by simp
    qed
  qed (use that D(3) T(4) in auto)
  have B: "tables_built ?m d ts flags"
    using T(2) load by (intro tables_built_cong [OF T(7)]) auto
  have tab: "table_of ?m (kblock d) i = kblock (ts ! i)" if "i < 1024" for i
  proof -
    have "ts ! i \<in> set ts" using T(2) that by simp
    then have "ts ! i \<in> {..<KBLOCKS}" using T(4) by blast
    then show ?thesis using tables_built_table_of [OF B, of i] T(2) that by simp
  qed
  have "?m a = pmem st3 a" if "\<not> in_data a" for a
    using that block_data [OF C(3), of a] frame by blast
  with C(4) have "kheap_rel (st3\<lparr>pmem := ?m\<rparr>) (?A(c \<mapsto> 1))"
    by (rule kheap_rel_upd)
  moreover have "same_outside (set (c # d # ts)) (pmem st) ?m"
    using D(6) T(8) C(5) frame by (auto simp: same_outside_def)
  moreover have "owns_chunk ?m (grant A (set (c # d # ts))) c d ts"
    using T(2,3,4) c C(3) D(3) tab by (auto simp: owns_chunk_def grant_def directory_entry_def mem_simps)
  moreover have "paging_new_4gb flags st = (kblock c, st3\<lparr>pmem := ?m\<rparr>)"
    using D(1) T(1) C(1) by (simp add: paging_new_4gb_def)
  ultimately show ?thesis
    using B c D(2) T(4) by (intro exI [of _ c] exI [of _ d] exI [of _ ts] exI [of _ "st3\<lparr>pmem := ?m\<rparr>"])
      (auto simp: grant_insert)
qed

definition revoke :: "allocs \<Rightarrow> nat set \<Rightarrow> allocs" where
  "revoke A S = (\<lambda>b. if b \<in> S then None else A b)"

lemma revoke_insert: "(revoke A S)(b := None) = revoke A (insert b S)"
  by (auto simp: revoke_def)

lemma revoke_grant: "\<forall>b \<in> S. A b = None \<Longrightarrow> revoke (grant A S) S = A"
  by (auto simp: revoke_def grant_def)

lemma owns_chunk_cong:
  assumes "owns_chunk m A c d ts" and "\<And>a. in_data a \<Longrightarrow> m' a = m a"
  shows "directory_entry m' (kblock c) = kblock d" and "i < 1024 \<Longrightarrow> table_of m' (kblock d) i = kblock (ts ! i)"
proof -
  have b: "c < KBLOCKS" "d < KBLOCKS" using assms(1) by (auto simp: owns_chunk_def)
  have "load32 m' (cell (kblock b) k) = load32 m (cell (kblock b) k)" if "b < KBLOCKS" "k < 1024" for b k
    using that assms(2) by (intro load_block_cong) (auto intro: block_data)
  from this [OF b(1), of 0] this [OF b(2), of i]
  show "directory_entry m' (kblock c) = kblock d" and "i < 1024 \<Longrightarrow> table_of m' (kblock d) i = kblock (ts ! i)"
    using assms(1) by (simp_all add: owns_chunk_def directory_entry_def table_of_def cell_def)
qed

lemma free_tables_run:
  assumes rel: "kheap_rel st A" and own: "owns_chunk (pmem st) A c d ts" and "n \<le> 1024"
  shows "kheap_rel (paging_free_tables (kblock c) n st) (revoke A (set (take n ts))) \<and>
    (\<forall>a. in_data a \<longrightarrow> pmem (paging_free_tables (kblock c) n st) a = pmem st a)"
  using assms(3)
proof (induction n)
  case 0
  then show ?case using rel by (simp add: revoke_def)
next
  case (Suc n)
  let ?st = "paging_free_tables (kblock c) n st" and ?A = "revoke A (set (take n ts))"
  have I: "kheap_rel ?st ?A" "\<And>a. in_data a \<Longrightarrow> pmem ?st a = pmem st a" using Suc by simp_all
  have ts: "length ts = 1024" "distinct ts" "\<forall>b \<in> set ts. A b = Some 1" using own by (simp_all add: owns_chunk_def)
  have "ts ! n \<notin> set (take n ts)"
    using ts Suc.prems by (auto simp: in_set_conv_nth nth_eq_iff_index_eq)
  then have "?A (ts ! n) = Some 1" using ts Suc.prems by (simp add: revoke_def)
  note F = kfree_run [OF I(1) this]
  have "paging_free_tables (kblock c) (Suc n) st = kfree (kblock (ts ! n)) ?st"
    using owns_chunk_cong [OF own I(2)] Suc.prems by (simp add: table_of_def cell_def)
  moreover have "set (take (Suc n) ts) = insert (ts ! n) (set (take n ts))"
    using ts Suc.prems by (simp add: take_Suc_conv_app_nth)
  ultimately show ?case using F I(2) by (simp add: revoke_insert)
qed

lemma free_4gb_run:
  assumes rel: "kheap_rel st A" and own: "owns_chunk (pmem st) A c d ts"
  shows "kheap_rel (paging_free_4gb (kblock c) st) (revoke A (set (c # d # ts)))"
    and "in_data a \<Longrightarrow> pmem (paging_free_4gb (kblock c) st) a = pmem st a"
proof -
  let ?st = "paging_free_tables (kblock c) 1024 st"
  have cd: "A c = Some 1" "A d = Some 1" "c \<noteq> d" "c \<notin> set ts" "d \<notin> set ts" and ts: "length ts = 1024"
    using own by (auto simp: owns_chunk_def)
  have I: "kheap_rel ?st (revoke A (set ts))" "\<And>a. in_data a \<Longrightarrow> pmem ?st a = pmem st a"
    using free_tables_run [OF assms, of 1024] ts by simp_all
  have dir: "directory_entry (pmem ?st) (kblock c) = kblock d"
    using owns_chunk_cong(1) [OF own I(2)] .
  have d: "revoke A (set ts) d = Some 1" using cd by (simp add: revoke_def)
  have D: "kheap_rel (kfree (kblock d) ?st) (revoke A (insert d (set ts)))"
    "\<And>a. in_data a \<Longrightarrow> pmem (kfree (kblock d) ?st) a = pmem st a"
    using kfree_run [OF I(1) d] I(2) by (simp_all add: revoke_insert)
  have "revoke A (insert d (set ts)) c = Some 1" using cd by (simp add: revoke_def)
  note C = kfree_run [OF D(1) this]
  show "kheap_rel (paging_free_4gb (kblock c) st) (revoke A (set (c # d # ts)))"
    using C(1) dir by (simp add: paging_free_4gb_def revoke_insert)
  show "pmem (paging_free_4gb (kblock c) st) a = pmem st a" if "in_data a"
    using C(2) [OF that] D(2) [OF that] dir by (simp add: paging_free_4gb_def)
qed

section \<open>Mapping runs of pages\<close>

lemma map_loop_run:
  assumes "chunk_wf chunk m" and "page_aligned virt" and "page_aligned phys"
  shows "paging_map_loop n chunk virt phys flags 0 m =
    (0, set_pages (\<lambda>v e m. paging_set (directory_entry m chunk) v e m) n virt phys (word_of_int flags) m)"
  using assms
proof (induction n arbitrary: virt phys m)
  case 0
  then show ?case by simp
next
  case (Suc n)
  let ?s = "paging_set (directory_entry m chunk) virt (phys OR word_of_int flags) m"
  have "fst ?s = 0" "chunk_wf chunk (snd ?s)"
    using pt.set_inv [OF Suc.prems(1,2)] by simp_all
  moreover have "paging_map chunk virt phys flags m = ?s"
    using Suc.prems by (simp add: paging_map_def page_aligned_mod)
  ultimately show ?case
    using Suc by (simp add: split_beta page_aligned_next)
qed

lemma get_physical_run:
  "paging_get_physical_address dir v m = (entry_of m dir (v AND 0xfffff000) AND 0xfffff000) + (v - (v AND 0xfffff000))"
  by (simp add: paging_get_physical_address_def paging_align_to_lower_page_def paging_get_run Let_def
      flip: page_split(1))

lemma of_nat_less_diff: "i < unat w \<Longrightarrow> (of_nat i :: u32) < w"
  using unat_less32 [of w] by (simp add: word_less_nat_alt unat_of_nat)

lemma total_pages:
  assumes "page_aligned p" and "page_aligned e" and "p \<le> e"
  shows "sint ((e - p) div 4096) = int (unat (e - p) div 4096)" and "unat (e - p) = unat (e - p) div 4096 * 4096"
proof -
  have "unat (e - p) div 4096 < 2 ^ 31" using unat_less32 [of "e - p"] by (simp add: div_less_iff_less_mult)
  then show "sint ((e - p) div 4096) = int (unat (e - p) div 4096)"
    by (subst sint_small) (simp_all only: unat_div unat_numeral_4096)
  have "unat (e - p) = unat e div 4096 * 4096 - unat p div 4096 * 4096"
    using page_aligned_unat(1) [OF assms(1)] page_aligned_unat(1) [OF assms(2)] assms(3) by (simp add: unat_sub)
  then have "unat (e - p) = (unat e div 4096 - unat p div 4096) * 4096"
    by (simp only: diff_mult_distrib)
  then show "unat (e - p) = unat (e - p) div 4096 * 4096" by simp
qed

lemma page_aligned_diff: "page_aligned p \<Longrightarrow> page_aligned w \<Longrightarrow> page_aligned (p + w)"
  using mod_add_eq [of "unat p" 4096 "unat w"] by (simp add: page_aligned_def unat_word_ariths mod_mod_cancel)

lemma page_aligned_of_nat: "page_aligned (of_nat (q * 4096))"
  by (simp add: page_aligned_def unat_of_nat mod_mod_cancel del: of_nat_mult)

lemma page_run:
  assumes "page_aligned v"
  shows "(v + of_nat k) AND 0xfffff000 = v + of_nat (k div 4096 * 4096)"
    and "v + of_nat k = ((v + of_nat k) AND 0xfffff000) + of_nat (k mod 4096)"
proof -
  have "of_nat k = (of_nat (k div 4096 * 4096) + of_nat (k mod 4096) :: u32)"
    unfolding of_nat_add [symmetric] div_mult_mod_eq ..
  then have eq: "v + of_nat k = (v + of_nat (k div 4096 * 4096)) + of_nat (k mod 4096)"
    by (simp only: add.assoc)
  moreover have al: "page_aligned (v + of_nat (k div 4096 * 4096))"
    using assms page_aligned_of_nat by (rule page_aligned_diff)
  ultimately show 1: "(v + of_nat k) AND 0xfffff000 = v + of_nat (k div 4096 * 4096)"
    using page_offset_mask [OF al, of "k mod 4096"] by (simp only: mod_less_divisor zero_less_numeral)
  show "v + of_nat k = ((v + of_nat k) AND 0xfffff000) + of_nat (k mod 4096)"
    unfolding 1 by (rule eq)
qed

lemma page_run_unat:
  assumes "unat v + k < 2 ^ 32" and "page_aligned v"
  shows "unat ((v + of_nat k) AND 0xfffff000) = unat v + k div 4096 * 4096"
proof -
  have "unat v + k div 4096 * 4096 < 2 ^ 32" using assms(1) nat_page_split [of k] by linarith
  then show ?thesis unfolding page_run(1) [OF assms(2)] by (simp add: unat_word_ariths unat_of_nat del: of_nat_mult)
qed

lemma map_to_run:
  assumes "chunk_wf chunk m" and "page_aligned virt" and "page_aligned phys" and "page_aligned phys_end"
    and "phys \<le> phys_end" and "unat virt + unat (phys_end - phys) \<le> 2 ^ 32" and "0 \<le> flags" and "flags < 4096"
  shows "\<exists>m'. paging_map_to chunk virt phys phys_end flags m = (0, m') \<and> chunk_wf chunk m' \<and>
    (\<forall>k < unat (phys_end - phys).
       paging_get_physical_address (directory_entry m' chunk) (virt + of_nat k) m' = phys + of_nat k \<and>
       paging_get (directory_entry m' chunk) ((virt + of_nat k) AND 0xfffff000) m' =
         ((phys + of_nat k) AND 0xfffff000) OR word_of_int flags) \<and>
    (\<forall>w. page_aligned w \<longrightarrow> \<not> (unat virt \<le> unat w \<and> unat w < unat virt + unat (phys_end - phys)) \<longrightarrow>
       paging_get (directory_entry m' chunk) w m' = paging_get (directory_entry m chunk) w m)"
proof -
  let ?n = "unat (phys_end - phys) div 4096" and ?f = "word_of_int flags :: u32"
  define m' where "m' = set_pages (\<lambda>v e m. paging_set (directory_entry m chunk) v e m) ?n virt phys ?f m"
  note n = total_pages [OF assms(3,4,5)]
  have run: "paging_map_to chunk virt phys phys_end flags m = (0, m')"
    using assms(2-5) map_loop_run [OF assms(1-3), of ?n flags]
    by (simp add: paging_map_to_def page_aligned_mod paging_map_range_def n(1) m'_def not_less [symmetric])
  have bound: "unat virt + ?n * 4096 \<le> 2 ^ 32" using assms(6) n(2) by (simp only:)
  have wf: "chunk_wf chunk m'" unfolding m'_def by (rule pt.set_pages_inv [OF assms(1,2)])
  have get: "paging_get (directory_entry m' chunk) w m' =
      (if unat virt \<le> unat w \<and> unat w < unat virt + unat (phys_end - phys) then (phys + (w - virt)) OR ?f
       else paging_get (directory_entry m chunk) w m)" if "page_aligned w" for w
    using pt.get_set_pages [OF assms(1,2) that bound, of phys ?f] n(2) unfolding m'_def by simp
  have f: "?f AND 0xfffff000 = 0"
    using assms(7,8) by (intro flags_mask) (simp add: unsigned_of_int take_bit_int_eq_self nat_less_iff)
  have "paging_get_physical_address (directory_entry m' chunk) (virt + of_nat k) m' = phys + of_nat k \<and>
      paging_get (directory_entry m' chunk) ((virt + of_nat k) AND 0xfffff000) m' =
        ((phys + of_nat k) AND 0xfffff000) OR ?f"
    if k: "k < unat (phys_end - phys)" for k
  proof -
    let ?w = "(virt + of_nat k) AND 0xfffff000" and ?p = "(phys + of_nat k) AND 0xfffff000"
    note v = page_run [OF assms(2), of k] and p = page_run [OF assms(3), of k]
    have "unat virt + k < 2 ^ 32" using k assms(6) by linarith
    then have "unat ?w = unat virt + k div 4096 * 4096" using assms(2) by (rule page_run_unat)
    moreover have "k div 4096 * 4096 < unat (phys_end - phys)"
      using k nat_page_split [of k] by linarith
    ultimately have g: "paging_get (directory_entry m' chunk) ?w m' = ?p OR ?f"
      using get [OF page_aligned_mask, of "virt + of_nat k"] by (simp add: v(1) p(1))
    have "paging_get_physical_address (directory_entry m' chunk) (virt + of_nat k) m' =
        ((?p OR ?f) AND 0xfffff000) + (virt + of_nat k - ?w)"
      unfolding get_physical_run using g by (simp add: paging_get_run)
    also have "virt + of_nat k - ?w = of_nat (k mod 4096)"
      using v(2) by (metis add_diff_cancel_left')
    also have "((?p OR ?f) AND 0xfffff000) + of_nat (k mod 4096) = phys + of_nat k"
      unfolding or_flags_mask [OF page_aligned_mask f] by (rule p(2) [symmetric])
    finally show ?thesis using g ..
  qed
  with run wf get show ?thesis by auto
qed

text \<open>Mapping on a chunk touches its page tables only.\<close>

definition same_but :: "nat set \<Rightarrow> mem \<Rightarrow> mem \<Rightarrow> bool" where
  "same_but S m m' \<longleftrightarrow> (\<forall>a. (\<forall>b \<in> S. \<not> in_block b a) \<longrightarrow> m' a = m a)"

lemma same_but_refl [simp]: "same_but S m m"
  by (simp add: same_but_def)

lemma same_but_trans: "same_but S m m' \<Longrightarrow> same_but S m' m'' \<Longrightarrow> same_but S m m''"
  by (simp add: same_but_def)

lemma set_owned:
  assumes "owns_chunk m A c d ts"
  shows "owns_chunk (snd (paging_set (kblock d) v val m)) A c d ts \<and>
    same_but (set ts) m (snd (paging_set (kblock d) v val m))"
proof (cases "page_aligned v")
  case True
  let ?t = "ts ! dir_index v"
  have t: "table_of m (kblock d) (dir_index v) = kblock ?t" "?t \<in> set ts" "?t < KBLOCKS"
    and dir: "directory_entry m (kblock c) = kblock d"
    using assms nth_mem [of "dir_index v" ts] by (auto simp: owns_chunk_def)
  let ?m = "store32 m (cell (kblock ?t) (tab_index v)) val"
  have run: "snd (paging_set (kblock d) v val m) = ?m" using paging_set_run [OF True] t(1) by simp
  have wf: "chunk_wf (kblock c) m" using assms by (rule owns_chunk_wf)
  then have "pd_wf m (kblock d)" using dir by (simp add: chunk_wf_def)
  then have "table_of ?m (kblock d) j = table_of m (kblock d) j" if "j < 1024" for j
    using table_of_set [of m "kblock d" "tab_index v" "dir_index v" j val] that t(1) by simp
  moreover have "directory_entry ?m (kblock c) = kblock d"
    using directory_entry_set [OF wf, of "tab_index v" "dir_index v" val] dir t(1) by simp
  moreover have "same_but (set ts) m ?m"
    using t(2,3) by (auto simp: same_but_def store_block_frame)
  ultimately show ?thesis using assms run by (simp add: owns_chunk_def)
next
  case False
  then show ?thesis using assms by (simp add: paging_set_def paging_is_aligned_iff)
qed

lemma map_loop_owned:
  assumes "owns_chunk m A c d ts" and "paging_map_loop n (kblock c) virt phys flags res m = (r, m')"
  shows "owns_chunk m' A c d ts \<and> same_but (set ts) m m'"
  using assms
proof (induction n arbitrary: virt phys res m)
  case 0
  then show ?case by simp
next
  case (Suc n)
  let ?s = "paging_map (kblock c) virt phys flags m"
  have dir: "directory_entry m (kblock c) = kblock d" using Suc.prems(1) by (simp add: owns_chunk_def)
  then have step: "owns_chunk (snd ?s) A c d ts \<and> same_but (set ts) m (snd ?s)"
    using set_owned [OF Suc.prems(1)] Suc.prems(1) by (simp add: paging_map_def)
  show ?case
  proof (cases "fst ?s < 0")
    case True
    with Suc.prems(2) have "m' = snd ?s" by (simp add: split_beta)
    with step show ?thesis by simp
  next
    case False
    with Suc.prems(2) have "paging_map_loop n (kblock c) (virt + 4096) (phys + 4096) flags (fst ?s) (snd ?s) = (r, m')"
      by (simp add: split_beta)
    with Suc.IH step same_but_trans show ?thesis by blast
  qed
qed

lemma map_to_owned:
  assumes "owns_chunk m A c d ts"
  shows "owns_chunk (snd (paging_map_to (kblock c) virt phys phys_end flags m)) A c d ts \<and>
    same_but (set ts) m (snd (paging_map_to (kblock c) virt phys phys_end flags m))"
  using assms map_loop_owned [OF assms]
  by (simp add: paging_map_to_def paging_map_range_def Let_def) (metis prod.collapse)

text \<open>Rounding an address up to a page.\<close>

lemma align_address_block:
  assumes "f + blocks_for sz \<le> KBLOCKS" and "0 < blocks_for sz"
  shows "paging_align_address (kblock f + sz) = kblock (f + blocks_for sz)"
proof -
  have "unat sz \<le> 0xFFFFF000" using assms(2) blocks_for_wrap [of sz] by (cases "unat sz \<le> 0xFFFFF000") simp_all
  then have k: "blocks_for sz = (unat sz + 4095) div 4096" by (rule blocks_for_ceil)
  define q r where "q = unat sz div 4096" and "r = unat sz mod 4096"
  have n: "unat sz = q * 4096 + r" "r < 4096" by (simp_all add: q_def r_def)
  have sz: "sz = of_nat (q * 4096) + of_nat r" using of_nat_unat_eq [OF n(1)] by (simp only: of_nat_add)
  define b where "b = kblock f + of_nat (q * 4096)"
  have b: "page_aligned b"
    unfolding b_def using assms by (intro page_aligned_diff kblock_aligned page_aligned_of_nat) simp_all
  have x: "kblock f + sz = b + of_nat r" unfolding b_def sz by (simp only: add.assoc)
  have "unat (kblock f + sz) mod 4096 = r"
    unfolding x page_offset_unat [OF b n(2)] using b n(2) by (simp add: page_aligned_def mod_add_eq [symmetric])
  then have m: "(kblock f + sz) mod 4096 = of_nat r"
    using n(2) by (intro of_nat_unat_eq) (simp only: unat_mod unat_numeral_4096)
  have kb: "kblock (f + j) = kblock f + of_nat (j * 4096)" for j by (simp add: kblock_def algebra_simps)
  show ?thesis
  proof (cases "r = 0")
    case True
    then have "blocks_for sz = q" using k n(1) by simp
    with True m x show ?thesis by (simp add: paging_align_address_def b_def kb)
  next
    case False
    then have "(of_nat r :: u32) \<noteq> 0" using n(2) by (simp add: word_unat_eq_iff unat_of_nat)
    then have "paging_align_address (kblock f + sz) = b + 4096"
      unfolding paging_align_address_def m by (simp add: x)
    moreover have "blocks_for sz = q + 1" using k n False by simp
    moreover have "kblock (f + (q + 1)) = b + 4096" unfolding kb b_def by (simp add: algebra_simps)
    ultimately show ?thesis by (simp only:)
  qed
qed

section \<open>Properties\<close>

text \<open>
  C9. Mapping a region. On a well-formed chunk, for page-aligned bounds and a virtual range that does
  not wrap, \<open>paging_map_to\<close> succeeds: every byte of the virtual range translates to the byte at the
  same offset of the physical range, the entries carry exactly the flags, all other pages keep
  their entries, and the chunk stays well formed.
\<close>

theorem paging_map_to_maps:
  assumes "chunk_wf chunk m" and "page_aligned virt" and "page_aligned phys" and "page_aligned phys_end"
    and "phys \<le> phys_end" and "unat virt + unat (phys_end - phys) \<le> 2 ^ 32" and "0 \<le> flags" and "flags < 4096"
  shows "\<exists>m'. paging_map_to chunk virt phys phys_end flags m = (0, m') \<and> chunk_wf chunk m' \<and>
    (\<forall>k < unat (phys_end - phys).
       paging_get_physical_address (directory_entry m' chunk) (virt + of_nat k) m' = phys + of_nat k \<and>
       paging_get (directory_entry m' chunk) ((virt + of_nat k) AND 0xfffff000) m' =
         ((phys + of_nat k) AND 0xfffff000) OR word_of_int flags) \<and>
    (\<forall>w. page_aligned w \<longrightarrow> \<not> (unat virt \<le> unat w \<and> unat w < unat virt + unat (phys_end - phys)) \<longrightarrow>
       paging_get (directory_entry m' chunk) w m' = paging_get (directory_entry m chunk) w m)"
  using assms by (rule map_to_run)

text \<open>
  Rejected requests. When a bound is not page aligned or the physical range is reversed,
  \<open>paging_map_to\<close> returns -EINVARG and changes nothing.
\<close>

lemma paging_map_to_rejects:
  assumes "\<not> page_aligned virt \<or> \<not> page_aligned phys \<or> \<not> page_aligned phys_end \<or> phys_end < phys"
  shows "paging_map_to chunk virt phys phys_end flags m = (- EINVARG, m)"
  using assms by (auto simp: paging_map_to_def page_aligned_mod)

lemma index_base:
  assumes "page_aligned v"
  shows "of_nat (dir_index v) * 0x400000 + of_nat (tab_index v) * 4096 = v"
proof -
  have "of_nat (dir_index v) * 0x400000 + of_nat (tab_index v) * 4096 =
      (of_nat ((dir_index v * 1024 + tab_index v) * 4096) :: u32)"
    by (simp add: algebra_simps)
  also have "(dir_index v * 1024 + tab_index v) * 4096 = unat v"
    unfolding dir_index_def tab_index_def div_mult_mod_eq by (rule page_aligned_unat(1) [OF assms, symmetric])
  finally show ?thesis by simp
qed

lemma tables_built_entry:
  assumes "tables_built m d ts flags" and "owns_chunk m A c d ts" and "page_aligned v"
  shows "entry_of m (kblock d) v = v OR ucast flags"
proof -
  have "table_of m (kblock d) (dir_index v) = kblock (ts ! dir_index v)" "length ts = 1024"
    using assms(2) by (simp_all add: owns_chunk_def)
  then show ?thesis
    using assms(1) index_base [OF assms(3)] by (simp add: entry_of_def tables_built_def)
qed

lemma identity_translation:
  assumes "tables_built m d ts flags" and "owns_chunk m A c d ts"
  shows "paging_get_physical_address (directory_entry m (kblock c)) v m = v"
proof -
  have "directory_entry m (kblock c) = kblock d" using assms(2) by (simp add: owns_chunk_def)
  moreover have "entry_of m (kblock d) (v AND 0xfffff000) AND 0xfffff000 = v AND 0xfffff000"
    using tables_built_entry [OF assms page_aligned_mask]
    by (simp only: or_flags_mask [OF page_aligned_mask ucast_flags_mask])
  ultimately show ?thesis by (simp only: get_physical_run) simp
qed

text \<open>
  C21. A new address space. With 1026 free blocks \<open>paging_new_4gb\<close> builds a well-formed chunk out of
  free blocks only, every virtual address translates to itself with the given flags in its entry,
  and no byte of an older live allocation changes.
\<close>

theorem paging_new_4gb_identity:
  assumes "kheap_rel st A" and "1026 \<le> free_blocks A"
  shows "\<exists>c d ts st'. paging_new_4gb flags st = (kblock c, st') \<and> (\<forall>b \<in> set (c # d # ts). A b = None) \<and>
    kheap_rel st' (grant A (set (c # d # ts))) \<and> owns_chunk (pmem st') (grant A (set (c # d # ts))) c d ts \<and>
    chunk_wf (kblock c) (pmem st') \<and>
    (\<forall>v. paging_get_physical_address (directory_entry (pmem st') (kblock c)) v (pmem st') = v \<and>
         paging_get (directory_entry (pmem st') (kblock c)) (v AND 0xfffff000) (pmem st') =
           (v AND 0xfffff000) OR ucast flags) \<and>
    (\<forall>b n a. A b = Some n \<longrightarrow> in_blocks b n a \<longrightarrow> pmem st' a = pmem st a)"
proof -
  obtain c d ts st' where N: "paging_new_4gb flags st = (kblock c, st')"
    "kheap_rel st' (grant A (set (c # d # ts)))" "owns_chunk (pmem st') (grant A (set (c # d # ts))) c d ts"
    "tables_built (pmem st') d ts flags" "\<forall>b \<in> set (c # d # ts). A b = None"
    "same_outside (set (c # d # ts)) (pmem st) (pmem st')"
    using new_4gb_run [OF assms] by blast
  let ?S = "set (c # d # ts)" and ?A = "grant A (set (c # d # ts))"
  have dir: "directory_entry (pmem st') (kblock c) = kblock d" using N(3) by (simp add: owns_chunk_def)
  have "pmem st' a = pmem st a" if "A b = Some n" "in_blocks b n a" for b n a
  proof -
    have b: "b \<notin> ?S" using that(1) N(5) by auto
    have "\<not> in_block x a" if "x \<in> ?S" for x
      using kz.live_disjoint [OF N(2), of b n x 1 a] \<open>A b = Some n\<close> \<open>in_blocks b n a\<close> that b
      by (auto simp: grant_def in_blocks_one)
    moreover have "in_data a"
      using in_blocks_data [OF allocs_wfD(2) [OF kheap_rel_wf [OF assms(1)] that(1)] that(2)] .
    ultimately show ?thesis using N(6) by (simp add: same_outside_def)
  qed
  moreover have "paging_get (kblock d) (v AND 0xfffff000) (pmem st') = (v AND 0xfffff000) OR ucast flags" for v
    using tables_built_entry [OF N(4,3) page_aligned_mask] by (simp only: paging_get_run page_aligned_mask)
  ultimately show ?thesis
    using N(1-3,5) owns_chunk_wf [OF N(3)] identity_translation [OF N(4,3)] dir
    by (intro exI [of _ c] exI [of _ d] exI [of _ ts] exI [of _ st'] conjI) simp_all
qed

lemma demo_free_blocks: "free_blocks Map.empty = KBLOCKS"
  by (simp add: free_blocks_def owns_def)

theorem paging_new_4gb_identity_witness:
  "\<exists>c st'. paging_new_4gb 3 demo_machine = (kblock c, st') \<and> chunk_wf (kblock c) (pmem st') \<and>
     paging_get_physical_address (directory_entry (pmem st') (kblock c)) 0xB8000 (pmem st') = 0xB8000"
  using paging_new_4gb_identity [OF demo_machine_rel, of 3] unfolding demo_free_blocks by auto

theorem paging_map_to_maps_witness:
  "\<exists>c m m'. chunk_wf (kblock c) m \<and> paging_map_to (kblock c) 0x400000 0x1800000 0x1802000 7 m = (0, m') \<and>
     paging_get_physical_address (directory_entry m' (kblock c)) (0x400000 + of_nat 0x1234) m' = 0x1800000 + of_nat 0x1234"
proof -
  obtain c d ts and st' :: machine where "owns_chunk (pmem st') (grant Map.empty (set (c # d # ts))) c d ts"
    using new_4gb_run [OF demo_machine_rel, of 3] unfolding demo_free_blocks by auto
  then have wf: "chunk_wf (kblock c) (pmem st')" by (rule owns_chunk_wf)
  have al: "page_aligned 0x400000" "page_aligned 0x1800000" "page_aligned 0x1802000" by (simp_all add: page_aligned_def)
  obtain m' where "paging_map_to (kblock c) 0x400000 0x1800000 0x1802000 7 (pmem st') = (0, m')"
    "\<forall>k < unat (0x1802000 - 0x1800000 :: u32).
       paging_get_physical_address (directory_entry m' (kblock c)) (0x400000 + of_nat k) m' = 0x1800000 + of_nat k"
    using paging_map_to_maps [OF wf al, of 7] by auto
  then have "paging_map_to (kblock c) 0x400000 0x1800000 0x1802000 7 (pmem st') = (0, m') \<and>
     paging_get_physical_address (directory_entry m' (kblock c)) (0x400000 + of_nat 0x1234) m' = 0x1800000 + of_nat 0x1234"
    by (auto dest: spec [of _ "0x1234"])
  with wf show ?thesis by blast
qed

text \<open>
  C32. Releasing an address space. \<open>paging_free_4gb\<close> of a chunk gives back exactly the blocks of the
  structure, the directory and the tables. After \<open>paging_new_4gb\<close> the allocator is therefore in the
  state it started from, and the data area is not touched.
\<close>

theorem paging_free_4gb_releases:
  assumes "kheap_rel st A" and "1026 \<le> free_blocks A" and "paging_new_4gb flags st = (chunk, st')"
  shows "kheap_rel (paging_free_4gb chunk st') A \<and>
    (\<forall>a. in_data a \<longrightarrow> pmem (paging_free_4gb chunk st') a = pmem st' a)"
proof -
  obtain c d ts where N: "chunk = kblock c"
    "kheap_rel st' (grant A (set (c # d # ts)))" "owns_chunk (pmem st') (grant A (set (c # d # ts))) c d ts"
    "\<forall>b \<in> set (c # d # ts). A b = None"
    using new_4gb_run [OF assms(1,2), of flags] assms(3) by auto
  show ?thesis using free_4gb_run [OF N(2,3)] N(1) by (simp only: revoke_grant [OF N(4)]) simp
qed

theorem paging_free_4gb_releases_witness:
  "kheap_rel (paging_free_4gb (fst (paging_new_4gb 3 demo_machine)) (snd (paging_new_4gb 3 demo_machine))) Map.empty"
  using paging_free_4gb_releases [OF demo_machine_rel, of 3] unfolding demo_free_blocks by (simp add: prod_eq_iff)

text \<open>
  Single entries. On a well-formed directory \<open>paging_set\<close> refuses an address that is not page
  aligned and otherwise changes the entry of exactly that page; \<open>paging_get\<close> does not pass on the
  error of \<open>paging_get_indexes\<close>, so for an unaligned address it returns the entry of page zero.
\<close>

lemma paging_set_get:
  assumes "pd_wf m dir" and "paging_set dir v val m = (r, m')"
  shows "(page_aligned v \<longrightarrow> r = 0 \<and> pd_wf m' dir \<and>
      (\<forall>w. paging_get dir w m' = (if (if page_aligned w then w else 0) = v then val else paging_get dir w m))) \<and>
    (\<not> page_aligned v \<longrightarrow> r = - EINVARG \<and> m' = m)"
proof -
  have z: "page_aligned 0" by (simp add: page_aligned_def)
  have get: "paging_get dir w m0 = entry_of m0 dir (if page_aligned w then w else 0)" for w m0
    using paging_get_run [of w dir m0]
    by (simp add: paging_get_def paging_get_indexes_def paging_is_aligned_iff entry_of_def table_of_def cell_def
        dir_index_def tab_index_def)
  show ?thesis
  proof (cases "page_aligned v")
    case True
    then show ?thesis
      using assms entry_of_set [OF assms(1) True] z by (auto simp: paging_set_run pd_wf_set get)
  next
    case False
    then show ?thesis using assms(2) by (simp add: paging_set_def paging_is_aligned_iff)
  qed
qed

end
