(* ===== verification/C_String.thy ===== *)
theory C_String
  imports C_Memory
begin

text \<open>
  The string routines of \<open>src/src/string/string.c\<close>. A string argument is the list of the bytes from
  the pointer to the end of the object it points into; reading or writing past that end is a
  \<open>Fault\<close>. The C string in such an object is the part before the first zero byte.
\<close>

section \<open>string.c\<close>

definition tolower :: "u8 \<Rightarrow> u8" where
  "tolower s1 = (if sint s1 \<ge> 65 \<and> sint s1 \<le> 90 then s1 + 32 else s1)"

fun strlen :: "u8 list \<Rightarrow> int exec" where
  "strlen [] = Trap Fault"
| "strlen (c # ptr) = (if c \<noteq> 0 then bindx (strlen ptr) (\<lambda>i. Ret (i + 1)) else Ret 0)"

text \<open>The loops count down what is left of \<open>max\<close> or \<open>n\<close>.\<close>

fun strnlen_loop :: "nat \<Rightarrow> u8 list \<Rightarrow> int exec" where
  "strnlen_loop 0 ptr = Ret 0"
| "strnlen_loop (Suc n) [] = Trap Fault"
| "strnlen_loop (Suc n) (c # ptr) = (if c = 0 then Ret 0 else bindx (strnlen_loop n ptr) (\<lambda>i. Ret (i + 1)))"

definition strnlen :: "u8 list \<Rightarrow> int \<Rightarrow> int exec" where
  "strnlen ptr mx = strnlen_loop (nat mx) ptr"

fun strnlen_terminator_loop :: "nat \<Rightarrow> u8 list \<Rightarrow> u8 \<Rightarrow> int exec" where
  "strnlen_terminator_loop 0 str terminator = Ret 0"
| "strnlen_terminator_loop (Suc n) [] terminator = Trap Fault"
| "strnlen_terminator_loop (Suc n) (c # str) terminator =
     (if c = 0 \<or> c = terminator then Ret 0
      else bindx (strnlen_terminator_loop n str terminator) (\<lambda>i. Ret (i + 1)))"

definition strnlen_terminator :: "u8 list \<Rightarrow> int \<Rightarrow> u8 \<Rightarrow> int exec" where
  "strnlen_terminator str mx terminator = strnlen_terminator_loop (nat mx) str terminator"

fun istrncmp_loop :: "nat \<Rightarrow> u8 list \<Rightarrow> u8 list \<Rightarrow> int exec" where
  "istrncmp_loop 0 s1 s2 = Ret 0"
| "istrncmp_loop (Suc n) (u1 # s1) (u2 # s2) =
     (if u1 \<noteq> u2 \<and> tolower u1 \<noteq> tolower u2 then Ret (int (unat u1) - int (unat u2))
      else if u1 = 0 then Ret 0 else istrncmp_loop n s1 s2)"
| "istrncmp_loop (Suc n) _ _ = Trap Fault"

definition istrncmp :: "u8 list \<Rightarrow> u8 list \<Rightarrow> int \<Rightarrow> int exec" where
  "istrncmp s1 s2 n = istrncmp_loop (nat n) s1 s2"

fun strncmp_loop :: "nat \<Rightarrow> u8 list \<Rightarrow> u8 list \<Rightarrow> int exec" where
  "strncmp_loop 0 str1 str2 = Ret 0"
| "strncmp_loop (Suc n) (u1 # str1) (u2 # str2) =
     (if u1 \<noteq> u2 then Ret (int (unat u1) - int (unat u2))
      else if u1 = 0 then Ret 0 else strncmp_loop n str1 str2)"
| "strncmp_loop (Suc n) _ _ = Trap Fault"

definition strncmp :: "u8 list \<Rightarrow> u8 list \<Rightarrow> int \<Rightarrow> int exec" where
  "strncmp str1 str2 n = strncmp_loop (nat n) str1 str2"

text \<open>A store \<open>dest[i] = c\<close> into an object.\<close>

definition put_byte :: "u8 list \<Rightarrow> nat \<Rightarrow> u8 \<Rightarrow> u8 list exec" where
  "put_byte dest i c = (if i < length dest then Ret (dest[i := c]) else Trap Fault)"

text \<open>\<open>i\<close> is how far both pointers have advanced; the result is the object \<open>dest\<close> points to.\<close>

fun strcpy_loop :: "u8 list \<Rightarrow> nat \<Rightarrow> u8 list \<Rightarrow> u8 list exec" where
  "strcpy_loop dest i [] = Trap Fault"
| "strcpy_loop dest i (c # src) =
     (if c \<noteq> 0 then bindx (put_byte dest i c) (\<lambda>dest. strcpy_loop dest (Suc i) src)
      else put_byte dest i 0)"

definition strcpy :: "u8 list \<Rightarrow> u8 list \<Rightarrow> u8 list exec" where
  "strcpy dest src = strcpy_loop dest 0 src"

text \<open>\<open>n\<close> is what is left of \<open>count - 1\<close>; the last clause is the loop's read past the source.\<close>

fun strncpy_loop :: "nat \<Rightarrow> u8 list \<Rightarrow> nat \<Rightarrow> u8 list \<Rightarrow> u8 list exec" where
  "strncpy_loop 0 dest i src = put_byte dest i 0"
| "strncpy_loop (Suc n) dest i (c # src) =
     (if c = 0 then put_byte dest i 0
      else bindx (put_byte dest i c) (\<lambda>dest. strncpy_loop n dest (Suc i) src))"
| "strncpy_loop (Suc n) dest i [] = Trap Fault"

definition strncpy :: "u8 list \<Rightarrow> u8 list \<Rightarrow> int \<Rightarrow> u8 list exec" where
  "strncpy dest src count = strncpy_loop (nat (count - 1)) dest 0 src"

definition isdigit :: "u8 \<Rightarrow> bool" where
  "isdigit c \<longleftrightarrow> sint c \<ge> 48 \<and> sint c \<le> 57"

definition tonumericdigit :: "u8 \<Rightarrow> int" where
  "tonumericdigit c = sint c - 48"

section \<open>The C string of an object\<close>

definition cstr :: "u8 list \<Rightarrow> u8 list" where
  "cstr = takeWhile (\<lambda>c. c \<noteq> 0)"

definition terminated :: "u8 list \<Rightarrow> bool" where
  "terminated s \<longleftrightarrow> 0 \<in> set s"

lemma cstr_simps [simp]:
  "cstr [] = []" "cstr (c # s) = (if c = 0 then [] else c # cstr s)"
  "\<not> terminated []" "terminated (c # s) \<longleftrightarrow> c = 0 \<or> terminated s"
  by (auto simp: cstr_def terminated_def)

lemma cstr_length: "terminated s \<Longrightarrow> length (cstr s) < length s"
  by (induction s) auto

lemma cstr_nonzero: "0 \<notin> set (cstr s)"
  by (induction s) auto

lemma cstr_append: "0 \<notin> set xs \<Longrightarrow> cstr (xs @ s) = xs @ cstr s"
  by (induction xs) auto

lemma terminated_append_zero [simp]: "terminated (xs @ 0 # s)"
  by (simp add: terminated_def)

lemma strlen_run: "strlen s = (if terminated s then Ret (int (length (cstr s))) else Trap Fault)"
  by (induction s) auto

lemma strnlen_run:
  "terminated s \<or> nat n \<le> length s \<Longrightarrow> strnlen s n = Ret (int (min (nat n) (length (cstr s))))"
proof -
  have "terminated s \<or> k \<le> length s \<Longrightarrow> strnlen_loop k s = Ret (int (min k (length (cstr s))))" for k
    by (induction k s rule: strnlen_loop.induct) auto
  then show "terminated s \<or> nat n \<le> length s \<Longrightarrow> ?thesis" by (simp add: strnlen_def)
qed

lemma isdigit_iff: "isdigit c \<longleftrightarrow> 48 \<le> uint c \<and> uint c \<le> 57"
  using uint8_less [of c] by (auto simp: isdigit_def sint8)

lemma isdigit_value: "isdigit c \<Longrightarrow> tonumericdigit c = uint c - 48"
  by (simp add: isdigit_iff tonumericdigit_def sint8)

lemma strcpy_loop_run:
  assumes "terminated src" and "i + length (cstr src) < length dest"
  shows "strcpy_loop dest i src = Ret (take i dest @ cstr src @ 0 # drop (Suc (i + length (cstr src))) dest)"
  using assms
proof (induction src arbitrary: dest i)
  case Nil
  then show ?case by simp
next
  case (Cons c src)
  then show ?case
  proof (cases "c = 0")
    case True
    with Cons.prems show ?thesis by (simp add: put_byte_def upd_conv_take_nth_drop)
  next
    case False
    then have "strcpy_loop (dest[i := c]) (Suc i) src =
        Ret (take (Suc i) (dest[i := c]) @ cstr src @ 0 # drop (Suc (Suc i + length (cstr src))) (dest[i := c]))"
      using Cons by (intro Cons.IH) simp_all
    with False Cons.prems show ?thesis
      by (simp add: put_byte_def take_Suc_conv_app_nth)
  qed
qed

lemma strncpy_loop_run:
  assumes "terminated src \<or> n \<le> length src" and "i + min n (length (cstr src)) < length dest"
  shows "strncpy_loop n dest i src =
    Ret (take i dest @ take n (cstr src) @ 0 # drop (Suc (i + min n (length (cstr src)))) dest)"
  using assms
proof (induction n dest i src rule: strncpy_loop.induct)
  case (1 dest i src)
  then show ?case by (simp add: put_byte_def upd_conv_take_nth_drop)
next
  case (2 n dest i c src)
  show ?case
  proof (cases "c = 0")
    case True
    with 2 show ?thesis by (simp add: put_byte_def upd_conv_take_nth_drop)
  next
    case False
    with 2(2,3) have "i < length dest" by auto
    with False have "strncpy_loop n (dest[i := c]) (Suc i) src =
        Ret (take (Suc i) (dest[i := c]) @ take n (cstr src) @ 0 # drop (Suc (Suc i + min n (length (cstr src)))) (dest[i := c]))"
      using 2 by (intro 2(1)) (auto simp: put_byte_def)
    with False \<open>i < length dest\<close> show ?thesis
      by (simp add: put_byte_def take_Suc_conv_app_nth)
  qed
next
  case (3 n dest i)
  then show ?case by simp
qed

lemma tolower_zero [simp]: "tolower c = 0 \<longleftrightarrow> c = 0"
proof -
  have "uint (c + 32) = uint c + 32" if "uint c \<le> 90"
    using that uint_ge_0 [of c] by (simp add: uint_word_ariths)
  then show ?thesis
    using uint8_less [of c] by (auto simp: tolower_def sint8 word_uint_eq_iff split: if_splits)
qed

lemma unat_diff_zero: "int (unat a) - int (unat b) = 0 \<longleftrightarrow> a = b" for a b :: u8
  by (simp add: word_uint_eq_iff)

lemma strncmp_loop_zero:
  "terminated s \<or> n \<le> length s \<Longrightarrow> terminated t \<or> n \<le> length t \<Longrightarrow>
    \<exists>r. strncmp_loop n s t = Ret r \<and> (r = 0 \<longleftrightarrow> take n (cstr s) = take n (cstr t))"
proof (induction n s t rule: strncmp_loop.induct)
  case (2 n u1 str1 u2 str2)
  then show ?case using unat_diff_zero [of u1 u2] by (cases "u1 = u2") (auto simp del: of_nat_unat)
qed auto

lemma istrncmp_loop_zero:
  "terminated s \<or> n \<le> length s \<Longrightarrow> terminated t \<or> n \<le> length t \<Longrightarrow>
    \<exists>r. istrncmp_loop n s t = Ret r \<and>
      (r = 0 \<longleftrightarrow> map tolower (take n (cstr s)) = map tolower (take n (cstr t)))"
proof (induction n s t rule: istrncmp_loop.induct)
  case (2 n u1 str1 u2 str2)
  show ?case
  proof (cases "tolower u1 = tolower u2")
    case True
    then have "u1 = 0 \<longleftrightarrow> u2 = 0" by (metis tolower_zero)
    with 2 True show ?thesis by (auto simp del: of_nat_unat)
  next
    case False
    then have "u1 \<noteq> u2" by auto
    with False show ?thesis using unat_diff_zero [of u1 u2] by (auto simp del: of_nat_unat)
  qed
qed auto

section \<open>Properties\<close>

text \<open>
  Bounded copy. With a positive \<open>count\<close> no larger than the destination, \<open>strncpy\<close> stays inside the
  destination, which then holds at most \<open>count - 1\<close> bytes of the source string and a terminator;
  the bytes after the terminator are kept (it does not pad).
\<close>

lemma strncpy_bounded:
  assumes "0 < count" and "nat count \<le> length dest" and "terminated src \<or> nat count \<le> length src"
  shows "\<exists>d. strncpy dest src count = Ret d \<and> length d = length dest \<and> terminated d \<and>
    cstr d = take (nat count - 1) (cstr src) \<and>
    drop (Suc (length (cstr d))) d = drop (Suc (length (cstr d))) dest"
proof -
  let ?n = "nat (count - 1)" and ?k = "min (nat (count - 1)) (length (cstr src))"
  have n: "?n = nat count - 1" "?k < length dest" using assms(1,2) by auto
  define d where "d = take ?n (cstr src) @ 0 # drop (Suc ?k) dest"
  have "strncpy dest src count = Ret d"
    using strncpy_loop_run [of src ?n 0 dest] assms n by (force simp: strncpy_def d_def)
  moreover have "0 \<notin> set (take ?n (cstr src))" using cstr_nonzero in_set_takeD by metis
  then have "cstr d = take ?n (cstr src)" by (simp add: d_def cstr_append)
  moreover have "length d = length dest" using n(2) by (simp add: d_def)
  moreover have "terminated d" by (simp add: d_def)
  moreover have "length (take ?n (cstr src)) = ?k" by simp
  moreover have "drop (Suc (length xs)) (xs @ 0 # ys) = ys" for xs ys :: "u8 list" by simp
  from this [of "take ?n (cstr src)"] have "drop (Suc (length (take ?n (cstr src)))) d = drop (Suc ?k) dest"
    unfolding d_def .
  ultimately show ?thesis using n(1) by metis
qed

text \<open>
  Comparison. On two strings of which each is terminated or at least \<open>n\<close> long, \<open>strncmp\<close> returns
  zero exactly when the strings agree in their first \<open>n\<close> characters, and \<open>istrncmp\<close> exactly when they
  agree there up to the case of ASCII letters.
\<close>

lemma strncmp_zero_iff:
  assumes "terminated s \<or> nat n \<le> length s" and "terminated t \<or> nat n \<le> length t"
  shows "(\<exists>r. strncmp s t n = Ret r \<and> (r = 0 \<longleftrightarrow> take (nat n) (cstr s) = take (nat n) (cstr t))) \<and>
    (\<exists>r. istrncmp s t n = Ret r \<and>
       (r = 0 \<longleftrightarrow> map tolower (take (nat n) (cstr s)) = map tolower (take (nat n) (cstr t))))"
  using strncmp_loop_zero [OF assms] istrncmp_loop_zero [OF assms] by (simp add: strncmp_def istrncmp_def)

end
