(* ===== verification/Path_Parser.thy ===== *)
theory Path_Parser
  imports Paging C_String
begin

text \<open>
  The path parser, \<open>src/src/fs/pparser.c\<close>. A path \<open>0:/bin/a.bin\<close> becomes a \<open>path_root\<close> structure with
  the drive number and a linked list of \<open>path_part\<close> structures with the components. Structures and
  component strings are taken from the kernel heap: their addresses come from \<open>kzalloc\<close>, their
  contents are in a heap per type, a partial map from addresses; a released object leaves the map,
  and an access through a null or released pointer is a \<open>Fault\<close>.
\<close>

section \<open>pparser.h\<close>

record path_part =
  pp_part :: u32
  pp_next :: u32

record path_root =
  pr_drive_no :: int
  pr_first :: u32

record path_machine = pg_machine +
  strings :: "u32 \<rightharpoonup> u8 list"
  path_parts :: "u32 \<rightharpoonup> path_part"
  path_roots :: "u32 \<rightharpoonup> path_root"

definition derefx :: "(u32 \<rightharpoonup> 'o) \<Rightarrow> u32 \<Rightarrow> 'o exec" where
  "derefx h p = (case h p of None \<Rightarrow> Trap Fault | Some x \<Rightarrow> Ret x)"

section \<open>pparser.c\<close>

text \<open>The \<open>&&\<close> stops at the first test that fails; the bytes of \<open>:/\<close> are 0x3A and 0x2F.\<close>

definition pathparser_path_valid_format :: "u8 list \<Rightarrow> bool exec" where
  "pathparser_path_valid_format filename =
     bindx (strnlen filename MAEROS_MAX_PATH) (\<lambda>len.
       if \<not> len \<ge> 3 then Ret False
       else if \<not> isdigit (filename ! 0) then Ret False
       else bindx (memcmp (drop 1 filename) [0x3A, 0x2F, 0] 2) (\<lambda>c. Ret (c = 0)))"

text \<open>The pointer the caller passes by reference is returned.\<close>

definition pathparser_get_drive_by_path :: "u8 list \<Rightarrow> (int \<times> u8 list) exec" where
  "pathparser_get_drive_by_path path =
     bindx (pathparser_path_valid_format path) (\<lambda>ok.
       if \<not> ok then Ret (- EBADPATH, path)
       else Ret (tonumericdigit (path ! 0), drop 3 path))"

definition pathparser_create_root :: "int \<Rightarrow> 'a path_machine_scheme \<Rightarrow> (u32 \<times> 'a path_machine_scheme) exec" where
  "pathparser_create_root drive_number st =
     (let (path_r, st) = kzalloc 8 st
      in if path_r = 0 then Trap Fault
         else Ret (path_r, st\<lparr>path_roots := (path_roots st)
                (path_r \<mapsto> \<lparr>pr_drive_no = drive_number, pr_first = 0\<rparr>)\<rparr>))"

text \<open>The copying loop: the counter, the buffer and the path when it stops.\<close>

fun path_part_loop :: "u8 list \<Rightarrow> nat \<Rightarrow> u8 list \<Rightarrow> (nat \<times> u8 list \<times> u8 list) exec" where
  "path_part_loop [] i result = Trap Fault"
| "path_part_loop (c # path) i result =
     (if c \<noteq> 0x2F \<and> c \<noteq> 0x00
      then bindx (put_byte result i c) (\<lambda>result. path_part_loop path (Suc i) result)
      else Ret (i, result, c # path))"

text \<open>A null result of \<open>kzalloc\<close> is not an object, so that every store into it is a \<open>Fault\<close>.\<close>

definition pathparser_get_path_part ::
  "u8 list \<Rightarrow> 'a path_machine_scheme \<Rightarrow> (u32 \<times> u8 list \<times> 'a path_machine_scheme) exec" where
  "pathparser_get_path_part path st =
     (let (result_path_part, st) = kzalloc MAEROS_MAX_PATH st
      in bindx (path_part_loop path 0 (if result_path_part = 0 then [] else replicate MAEROS_MAX_PATH 0))
           (\<lambda>(i, buf, path).
             let path = (if hd path = 0x2F then tl path else path)
             in if i = 0 then Ret (0, path, kfree result_path_part st)
                else Ret (result_path_part, path, st\<lparr>strings := (strings st)(result_path_part \<mapsto> buf)\<rparr>)))"

definition pathparser_parse_path_part ::
  "u32 \<Rightarrow> u8 list \<Rightarrow> 'a path_machine_scheme \<Rightarrow> (u32 \<times> u8 list \<times> 'a path_machine_scheme) exec" where
  "pathparser_parse_path_part last_part path st =
     bindx (pathparser_get_path_part path st) (\<lambda>(path_part_str, path, st).
       if path_part_str = 0 then Ret (0, path, st)
       else
         let (part, st) = kzalloc 8 st
         in if part = 0 then Trap Fault
            else
              let st = st\<lparr>path_parts := (path_parts st)(part \<mapsto> \<lparr>pp_part = path_part_str, pp_next = 0\<rparr>)\<rparr>
              in if last_part \<noteq> 0
                 then bindx (derefx (path_parts st) last_part) (\<lambda>l.
                        Ret (part, path, st\<lparr>path_parts := (path_parts st)(last_part \<mapsto> l\<lparr>pp_next := part\<rparr>)\<rparr>))
                 else Ret (part, path, st))"

text \<open>The list may be cyclic in a corrupted heap: \<open>fuel\<close> bounds the rounds of the loop.\<close>

primrec pathparser_free_loop :: "nat \<Rightarrow> u32 \<Rightarrow> 'a path_machine_scheme \<Rightarrow> 'a path_machine_scheme exec" where
  "pathparser_free_loop 0 part st = Trap Diverge"
| "pathparser_free_loop (Suc fuel) part st =
     (if part = 0 then Ret st
      else bindx (derefx (path_parts st) part) (\<lambda>p.
        let next_part = pp_next p;
            st = kfree (pp_part p) (st\<lparr>strings := (strings st)(pp_part p := None)\<rparr>);
            st = kfree part (st\<lparr>path_parts := (path_parts st)(part := None)\<rparr>)
        in pathparser_free_loop fuel next_part st))"

definition pathparser_free :: "nat \<Rightarrow> u32 \<Rightarrow> 'a path_machine_scheme \<Rightarrow> 'a path_machine_scheme exec" where
  "pathparser_free fuel root st =
     bindx (derefx (path_roots st) root) (\<lambda>r.
       bindx (pathparser_free_loop fuel (pr_first r) st) (\<lambda>st.
         Ret (kfree root (st\<lparr>path_roots := (path_roots st)(root := None)\<rparr>))))"

lemma path_part_loop_shorter:
  "path_part_loop path i buf = Ret (j, buf', path') \<Longrightarrow>
    i \<le> j \<and> length path' + j = length path + i \<and> path' \<noteq> []"
proof (induction path arbitrary: i buf)
  case (Cons c path)
  show ?case
  proof (cases "c \<noteq> 0x2F \<and> c \<noteq> 0")
    case True
    with Cons.prems obtain b where "path_part_loop path (Suc i) b = Ret (j, buf', path')" by auto
    from Cons.IH [OF this] show ?thesis by simp
  qed (use Cons.prems in auto)
qed simp

lemma parse_path_part_shorter:
  assumes "pathparser_parse_path_part l path st = Ret (part, path', st')" and "part \<noteq> 0"
  shows "length path' < length path"
proof -
  obtain s st1 where g: "pathparser_get_path_part path st = Ret (s, path', st1)" and "s \<noteq> 0"
    using assms by (auto simp: pathparser_parse_path_part_def Let_def split: prod.splits if_splits)
  then obtain j buf p where "0 < j" and l: "path_part_loop path 0 buf = Ret (j, p)" and
    "length path' \<le> length (snd p)"
    by (auto simp: pathparser_get_path_part_def Let_def split: prod.splits if_splits)
  with path_part_loop_shorter [of path 0 buf j "fst p" "snd p"] show ?thesis by simp
qed

text \<open>The loop that parses the second and later components.\<close>

function pathparser_parse_rest ::
  "u32 \<Rightarrow> u8 list \<Rightarrow> 'a path_machine_scheme \<Rightarrow> 'a path_machine_scheme exec" where
  "pathparser_parse_rest part path st =
     bindx (pathparser_parse_path_part part path st) (\<lambda>(part, path, st).
       if part = 0 then Ret st else pathparser_parse_rest part path st)"
  by pat_completeness auto
termination
  by (relation "measure (\<lambda>(part, path, st). length path)") (auto dest: parse_path_part_shorter)

declare pathparser_parse_rest.simps [simp del]

text \<open>The second parameter of the source is not used by its body. The result is the root or null.\<close>

definition pathparser_parse :: "u8 list \<Rightarrow> 'a path_machine_scheme \<Rightarrow> (u32 \<times> 'a path_machine_scheme) exec" where
  "pathparser_parse path st =
     bindx (strlen path) (\<lambda>len.
       if len > MAEROS_MAX_PATH then Ret (0, st)
       else bindx (pathparser_get_drive_by_path path) (\<lambda>(res, tmp_path).
         if res < 0 then Ret (0, st)
         else bindx (pathparser_create_root res st) (\<lambda>(root, st).
           if root = 0 then Ret (0, st)
           else bindx (pathparser_parse_path_part 0 tmp_path st) (\<lambda>(first_part, tmp_path, st).
             if first_part = 0 then Ret (root, st)
             else bindx (derefx (path_roots st) root) (\<lambda>r.
               let st = st\<lparr>path_roots := (path_roots st)(root \<mapsto> r\<lparr>pr_first := first_part\<rparr>)\<rparr>
               in bindx (pathparser_parse_rest first_part tmp_path st) (\<lambda>st. Ret (root, st)))))))"

section \<open>Components of a path\<close>

text \<open>The components the parser sees: the text is cut at slashes, up to the first empty piece.\<close>

function components :: "u8 list \<Rightarrow> u8 list list" where
  "components s =
     (let w = takeWhile (\<lambda>c. c \<noteq> 0x2F) s
      in if w = [] then [] else w # components (drop (Suc (length w)) s))"
  by pat_completeness auto
termination
  by (relation "measure length") (auto simp: takeWhile_eq_Nil_iff)

declare components.simps [simp del]

fun join :: "u8 list list \<Rightarrow> u8 list" where
  "join [] = []"
| "join [w] = w"
| "join (w # ws) = w @ 0x2F # join ws"

lemma takeWhile_slash:
  "0x2F \<notin> set w \<Longrightarrow> takeWhile (\<lambda>c. c \<noteq> 0x2F) (w @ 0x2F # s) = w"
  "0x2F \<notin> set w \<Longrightarrow> takeWhile (\<lambda>c. c \<noteq> 0x2F) w = w"
  for w :: "u8 list"
  by (induction w) auto

lemma components_join:
  "\<forall>w \<in> set ws. w \<noteq> [] \<and> 0x2F \<notin> set w \<Longrightarrow> components (join ws) = ws"
proof (induction ws rule: join.induct)
  case (2 w)
  then show ?case by (subst components.simps) (simp add: takeWhile_slash components.simps [of "[]"])
next
  case (3 w v ws)
  then show ?case by (subst components.simps) (simp add: takeWhile_slash)
qed (simp add: components.simps)

lemma components_length: "length (components s) \<le> length s"
proof (induction s rule: components.induct)
  case (1 s)
  let ?w = "takeWhile (\<lambda>c. c \<noteq> 0x2F) s"
  show ?case
  proof (cases "?w = []")
    case False
    have "length ?w \<le> length s" by (rule length_takeWhile_le)
    with 1 [OF refl False] False show ?thesis
      by (subst components.simps) (simp add: Let_def length_greater_0_conv [symmetric] del: length_greater_0_conv)
  qed (simp add: components.simps)
qed

section \<open>One component\<close>

lemma path_part_loop_run:
  assumes "terminated path" and "i + length (takeWhile (\<lambda>c. c \<noteq> 0x2F) (cstr path)) \<le> length buf"
  shows "path_part_loop path i buf =
    (let w = takeWhile (\<lambda>c. c \<noteq> 0x2F) (cstr path)
     in Ret (i + length w, take i buf @ w @ drop (i + length w) buf, drop (length w) path))"
  using assms
proof (induction path arbitrary: i buf)
  case (Cons c path)
  show ?case
  proof (cases "c = 0 \<or> c = 0x2F")
    case False
    then have "path_part_loop path (Suc i) (buf[i := c]) =
        (let w = takeWhile (\<lambda>c. c \<noteq> 0x2F) (cstr path)
         in Ret (Suc i + length w, take (Suc i) (buf[i := c]) @ w @ drop (Suc i + length w) (buf[i := c]), drop (length w) path))"
      using Cons.prems by (intro Cons.IH) auto
    with False Cons.prems show ?thesis by (simp add: put_byte_def Let_def take_Suc_conv_app_nth)
  qed auto
qed simp

text \<open>What is left of the path after a component and the slash behind it.\<close>

definition rest_of :: "u8 list \<Rightarrow> u8 list" where
  "rest_of path =
     (let p = drop (length (takeWhile (\<lambda>c. c \<noteq> 0x2F) (cstr path))) path
      in if hd p = 0x2F then tl p else p)"

lemma rest_of_cstr:
  "terminated path \<Longrightarrow> terminated (rest_of path) \<and>
    cstr (rest_of path) = drop (Suc (length (takeWhile (\<lambda>c. c \<noteq> 0x2F) (cstr path)))) (cstr path)"
  by (induction path) (auto simp: rest_of_def Let_def)

lemma kheap_rel_path [simp]:
  "kheap_rel (st\<lparr>strings := s\<rparr>) A = kheap_rel st A" "kheap_rel (st\<lparr>path_parts := p\<rparr>) A = kheap_rel st A"
  "kheap_rel (st\<lparr>path_roots := r\<rparr>) A = kheap_rel st A"
  by (simp_all add: kheap_rel_def)

definition buffer :: "u8 list \<Rightarrow> u8 list" where
  "buffer w = w @ replicate (108 - length w) 0"

lemma get_path_part_empty:
  assumes "kheap_rel st A" and "0 < free_blocks A" and "terminated path"
    and "takeWhile (\<lambda>c. c \<noteq> 0x2F) (cstr path) = []"
  shows "\<exists>m. pathparser_get_path_part path st = Ret (0, rest_of path, st\<lparr>pmem := m\<rparr>) \<and> kheap_rel (st\<lparr>pmem := m\<rparr>) A"
proof -
  obtain f m where F: "kzalloc 108 st = (kblock f, st\<lparr>pmem := m\<rparr>)" "A f = None" "f < KBLOCKS"
    "kheap_rel (st\<lparr>pmem := m\<rparr>) (A(f \<mapsto> 1))"
    using kzalloc_one [OF assms(1), of 108] assms(2) by auto
  have "(A(f \<mapsto> 1))(f := None) = A" using F(2) by auto
  then have "kheap_rel (kfree (kblock f) (st\<lparr>pmem := m\<rparr>)) A"
    using kfree_run(1) [OF F(4), of f 1] by simp
  moreover have "pathparser_get_path_part path st = Ret (0, rest_of path, kfree (kblock f) (st\<lparr>pmem := m\<rparr>))"
    using F path_part_loop_run [OF assms(3), of 0 "replicate 108 0"] assms(4)
    by (simp add: pathparser_get_path_part_def rest_of_def)
  ultimately show ?thesis by (auto simp: kfree_def)
qed

lemma get_path_part_run:
  assumes "kheap_rel st A" and "0 < free_blocks A" and "terminated path" and "length w \<le> 108" and "w \<noteq> []"
    and w: "w = takeWhile (\<lambda>c. c \<noteq> 0x2F) (cstr path)"
  shows "\<exists>f m. pathparser_get_path_part path st =
      Ret (kblock f, rest_of path, st\<lparr>pmem := m, strings := (strings st)(kblock f \<mapsto> buffer w)\<rparr>) \<and>
    A f = None \<and> f < KBLOCKS \<and> kheap_rel (st\<lparr>pmem := m\<rparr>) (A(f \<mapsto> 1)) \<and>
    free_blocks (A(f \<mapsto> 1)) = free_blocks A - 1"
proof -
  obtain f m where F: "kzalloc 108 st = (kblock f, st\<lparr>pmem := m\<rparr>)" "A f = None" "f < KBLOCKS"
    "kheap_rel (st\<lparr>pmem := m\<rparr>) (A(f \<mapsto> 1))" "free_blocks (A(f \<mapsto> 1)) = free_blocks A - 1"
    using kzalloc_one [OF assms(1), of 108] assms(2) by auto
  have "path_part_loop path 0 (replicate 108 0) = Ret (length w, buffer w, drop (length w) path)"
    using path_part_loop_run [OF assms(3), of 0 "replicate 108 0"] assms(4) by (simp add: w buffer_def Let_def)
  then show ?thesis
    using F assms(5) by (intro exI [of _ f] exI [of _ m]) (simp add: pathparser_get_path_part_def rest_of_def w)
qed

section \<open>The linked list\<close>

text \<open>
  \<open>chain h p ns\<close>: the structures from \<open>p\<close> on are exactly the nodes \<open>ns\<close>, each given by the heap block
  of the structure and the block of its string.
\<close>

fun chain :: "(u32 \<rightharpoonup> path_part) \<Rightarrow> u32 \<Rightarrow> (nat \<times> nat) list \<Rightarrow> bool" where
  "chain h p [] \<longleftrightarrow> p = 0"
| "chain h p ((a, q) # ns) \<longleftrightarrow> p = kblock a \<and> a < KBLOCKS \<and> q < KBLOCKS \<and>
     (case h p of None \<Rightarrow> False | Some x \<Rightarrow> pp_part x = kblock q \<and> chain h (pp_next x) ns)"

definition blocks_of :: "(nat \<times> nat) list \<Rightarrow> nat list" where
  "blocks_of ns = map fst ns @ map snd ns"

lemma blocks_of_simps [simp]:
  "blocks_of [] = []" "set (blocks_of ((a, q) # ns)) = insert a (insert q (set (blocks_of ns)))"
  "distinct (blocks_of ((a, q) # ns)) \<longleftrightarrow>
     a \<noteq> q \<and> a \<notin> set (blocks_of ns) \<and> q \<notin> set (blocks_of ns) \<and> distinct (blocks_of ns)"
  by (auto simp: blocks_of_def)

lemma chain_less: "chain h p ns \<Longrightarrow> b \<in> set (blocks_of ns) \<Longrightarrow> b < KBLOCKS"
  by (induction h p ns rule: chain.induct) (auto split: option.splits)

lemma chain_cong:
  "chain h p ns \<Longrightarrow> (\<And>a. a \<in> set (map fst ns) \<Longrightarrow> h' (kblock a) = h (kblock a)) \<Longrightarrow> chain h' p ns"
  by (induction h p ns rule: chain.induct) (auto split: option.splits)

lemma parse_path_part_empty:
  assumes "kheap_rel st A" and "0 < free_blocks A" and "terminated path" and "components (cstr path) = []"
  shows "\<exists>m. pathparser_parse_path_part l path st = Ret (0, rest_of path, st\<lparr>pmem := m\<rparr>) \<and> kheap_rel (st\<lparr>pmem := m\<rparr>) A"
proof -
  have "takeWhile (\<lambda>c. c \<noteq> 0x2F) (cstr path) = []"
    using assms(4) by (subst (asm) components.simps) (simp add: Let_def split: if_splits)
  from get_path_part_empty [OF assms(1-3) this] show ?thesis
    by (auto simp: pathparser_parse_path_part_def)
qed

text \<open>The state after one component, with the new structure in block \<open>a\<close> and its string in block \<open>q\<close>.\<close>

definition with_part :: "mem \<Rightarrow> nat \<Rightarrow> nat \<Rightarrow> u8 list \<Rightarrow> 'a path_machine_scheme \<Rightarrow> 'a path_machine_scheme" where
  "with_part m a q w st = st\<lparr>pmem := m, strings := (strings st)(kblock q \<mapsto> buffer w),
     path_parts := (path_parts st)(kblock a \<mapsto> \<lparr>pp_part = kblock q, pp_next = 0\<rparr>)\<rparr>"

definition link_to :: "u32 \<Rightarrow> u32 \<Rightarrow> 'a path_machine_scheme \<Rightarrow> 'a path_machine_scheme" where
  "link_to l p st = (if l = 0 then st
     else st\<lparr>path_parts := (path_parts st)(l := map_option (pp_next_update (\<lambda>_. p)) (path_parts st l))\<rparr>)"

lemma parse_path_part_run:
  assumes rel: "kheap_rel st A" and free: "2 \<le> free_blocks A" and path: "terminated path" "length (cstr path) \<le> 108"
    and w: "components (cstr path) = w # ws" and l: "l = 0 \<or> path_parts st l \<noteq> None"
  shows "\<exists>a q m. pathparser_parse_path_part l path st =
      Ret (kblock a, rest_of path, link_to l (kblock a) (with_part m a q w st)) \<and>
    A a = None \<and> A q = None \<and> a \<noteq> q \<and> a < KBLOCKS \<and> q < KBLOCKS \<and>
    kheap_rel (st\<lparr>pmem := m\<rparr>) (grant A {a, q}) \<and> free_blocks (grant A {a, q}) = free_blocks A - 2 \<and>
    components (cstr (rest_of path)) = ws"
proof -
  let ?w = "takeWhile (\<lambda>c. c \<noteq> 0x2F) (cstr path)"
  have "w # ws = (if ?w = [] then [] else ?w # components (drop (Suc (length ?w)) (cstr path)))"
    using w components.simps [of "cstr path"] by (simp only: Let_def)
  then have W: "w = ?w" "w \<noteq> []" "ws = components (drop (Suc (length ?w)) (cstr path))"
    by (simp_all split: if_splits)
  have "length ?w \<le> 108" using length_takeWhile_le [of _ "cstr path"] path(2) by (rule order.trans)
  then have "length w \<le> 108" using W(1) by (simp only:)
  moreover have "0 < free_blocks A" using free by simp
  ultimately obtain q m where Q: "pathparser_get_path_part path st =
      Ret (kblock q, rest_of path, st\<lparr>pmem := m, strings := (strings st)(kblock q \<mapsto> buffer w)\<rparr>)"
    "A q = None" "q < KBLOCKS" "kheap_rel (st\<lparr>pmem := m\<rparr>) (A(q \<mapsto> 1))" "free_blocks (A(q \<mapsto> 1)) = free_blocks A - 1"
    using get_path_part_run [OF rel _ path(1) _ W(2,1)] by blast
  let ?st = "st\<lparr>pmem := m, strings := (strings st)(kblock q \<mapsto> buffer w)\<rparr>"
  have "kheap_rel ?st (A(q \<mapsto> 1))" using Q(4) by (simp add: kheap_rel_def)
  moreover have "0 < free_blocks (A(q \<mapsto> 1))" using Q(5) free by linarith
  ultimately obtain a m' where P: "kzalloc 8 ?st = (kblock a, ?st\<lparr>pmem := m'\<rparr>)" "(A(q \<mapsto> 1)) a = None" "a < KBLOCKS"
    "kheap_rel (?st\<lparr>pmem := m'\<rparr>) (A(q \<mapsto> 1, a \<mapsto> 1))" "free_blocks (A(q \<mapsto> 1, a \<mapsto> 1)) = free_blocks (A(q \<mapsto> 1)) - 1"
    using kzalloc_one [of ?st "A(q \<mapsto> 1)" 8] by auto
  have a: "A a = None" "a \<noteq> q" using P(2) by (auto split: if_splits)
  have g: "A(q \<mapsto> 1, a \<mapsto> 1) = grant A {a, q}" by (auto simp: grant_def)
  have "pathparser_parse_path_part l path st =
      Ret (kblock a, rest_of path, link_to l (kblock a) (with_part m' a q w st))"
    using Q(1,3) P(1,3) l by (auto simp: pathparser_parse_path_part_def with_part_def link_to_def derefx_def)
  moreover have "kheap_rel (st\<lparr>pmem := m'\<rparr>) (grant A {a, q})" using P(4) unfolding g by (simp add: kheap_rel_def)
  moreover have "components (cstr (rest_of path)) = ws"
    using rest_of_cstr [OF path(1)] W(3) by simp
  moreover have "free_blocks (grant A {a, q}) = free_blocks A - 2" using P(5) Q(5) free unfolding g by linarith
  ultimately show ?thesis using Q(2,3) P(3) a by blast
qed

section \<open>The whole path\<close>

definition built :: "'a path_machine_scheme \<Rightarrow> u32 \<Rightarrow> (nat \<times> nat) list \<Rightarrow> u8 list list \<Rightarrow> bool" where
  "built st p ns ws \<longleftrightarrow> chain (path_parts st) p ns \<and> distinct (blocks_of ns) \<and>
     map (\<lambda>n. strings st (kblock (snd n))) ns = map (\<lambda>w. Some (buffer w)) ws"

definition keeps :: "nat set \<Rightarrow> 'a path_machine_scheme \<Rightarrow> 'a path_machine_scheme \<Rightarrow> bool" where
  "keeps S st st' \<longleftrightarrow> path_roots st' = path_roots st \<and>
     (\<forall>b < KBLOCKS. b \<notin> S \<longrightarrow> path_parts st' (kblock b) = path_parts st (kblock b) \<and>
        strings st' (kblock b) = strings st (kblock b))"

lemma grant_union: "grant (grant A S) T = grant A (S \<union> T)"
  by (auto simp: grant_def)

lemma parse_rest_run:
  assumes "kheap_rel st A" and "2 * length (components (cstr path)) < free_blocks A"
    and "terminated path" and "length (cstr path) \<le> 108"
    and "path_parts st (kblock l) = Some \<lparr>pp_part = kblock q, pp_next = 0\<rparr>"
    and "A l \<noteq> None" "A q \<noteq> None" "l < KBLOCKS" "q < KBLOCKS" "l \<noteq> q"
    and "strings st (kblock q) = Some (buffer w)"
  shows "\<exists>ns st'. pathparser_parse_rest (kblock l) path st = Ret st' \<and>
    built st' (kblock l) ((l, q) # ns) (w # components (cstr path)) \<and>
    (\<forall>b \<in> set (blocks_of ns). A b = None) \<and> kheap_rel st' (grant A (set (blocks_of ns))) \<and>
    keeps (insert l (set (blocks_of ns))) st st'"
  using assms
proof (induction "length path" arbitrary: path st A l q w rule: less_induct)
  case less
  show ?case
  proof (cases "components (cstr path)")
    case Nil
    then obtain m where "pathparser_parse_path_part (kblock l) path st = Ret (0, rest_of path, st\<lparr>pmem := m\<rparr>)"
      "kheap_rel (st\<lparr>pmem := m\<rparr>) A"
      using parse_path_part_empty [OF less.prems(1) _ less.prems(3)] less.prems(2) by auto
    then have "pathparser_parse_rest (kblock l) path st = Ret (st\<lparr>pmem := m\<rparr>)"
      by (subst pathparser_parse_rest.simps) simp
    moreover have "grant A {} = A" by (simp add: grant_def)
    ultimately show ?thesis
      using less.prems(5-11) \<open>kheap_rel (st\<lparr>pmem := m\<rparr>) A\<close> Nil
      by (intro exI [of _ "[]"]) (simp add: built_def keeps_def blocks_of_def)
  next
    case (Cons v vs)
    obtain a r m where R: "pathparser_parse_path_part (kblock l) path st =
        Ret (kblock a, rest_of path, link_to (kblock l) (kblock a) (with_part m a r v st))"
      "A a = None" "A r = None" "a \<noteq> r" "a < KBLOCKS" "r < KBLOCKS"
      "kheap_rel (st\<lparr>pmem := m\<rparr>) (grant A {a, r})" "free_blocks (grant A {a, r}) = free_blocks A - 2"
      "components (cstr (rest_of path)) = vs"
      using parse_path_part_run [OF less.prems(1) _ less.prems(3,4) Cons, of "kblock l"] less.prems(2,5) Cons by auto
    let ?st = "link_to (kblock l) (kblock a) (with_part m a r v st)" and ?A = "grant A {a, r}"
    have ne: "a \<noteq> l" "a \<noteq> q" "r \<noteq> l" "r \<noteq> q" using R(2,3) less.prems(6,7) by auto
    have shorter: "length (rest_of path) < length path"
      using parse_path_part_shorter [OF R(1)] R(5) by simp
    have "terminated (rest_of path)" "length (cstr (rest_of path)) \<le> 108"
      using rest_of_cstr [OF less.prems(3)] less.prems(4) by simp_all
    moreover have "kheap_rel ?st ?A"
      using R(7) by (simp add: with_part_def link_to_def kheap_rel_def)
    moreover have "2 * length (components (cstr (rest_of path))) < free_blocks ?A"
      using less.prems(2) R(8,9) Cons by simp
    ultimately obtain ns st' where I: "pathparser_parse_rest (kblock a) (rest_of path) ?st = Ret st'"
      "built st' (kblock a) ((a, r) # ns) (v # components (cstr (rest_of path)))"
      "\<forall>b \<in> set (blocks_of ns). ?A b = None" "kheap_rel st' (grant ?A (set (blocks_of ns)))"
      "keeps (insert a (set (blocks_of ns))) ?st st'"
      using less.hyps [OF shorter, of ?st ?A a r v] R(4-6) ne less.prems(8) 
      by (auto simp: with_part_def link_to_def grant_def kblock_inj)
    have new: "b \<noteq> l" "b \<noteq> q" "A b = None" "b \<noteq> a" "b \<noteq> r" if "b \<in> set (blocks_of ns)" for b
      using I(3) that less.prems(6,7) by (auto simp: grant_def split: if_splits)
    have st: "path_parts ?st (kblock l) = Some \<lparr>pp_part = kblock q, pp_next = kblock a\<rparr>"
      "strings ?st (kblock q) = Some (buffer w)"
      using less.prems(5,8,9,11) R(5,6) ne by (simp_all add: with_part_def link_to_def kblock_inj)
    have "path_parts st' (kblock l) = path_parts ?st (kblock l)" "strings st' (kblock q) = strings ?st (kblock q)"
      using I(5) new ne less.prems(8,9) unfolding keeps_def by blast+
    with st I(2) less.prems(6-10) ne new R(9) Cons
    have "built st' (kblock l) ((l, q) # (a, r) # ns) (w # components (cstr path))"
      unfolding built_def by auto
    moreover have "keeps (insert l (set (blocks_of ((a, r) # ns)))) st st'"
      using I(5) R(5,6) less.prems(8) by (auto simp: keeps_def with_part_def link_to_def kblock_inj)
    moreover have "kheap_rel st' (grant A (set (blocks_of ((a, r) # ns))))"
      using I(4) by (simp add: grant_union insert_commute)
    moreover have "pathparser_parse_rest (kblock l) path st = Ret st'"
      using R(1,5) I(1) by (subst pathparser_parse_rest.simps) simp
    ultimately show ?thesis using new R(2,3) by (intro exI [of _ "(a, r) # ns"] exI [of _ st']) auto
  qed
qed

lemma chain_free_run:
  assumes "kheap_rel st A" and "chain (path_parts st) p ns" and "distinct (blocks_of ns)"
    and "\<forall>b \<in> set (blocks_of ns). A b = Some 1" and "length ns < fuel"
  shows "\<exists>st'. pathparser_free_loop fuel p st = Ret st' \<and> kheap_rel st' (revoke A (set (blocks_of ns))) \<and>
    path_roots st' = path_roots st"
  using assms
proof (induction ns arbitrary: st A p fuel)
  case Nil
  then obtain f where "fuel = Suc f" by (cases fuel) auto
  moreover have "revoke A {} = A" by (simp add: revoke_def)
  ultimately show ?case using Nil by simp
next
  case (Cons n ns)
  obtain a q f where n: "n = (a, q)" "fuel = Suc f" using Cons.prems(5) by (cases n, cases fuel) auto
  with Cons.prems(2) obtain x where x: "p = kblock a" "a < KBLOCKS" "q < KBLOCKS"
    "path_parts st (kblock a) = Some x" "pp_part x = kblock q" "chain (path_parts st) (pp_next x) ns"
    by (auto split: option.splits)
  let ?st1 = "kfree (kblock q) (st\<lparr>strings := (strings st)(kblock q := None)\<rparr>)"
  let ?st2 = "kfree (kblock a) (?st1\<lparr>path_parts := (path_parts ?st1)(kblock a := None)\<rparr>)"
  let ?A = "A(q := None, a := None)"
  have A: "A q = Some 1" "(A(q := None)) a = Some 1" using Cons.prems(3,4) n(1) by auto
  have rel: "kheap_rel ?st2 ?A"
    using kfree_run(1) [of "?st1\<lparr>path_parts := (path_parts ?st1)(kblock a := None)\<rparr>" "A(q := None)" a 1] A
      kfree_run(1) [of "st\<lparr>strings := (strings st)(kblock q := None)\<rparr>" A q 1] Cons.prems(1) by simp
  have p2: "path_parts ?st2 = (path_parts st)(kblock a := None)" by (simp add: kfree_def)
  have c: "chain (path_parts ?st2) (pp_next x) ns" unfolding p2
  proof (rule chain_cong [OF x(6)])
    fix b assume "b \<in> set (map fst ns)"
    then have "b \<noteq> a" "b < KBLOCKS"
      using Cons.prems(3) n(1) chain_less [OF x(6), of b] by (auto simp: blocks_of_def)
    then show "((path_parts st)(kblock a := None)) (kblock b) = path_parts st (kblock b)"
      using x(2) by (simp add: kblock_inj)
  qed
  have d: "distinct (blocks_of ns)" "\<forall>b \<in> set (blocks_of ns). ?A b = Some 1" "length ns < f"
    using Cons.prems(3-5) n by auto
  obtain st' where I: "pathparser_free_loop f (pp_next x) ?st2 = Ret st'"
    "kheap_rel st' (revoke ?A (set (blocks_of ns)))" "path_roots st' = path_roots ?st2"
    using Cons.IH [OF rel c d] by blast
  have "revoke ?A (set (blocks_of ns)) = revoke A (set (blocks_of (n # ns)))"
    by (auto simp: revoke_def n(1))
  with I x show ?case by (intro exI [of _ st']) (simp add: n derefx_def Let_def kfree_def)
qed

text \<open>A well-formed path text: a digit, \<open>:/\<close>, at most 108 bytes in all.\<close>

definition valid_path :: "u8 list \<Rightarrow> bool" where
  "valid_path path \<longleftrightarrow> terminated path \<and> 3 \<le> length (cstr path) \<and> length (cstr path) \<le> 108 \<and>
     isdigit (path ! 0) \<and> path ! 1 = 0x3A \<and> path ! 2 = 0x2F"

lemma split3: "3 \<le> length xs \<Longrightarrow> \<exists>a b c ys. xs = a # b # c # ys"
  by (cases xs; cases "tl xs"; cases "tl (tl xs)") auto

lemma valid_format_run:
  assumes "terminated path" and "length (cstr path) \<le> 108"
  shows "pathparser_path_valid_format path = Ret (valid_path path)"
proof (cases "3 \<le> length (cstr path)")
  case True
  then have "3 \<le> length path" using cstr_length [OF assms(1)] by simp
  then obtain a b c ys where "path = a # b # c # ys" using split3 by blast
  with True show ?thesis
    using assms strnlen_run [of path 108]
    by (simp add: pathparser_path_valid_format_def valid_path_def memcmp_def numeral_2_eq_2 numeral_3_eq_3)
next
  case False
  then show ?thesis
    using assms strnlen_run [of path 108] by (simp add: pathparser_path_valid_format_def valid_path_def)
qed

lemma valid_path_drop:
  assumes "valid_path path"
  shows "terminated (drop 3 path)" and "cstr (drop 3 path) = drop 3 (cstr path)"
proof -
  have "3 \<le> length (cstr path)" "terminated path" using assms by (simp_all add: valid_path_def)
  then show "terminated (drop 3 path)" and "cstr (drop 3 path) = drop 3 (cstr path)"
    by (cases path; cases "tl path"; cases "tl (tl path)"; auto split: if_splits)+
qed

text \<open>A root structure in block \<open>r\<close> with the list of components \<open>ws\<close>, on blocks that are all live.\<close>

definition path_repr :: "'a path_machine_scheme \<Rightarrow> nat \<Rightarrow> int \<Rightarrow> (nat \<times> nat) list \<Rightarrow> u8 list list \<Rightarrow> bool" where
  "path_repr st r drive ns ws \<longleftrightarrow>
     (case path_roots st (kblock r) of None \<Rightarrow> False
      | Some x \<Rightarrow> pr_drive_no x = drive \<and> built st (pr_first x) ns ws) \<and> r < KBLOCKS \<and> r \<notin> set (blocks_of ns)"

lemma create_root_run:
  assumes "kheap_rel st A" and "0 < free_blocks A"
  shows "\<exists>r m. pathparser_create_root d st =
      Ret (kblock r, st\<lparr>pmem := m, path_roots := (path_roots st)(kblock r \<mapsto> \<lparr>pr_drive_no = d, pr_first = 0\<rparr>)\<rparr>) \<and>
    A r = None \<and> r < KBLOCKS \<and> kheap_rel (st\<lparr>pmem := m\<rparr>) (A(r \<mapsto> 1)) \<and>
    free_blocks (A(r \<mapsto> 1)) = free_blocks A - 1"
proof -
  obtain r m where "kzalloc 8 st = (kblock r, st\<lparr>pmem := m\<rparr>)" "A r = None" "r < KBLOCKS"
    "kheap_rel (st\<lparr>pmem := m\<rparr>) (A(r \<mapsto> 1))" "free_blocks (A(r \<mapsto> 1)) = free_blocks A - 1"
    using kzalloc_one [OF assms(1), of 8] assms(2) by auto
  then show ?thesis by (intro exI [of _ r] exI [of _ m]) (simp add: pathparser_create_root_def)
qed

lemma parse_run:
  assumes rel: "kheap_rel st A" and v: "valid_path path"
    and free: "2 * length (components (drop 3 (cstr path))) + 1 < free_blocks A"
  shows "\<exists>r ns st'. pathparser_parse path st = Ret (kblock r, st') \<and>
    path_repr st' r (uint (path ! 0) - 48) ns (components (drop 3 (cstr path))) \<and>
    (\<forall>b \<in> insert r (set (blocks_of ns)). A b = None) \<and>
    kheap_rel st' (grant A (insert r (set (blocks_of ns))))"
proof -
  let ?d = "uint (path ! 0) - 48" and ?p = "drop 3 path"
  have t: "terminated path" "length (cstr path) \<le> 108" "isdigit (path ! 0)" using v by (simp_all add: valid_path_def)
  note p = valid_path_drop [OF v]
  have drive: "pathparser_get_drive_by_path path = Ret (?d, ?p)" "0 \<le> ?d"
    using v t isdigit_value [OF t(3)] by (simp_all add: pathparser_get_drive_by_path_def valid_format_run isdigit_iff)
  obtain r m where C: "pathparser_create_root ?d st =
      Ret (kblock r, st\<lparr>pmem := m, path_roots := (path_roots st)(kblock r \<mapsto> \<lparr>pr_drive_no = ?d, pr_first = 0\<rparr>)\<rparr>)"
    "A r = None" "r < KBLOCKS" "kheap_rel (st\<lparr>pmem := m\<rparr>) (A(r \<mapsto> 1))" "free_blocks (A(r \<mapsto> 1)) = free_blocks A - 1"
    using create_root_run [OF rel] free by (metis gr_zeroI not_less_zero)
  let ?st = "st\<lparr>pmem := m, path_roots := (path_roots st)(kblock r \<mapsto> \<lparr>pr_drive_no = ?d, pr_first = 0\<rparr>)\<rparr>"
  have g: "A(r \<mapsto> 1) = grant A {r}" by (auto simp: grant_def)
  have R: "kheap_rel ?st (grant A {r})" using C(4) unfolding g by (simp add: kheap_rel_def)
  have start: "pathparser_parse path st =
      bindx (pathparser_parse_path_part 0 ?p ?st) (\<lambda>(first_part, tmp_path, st).
             if first_part = 0 then Ret (kblock r, st)
             else bindx (derefx (path_roots st) (kblock r)) (\<lambda>x.
               let st = st\<lparr>path_roots := (path_roots st)(kblock r \<mapsto> x\<lparr>pr_first := first_part\<rparr>)\<rparr>
               in bindx (pathparser_parse_rest first_part tmp_path st) (\<lambda>st. Ret (kblock r, st))))"
    using t drive C(1,3) by (simp add: pathparser_parse_def strlen_run)
  show ?thesis
  proof (cases "components (drop 3 (cstr path))")
    case Nil
    have "0 < free_blocks (grant A {r})" using C(5) free unfolding g by simp
    then obtain m' where "pathparser_parse_path_part 0 ?p ?st = Ret (0, rest_of ?p, ?st\<lparr>pmem := m'\<rparr>)"
      "kheap_rel (?st\<lparr>pmem := m'\<rparr>) (grant A {r})"
      using parse_path_part_empty [OF R _ p(1)] Nil p(2) by auto
    with start C(2,3) Nil show ?thesis
      by (intro exI [of _ r] exI [of _ "[]"] exI [of _ "?st\<lparr>pmem := m'\<rparr>"]) (simp add: path_repr_def built_def)
  next
    case (Cons w ws)
    have "2 \<le> free_blocks (grant A {r})" "length (cstr ?p) \<le> 108" using C(5) free t(2) p(2) Cons unfolding g by simp_all
    then obtain a q m' where P: "pathparser_parse_path_part 0 ?p ?st = Ret (kblock a, rest_of ?p, with_part m' a q w ?st)"
      "grant A {r} a = None" "grant A {r} q = None" "a \<noteq> q" "a < KBLOCKS" "q < KBLOCKS"
      "kheap_rel (?st\<lparr>pmem := m'\<rparr>) (grant (grant A {r}) {a, q})"
      "free_blocks (grant (grant A {r}) {a, q}) = free_blocks (grant A {r}) - 2" "components (cstr (rest_of ?p)) = ws"
      using parse_path_part_run [OF R _ p(1), of w ws 0] Cons p(2) by (auto simp: link_to_def)
    let ?s0 = "with_part m' a q w ?st"
    let ?s1 = "?s0\<lparr>path_roots := (path_roots ?s0)(kblock r \<mapsto> \<lparr>pr_drive_no = ?d, pr_first = kblock a\<rparr>)\<rparr>"
    let ?A = "grant (grant A {r}) {a, q}"
    have rest: "terminated (rest_of ?p)" "length (cstr (rest_of ?p)) \<le> 108"
      using rest_of_cstr [OF p(1)] p(2) t(2) by simp_all
    have rel1: "kheap_rel ?s1 ?A" using P(7) by (simp add: with_part_def kheap_rel_def)
    have enough: "2 * length (components (cstr (rest_of ?p))) < free_blocks ?A"
      using P(8,9) C(5) free Cons unfolding g by simp
    obtain ns st' where N: "pathparser_parse_rest (kblock a) (rest_of ?p) ?s1 = Ret st'"
      "built st' (kblock a) ((a, q) # ns) (w # ws)" "\<forall>b \<in> set (blocks_of ns). ?A b = None"
      "kheap_rel st' (grant ?A (set (blocks_of ns)))" "keeps (insert a (set (blocks_of ns))) ?s1 st'"
      using parse_rest_run [OF rel1 enough rest, of a q w] P(4-6,9)
      by (auto simp: with_part_def grant_def)
    have "path_roots st' (kblock r) = Some \<lparr>pr_drive_no = ?d, pr_first = kblock a\<rparr>"
      using N(5) by (simp add: keeps_def)
    moreover have fresh: "\<forall>b \<in> set (blocks_of ((a, q) # ns)). A b = None \<and> b \<noteq> r"
      using N(3) P(2,3) by (auto simp: grant_def split: if_splits)
    ultimately have "path_repr st' r ?d ((a, q) # ns) (components (drop 3 (cstr path)))"
      using N(2) C(3) Cons by (auto simp: path_repr_def)
    moreover have "pathparser_parse path st = Ret (kblock r, st')"
      unfolding start using P(1,5) N(1) by (simp add: derefx_def with_part_def Let_def)
    moreover have "kheap_rel st' (grant A (insert r (set (blocks_of ((a, q) # ns)))))"
      using N(4) by (simp add: grant_union insert_commute)
    ultimately show ?thesis
      using fresh C(2) by (intro exI [of _ r] exI [of _ "(a, q) # ns"] exI [of _ st'] conjI) simp_all
  qed
qed

lemma free_run:
  assumes "kheap_rel st (grant A (insert r (set (blocks_of ns))))" and "path_repr st r d ns ws"
    and "\<forall>b \<in> insert r (set (blocks_of ns)). A b = None" and "length ns < fuel"
  shows "\<exists>st'. pathparser_free fuel (kblock r) st = Ret st' \<and> kheap_rel st' A"
proof -
  let ?G = "grant A (insert r (set (blocks_of ns)))"
  obtain x where x: "path_roots st (kblock r) = Some x" "built st (pr_first x) ns ws"
    and r: "r < KBLOCKS" "r \<notin> set (blocks_of ns)"
    using assms(2) by (auto simp: path_repr_def split: option.splits)
  then obtain st1 where S: "pathparser_free_loop fuel (pr_first x) st = Ret st1"
    "kheap_rel st1 (revoke ?G (set (blocks_of ns)))" "path_roots st1 = path_roots st"
    using chain_free_run [OF assms(1), of "pr_first x" ns fuel] assms(4) by (auto simp: built_def grant_def)
  let ?st = "st1\<lparr>path_roots := (path_roots st1)(kblock r := None)\<rparr>"
  have "revoke ?G (set (blocks_of ns)) r = Some 1" using r by (simp add: revoke_def grant_def)
  with kfree_run(1) [of ?st "revoke ?G (set (blocks_of ns))" r 1] S(2)
  have "kheap_rel (kfree (kblock r) ?st) (revoke ?G (insert r (set (blocks_of ns))))"
    by (simp add: revoke_insert)
  then have "kheap_rel (kfree (kblock r) ?st) A" by (simp only: revoke_grant [OF assms(3)])
  with S x show ?thesis by (simp add: pathparser_free_def derefx_def)
qed

section \<open>Properties\<close>

text \<open>
  C20. Parsing. For a valid path and enough free blocks \<open>pathparser_parse\<close> returns a root structure with
  the drive number and a linked list whose strings are the components of the text after \<open>0:/\<close>, cut at
  slashes up to the first empty component; structures and strings lie in blocks that were free.
\<close>

theorem pathparser_parse_splits:
  assumes "kheap_rel st A" and "valid_path path"
    and "2 * length (components (drop 3 (cstr path))) + 1 < free_blocks A"
  shows "\<exists>r ns st'. pathparser_parse path st = Ret (kblock r, st') \<and>
    path_repr st' r (uint (path ! 0) - 48) ns (components (drop 3 (cstr path))) \<and>
    (\<forall>b \<in> insert r (set (blocks_of ns)). A b = None) \<and>
    kheap_rel st' (grant A (insert r (set (blocks_of ns))))"
  using assms by (rule parse_run)

definition demo_path_machine :: path_machine where
  "demo_path_machine = \<lparr>pmem = \<lambda>_. 0, kernel_heap = kernel_heap_value, current_directory = 0, cr3 = 0,
     strings = Map.empty, path_parts = Map.empty, path_roots = Map.empty\<rparr>"

lemma demo_path_rel: "kheap_rel demo_path_machine Map.empty"
  using demo_machine_rel by (simp add: kheap_rel_def demo_path_machine_def demo_machine_def)

definition demo_path :: "u8 list" where
  "demo_path = [0x30, 0x3A, 0x2F, 0x61, 0x2F, 0x62, 0x63, 0]"

lemma demo_path_valid: "valid_path demo_path" "components (drop 3 (cstr demo_path)) = [[0x61], [0x62, 0x63]]"
  by (simp_all add: valid_path_def demo_path_def isdigit_def components.simps)

theorem pathparser_parse_splits_witness:
  "\<exists>r ns st'. pathparser_parse demo_path demo_path_machine = Ret (kblock r, st') \<and>
     path_repr st' r 0 ns [[0x61], [0x62, 0x63]]"
proof -
  have "demo_path ! 0 = 0x30" by (simp add: demo_path_def)
  then show ?thesis
    using pathparser_parse_splits [OF demo_path_rel demo_path_valid(1)]
    unfolding demo_path_valid(2) demo_free_blocks by auto
qed

text \<open>
  Rejected paths. A terminated text that is longer than 108 bytes or does not start with a digit and
  \<open>:/\<close> gives the null pointer, and nothing is allocated.
\<close>

lemma pathparser_parse_rejects:
  assumes "terminated path" and "\<not> valid_path path"
  shows "pathparser_parse path st = Ret (0, st)"
proof (cases "length (cstr path) \<le> 108")
  case True
  then show ?thesis
    using assms valid_format_run [OF assms(1) True]
    by (simp add: pathparser_parse_def strlen_run pathparser_get_drive_by_path_def)
next
  case False
  then show ?thesis using assms(1) by (simp add: pathparser_parse_def strlen_run)
qed

text \<open>
  C19. Round trip. Components without slashes and zero bytes, written behind \<open>0:/\<close> with slashes between
  them, are parsed back to themselves; \<open>pathparser_free\<close> then returns to the heap everything the
  parser took.
\<close>

theorem pathparser_roundtrip:
  assumes "kheap_rel st A" and "isdigit d"
    and "\<forall>w \<in> set ws. w \<noteq> [] \<and> 0x2F \<notin> set w \<and> 0 \<notin> set w" and "length (join ws) \<le> 105"
    and "2 * length ws + 1 < free_blocks A"
  shows "\<exists>r ns st'. pathparser_parse ([d, 0x3A, 0x2F] @ join ws @ [0]) st = Ret (kblock r, st') \<and>
    path_repr st' r (uint d - 48) ns ws \<and>
    (\<exists>st''. pathparser_free (length ws + 1) (kblock r) st' = Ret st'' \<and> kheap_rel st'' A)"
proof -
  let ?p = "[d, 0x3A, 0x2F] @ join ws @ [0]"
  have "0 \<notin> set (join ws)" using assms(3) by (induction ws rule: join.induct) auto
  moreover have "d \<noteq> 0" using assms(2) by (auto simp: isdigit_def)
  ultimately have c: "cstr ?p = [d, 0x3A, 0x2F] @ join ws" by (simp add: cstr_append)
  have "terminated ?p" by (simp add: terminated_def)
  moreover have "?p ! 0 = d" "?p ! 1 = 0x3A" "?p ! 2 = 0x2F" by simp_all
  ultimately have v: "valid_path ?p" using assms(2,4) unfolding valid_path_def c by simp
  have ws: "components (drop 3 (cstr ?p)) = ws"
    using components_join [of ws] assms(3) unfolding c by simp
  obtain r ns st' where P: "pathparser_parse ?p st = Ret (kblock r, st')"
    "path_repr st' r (uint (?p ! 0) - 48) ns ws"
    "\<forall>b \<in> insert r (set (blocks_of ns)). A b = None" "kheap_rel st' (grant A (insert r (set (blocks_of ns))))"
    using parse_run [OF assms(1) v] assms(5) unfolding ws by blast
  have "length ns = length ws"
    using P(2) by (auto simp: path_repr_def built_def split: option.splits dest: map_eq_imp_length_eq)
  then have "\<exists>st''. pathparser_free (length ws + 1) (kblock r) st' = Ret st'' \<and> kheap_rel st'' A"
    using free_run [OF P(4,2,3), of "length ws + 1"] by simp
  moreover have "?p ! 0 = d" by simp
  ultimately show ?thesis using P(1,2) by metis
qed

theorem pathparser_roundtrip_witness:
  "\<exists>r ns st'. pathparser_parse ([0x31, 0x3A, 0x2F] @ join [[0x62], [0x61, 0x2E]] @ [0]) demo_path_machine = Ret (kblock r, st') \<and>
     path_repr st' r 1 ns [[0x62], [0x61, 0x2E]] \<and>
     (\<exists>st''. pathparser_free 3 (kblock r) st' = Ret st'' \<and> kheap_rel st'' Map.empty)"
proof -
  have "length [[0x62], [0x61, 0x2E :: u8]] + 1 = 3" by simp
  then show ?thesis
    using pathparser_roundtrip [OF demo_path_rel, of "0x31" "[[0x62], [0x61, 0x2E]]"]
    unfolding demo_free_blocks by (simp add: isdigit_def del: One_nat_def)
qed

end
