(* ===== verification/Elf_Loader.thy ===== *)
theory Elf_Loader
  imports Path_Parser
begin

text \<open>
  The ELF loader, \<open>src/src/loader/formats/elf.h\<close>, \<open>elf.c\<close> and \<open>elfloader.c\<close>, apart from \<open>elf_load\<close>, which
  reads the file. The image of the file lies in physical memory; its packed structures are decoded
  from there. The structure \<open>elf_file\<close> is a kernel object.
\<close>

section \<open>elf.h\<close>

abbreviation (input) PF_X :: u32 where "PF_X \<equiv> 0x01"
abbreviation (input) PF_W :: u32 where "PF_W \<equiv> 0x02"
abbreviation (input) PF_R :: u32 where "PF_R \<equiv> 0x04"
abbreviation (input) PT_LOAD :: u32 where "PT_LOAD \<equiv> 1"
abbreviation (input) ET_EXEC :: u16 where "ET_EXEC \<equiv> 2"
abbreviation (input) EI_NIDENT :: nat where "EI_NIDENT \<equiv> 16"
abbreviation (input) EI_CLASS :: nat where "EI_CLASS \<equiv> 4"
abbreviation (input) EI_DATA :: nat where "EI_DATA \<equiv> 5"
abbreviation (input) ELFCLASSNONE :: u8 where "ELFCLASSNONE \<equiv> 0"
abbreviation (input) ELFCLASS32 :: u8 where "ELFCLASS32 \<equiv> 1"
abbreviation (input) ELFDATANONE :: u8 where "ELFDATANONE \<equiv> 0"
abbreviation (input) ELFDATA2LSB :: u8 where "ELFDATA2LSB \<equiv> 1"

text \<open>The offsets \<open>elf32_off\<close> are signed in the source and only ever added to addresses.\<close>

record elf32_phdr =
  p_type :: u32
  p_offset :: u32
  p_vaddr :: u32
  p_paddr :: u32
  p_filesz :: u32
  p_memsz :: u32
  p_flags :: u32
  p_align :: u32

record elf32_shdr =
  sh_name :: u32
  sh_type :: u32
  sh_flags :: u32
  sh_addr :: u32
  sh_offset :: u32
  sh_size :: u32
  sh_link :: u32
  sh_info :: u32
  sh_addralign :: u32
  sh_entsize :: u32

record elf_header =
  e_ident :: "u8 list"
  e_type :: u16
  e_machine :: u16
  e_version :: u32
  e_entry :: u32
  e_phoff :: u32
  e_shoff :: u32
  e_flags :: u32
  e_ehsize :: u16
  e_phentsize :: u16
  e_phnum :: u16
  e_shentsize :: u16
  e_shnum :: u16
  e_shstrndx :: u16

text \<open>The packed structures as they lie in memory.\<close>

definition load16 :: "mem \<Rightarrow> u32 \<Rightarrow> u16" where
  "load16 m p = ucast (m p) OR push_bit 8 (ucast (m (p + 1)))"

definition phdr_at :: "mem \<Rightarrow> u32 \<Rightarrow> elf32_phdr" where
  "phdr_at m p = \<lparr>p_type = load32 m p, p_offset = load32 m (p + 4), p_vaddr = load32 m (p + 8),
     p_paddr = load32 m (p + 12), p_filesz = load32 m (p + 16), p_memsz = load32 m (p + 20),
     p_flags = load32 m (p + 24), p_align = load32 m (p + 28)\<rparr>"

definition shdr_at :: "mem \<Rightarrow> u32 \<Rightarrow> elf32_shdr" where
  "shdr_at m p = \<lparr>sh_name = load32 m p, sh_type = load32 m (p + 4), sh_flags = load32 m (p + 8),
     sh_addr = load32 m (p + 12), sh_offset = load32 m (p + 16), sh_size = load32 m (p + 20),
     sh_link = load32 m (p + 24), sh_info = load32 m (p + 28), sh_addralign = load32 m (p + 32),
     sh_entsize = load32 m (p + 36)\<rparr>"

definition header_at :: "mem \<Rightarrow> u32 \<Rightarrow> elf_header" where
  "header_at m p = \<lparr>e_ident = mem_bytes m p EI_NIDENT, e_type = load16 m (p + 16), e_machine = load16 m (p + 18),
     e_version = load32 m (p + 20), e_entry = load32 m (p + 24), e_phoff = load32 m (p + 28),
     e_shoff = load32 m (p + 32), e_flags = load32 m (p + 36), e_ehsize = load16 m (p + 40),
     e_phentsize = load16 m (p + 42), e_phnum = load16 m (p + 44), e_shentsize = load16 m (p + 46),
     e_shnum = load16 m (p + 48), e_shstrndx = load16 m (p + 50)\<rparr>"

section \<open>elf.c\<close>

definition elf_get_entry_ptr :: "mem \<Rightarrow> u32 \<Rightarrow> u32" where
  "elf_get_entry_ptr m header = e_entry (header_at m header)"

definition elf_get_entry :: "mem \<Rightarrow> u32 \<Rightarrow> u32" where
  "elf_get_entry m header = e_entry (header_at m header)"

section \<open>elfloader.h and elfloader.c\<close>

record elf_file =
  ef_filename :: "u8 list"
  ef_in_memory_size :: int
  ef_elf_memory :: u32
  ef_virtual_base_address :: u32
  ef_virtual_end_address :: u32
  ef_physical_base_address :: u32
  ef_physical_end_address :: u32

record elf_machine = path_machine +
  elf_files :: "u32 \<rightharpoonup> elf_file"

definition elf_signature :: "u8 list" where
  "elf_signature = [0x7f, 0x45, 0x4C, 0x46]"

definition elf_valid_signature :: "mem \<Rightarrow> u32 \<Rightarrow> bool" where
  "elf_valid_signature m buf \<longleftrightarrow> memcmp (mem_bytes m buf 4) elf_signature 4 = Ret 0"

definition elf_valid_class :: "mem \<Rightarrow> u32 \<Rightarrow> bool" where
  "elf_valid_class m header \<longleftrightarrow>
     e_ident (header_at m header) ! EI_CLASS = ELFCLASSNONE \<or> e_ident (header_at m header) ! EI_CLASS = ELFCLASS32"

definition elf_valid_encoding :: "mem \<Rightarrow> u32 \<Rightarrow> bool" where
  "elf_valid_encoding m header \<longleftrightarrow>
     e_ident (header_at m header) ! EI_DATA = ELFDATANONE \<or> e_ident (header_at m header) ! EI_DATA = ELFDATA2LSB"

definition elf_is_executable :: "mem \<Rightarrow> u32 \<Rightarrow> bool" where
  "elf_is_executable m header \<longleftrightarrow>
     e_type (header_at m header) = ET_EXEC \<and> e_entry (header_at m header) \<ge> MAEROS_PROGRAM_VIRTUAL_ADDRESS"

definition elf_has_program_header :: "mem \<Rightarrow> u32 \<Rightarrow> bool" where
  "elf_has_program_header m header \<longleftrightarrow> e_phoff (header_at m header) \<noteq> 0"

definition elf_memory :: "elf_file \<Rightarrow> u32" where
  "elf_memory f = ef_elf_memory f"

text \<open>The source's function \<open>elf_header\<close>, which has the name of the structure.\<close>

definition elf_header_of :: "elf_file \<Rightarrow> u32" where
  "elf_header_of f = ef_elf_memory f"

definition elf_sheader :: "mem \<Rightarrow> u32 \<Rightarrow> u32" where
  "elf_sheader m header = header + e_shoff (header_at m header)"

definition elf_pheader :: "mem \<Rightarrow> u32 \<Rightarrow> u32" where
  "elf_pheader m header =
     (if e_phoff (header_at m header) = 0 then 0 else header + e_phoff (header_at m header))"

definition elf_program_header :: "mem \<Rightarrow> u32 \<Rightarrow> int \<Rightarrow> u32" where
  "elf_program_header m header index = elf_pheader m header + 32 * word_of_int index"

definition elf_section :: "mem \<Rightarrow> u32 \<Rightarrow> int \<Rightarrow> u32" where
  "elf_section m header index = elf_sheader m header + 40 * word_of_int index"

definition elf_phdr_phys_address :: "elf_file \<Rightarrow> elf32_phdr \<Rightarrow> u32" where
  "elf_phdr_phys_address f phdr = elf_memory f + p_offset phdr"

definition elf_str_table :: "mem \<Rightarrow> u32 \<Rightarrow> u32" where
  "elf_str_table m header =
     header + sh_offset (shdr_at m (elf_section m header (int (unat (e_shstrndx (header_at m header))))))"

definition elf_virtual_base :: "elf_file \<Rightarrow> u32" where
  "elf_virtual_base f = ef_virtual_base_address f"

definition elf_virtual_end :: "elf_file \<Rightarrow> u32" where
  "elf_virtual_end f = ef_virtual_end_address f"

definition elf_phys_base :: "elf_file \<Rightarrow> u32" where
  "elf_phys_base f = ef_physical_base_address f"

definition elf_phys_end :: "elf_file \<Rightarrow> u32" where
  "elf_phys_end f = ef_physical_end_address f"

definition elf_validate_loaded :: "mem \<Rightarrow> u32 \<Rightarrow> int" where
  "elf_validate_loaded m header =
     (if elf_valid_signature m header \<and> elf_valid_class m header \<and> elf_valid_encoding m header \<and>
         elf_has_program_header m header
      then MAEROS_ALL_OK else - EINFORMAT)"

definition elf_process_phdr_pt_load :: "elf_file \<Rightarrow> elf32_phdr \<Rightarrow> int \<times> elf_file" where
  "elf_process_phdr_pt_load f phdr =
     (let f = (if ef_virtual_base_address f \<ge> p_vaddr phdr \<or> ef_virtual_base_address f = 0
               then f\<lparr>ef_virtual_base_address := p_vaddr phdr,
                      ef_physical_base_address := elf_memory f + p_offset phdr\<rparr>
               else f);
          end_virtual_address = p_vaddr phdr + p_filesz phdr;
          f = (if ef_virtual_end_address f \<le> end_virtual_address \<or> ef_virtual_end_address f = 0
               then f\<lparr>ef_virtual_end_address := end_virtual_address,
                      ef_physical_end_address := elf_memory f + p_offset phdr + p_filesz phdr\<rparr>
               else f)
      in (0, f))"

definition elf_process_pheader :: "elf_file \<Rightarrow> elf32_phdr \<Rightarrow> int \<times> elf_file" where
  "elf_process_pheader f phdr = (if p_type phdr = PT_LOAD then elf_process_phdr_pt_load f phdr else (0, f))"

text \<open>
  The loop over the program headers: \<open>n\<close> rounds are left and the next index is \<open>i\<close>. The
  structure is not part of the image, so the headers stay the same.
\<close>

primrec elf_pheaders_loop :: "nat \<Rightarrow> mem \<Rightarrow> int \<Rightarrow> int \<Rightarrow> elf_file \<Rightarrow> int \<times> elf_file" where
  "elf_pheaders_loop 0 m i res f = (res, f)"
| "elf_pheaders_loop (Suc n) m i res f =
     (let (res, f) = elf_process_pheader f (phdr_at m (elf_program_header m (elf_header_of f) i))
      in if res < 0 then (res, f) else elf_pheaders_loop n m (i + 1) res f)"

definition elf_process_pheaders :: "mem \<Rightarrow> elf_file \<Rightarrow> int \<times> elf_file" where
  "elf_process_pheaders m f = elf_pheaders_loop (unat (e_phnum (header_at m (elf_header_of f)))) m 0 0 f"

definition elf_process_loaded :: "mem \<Rightarrow> elf_file \<Rightarrow> int \<times> elf_file" where
  "elf_process_loaded m f =
     (let res = elf_validate_loaded m (elf_header_of f)
      in if res < 0 then (res, f) else elf_process_pheaders m f)"

definition elf_close :: "u32 \<Rightarrow> 'a elf_machine_scheme \<Rightarrow> 'a elf_machine_scheme exec" where
  "elf_close file st =
     (if file = 0 then Ret st
      else bindx (derefx (elf_files st) file) (\<lambda>f.
        let st = kfree (ef_elf_memory f) st
        in Ret (kfree file (st\<lparr>elf_files := (elf_files st)(file := None)\<rparr>))))"

section \<open>Loadable segments\<close>

text \<open>The program headers of an image, and those that are loaded.\<close>

definition pheaders :: "mem \<Rightarrow> u32 \<Rightarrow> elf32_phdr list" where
  "pheaders m h = map (\<lambda>i. phdr_at m (elf_program_header m h (int i))) [0..<unat (e_phnum (header_at m h))]"

definition loadable :: "elf32_phdr list \<Rightarrow> elf32_phdr list" where
  "loadable ps = filter (\<lambda>p. p_type p = PT_LOAD) ps"

definition load_all :: "elf32_phdr list \<Rightarrow> elf_file \<Rightarrow> elf_file" where
  "load_all ps f = fold (\<lambda>p f. snd (elf_process_phdr_pt_load f p)) ps f"

lemma pt_load_res [simp]: "fst (elf_process_phdr_pt_load f p) = 0"
  by (simp add: elf_process_phdr_pt_load_def Let_def)

lemma pt_load_memory [simp]: "ef_elf_memory (snd (elf_process_phdr_pt_load f p)) = ef_elf_memory f"
  by (simp add: elf_process_phdr_pt_load_def Let_def)

lemma pheaders_loop_run:
  "elf_header_of f = h \<Longrightarrow> elf_pheaders_loop n m (int i) 0 f =
    (0, load_all (loadable (map (\<lambda>i. phdr_at m (elf_program_header m h (int i))) [i..<i + n])) f)"
proof (induction n arbitrary: i f)
  case 0
  then show ?case by (simp add: load_all_def loadable_def)
next
  case (Suc n)
  let ?P = "\<lambda>i. phdr_at m (elf_program_header m h (int i))"
  let ?f = "snd (elf_process_pheader f (?P i))"
  have f: "fst (elf_process_pheader f (?P i)) = 0" "elf_header_of ?f = h"
    using Suc.prems by (simp_all add: elf_process_pheader_def elf_header_of_def)
  have "elf_pheaders_loop (Suc n) m (int i) 0 f = elf_pheaders_loop n m (int (Suc i)) 0 ?f"
    using f(1) Suc.prems by (simp add: add.commute case_prod_beta)
  also have "\<dots> = (0, load_all (loadable (map ?P [Suc i..<Suc i + n])) ?f)"
    using f(2) by (rule Suc.IH)
  also have "load_all (loadable (map ?P [Suc i..<Suc i + n])) ?f = load_all (loadable (map ?P (i # [Suc i..<Suc i + n]))) f"
    by (simp add: load_all_def loadable_def elf_process_pheader_def)
  also have "i # [Suc i..<Suc i + n] = [i..<i + Suc n]" by (simp add: upt_conv_Cons)
  finally show ?case .
qed

lemma process_pheaders_run:
  "elf_process_pheaders m f = (0, load_all (loadable (pheaders m (elf_header_of f))) f)"
  using pheaders_loop_run [of f "elf_header_of f" _ m 0]
  by (simp add: elf_process_pheaders_def pheaders_def)

lemma load_all_simps [simp]:
  "load_all [] f = f" "load_all (p # ps) f = load_all ps (snd (elf_process_phdr_pt_load f p))"
  by (simp_all add: load_all_def)

lemma load_all_memory [simp]: "ef_elf_memory (load_all ps f) = ef_elf_memory f"
  by (induction ps arbitrary: f) simp_all

text \<open>The file records a segment's start or end when it is the one of segment \<open>p\<close>.\<close>

definition base_is :: "elf_file \<Rightarrow> elf32_phdr \<Rightarrow> bool" where
  "base_is f p \<longleftrightarrow> ef_virtual_base_address f = p_vaddr p \<and> ef_physical_base_address f = ef_elf_memory f + p_offset p"

definition end_is :: "elf_file \<Rightarrow> elf32_phdr \<Rightarrow> bool" where
  "end_is f p \<longleftrightarrow> ef_virtual_end_address f = p_vaddr p + p_filesz p \<and>
     ef_physical_end_address f = ef_elf_memory f + p_offset p + p_filesz p"

lemma load_all_base:
  assumes "\<forall>p \<in> set ps. p_vaddr p \<noteq> 0" and "base_is f q" and "p_vaddr q \<noteq> 0"
  shows "\<exists>p \<in> set (q # ps). base_is (load_all ps f) p \<and> (\<forall>r \<in> set (q # ps). p_vaddr p \<le> p_vaddr r)"
  using assms
proof (induction ps arbitrary: f q)
  case (Cons p ps)
  let ?f = "snd (elf_process_phdr_pt_load f p)"
  define q' where "q' = (if p_vaddr p \<le> p_vaddr q then p else q)"
  have "base_is ?f q'" using Cons.prems
    by (auto simp: base_is_def q'_def elf_process_phdr_pt_load_def elf_memory_def Let_def)
  moreover have "p_vaddr q' \<noteq> 0" "\<forall>p \<in> set ps. p_vaddr p \<noteq> 0" using Cons.prems by (simp_all add: q'_def)
  ultimately obtain x where "x \<in> set (q' # ps)" "base_is (load_all ps ?f) x" "\<forall>r \<in> set (q' # ps). p_vaddr x \<le> p_vaddr r"
    using Cons.IH [of ?f q'] by blast
  then show ?case by (intro bexI [of _ x]) (auto simp: q'_def split: if_splits)
qed auto

lemma load_all_end:
  assumes "end_is f q"
  shows "\<exists>p \<in> set (q # ps). end_is (load_all ps f) p \<and>
    (\<forall>r \<in> set (q # ps). p_vaddr r + p_filesz r \<le> p_vaddr p + p_filesz p)"
  using assms
proof (induction ps arbitrary: f q)
  case (Cons p ps)
  let ?f = "snd (elf_process_phdr_pt_load f p)"
  define q' where "q' = (if p_vaddr q + p_filesz q \<le> p_vaddr p + p_filesz p then p else q)"
  have "end_is ?f q'" using Cons.prems
    by (auto simp: end_is_def q'_def elf_process_phdr_pt_load_def elf_memory_def Let_def)
  from Cons.IH [OF this] obtain x where "x \<in> set (q' # ps)" "end_is (load_all ps ?f) x"
    "\<forall>r \<in> set (q' # ps). p_vaddr r + p_filesz r \<le> p_vaddr x + p_filesz x" by blast
  then show ?case by (intro bexI [of _ x]) (auto simp: q'_def split: if_splits)
qed auto

section \<open>Validation\<close>

lemma memcmp_zero: "n \<le> int (length xs) \<Longrightarrow> n \<le> int (length ys) \<Longrightarrow> memcmp xs ys n = Ret 0 \<longleftrightarrow> take (nat n) xs = take (nat n) ys"
  by (simp add: memcmp_def memcmp_loop_zero)

lemma mem_bytes_nth: "i < n \<Longrightarrow> mem_bytes m p n ! i = m (p + of_nat i)"
  by (simp add: mem_bytes_def)

lemma list4_eq: "xs = [a, b, c, d] \<longleftrightarrow> length xs = 4 \<and> xs ! 0 = a \<and> xs ! 1 = b \<and> xs ! 2 = c \<and> xs ! 3 = d"
  by (auto simp: list_eq_iff_nth_eq less_Suc_eq numeral_eq_Suc)

lemma validate_loaded_char:
  "elf_validate_loaded m h =
     (if m h = 0x7f \<and> m (h + 1) = 0x45 \<and> m (h + 2) = 0x4C \<and> m (h + 3) = 0x46 \<and>
         m (h + 4) \<in> {0, 1} \<and> m (h + 5) \<in> {0, 1} \<and> load32 m (h + 28) \<noteq> 0
      then 0 else - EINFORMAT)"
proof -
  have "elf_valid_signature m h \<longleftrightarrow> m h = 0x7f \<and> m (h + 1) = 0x45 \<and> m (h + 2) = 0x4C \<and> m (h + 3) = 0x46"
    using list4_eq [of "mem_bytes m h 4"]
    by (simp add: elf_valid_signature_def memcmp_zero elf_signature_def mem_bytes_nth)
  then show ?thesis
    by (auto simp: elf_validate_loaded_def elf_valid_class_def elf_valid_encoding_def elf_has_program_header_def
        header_at_def mem_bytes_nth)
qed

section \<open>Properties\<close>

text \<open>
  C34. Segment bounds. For a freshly allocated \<open>elf_file\<close> over a valid image with loadable segments, none
  of them at virtual address zero, \<open>elf_process_loaded\<close> records the lowest segment start and the
  highest segment end, each with the physical address of the same byte inside the image.
\<close>

theorem elf_process_loaded_bounds:
  assumes "elf_validate_loaded m (elf_header_of f) = 0" and "loadable (pheaders m (elf_header_of f)) \<noteq> []"
    and "\<forall>p \<in> set (loadable (pheaders m (elf_header_of f))). p_vaddr p \<noteq> 0"
    and "ef_virtual_base_address f = 0" and "ef_virtual_end_address f = 0"
  shows "\<exists>f' p q. elf_process_loaded m f = (0, f') \<and>
    p \<in> set (loadable (pheaders m (elf_header_of f))) \<and> q \<in> set (loadable (pheaders m (elf_header_of f))) \<and>
    elf_virtual_base f' = p_vaddr p \<and> elf_phys_base f' = elf_phdr_phys_address f p \<and>
    elf_virtual_end f' = p_vaddr q + p_filesz q \<and> elf_phys_end f' = elf_phdr_phys_address f q + p_filesz q \<and>
    (\<forall>r \<in> set (loadable (pheaders m (elf_header_of f))).
       p_vaddr p \<le> p_vaddr r \<and> p_vaddr r + p_filesz r \<le> p_vaddr q + p_filesz q)"
proof -
  let ?L = "loadable (pheaders m (elf_header_of f))"
  obtain l ps where L: "?L = l # ps" using assms(2) by (cases ?L) auto
  let ?f = "snd (elf_process_phdr_pt_load f l)"
  have "base_is ?f l" "end_is ?f l"
    using assms(4,5) by (auto simp: base_is_def end_is_def elf_process_phdr_pt_load_def elf_memory_def Let_def)
  moreover have "p_vaddr l \<noteq> 0" "\<forall>p \<in> set ps. p_vaddr p \<noteq> 0" using assms(3) L by auto
  ultimately obtain p q where "p \<in> set ?L" "base_is (load_all ps ?f) p" "\<forall>r \<in> set ?L. p_vaddr p \<le> p_vaddr r"
    "q \<in> set ?L" "end_is (load_all ps ?f) q" "\<forall>r \<in> set ?L. p_vaddr r + p_filesz r \<le> p_vaddr q + p_filesz q"
    using load_all_base [of ps ?f l] load_all_end [of ?f l ps] unfolding L by metis
  moreover have "elf_process_loaded m f = (0, load_all ps ?f)"
    using assms(1) L by (simp add: elf_process_loaded_def process_pheaders_run)
  ultimately show ?thesis
    by (intro exI [of _ "load_all ps ?f"] exI [of _ p] exI [of _ q])
      (simp add: base_is_def end_is_def elf_virtual_base_def elf_phys_base_def elf_virtual_end_def
        elf_phys_end_def elf_phdr_phys_address_def elf_memory_def)
qed

text \<open>A minimal image: one loadable segment of 32 bytes at offset 0x1000, for virtual address 0x400000.\<close>

definition demo_image :: mem where
  "demo_image = (\<lambda>_. 0)(0 := 0x7f, 1 := 0x45, 2 := 0x4C, 3 := 0x46, 4 := 1, 5 := 1, 28 := 52, 44 := 1,
     52 := 1, 57 := 0x10, 62 := 0x40, 68 := 0x20)"

definition demo_elf :: elf_file where
  "demo_elf = \<lparr>ef_filename = [], ef_in_memory_size = 0, ef_elf_memory = 0, ef_virtual_base_address = 0,
     ef_virtual_end_address = 0, ef_physical_base_address = 0, ef_physical_end_address = 0\<rparr>"

lemma demo_image_valid: "elf_validate_loaded demo_image 0 = 0"
  by (simp add: validate_loaded_char load32_def demo_image_def)

lemma demo_image_segment: "pheaders demo_image 0 = [phdr_at demo_image 52]"
  by (simp add: pheaders_def header_at_def load16_def elf_program_header_def elf_pheader_def load32_def demo_image_def)

lemma demo_segment: "p_type (phdr_at demo_image 52) = 1" "p_vaddr (phdr_at demo_image 52) = 0x400000"
  "p_filesz (phdr_at demo_image 52) = 32" "p_offset (phdr_at demo_image 52) = 0x1000"
  by (simp_all add: phdr_at_def load32_def demo_image_def)

theorem elf_process_loaded_bounds_witness:
  "\<exists>f'. elf_process_loaded demo_image demo_elf = (0, f') \<and> elf_virtual_base f' = 0x400000 \<and>
     elf_virtual_end f' = 0x400020 \<and> elf_phys_base f' = 0x1000"
proof -
  have h: "elf_header_of demo_elf = 0" "ef_virtual_base_address demo_elf = 0" "ef_virtual_end_address demo_elf = 0"
    "elf_memory demo_elf = 0"
    by (simp_all add: demo_elf_def elf_header_of_def elf_memory_def)
  show ?thesis
    using elf_process_loaded_bounds [of demo_image demo_elf] demo_image_valid
    by (auto simp: h demo_image_segment demo_segment loadable_def elf_phdr_phys_address_def)
qed

text \<open>
  Validation. An image passes exactly when it starts with the ELF signature, its class and encoding
  bytes are none or 32-bit and little-endian, and it has a program header table; the type and the
  entry point, which \<open>elf_is_executable\<close> looks at, do not matter.
\<close>

lemma elf_validate_loaded_iff:
  "elf_validate_loaded m h =
     (if m h = 0x7f \<and> m (h + 1) = 0x45 \<and> m (h + 2) = 0x4C \<and> m (h + 3) = 0x46 \<and>
         m (h + 4) \<in> {0, 1} \<and> m (h + 5) \<in> {0, 1} \<and> load32 m (h + 28) \<noteq> 0
      then 0 else - EINFORMAT)"
  by (rule validate_loaded_char)

end
