(* ===== verification/Task.thy ===== *)
theory Task
  imports Elf_Loader
begin

text \<open>
  Tasks, \<open>src/src/task/task.c\<close>: the doubly linked list of tasks, creation and release with a page
  directory each, the round-robin choice of the next task, and the accesses to a task's memory
  through its page directory. Task and process structures are kernel objects; page directories are
  in physical memory. \<open>task_return\<close> (assembly) leaves the kernel: the functions that end in it
  return the registers it loads.
\<close>

section \<open>task.h, process.h and the interrupt frame of idt.h\<close>

record registers =
  r_edi :: u32
  r_esi :: u32
  r_ebp :: u32
  r_ebx :: u32
  r_edx :: u32
  r_ecx :: u32
  r_eax :: u32
  r_ip :: u32
  r_cs :: u32
  r_flags :: u32
  r_esp :: u32
  r_ss :: u32

record interrupt_frame =
  i_edi :: u32
  i_esi :: u32
  i_ebp :: u32
  i_reserved :: u32
  i_ebx :: u32
  i_edx :: u32
  i_ecx :: u32
  i_eax :: u32
  i_ip :: u32
  i_cs :: u32
  i_flags :: u32
  i_esp :: u32
  i_ss :: u32

record task =
  t_page_directory :: paging_4gb_chunk
  t_registers :: registers
  t_process :: u32
  t_next :: u32
  t_prev :: u32

abbreviation (input) PROCESS_FILETYPE_ELF :: u8 where "PROCESS_FILETYPE_ELF \<equiv> 0"
abbreviation (input) PROCESS_FILETYPE_BINARY :: u8 where "PROCESS_FILETYPE_BINARY \<equiv> 1"

record process_allocation =
  pa_ptr :: u32
  pa_size :: u32

text \<open>The indices are C integers that the code only reduces modulo the buffer size, as 32-bit values.\<close>

record keyboard_buffer =
  kb_buffer :: "u8 list"
  kb_tail :: u32
  kb_head :: u32

record process_arguments =
  pg_argc :: int
  pg_argv :: u32

text \<open>The union of \<open>ptr\<close> and \<open>elf_file\<close> is one field, the pointer both are.\<close>

record process =
  p_id :: u16
  p_filename :: "u8 list"
  p_task :: u32
  p_allocations :: "process_allocation list"
  p_filetype :: u8
  p_ptr :: u32
  p_stack :: u32
  p_size :: u32
  p_keyboard :: keyboard_buffer
  p_arguments :: process_arguments

text \<open>The globals of \<open>task.c\<close>, the kernel's own chunk of \<open>kernel.c\<close> and the data segment registers.\<close>

record task_machine = elf_machine +
  tasks :: "u32 \<rightharpoonup> task"
  procs :: "u32 \<rightharpoonup> process"
  current_task :: u32
  task_tail :: u32
  task_head :: u32
  kernel_chunk :: paging_4gb_chunk
  data_segments :: u16
  kernel_flags :: u32

definition zero_registers :: registers where
  "zero_registers = \<lparr>r_edi = 0, r_esi = 0, r_ebp = 0, r_ebx = 0, r_edx = 0, r_ecx = 0, r_eax = 0, r_ip = 0,
     r_cs = 0, r_flags = 0, r_esp = 0, r_ss = 0\<rparr>"

definition zero_task :: task where
  "zero_task = \<lparr>t_page_directory = 0, t_registers = zero_registers, t_process = 0, t_next = 0, t_prev = 0\<rparr>"

section \<open>The kernel's page and the user's segments\<close>

text \<open>\<open>kernel_page\<close> of \<open>kernel.c\<close>: the assembly routine \<open>kernel_registers\<close> loads the data selector 0x10.\<close>

definition kernel_page :: "'a task_machine_scheme \<Rightarrow> 'a task_machine_scheme" where
  "kernel_page st = (let st = st\<lparr>data_segments := 0x10\<rparr> in paging_switch (kernel_chunk st) st)"

text \<open>The assembly routine \<open>user_registers\<close> of \<open>task.asm\<close>.\<close>

definition user_registers :: "'a task_machine_scheme \<Rightarrow> 'a task_machine_scheme" where
  "user_registers st = st\<lparr>data_segments := 0x23\<rparr>"

section \<open>task.c\<close>

definition task_get_next :: "'a task_machine_scheme \<Rightarrow> u32 exec" where
  "task_get_next st =
     bindx (derefx (tasks st) (current_task st)) (\<lambda>t.
       if t_next t = 0 then Ret (task_head st) else Ret (t_next t))"

text \<open>The fields of \<open>task\<close> are read again after each store, as the compiled code does.\<close>

definition task_list_remove :: "u32 \<Rightarrow> 'a task_machine_scheme \<Rightarrow> 'a task_machine_scheme exec" where
  "task_list_remove task st =
     bindx (derefx (tasks st) task) (\<lambda>t.
     bindx (if t_prev t \<noteq> 0
            then bindx (derefx (tasks st) (t_prev t)) (\<lambda>p.
                   Ret (st\<lparr>tasks := (tasks st)(t_prev t \<mapsto> p\<lparr>t_next := t_next t\<rparr>)\<rparr>))
            else Ret st) (\<lambda>st.
     bindx (derefx (tasks st) task) (\<lambda>t.
       let st = (if task = task_head st then st\<lparr>task_head := t_next t\<rparr> else st);
           st = (if task = task_tail st then st\<lparr>task_tail := t_prev t\<rparr> else st)
       in if task = current_task st
          then bindx (task_get_next st) (\<lambda>n. Ret (st\<lparr>current_task := n\<rparr>))
          else Ret st)))"

definition task_free :: "u32 \<Rightarrow> 'a task_machine_scheme \<Rightarrow> 'a task_machine_scheme exec" where
  "task_free task st =
     bindx (derefx (tasks st) task) (\<lambda>t.
       let st = paging_free_4gb (t_page_directory t) st
       in bindx (task_list_remove task st) (\<lambda>st.
            Ret (kfree task (st\<lparr>tasks := (tasks st)(task := None)\<rparr>))))"

text \<open>The task object exists; \<open>memset\<close> clears it. The result is \<open>res\<close> and the state.\<close>

definition task_init :: "u32 \<Rightarrow> u32 \<Rightarrow> 'a task_machine_scheme \<Rightarrow> (int \<times> 'a task_machine_scheme) exec" where
  "task_init task process st =
     (let (chunk, st) = paging_new_4gb (PAGING_IS_PRESENT OR PAGING_ACCESS_FROM_ALL) st;
          t = zero_task\<lparr>t_page_directory := chunk\<rparr>;
          st = st\<lparr>tasks := (tasks st)(task \<mapsto> t)\<rparr>
      in if chunk = 0 then Ret (- EIO, st)
         else bindx (derefx (procs st) process) (\<lambda>p.
           bindx (if p_filetype p = PROCESS_FILETYPE_ELF
                  then bindx (derefx (elf_files st) (p_ptr p)) (\<lambda>f.
                         Ret (e_entry (header_at (pmem st) (elf_header_of f))))
                  else Ret MAEROS_PROGRAM_VIRTUAL_ADDRESS) (\<lambda>ip.
             let regs = zero_registers\<lparr>r_ip := ip, r_ss := USER_DATA_SEGMENT, r_cs := USER_CODE_SEGMENT,
                          r_esp := MAEROS_PROGRAM_VIRTUAL_STACK_ADDRESS_START\<rparr>
             in Ret (0, st\<lparr>tasks := (tasks st)(task \<mapsto> t\<lparr>t_registers := regs, t_process := process\<rparr>)\<rparr>))))"

text \<open>
  \<open>sizeof(struct task)\<close> is 64. The result is the task, or the error code cast to a pointer. When the
  allocation fails, the error path calls \<open>task_free\<close> with the null pointer.
\<close>

definition task_new :: "u32 \<Rightarrow> 'a task_machine_scheme \<Rightarrow> (u32 \<times> 'a task_machine_scheme) exec" where
  "task_new process st =
     (let (task, st) = kzalloc 64 st
      in if task = 0 then bindx (task_free 0 st) (\<lambda>st. Ret (word_of_int (- ENOMEM), st))
         else bindx (task_init task process (st\<lparr>tasks := (tasks st)(task \<mapsto> zero_task)\<rparr>)) (\<lambda>(res, st).
           if res \<noteq> MAEROS_ALL_OK
           then (if res < 0 then bindx (task_free task st) (\<lambda>st. Ret (word_of_int res, st)) else Ret (task, st))
           else if task_head st = 0
           then Ret (task, st\<lparr>task_head := task, task_tail := task, current_task := task\<rparr>)
           else bindx (derefx (tasks st) (task_tail st)) (\<lambda>tl.
             let st = st\<lparr>tasks := (tasks st)(task_tail st \<mapsto> tl\<lparr>t_next := task\<rparr>)\<rparr>
             in bindx (derefx (tasks st) task) (\<lambda>t.
               Ret (task, st\<lparr>tasks := (tasks st)(task \<mapsto> t\<lparr>t_prev := task_tail st\<rparr>), task_tail := task\<rparr>)))))"

definition task_switch :: "u32 \<Rightarrow> 'a task_machine_scheme \<Rightarrow> 'a task_machine_scheme exec" where
  "task_switch task st =
     (let st = st\<lparr>current_task := task\<rparr>
      in bindx (derefx (tasks st) task) (\<lambda>t. Ret (paging_switch (t_page_directory t) st)))"

text \<open>
  \<open>task_return\<close> loads the registers of the task and the data segments of its \<open>ss\<close>. The flags it enters with are not
  those of the task but the ones the processor has at that moment, \<open>kernel_flags\<close>, with the interrupt bit set; what
  the code before leaves in them depends on the compiler.
\<close>

definition task_return :: "u32 \<Rightarrow> 'a task_machine_scheme \<Rightarrow> (registers \<times> 'a task_machine_scheme) exec" where
  "task_return task st =
     bindx (derefx (tasks st) task) (\<lambda>t.
       Ret ((t_registers t)\<lparr>r_flags := kernel_flags st OR 0x200\<rparr>, st\<lparr>data_segments := ucast (r_ss (t_registers t))\<rparr>))"

definition task_next :: "'a task_machine_scheme \<Rightarrow> (registers \<times> 'a task_machine_scheme) exec" where
  "task_next st =
     bindx (task_get_next st) (\<lambda>next_task.
       if next_task = 0 then Trap (Panic (''No more tasks!'' @ [CHR 0x0A]))
       else bindx (task_switch next_task st) (\<lambda>st. task_return next_task st))"

definition task_save_state :: "u32 \<Rightarrow> interrupt_frame \<Rightarrow> 'a task_machine_scheme \<Rightarrow> 'a task_machine_scheme exec" where
  "task_save_state task frame st =
     bindx (derefx (tasks st) task) (\<lambda>t.
       Ret (st\<lparr>tasks := (tasks st)(task \<mapsto> t\<lparr>t_registers :=
         \<lparr>r_edi = i_edi frame, r_esi = i_esi frame, r_ebp = i_ebp frame, r_ebx = i_ebx frame,
          r_edx = i_edx frame, r_ecx = i_ecx frame, r_eax = i_eax frame, r_ip = i_ip frame,
          r_cs = i_cs frame, r_flags = i_flags frame, r_esp = i_esp frame, r_ss = i_ss frame\<rparr>\<rparr>)\<rparr>))"

definition task_current_save_state :: "interrupt_frame \<Rightarrow> 'a task_machine_scheme \<Rightarrow> 'a task_machine_scheme exec" where
  "task_current_save_state frame st =
     (if current_task st = 0 then Trap (Panic (''No current task to save'' @ [CHR 0x0A]))
      else task_save_state (current_task st) frame st)"

definition task_page :: "'a task_machine_scheme \<Rightarrow> 'a task_machine_scheme exec" where
  "task_page st = (let st = user_registers st in task_switch (current_task st) st)"

definition task_page_task :: "u32 \<Rightarrow> 'a task_machine_scheme \<Rightarrow> 'a task_machine_scheme exec" where
  "task_page_task task st =
     (let st = user_registers st
      in bindx (derefx (tasks st) task) (\<lambda>t. Ret (paging_switch (t_page_directory t) st)))"

definition task_run_first_ever_task :: "'a task_machine_scheme \<Rightarrow> (registers \<times> 'a task_machine_scheme) exec" where
  "task_run_first_ever_task st =
     (if current_task st = 0 then Trap (Panic (''task_run_first_ever_task(): No current task exists!'' @ [CHR 0x0A]))
      else bindx (task_switch (task_head st) st) (\<lambda>st. task_return (task_head st) st))"

definition task_virtual_address_to_physical :: "u32 \<Rightarrow> u32 \<Rightarrow> 'a task_machine_scheme \<Rightarrow> u32 exec" where
  "task_virtual_address_to_physical task virtual_address st =
     bindx (derefx (tasks st) task) (\<lambda>t.
       Ret (paging_get_physical_address (directory_entry (pmem st) (t_page_directory t)) virtual_address (pmem st)))"

subsection \<open>Accesses through the current page directory\<close>

text \<open>
  The processor translates an address through the directory in \<open>cr3\<close>; an entry whose present bit is
  clear is a page fault.
\<close>

definition translate :: "'a pg_machine_scheme \<Rightarrow> u32 \<Rightarrow> u32 exec" where
  "translate st v =
     (let d = load32 (pmem st) (cell (cr3 st) (dir_index v));
          e = load32 (pmem st) (cell (d AND 0xfffff000) (tab_index v))
      in if \<not> bit d 0 \<or> \<not> bit e 0 then Trap Fault
         else Ret ((e AND 0xfffff000) + of_nat (unat v mod 4096)))"

definition vload :: "'a pg_machine_scheme \<Rightarrow> u32 \<Rightarrow> u8 exec" where
  "vload st v = bindx (translate st v) (\<lambda>p. Ret (pmem st p))"

definition vstore :: "'a pg_machine_scheme \<Rightarrow> u32 \<Rightarrow> u8 \<Rightarrow> 'a pg_machine_scheme exec" where
  "vstore st v c = bindx (translate st v) (\<lambda>p. Ret (st\<lparr>pmem := (pmem st)(p := c)\<rparr>))"

definition vload32 :: "'a pg_machine_scheme \<Rightarrow> u32 \<Rightarrow> u32 exec" where
  "vload32 st v =
     bindx (vload st v) (\<lambda>b0. bindx (vload st (v + 1)) (\<lambda>b1. bindx (vload st (v + 2)) (\<lambda>b2.
     bindx (vload st (v + 3)) (\<lambda>b3.
       Ret (ucast b0 OR push_bit 8 (ucast b1) OR push_bit 16 (ucast b2) OR push_bit 24 (ucast b3))))))"

text \<open>\<open>strncpy\<close> of \<open>string.c\<close> on addresses: \<open>n\<close> is what is left of \<open>count - 1\<close>.\<close>

primrec vstrncpy_loop :: "nat \<Rightarrow> u32 \<Rightarrow> u32 \<Rightarrow> 'a pg_machine_scheme \<Rightarrow> 'a pg_machine_scheme exec" where
  "vstrncpy_loop 0 dest src st = vstore st dest 0"
| "vstrncpy_loop (Suc n) dest src st =
     bindx (vload st src) (\<lambda>c.
       if c = 0 then vstore st dest 0
       else bindx (vstore st dest c) (\<lambda>st. vstrncpy_loop n (dest + 1) (src + 1) st))"

definition vstrncpy :: "u32 \<Rightarrow> u32 \<Rightarrow> int \<Rightarrow> 'a pg_machine_scheme \<Rightarrow> 'a pg_machine_scheme exec" where
  "vstrncpy dest src count st = vstrncpy_loop (nat (count - 1)) dest src st"

definition copy_string_from_task ::
  "u32 \<Rightarrow> u32 \<Rightarrow> u32 \<Rightarrow> int \<Rightarrow> 'a task_machine_scheme \<Rightarrow> (int \<times> 'a task_machine_scheme) exec" where
  "copy_string_from_task task virt phys mx st =
     (if mx \<ge> PAGING_PAGE_SIZE then Ret (- EINVARG, st)
      else
        let (tmp, st) = kzalloc (word_of_int mx) st
        in if tmp = 0 then Ret (- ENOMEM, st)
           else bindx (derefx (tasks st) task) (\<lambda>t.
             let chunk = t_page_directory t;
                 task_directory = directory_entry (pmem st) chunk;
                 old_entry = paging_get task_directory tmp (pmem st);
                 (_, m) = paging_map chunk tmp tmp
                   (PAGING_IS_WRITEABLE OR PAGING_IS_PRESENT OR PAGING_ACCESS_FROM_ALL) (pmem st);
                 st = paging_switch chunk (st\<lparr>pmem := m\<rparr>)
             in bindx (vstrncpy tmp virt mx st) (\<lambda>st.
               let st = kernel_page st;
                   (res, m) = paging_set task_directory tmp old_entry (pmem st);
                   st = st\<lparr>pmem := m\<rparr>
               in if res < 0 then Ret (- EIO, kfree tmp st)
                  else bindx (vstrncpy phys tmp mx st) (\<lambda>st. Ret (res, kfree tmp st)))))"

definition task_get_stack_item :: "u32 \<Rightarrow> int \<Rightarrow> 'a task_machine_scheme \<Rightarrow> (u32 \<times> 'a task_machine_scheme) exec" where
  "task_get_stack_item task index st =
     bindx (derefx (tasks st) task) (\<lambda>t.
       let sp_ptr = r_esp (t_registers t)
       in bindx (task_page_task task st) (\<lambda>st.
            bindx (vload32 st (sp_ptr + 4 * word_of_int index)) (\<lambda>result.
              Ret (result, kernel_page st))))"

section \<open>The list of tasks\<close>

text \<open>\<open>fwd\<close> follows the \<open>next\<close> pointers, \<open>bwd\<close> checks the \<open>prev\<close> pointers.\<close>

fun fwd :: "(u32 \<rightharpoonup> task) \<Rightarrow> u32 \<Rightarrow> u32 list \<Rightarrow> u32 \<Rightarrow> bool" where
  "fwd h p [] q \<longleftrightarrow> p = q"
| "fwd h p (a # ts) q \<longleftrightarrow> p = a \<and> a \<noteq> 0 \<and> (case h a of None \<Rightarrow> False | Some t \<Rightarrow> fwd h (t_next t) ts q)"

fun bwd :: "(u32 \<rightharpoonup> task) \<Rightarrow> u32 \<Rightarrow> u32 list \<Rightarrow> bool" where
  "bwd h p [] \<longleftrightarrow> True"
| "bwd h p (a # ts) \<longleftrightarrow> (case h a of None \<Rightarrow> False | Some t \<Rightarrow> t_prev t = p \<and> bwd h a ts)"

definition last0 :: "u32 list \<Rightarrow> u32" where
  "last0 ts = (if ts = [] then 0 else last ts)"

definition task_list :: "'a task_machine_scheme \<Rightarrow> u32 list \<Rightarrow> bool" where
  "task_list st ts \<longleftrightarrow> distinct ts \<and> fwd (tasks st) (task_head st) ts 0 \<and> bwd (tasks st) 0 ts \<and>
     task_tail st = last0 ts"

lemma fwd_append: "fwd h p (xs @ ys) q \<longleftrightarrow> (\<exists>r. fwd h p xs r \<and> fwd h r ys q)"
  by (induction xs arbitrary: p) (auto split: option.splits)

lemma fwd_cong: "fwd h p ts q \<Longrightarrow> (\<And>a. a \<in> set ts \<Longrightarrow> map_option t_next (h' a) = map_option t_next (h a)) \<Longrightarrow> fwd h' p ts q"
proof (induction ts arbitrary: p)
  case (Cons a ts)
  then obtain t where t: "h a = Some t" "p = a" "a \<noteq> 0" "fwd h (t_next t) ts q" by (auto split: option.splits)
  with Cons.prems(2) [of a] obtain t' where "h' a = Some t'" "t_next t' = t_next t" by auto
  with t Cons show ?case by auto
qed simp

lemma bwd_cong: "bwd h p ts \<Longrightarrow> (\<And>a. a \<in> set ts \<Longrightarrow> map_option t_prev (h' a) = map_option t_prev (h a)) \<Longrightarrow> bwd h' p ts"
proof (induction ts arbitrary: p)
  case (Cons a ts)
  then obtain t where t: "h a = Some t" "t_prev t = p" "bwd h a ts" by (auto split: option.splits)
  with Cons.prems(2) [of a] obtain t' where "h' a = Some t'" "t_prev t' = t_prev t" by auto
  with t Cons show ?case by auto
qed simp

lemma bwd_append: "bwd h p (xs @ ys) \<longleftrightarrow> bwd h p xs \<and> bwd h (if xs = [] then p else last xs) ys"
  by (induction xs arbitrary: p) (auto split: option.splits)

lemma fwd_live: "fwd h p ts q \<Longrightarrow> a \<in> set ts \<Longrightarrow> a \<noteq> 0 \<and> h a \<noteq> None"
  by (induction ts arbitrary: p) (auto split: option.splits)

lemma fwd_next:
  assumes "fwd h p ts 0" and "i < length ts"
  shows "\<exists>t. h (ts ! i) = Some t \<and> t_next t = (if Suc i < length ts then ts ! Suc i else 0)"
  using assms
proof (induction ts arbitrary: p i)
  case (Cons a ts)
  show ?case
  proof (cases i)
    case 0
    with Cons.prems(1) show ?thesis by (cases ts) (auto split: option.splits)
  next
    case (Suc j)
    obtain t :: task where "fwd h (t_next t) ts 0" using Cons.prems(1) by (auto split: option.splits)
    from Cons.IH [OF this, of j] Cons.prems(2) Suc show ?thesis by auto
  qed
qed simp

lemma fwd_start: "fwd h p ts 0 \<Longrightarrow> p = (case ts of [] \<Rightarrow> 0 | a # _ \<Rightarrow> a)"
  by (cases ts) auto

text \<open>The next task in the round: the one after the current task, or the first one.\<close>

lemma get_next_run:
  assumes "fwd (tasks st) (task_head st) ts 0" and "i < length ts" and "current_task st = ts ! i"
  shows "task_get_next st = Ret (ts ! ((i + 1) mod length ts))"
proof -
  obtain t where t: "tasks st (ts ! i) = Some t" "t_next t = (if Suc i < length ts then ts ! Suc i else 0)"
    using fwd_next [OF assms(1,2)] by blast
  have "ts ! Suc i \<noteq> 0" if "Suc i < length ts" using fwd_live [OF assms(1), of "ts ! Suc i"] that by simp
  moreover have "task_head st = ts ! 0" using fwd_start [OF assms(1)] assms(2) by (cases ts) auto
  moreover have "Suc i = length ts" if "\<not> Suc i < length ts" using that assms(2) by simp
  ultimately show ?thesis
    using t assms(3) by (cases "Suc i < length ts") (auto simp: task_get_next_def derefx_def)
qed

text \<open>Unlinking one task.\<close>

lemma fwd_unlink:
  assumes "fwd h p (xs @ a # ys) q" and "distinct (xs @ a # ys)" and "h a = Some t"
    and "h' = (if xs = [] then h else h(last xs := map_option (t_next_update (\<lambda>_. t_next t)) (h (last xs))))"
  shows "fwd h' (if xs = [] then t_next t else p) (xs @ ys) q"
  using assms
proof (induction xs arbitrary: p)
  case Nil
  then show ?case by simp
next
  case (Cons b xs)
  obtain u where u: "p = b" "b \<noteq> 0" "h b = Some u" "fwd h (t_next u) (xs @ a # ys) q"
    using Cons.prems(1) by (auto split: option.splits)
  show ?case
  proof (cases "xs = []")
    case True
    then have y: "fwd h (t_next t) ys q" using u(4) Cons.prems(3) by simp
    have "b \<notin> set ys" using Cons.prems(2) by simp
    with True Cons.prems(4) have "fwd h' (t_next t) ys q"
      by (intro fwd_cong [OF y]) auto
    with True u Cons.prems(4) show ?thesis by simp
  next
    case False
    then have h': "h' = (if xs = [] then h else h(last xs := map_option (t_next_update (\<lambda>_. t_next t)) (h (last xs))))"
      using Cons.prems(4) by (simp add: fun_upd_def)
    have "last xs \<noteq> b" using Cons.prems(2) False by auto
    moreover have "fwd h' (t_next u) (xs @ ys) q" using Cons.IH [OF u(4) _ Cons.prems(3) h'] Cons.prems(2) False by simp
    ultimately show ?thesis using False u h' by (simp add: fun_upd_def)
  qed
qed

lemma list_remove_run:
  assumes "task_list st (xs @ a # ys)" and "tasks st a = Some t"
  defines "h \<equiv> if xs = [] then tasks st
    else (tasks st)(last xs := map_option (t_next_update (\<lambda>_. t_next t)) (tasks st (last xs)))"
  defines "st1 \<equiv> st\<lparr>tasks := h, task_head := (if xs = [] then t_next t else task_head st),
    task_tail := (if ys = [] then last0 xs else task_tail st)\<rparr>"
  shows "task_list_remove a st =
    (if current_task st = a then bindx (task_get_next st1) (\<lambda>n. Ret (st1\<lparr>current_task := n\<rparr>)) else Ret st1)"
proof -
  have d: "distinct (xs @ a # ys)" and f: "fwd (tasks st) (task_head st) (xs @ a # ys) 0"
    and b: "bwd (tasks st) 0 (xs @ a # ys)" and tl: "task_tail st = last (xs @ a # ys)"
    using assms(1) by (simp_all add: task_list_def last0_def)
  have prev: "t_prev t = last0 xs" using b assms(2) by (auto simp: bwd_append last0_def split: if_splits)
  have hd: "a = task_head st \<longleftrightarrow> xs = []" using fwd_start [OF f] d by (cases xs) auto
  have tail: "a = task_tail st \<longleftrightarrow> ys = []" using tl d by (cases ys rule: rev_cases) auto
  have ha: "h a = Some t" using assms(2) d by (cases xs rule: rev_cases) (auto simp: h_def)
  show ?thesis
  proof (cases "xs = []")
    case True
    with prev ha hd tail assms(2) show ?thesis
      by (simp add: task_list_remove_def derefx_def st1_def h_def last0_def Let_def)
  next
    case False
    then obtain u where u: "tasks st (last xs) = Some u" "last xs \<noteq> 0"
      using fwd_live [OF f, of "last xs"] by auto
    with False prev ha hd tail assms(2) show ?thesis
      by (simp add: task_list_remove_def derefx_def st1_def h_def last0_def Let_def)
  qed
qed

section \<open>Creating a task\<close>

lemma kheap_rel_task [simp]:
  "kheap_rel (st\<lparr>tasks := ts\<rparr>) A = kheap_rel st A" "kheap_rel (st\<lparr>current_task := c\<rparr>) A = kheap_rel st A"
  "kheap_rel (st\<lparr>task_head := c\<rparr>) A = kheap_rel st A" "kheap_rel (st\<lparr>task_tail := c\<rparr>) A = kheap_rel st A"
  by (simp_all add: kheap_rel_def)

text \<open>Paging and the heap leave the objects and the globals alone.\<close>

definition same_objects :: "'a task_machine_scheme \<Rightarrow> 'a task_machine_scheme \<Rightarrow> bool" where
  "same_objects st st' \<longleftrightarrow> (\<exists>m. st' = st\<lparr>pmem := m\<rparr>)"

lemma same_objects_trans: "same_objects a b \<Longrightarrow> same_objects b c \<Longrightarrow> same_objects a c"
  by (auto simp: same_objects_def)

lemma kzalloc_same: "same_objects st (snd (kzalloc sz st))"
  by (auto simp: same_objects_def kzalloc_def kmalloc_def split: prod.splits)

lemma same_objects_upd [simp]: "same_objects st (st\<lparr>pmem := m\<rparr>)"
  by (auto simp: same_objects_def)

lemma same_objects_refl [simp]: "same_objects st st"
  unfolding same_objects_def by (rule exI [of _ "pmem st"]) simp

lemma paging_tables_same: "same_objects st (snd (paging_tables d flags n st))"
proof (induction n)
  case (Suc n)
  obtain x1 y1 where 1: "paging_tables d flags n st = (x1, y1)" by fastforce
  obtain x2 y2 where 2: "kzalloc 4096 y1 = (x2, y2)" by fastforce
  have "same_objects st y1" using Suc 1 by simp
  moreover have "same_objects y1 y2" using kzalloc_same [of y1 4096] 2 by simp
  ultimately show ?case using 1 2 by (auto simp: same_objects_def Let_def)
qed simp

lemma paging_new_same: "same_objects st (snd (paging_new_4gb flags st))"
proof -
  obtain d s1 where 1: "kzalloc 4096 st = (d, s1)" by fastforce
  obtain o1 s2 where 2: "paging_tables d flags 1024 s1 = (o1, s2)" by fastforce
  obtain c s3 where 3: "kzalloc 4 s2 = (c, s3)" by fastforce
  have "same_objects st s1" "same_objects s1 s2" "same_objects s2 s3"
    using kzalloc_same [of st 4096] kzalloc_same [of s2 4] paging_tables_same [of s1 d flags 1024] 1 2 3 by simp_all
  with 1 2 3 show ?thesis by (auto simp: paging_new_4gb_def same_objects_def)
qed

text \<open>The program counter a task of process \<open>p\<close> starts at.\<close>

definition start_ip :: "'a task_machine_scheme \<Rightarrow> process \<Rightarrow> u32" where
  "start_ip st p = (if p_filetype p = PROCESS_FILETYPE_ELF
     then (case elf_files st (p_ptr p) of None \<Rightarrow> 0 | Some f \<Rightarrow> e_entry (header_at (pmem st) (elf_header_of f)))
     else MAEROS_PROGRAM_VIRTUAL_ADDRESS)"

definition start_registers :: "u32 \<Rightarrow> registers" where
  "start_registers ip = zero_registers\<lparr>r_ip := ip, r_ss := 0x23, r_cs := 0x1b, r_esp := 0x3FF000\<rparr>"

lemma task_init_run:
  assumes rel: "kheap_rel st A" and free: "1026 \<le> free_blocks A" and p: "procs st process = Some p"
    and elf: "p_filetype p = PROCESS_FILETYPE_ELF \<Longrightarrow> elf_files st (p_ptr p) \<noteq> None"
  shows "\<exists>c d ts m. task_init task process st =
      Ret (0, st\<lparr>pmem := m, tasks := (tasks st)(task \<mapsto> zero_task\<lparr>t_page_directory := kblock c,
        t_registers := start_registers (start_ip (st\<lparr>pmem := m\<rparr>) p), t_process := process\<rparr>)\<rparr>) \<and>
    kheap_rel (st\<lparr>pmem := m\<rparr>) (grant A (set (c # d # ts))) \<and>
    owns_chunk m (grant A (set (c # d # ts))) c d ts \<and> tables_built m d ts 5 \<and>
    (\<forall>b \<in> set (c # d # ts). A b = None) \<and> same_outside (set (c # d # ts)) (pmem st) m"
proof -
  obtain c d ts st' where N: "paging_new_4gb 5 st = (kblock c, st')"
    "kheap_rel st' (grant A (set (c # d # ts)))" "owns_chunk (pmem st') (grant A (set (c # d # ts))) c d ts"
    "tables_built (pmem st') d ts 5" "\<forall>b \<in> set (c # d # ts). A b = None" "same_outside (set (c # d # ts)) (pmem st) (pmem st')"
    using new_4gb_run [OF rel free] by blast
  obtain m where m: "st' = st\<lparr>pmem := m\<rparr>" using paging_new_same [of st 5] N(1) by (auto simp: same_objects_def)
  have "c < KBLOCKS" using N(3) by (simp add: owns_chunk_def)
  then have "task_init task process st =
      Ret (0, st\<lparr>pmem := m, tasks := (tasks st)(task \<mapsto> zero_task\<lparr>t_page_directory := kblock c,
        t_registers := start_registers (start_ip (st\<lparr>pmem := m\<rparr>) p), t_process := process\<rparr>)\<rparr>)"
    using N(1) m p elf
    by (auto simp: task_init_def derefx_def start_registers_def start_ip_def)
  with N m show ?thesis by (intro exI [of _ c] exI [of _ d] exI [of _ ts] exI [of _ m]) simp
qed

text \<open>Appending a fresh structure at the tail.\<close>

lemma task_list_append:
  assumes "task_list st ts" and "a \<notin> set ts" and "a \<noteq> 0" and "t_next x = 0" and "t_prev x = last0 ts"
    and "ts \<noteq> [] \<Longrightarrow> h = (tasks st)(last ts := map_option (t_next_update (\<lambda>_. a)) (tasks st (last ts)), a \<mapsto> x)"
    and "ts = [] \<Longrightarrow> h = (tasks st)(a \<mapsto> x)"
  shows "task_list (st\<lparr>tasks := h, task_head := (if ts = [] then a else task_head st), task_tail := a\<rparr>) (ts @ [a])"
proof (cases ts rule: rev_cases)
  case Nil
  with assms show ?thesis by (simp add: task_list_def last0_def)
next
  case (snoc us l)
  have d: "distinct (us @ [l])" and f: "fwd (tasks st) (task_head st) us l" "l \<noteq> 0" and b: "bwd (tasks st) 0 (us @ [l])"
    using assms(1) snoc by (auto simp: task_list_def fwd_append split: option.splits)
  have h: "h = (tasks st)(l := map_option (t_next_update (\<lambda>_. a)) (tasks st l), a \<mapsto> x)"
    using assms(6) snoc by simp
  have al: "a \<noteq> l" "a \<notin> set us" "l \<notin> set us" using assms(2) d snoc by auto
  obtain t where t: "tasks st l = Some t" using b by (auto simp: bwd_append split: option.splits)
  have "fwd h (task_head st) us l" using al h by (intro fwd_cong [OF f(1)]) auto
  then have "fwd h (task_head st) (us @ [l, a]) 0"
    unfolding fwd_append using al h t f(2) assms(3,4) by (intro exI [of _ l]) simp
  moreover have "bwd h 0 (us @ [l])" using al h t by (intro bwd_cong [OF b]) auto
  then have "bwd h 0 ((us @ [l]) @ [a])"
    unfolding bwd_append [of _ _ "us @ [l]"] using h assms(5) snoc by (simp add: last0_def)
  ultimately show ?thesis using d al snoc by (simp add: task_list_def last0_def)
qed

text \<open>Task structures lie in live blocks of the heap.\<close>

definition tasks_live :: "allocs \<Rightarrow> u32 list \<Rightarrow> bool" where
  "tasks_live A ts \<longleftrightarrow> (\<forall>a \<in> set ts. \<exists>b < KBLOCKS. a = kblock b \<and> A b \<noteq> None)"

text \<open>Structures other than \<open>b\<close> keep everything but the link to the next task.\<close>

definition tasks_kept :: "u32 \<Rightarrow> (u32 \<rightharpoonup> task) \<Rightarrow> (u32 \<rightharpoonup> task) \<Rightarrow> bool" where
  "tasks_kept b h h' \<longleftrightarrow> (\<forall>a t. a \<noteq> b \<longrightarrow> h a = Some t \<longrightarrow> (\<exists>n. h' a = Some (t\<lparr>t_next := n\<rparr>)))"

lemma task_new_run:
  assumes rel: "kheap_rel st A" and free: "1027 \<le> free_blocks A" and p: "procs st process = Some p"
    and elf: "p_filetype p = PROCESS_FILETYPE_ELF \<Longrightarrow> elf_files st (p_ptr p) \<noteq> None"
    and tl: "task_list st ts" and live: "tasks_live A ts"
  shows "\<exists>b c d us x st'. task_new process st = Ret (kblock b, st') \<and> b \<notin> set (c # d # us) \<and> b < KBLOCKS \<and>
    task_list st' (ts @ [kblock b]) \<and> tasks st' (kblock b) = Some x \<and>
    t_page_directory x = kblock c \<and> t_process x = process \<and>
    t_registers x = start_registers (start_ip st' p) \<and>
    kheap_rel st' (grant A (set (b # c # d # us))) \<and> (\<forall>e \<in> set (b # c # d # us). A e = None) \<and>
    owns_chunk (pmem st') (grant A (set (b # c # d # us))) c d us \<and> tables_built (pmem st') d us 5 \<and>
    current_task st' = (if ts = [] then kblock b else current_task st) \<and> tasks_kept (kblock b) (tasks st) (tasks st') \<and>
    same_outside (set (b # c # d # us)) (pmem st) (pmem st') \<and>
    st' = st\<lparr>pmem := pmem st', tasks := tasks st', task_head := task_head st', task_tail := task_tail st', current_task := current_task st'\<rparr>"
proof -
  have "0 < free_blocks A" using free by simp
  then obtain b m0 where B: "kzalloc 64 st = (kblock b, st\<lparr>pmem := m0\<rparr>)" "A b = None" "b < KBLOCKS"
    "kheap_rel (st\<lparr>pmem := m0\<rparr>) (A(b \<mapsto> 1))" "free_blocks (A(b \<mapsto> 1)) = free_blocks A - 1"
    "\<forall>a. in_data a \<longrightarrow> \<not> in_block b a \<longrightarrow> m0 a = pmem st a"
    using kzalloc_block [OF rel, of 64] by auto
  let ?s0 = "st\<lparr>pmem := m0, tasks := (tasks st)(kblock b \<mapsto> zero_task)\<rparr>"
  have g: "A(b \<mapsto> 1) = grant A {b}" by (auto simp: grant_def)
  have "kheap_rel ?s0 (grant A {b})" "1026 \<le> free_blocks (grant A {b})" "procs ?s0 process = Some p"
    using B(4,5) free p unfolding g by (simp_all add: kheap_rel_def)
  then obtain c d us m where I: "task_init (kblock b) process ?s0 =
      Ret (0, ?s0\<lparr>pmem := m, tasks := (tasks ?s0)(kblock b \<mapsto> zero_task\<lparr>t_page_directory := kblock c,
        t_registers := start_registers (start_ip (?s0\<lparr>pmem := m\<rparr>) p), t_process := process\<rparr>)\<rparr>)"
    "kheap_rel (?s0\<lparr>pmem := m\<rparr>) (grant (grant A {b}) (set (c # d # us)))"
    "owns_chunk m (grant (grant A {b}) (set (c # d # us))) c d us" "tables_built m d us 5"
    "\<forall>e \<in> set (c # d # us). grant A {b} e = None" "same_outside (set (c # d # us)) m0 m"
    using task_init_run [of ?s0 "grant A {b}" process p "kblock b"] elf by auto
  let ?x = "zero_task\<lparr>t_page_directory := kblock c, t_registers := start_registers (start_ip (?s0\<lparr>pmem := m\<rparr>) p),
    t_process := process\<rparr>"
  let ?A = "grant A (set (b # c # d # us))"
  have A: "grant (grant A {b}) (set (c # d # us)) = ?A" by (auto simp: grant_def)
  have fresh: "b \<notin> set (c # d # us)" "\<forall>e \<in> set (b # c # d # us). A e = None"
    using I(5) B(2) by (auto simp: grant_def split: if_splits)
  have notin: "kblock b \<notin> set ts" using live B(2,3) by (auto simp: tasks_live_def kblock_inj)
  have head: "task_head st = 0 \<longleftrightarrow> ts = []" "ts \<noteq> [] \<Longrightarrow> tasks st (last ts) \<noteq> None"
    using tl fwd_start [of "tasks st" "task_head st" ts] fwd_live [of "tasks st" "task_head st" ts 0]
    by (auto simp: task_list_def split: list.splits)
  define h where "h = (if ts = [] then (tasks st)(kblock b \<mapsto> ?x)
    else (tasks st)(last ts := map_option (t_next_update (\<lambda>_. kblock b)) (tasks st (last ts)),
           kblock b \<mapsto> ?x\<lparr>t_prev := last ts\<rparr>))"
  define x where "x = (if ts = [] then ?x else ?x\<lparr>t_prev := last ts\<rparr>)"
  define st' where "st' = st\<lparr>pmem := m, tasks := h, task_head := (if ts = [] then kblock b else task_head st),
    task_tail := kblock b, current_task := (if ts = [] then kblock b else current_task st)\<rparr>"
  have tail: "task_tail st = last0 ts" using tl by (simp add: task_list_def)
  have run: "task_new process st = Ret (kblock b, st')"
  proof (cases "ts = []")
    case True
    with B(1,3) I(1) head(1) show ?thesis by (simp add: task_new_def st'_def h_def)
  next
    case False
    then obtain l where l: "tasks st (last ts) = Some l" using head(2) by auto
    have "last ts \<noteq> kblock b" using notin False last_in_set [of ts] by metis
    with False B(1,3) I(1) head(1) tail l show ?thesis
      by (simp add: task_new_def st'_def h_def derefx_def last0_def fun_upd_twist)
  qed
  have list: "task_list (st\<lparr>tasks := h, task_head := (if ts = [] then kblock b else task_head st), task_tail := kblock b\<rparr>)
      (ts @ [kblock b])"
    by (rule task_list_append [OF tl notin, of x]) (use B(3) in \<open>auto simp: x_def h_def zero_task_def last0_def\<close>)
  then have "task_list st' (ts @ [kblock b])" by (simp add: task_list_def st'_def)
  moreover have "tasks st' (kblock b) = Some x" by (simp add: st'_def h_def x_def)
  moreover have "t_page_directory x = kblock c" "t_process x = process" "t_registers x = start_registers (start_ip st' p)"
    by (simp_all add: x_def st'_def start_ip_def split: option.splits)
  moreover have "kheap_rel st' ?A" using I(2) unfolding A by (simp add: st'_def kheap_rel_def)
  moreover have "owns_chunk (pmem st') ?A c d us" "tables_built (pmem st') d us 5" using I(3,4) unfolding A by (simp_all add: st'_def)
  moreover have "current_task st' = (if ts = [] then kblock b else current_task st)" by (simp add: st'_def)
  moreover have "tasks_kept (kblock b) (tasks st) (tasks st')"
    unfolding tasks_kept_def
  proof (intro allI impI)
    fix a t assume "a \<noteq> kblock b" "tasks st a = Some t"
    then show "\<exists>n. tasks st' a = Some (t\<lparr>t_next := n\<rparr>)"
      by (cases "ts = [] \<or> a \<noteq> last ts") (auto simp: st'_def h_def intro: exI [of _ "t_next t"])
  qed
  moreover have "same_outside (set (b # c # d # us)) (pmem st) (pmem st')" using I(6) B(6) by (simp add: same_outside_def st'_def)
  moreover have "st' = st\<lparr>pmem := pmem st', tasks := tasks st', task_head := task_head st', task_tail := task_tail st', current_task := current_task st'\<rparr>"
    by (simp add: st'_def)
  ultimately show ?thesis using run fresh B(3) by blast
qed

section \<open>Scheduling\<close>

text \<open>\<open>k\<close> steps of a step function.\<close>

primrec iterx :: "nat \<Rightarrow> ('s \<Rightarrow> 's exec) \<Rightarrow> 's \<Rightarrow> 's exec" where
  "iterx 0 step s = Ret s"
| "iterx (Suc k) step s = bindx (step s) (iterx k step)"

text \<open>
  What a scheduler promises: on a state whose ring of runnable tasks is \<open>ts\<close>, a step succeeds,
  keeps the ring and moves to the successor of the current task.
\<close>

locale ring_scheduler =
  fixes step :: "'s \<Rightarrow> 's exec"
    and cur :: "'s \<Rightarrow> 'k"
    and ring :: "'s \<Rightarrow> 'k list \<Rightarrow> bool"
  assumes step_law: "ring s ts \<Longrightarrow> i < length ts \<Longrightarrow> cur s = ts ! i \<Longrightarrow>
    \<exists>s'. step s = Ret s' \<and> ring s' ts \<and> cur s' = ts ! ((i + 1) mod length ts)"
begin

lemma steps_law:
  assumes "ring s ts" and "i < length ts" and "cur s = ts ! i"
  shows "\<exists>s'. iterx k step s = Ret s' \<and> ring s' ts \<and> cur s' = ts ! ((i + k) mod length ts)"
  using assms
proof (induction k arbitrary: s i)
  case (Suc k)
  obtain s1 where s1: "step s = Ret s1" "ring s1 ts" "cur s1 = ts ! ((i + 1) mod length ts)"
    using step_law [OF Suc.prems] by blast
  moreover have "(i + 1) mod length ts < length ts" using Suc.prems(2) by (intro mod_less_divisor) (cases ts; simp)
  ultimately obtain s' where "iterx k step s1 = Ret s'" "ring s' ts" "cur s' = ts ! (((i + 1) mod length ts + k) mod length ts)"
    using Suc.IH by blast
  with s1(1) show ?case by (simp add: mod_add_left_eq)
qed simp

text \<open>Every task of the ring gets its turn within one round.\<close>

lemma fair:
  assumes "ring s ts" and "i < length ts" and "cur s = ts ! i" and "t \<in> set ts"
  shows "\<exists>k s'. 1 \<le> k \<and> k \<le> length ts \<and> iterx k step s = Ret s' \<and> ring s' ts \<and> cur s' = t"
proof -
  obtain j where j: "j < length ts" "t = ts ! j" using assms(4) by (auto simp: in_set_conv_nth)
  define k where "k = (if i < j then j - i else length ts - i + j)"
  have "(i + k) mod length ts = j"
    using assms(2) j(1) by (cases "i < j") (simp_all add: k_def)
  moreover have "1 \<le> k" "k \<le> length ts" using assms(2) j(1) by (auto simp: k_def)
  ultimately show ?thesis using steps_law [OF assms(1-3), of k] j(2) by metis
qed

end

definition task_tick :: "'a task_machine_scheme \<Rightarrow> 'a task_machine_scheme exec" where
  "task_tick st = bindx (task_next st) (\<lambda>(_, st). Ret st)"

definition task_ring :: "'a task_machine_scheme \<Rightarrow> u32 list \<Rightarrow> bool" where
  "task_ring st ts \<longleftrightarrow> fwd (tasks st) (task_head st) ts 0"

lemma task_next_run:
  assumes "task_ring st ts" and "i < length ts" and "current_task st = ts ! i"
  defines "n \<equiv> ts ! ((i + 1) mod length ts)"
  shows "\<exists>t. tasks st n = Some t \<and>
    task_next st = Ret ((t_registers t)\<lparr>r_flags := kernel_flags st OR 0x200\<rparr>, (paging_switch (t_page_directory t) (st\<lparr>current_task := n\<rparr>))
      \<lparr>data_segments := ucast (r_ss (t_registers t))\<rparr>)"
proof -
  have f: "fwd (tasks st) (task_head st) ts 0" using assms(1) by (simp add: task_ring_def)
  have "(i + 1) mod length ts < length ts" using assms(2) by (intro mod_less_divisor) (cases ts; simp)
  then have "n \<in> set ts" by (simp add: n_def)
  then obtain t where "n \<noteq> 0" "tasks st n = Some t" using fwd_live [OF f, of n] by auto
  moreover have "task_get_next st = Ret n" unfolding n_def by (rule get_next_run [OF f assms(2,3)])
  ultimately show ?thesis
    by (simp add: task_next_def task_switch_def task_return_def derefx_def paging_switch_def)
qed

interpretation rr: ring_scheduler task_tick current_task task_ring
proof
  fix st :: "'a task_machine_scheme" and ts i
  assume *: "task_ring st ts" "i < length ts" "current_task st = ts ! i"
  from task_next_run [OF this] show "\<exists>s'. task_tick st = Ret s' \<and> task_ring s' ts \<and>
      current_task s' = ts ! ((i + 1) mod length ts)"
    using *(1) by (auto simp: task_tick_def task_ring_def paging_switch_def)
qed

section \<open>Releasing a task\<close>

lemma paging_free_same: "\<exists>m. paging_free_4gb c st = st\<lparr>pmem := m\<rparr>"
proof -
  have "\<exists>m. paging_free_tables c n st = st\<lparr>pmem := m\<rparr>" for n
    by (induction n) (auto simp: kfree_def Let_def intro: exI [of _ "pmem st"])
  from this [of 1024] show ?thesis by (auto simp: paging_free_4gb_def kfree_def Let_def)
qed

lemma task_free_at:
  assumes rel: "kheap_rel st A" and tl: "task_list st (xs @ kblock b # ys)" and live: "b < KBLOCKS" "A b = Some 1"
    and x: "tasks st (kblock b) = Some x" "t_page_directory x = kblock c"
    and own: "owns_chunk (pmem st) A c d us" "b \<notin> set (c # d # us)"
  shows "\<exists>st'. task_free (kblock b) st = Ret st' \<and> kheap_rel st' (revoke A (set (b # c # d # us))) \<and>
    fwd (tasks st') (task_head st') (xs @ ys) 0 \<and> task_tail st' = last0 (xs @ ys) \<and> (ys = [] \<longrightarrow> task_list st' xs)"
proof -
  obtain m where m: "paging_free_4gb (kblock c) st = st\<lparr>pmem := m\<rparr>" using paging_free_same by metis
  let ?s = "st\<lparr>pmem := m\<rparr>"
  have P: "kheap_rel ?s (revoke A (set (c # d # us)))" using free_4gb_run(1) [OF rel own(1)] m by simp
  have tls: "task_list ?s (xs @ kblock b # ys)" using tl by (simp add: task_list_def)
  have f: "fwd (tasks st) (task_head st) (xs @ kblock b # ys) 0" and bw: "bwd (tasks st) 0 (xs @ kblock b # ys)"
    and ds: "distinct (xs @ kblock b # ys)" and tail: "task_tail st = last (xs @ kblock b # ys)"
    using tl by (simp_all add: task_list_def last0_def)
  define h where "h = (if xs = [] then tasks st
    else (tasks st)(last xs := map_option (t_next_update (\<lambda>_. t_next x)) (tasks st (last xs))))"
  define s1 where "s1 = ?s\<lparr>tasks := h, task_head := (if xs = [] then t_next x else task_head st),
    task_tail := (if ys = [] then last0 xs else task_tail st)\<rparr>"
  have R: "task_list_remove (kblock b) ?s =
      (if current_task st = kblock b then bindx (task_get_next s1) (\<lambda>n. Ret (s1\<lparr>current_task := n\<rparr>)) else Ret s1)"
    using list_remove_run [OF tls, of x] x(1) by (simp add: s1_def h_def)
  have f1: "fwd h (if xs = [] then t_next x else task_head st) (xs @ ys) 0"
    using fwd_unlink [OF f ds x(1), of h] by (simp add: h_def)
  have hb: "h (kblock b) = Some x" using x(1) ds by (cases xs rule: rev_cases) (auto simp: h_def)
  define nx where "nx = (if t_next x = 0 then task_head s1 else t_next x)"
  have nb: "task_get_next s1 = Ret nx" if "current_task st = kblock b"
    using that hb by (simp add: task_get_next_def derefx_def s1_def nx_def)
  let ?s2 = "s1\<lparr>current_task := (if current_task st = kblock b then nx else current_task st), tasks := h(kblock b := None)\<rparr>"
  have run: "task_free (kblock b) st = Ret (kfree (kblock b) ?s2)"
    using R nb x m by (auto simp: task_free_def derefx_def s1_def)
  have "(revoke A (set (c # d # us))) b = Some 1" using live(2) own(2) by (simp add: revoke_def)
  then have K: "kheap_rel (kfree (kblock b) ?s2) (revoke A (set (b # c # d # us)))"
    using kfree_run(1) [of ?s2 "revoke A (set (c # d # us))" b 1] P
    by (simp add: kheap_rel_def s1_def revoke_insert)
  have "fwd (h(kblock b := None)) (if xs = [] then t_next x else task_head st) (xs @ ys) 0"
    using ds by (intro fwd_cong [OF f1]) auto
  then have F: "fwd (h(kblock b := None)) (task_head s1) (xs @ ys) 0" by (simp add: s1_def)
  have B: "bwd (h(kblock b := None)) 0 xs"
  proof (rule bwd_cong)
    show "bwd (tasks st) 0 xs" using bw by (simp add: bwd_append)
    show "map_option t_prev ((h(kblock b := None)) a) = map_option t_prev (tasks st a)" if "a \<in> set xs" for a
      using that ds by (cases "tasks st a") (auto simp: h_def)
  qed
  have T: "task_tail s1 = last0 (xs @ ys)" using tail by (auto simp: s1_def last0_def)
  have "task_list (kfree (kblock b) ?s2) xs" if "ys = []"
    using ds F B T that by (simp add: task_list_def kfree_def)
  then show ?thesis using run K F T by (intro exI [of _ "kfree (kblock b) ?s2"]) (simp add: kfree_def)
qed

lemma task_free_run:
  assumes "kheap_rel st A" and "task_list st (ts @ [kblock b])" and "b < KBLOCKS" "A b = Some 1"
    and "tasks st (kblock b) = Some x" "t_page_directory x = kblock c"
    and "owns_chunk (pmem st) A c d us" "b \<notin> set (c # d # us)"
  shows "\<exists>st'. task_free (kblock b) st = Ret st' \<and> kheap_rel st' (revoke A (set (b # c # d # us))) \<and> task_list st' ts"
  using task_free_at [OF assms] by blast

section \<open>Example states\<close>

definition demo_process :: process where
  "demo_process = \<lparr>p_id = 0, p_filename = replicate 108 0, p_task = 0,
     p_allocations = replicate 1024 \<lparr>pa_ptr = 0, pa_size = 0\<rparr>, p_filetype = 1, p_ptr = 0, p_stack = 0, p_size = 0,
     p_keyboard = \<lparr>kb_buffer = replicate 1024 0, kb_tail = 0, kb_head = 0\<rparr>,
     p_arguments = \<lparr>pg_argc = 0, pg_argv = 0\<rparr>\<rparr>"

text \<open>A kernel with one process and no task, and one with three tasks.\<close>

definition demo_task_machine :: task_machine where
  "demo_task_machine = \<lparr>pmem = \<lambda>_. 0, kernel_heap = kernel_heap_value, current_directory = 0, cr3 = 0,
     strings = Map.empty, path_parts = Map.empty, path_roots = Map.empty, elf_files = Map.empty,
     tasks = Map.empty, procs = [0x10 \<mapsto> demo_process], current_task = 0, task_tail = 0, task_head = 0,
     kernel_chunk = 0, data_segments = 0x10, kernel_flags = 2\<rparr>"

definition demo_ring :: task_machine where
  "demo_ring = demo_task_machine\<lparr>tasks := [1 \<mapsto> zero_task\<lparr>t_next := 2\<rparr>, 2 \<mapsto> zero_task\<lparr>t_next := 3, t_prev := 1\<rparr>,
     3 \<mapsto> zero_task\<lparr>t_prev := 2\<rparr>], task_head := 1, task_tail := 3, current_task := 1\<rparr>"

lemma demo_task_rel: "kheap_rel demo_task_machine Map.empty"
  using demo_machine_rel by (simp add: kheap_rel_def demo_task_machine_def demo_machine_def)

lemma demo_task_start:
  "procs demo_task_machine 0x10 = Some demo_process" "p_filetype demo_process = 1"
  "task_list demo_task_machine []" "tasks_live Map.empty []"
  by (simp_all add: demo_task_machine_def demo_process_def task_list_def last0_def tasks_live_def)

lemma demo_ring_list: "task_list demo_ring [1, 2, 3]" "task_ring demo_ring [1, 2, 3]" "current_task demo_ring = 1"
  by (simp_all add: task_list_def task_ring_def demo_ring_def zero_task_def last0_def)

section \<open>Properties\<close>

text \<open>
  Creating a task. With 1027 free blocks \<open>task_new\<close> appends a task to the list: it starts at the
  entry point of its process in user segments with the stack at 0x3FF000, has a page directory of
  its own that maps every address to itself, and becomes the current task when it is the first.
\<close>

lemma task_new_appends:
  assumes "kheap_rel st A" and "1027 \<le> free_blocks A" and "procs st process = Some p"
    and "p_filetype p = PROCESS_FILETYPE_ELF \<longrightarrow> elf_files st (p_ptr p) \<noteq> None"
    and "task_list st ts" and "tasks_live A ts"
  shows "\<exists>b x st'. task_new process st = Ret (kblock b, st') \<and> A b = None \<and>
    task_list st' (ts @ [kblock b]) \<and> tasks st' (kblock b) = Some x \<and> t_process x = process \<and>
    t_registers x = start_registers (start_ip st' p) \<and>
    chunk_wf (t_page_directory x) (pmem st') \<and>
    (\<forall>v. task_virtual_address_to_physical (kblock b) v st' = Ret v) \<and>
    current_task st' = (if ts = [] then kblock b else current_task st)"
proof -
  obtain b c d us x st' where N: "task_new process st = Ret (kblock b, st')" "b \<notin> set (c # d # us)"
    "task_list st' (ts @ [kblock b])" "tasks st' (kblock b) = Some x" "t_page_directory x = kblock c"
    "t_process x = process" "t_registers x = start_registers (start_ip st' p)"
    "kheap_rel st' (grant A (set (b # c # d # us)))" "\<forall>e \<in> set (b # c # d # us). A e = None"
    "owns_chunk (pmem st') (grant A (set (b # c # d # us))) c d us" "tables_built (pmem st') d us 5"
    "current_task st' = (if ts = [] then kblock b else current_task st)"
    using task_new_run [OF assms(1-3) _ assms(5,6)] assms(4) by blast
  have "task_virtual_address_to_physical (kblock b) v st' = Ret v" for v
    using N(4,5) identity_translation [OF N(11,10)] by (simp add: task_virtual_address_to_physical_def derefx_def)
  with N owns_chunk_wf [OF N(10)] show ?thesis by auto
qed

text \<open>
  C33. Release. \<open>task_free\<close> of a task that was just created removes it from the list and returns the
  structure, the page directory and all page tables to the heap.
\<close>

theorem task_new_free_roundtrip:
  assumes "kheap_rel st A" and "1027 \<le> free_blocks A" and "procs st process = Some p"
    and "p_filetype p = PROCESS_FILETYPE_ELF \<longrightarrow> elf_files st (p_ptr p) \<noteq> None"
    and "task_list st ts" and "tasks_live A ts"
  shows "\<exists>a st' st''. task_new process st = Ret (a, st') \<and> task_free a st' = Ret st'' \<and>
    kheap_rel st'' A \<and> task_list st'' ts"
proof -
  obtain b c d us x st' where N: "task_new process st = Ret (kblock b, st')" "b \<notin> set (c # d # us)"
    "task_list st' (ts @ [kblock b])" "tasks st' (kblock b) = Some x" "t_page_directory x = kblock c"
    "kheap_rel st' (grant A (set (b # c # d # us)))" "\<forall>e \<in> set (b # c # d # us). A e = None"
    "owns_chunk (pmem st') (grant A (set (b # c # d # us))) c d us" "b < KBLOCKS"
    using task_new_run [OF assms(1-3) _ assms(5,6)] assms(4) by blast
  have "grant A (set (b # c # d # us)) b = Some 1" by (simp add: grant_def)
  from task_free_run [OF N(6,3,9) this N(4,5,8,2)] obtain st'' where
    "task_free (kblock b) st' = Ret st''" "kheap_rel st'' (revoke (grant A (set (b # c # d # us))) (set (b # c # d # us)))"
    "task_list st'' ts" by blast
  then show ?thesis using N(1) revoke_grant [OF N(7)] by metis
qed

theorem task_new_free_roundtrip_witness:
  "\<exists>a st' st''. task_new 0x10 demo_task_machine = Ret (a, st') \<and> task_free a st' = Ret st'' \<and>
     kheap_rel st'' Map.empty \<and> task_list st'' []"
  using task_new_free_roundtrip [OF demo_task_rel _ demo_task_start(1) _ demo_task_start(3,4)] demo_task_start(2)
  unfolding demo_free_blocks by simp

text \<open>
  Fair scheduling. Starting from any task of the list, every task of the list is current again
  within as many timer ticks as there are tasks, and no tick panics or faults.
\<close>

lemma task_next_fair:
  assumes "task_ring st ts" and "current_task st \<in> set ts" and "t \<in> set ts"
  shows "\<exists>k st'. 1 \<le> k \<and> k \<le> length ts \<and> iterx k task_tick st = Ret st' \<and> task_ring st' ts \<and> current_task st' = t"
proof -
  obtain i where "i < length ts" "current_task st = ts ! i" using assms(2) by (auto simp: in_set_conv_nth)
  from rr.fair [OF assms(1) this assms(3)] show ?thesis .
qed

text \<open>
  Switching. One tick makes the successor of the current task current, loads its page directory
  into \<open>cr3\<close> and returns to user mode with the registers stored in its structure, apart from the flags.
\<close>

lemma task_next_switches:
  assumes "task_ring st ts" and "i < length ts" and "current_task st = ts ! i"
  shows "\<exists>t st'. tasks st (ts ! ((i + 1) mod length ts)) = Some t \<and>
    task_next st = Ret ((t_registers t)\<lparr>r_flags := kernel_flags st OR 0x200\<rparr>, st') \<and> current_task st' = ts ! ((i + 1) mod length ts) \<and>
    cr3 st' = directory_entry (pmem st) (t_page_directory t) \<and> current_directory st' = cr3 st' \<and>
    data_segments st' = ucast (r_ss (t_registers t)) \<and> tasks st' = tasks st \<and> pmem st' = pmem st"
  using task_next_run [OF assms] by (auto simp: paging_switch_def)

text \<open>
  Unlinking. \<open>task_list_remove\<close> takes the task out of the forward list and fixes head and tail, but
  it does not touch the \<open>prev\<close> pointer of the successor, which keeps pointing to the removed task.
\<close>

lemma task_list_remove_forward:
  assumes "task_list st (xs @ a # ys)" and "current_task st \<noteq> a"
  shows "\<exists>st'. task_list_remove a st = Ret st' \<and> fwd (tasks st') (task_head st') (xs @ ys) 0 \<and>
    task_tail st' = last0 (xs @ ys) \<and>
    (\<forall>b zs. ys = b # zs \<longrightarrow> map_option t_prev (tasks st' b) = Some a)"
proof -
  have d: "distinct (xs @ a # ys)" and f: "fwd (tasks st) (task_head st) (xs @ a # ys) 0"
    and b: "bwd (tasks st) 0 (xs @ a # ys)" and tl: "task_tail st = last (xs @ a # ys)"
    using assms(1) by (simp_all add: task_list_def last0_def)
  obtain t where t: "tasks st a = Some t" using fwd_live [OF f, of a] by auto
  let ?h = "if xs = [] then tasks st
    else (tasks st)(last xs := map_option (t_next_update (\<lambda>_. t_next t)) (tasks st (last xs)))"
  let ?st = "st\<lparr>tasks := ?h, task_head := (if xs = [] then t_next t else task_head st),
    task_tail := (if ys = [] then last0 xs else task_tail st)\<rparr>"
  have "task_list_remove a st = Ret ?st" using list_remove_run [OF assms(1) t] assms(2) by simp
  moreover have "fwd ?h (if xs = [] then t_next t else task_head st) (xs @ ys) 0"
    using f d t by (rule fwd_unlink) simp
  moreover have "map_option t_prev (?h z) = Some a" if "ys = z # zs" for z zs
    using b d that last_in_set [of xs] by (auto simp: bwd_append split: option.splits if_splits)
  ultimately show ?thesis using tl by (intro exI [of _ ?st]) (auto simp: last0_def)
qed

text \<open>
  Stale pointer. Consequently, after a task in front of another has been unlinked and its
  structure released, unlinking the successor reads the released structure.
\<close>

lemma task_list_remove_stale:
  assumes "task_list st (xs @ a # b # ys)" and "current_task st \<noteq> a" and "task_list_remove a st = Ret st1"
  shows "task_list_remove b (st1\<lparr>tasks := (tasks st1)(a := None)\<rparr>) = Trap Fault"
proof -
  have d: "distinct (xs @ a # b # ys)" and f: "fwd (tasks st) (task_head st) (xs @ a # b # ys) 0"
    and bw: "bwd (tasks st) 0 (xs @ a # b # ys)"
    using assms(1) by (simp_all add: task_list_def)
  obtain t where t: "tasks st a = Some t" "a \<noteq> 0" using fwd_live [OF f, of a] by auto
  obtain u where u: "tasks st b = Some u" "t_prev u = a"
    using bw by (auto simp: bwd_append split: option.splits if_splits)
  let ?h = "if xs = [] then tasks st
    else (tasks st)(last xs := map_option (t_next_update (\<lambda>_. t_next t)) (tasks st (last xs)))"
  have "tasks st1 = ?h" using list_remove_run [OF assms(1) t(1)] assms(2,3) by auto
  moreover have "?h b = Some u" using u(1) d last_in_set [of xs] by auto
  ultimately show ?thesis using u(2) t(2) d by (simp add: task_list_remove_def derefx_def)
qed

end
