(* ===== verification/Process.thy ===== *)
theory Process
  imports Task
begin

text \<open>
  Processes, \<open>src/src/task/process.c\<close>: the process table, the memory a process allocates and maps
  into its address space, its arguments, the mapping of a loaded program, and termination. Loading
  a program from a file is not part of this theory.
\<close>

section \<open>State\<close>

record process_machine = task_machine +
  current_process :: u32
  processes :: "u32 list"

text \<open>A structure cleared by \<open>kzalloc\<close> or \<open>memset\<close>.\<close>

definition zero_process :: process where
  "zero_process = \<lparr>p_id = 0, p_filename = replicate MAEROS_MAX_PATH 0, p_task = 0,
     p_allocations = replicate MAEROS_MAX_PROGRAM_ALLOCATIONS \<lparr>pa_ptr = 0, pa_size = 0\<rparr>,
     p_filetype = 0, p_ptr = 0, p_stack = 0, p_size = 0,
     p_keyboard = \<lparr>kb_buffer = replicate MAEROS_KEYBOARD_BUFFER_SIZE 0, kb_tail = 0, kb_head = 0\<rparr>,
     p_arguments = \<lparr>pg_argc = 0, pg_argv = 0\<rparr>\<rparr>"

section \<open>The process table\<close>

definition process_init :: "u32 \<Rightarrow> 'a process_machine_scheme \<Rightarrow> 'a process_machine_scheme" where
  "process_init process st = st\<lparr>procs := (procs st)(process \<mapsto> zero_process)\<rparr>"

definition process_get :: "int \<Rightarrow> 'a process_machine_scheme \<Rightarrow> u32" where
  "process_get process_id st =
     (if process_id < 0 \<or> process_id \<ge> MAEROS_MAX_PROCESSES then 0 else processes st ! nat process_id)"

definition process_switch :: "u32 \<Rightarrow> 'a process_machine_scheme \<Rightarrow> 'a process_machine_scheme" where
  "process_switch process st = st\<lparr>current_process := process\<rparr>"

text \<open>The loops over the table and over the allocations run through the lists in order.\<close>

fun first_slot :: "nat \<Rightarrow> u32 list \<Rightarrow> nat option" where
  "first_slot i [] = None"
| "first_slot i (p # ps) = (if p = 0 then Some i else first_slot (Suc i) ps)"

definition process_get_free_slot :: "'a process_machine_scheme \<Rightarrow> int" where
  "process_get_free_slot st =
     (case first_slot 0 (take MAEROS_MAX_PROCESSES (processes st)) of Some i \<Rightarrow> int i | None \<Rightarrow> - EISTKN)"

fun first_process :: "u32 list \<Rightarrow> u32 option" where
  "first_process [] = None"
| "first_process (p # ps) = (if p \<noteq> 0 then Some p else first_process ps)"

definition process_switch_to_any :: "'a process_machine_scheme \<Rightarrow> 'a process_machine_scheme exec" where
  "process_switch_to_any st =
     (case first_process (take MAEROS_MAX_PROCESSES (processes st)) of
        Some p \<Rightarrow> Ret (process_switch p st)
      | None \<Rightarrow> Trap (Panic (''No processes to switch too'' @ [CHR 0x0A])))"

definition process_unlink :: "u32 \<Rightarrow> 'a process_machine_scheme \<Rightarrow> 'a process_machine_scheme exec" where
  "process_unlink process st =
     bindx (derefx (procs st) process) (\<lambda>p.
     bindx (guardx (unat (p_id p) < MAEROS_MAX_PROCESSES) Fault) (\<lambda>_.
       let st = st\<lparr>processes := (processes st)[unat (p_id p) := 0]\<rparr>
       in if current_process st = process then process_switch_to_any st else Ret st))"

section \<open>Memory of a process\<close>

fun first_ptr :: "u32 \<Rightarrow> nat \<Rightarrow> process_allocation list \<Rightarrow> nat option" where
  "first_ptr ptr i [] = None"
| "first_ptr ptr i (a # as) = (if pa_ptr a = ptr then Some i else first_ptr ptr (Suc i) as)"

definition process_find_free_allocation_index :: "process \<Rightarrow> int" where
  "process_find_free_allocation_index p = (case first_ptr 0 0 (p_allocations p) of Some i \<Rightarrow> int i | None \<Rightarrow> - ENOMEM)"

definition process_is_process_pointer :: "process \<Rightarrow> u32 \<Rightarrow> bool" where
  "process_is_process_pointer p ptr \<longleftrightarrow> first_ptr ptr 0 (p_allocations p) \<noteq> None"

definition process_allocation_unjoin :: "process \<Rightarrow> u32 \<Rightarrow> process" where
  "process_allocation_unjoin p ptr =
     p\<lparr>p_allocations := map (\<lambda>a. if pa_ptr a = ptr then \<lparr>pa_ptr = 0, pa_size = 0\<rparr> else a) (p_allocations p)\<rparr>"

text \<open>The index of the allocation, for the pointer to it.\<close>

definition process_get_allocation_by_addr :: "process \<Rightarrow> u32 \<Rightarrow> nat option" where
  "process_get_allocation_by_addr p addr = first_ptr addr 0 (p_allocations p)"

definition process_malloc :: "u32 \<Rightarrow> u32 \<Rightarrow> 'a process_machine_scheme \<Rightarrow> (u32 \<times> 'a process_machine_scheme) exec" where
  "process_malloc process sz st =
     (let (ptr, st) = kzalloc sz st
      in if ptr = 0 then Ret (0, st)
         else bindx (derefx (procs st) process) (\<lambda>p.
           let index = process_find_free_allocation_index p
           in if index < 0 then Ret (0, kfree ptr st)
              else bindx (derefx (tasks st) (p_task p)) (\<lambda>t.
                let (res, m) = paging_map_to (t_page_directory t) ptr ptr (paging_align_address (ptr + sz))
                      (PAGING_IS_WRITEABLE OR PAGING_IS_PRESENT OR PAGING_ACCESS_FROM_ALL) (pmem st);
                    st = st\<lparr>pmem := m\<rparr>
                in if res < 0 then Ret (0, kfree ptr st)
                   else Ret (ptr, st\<lparr>procs := (procs st)(process \<mapsto>
                     p\<lparr>p_allocations := (p_allocations p)[nat index := \<lparr>pa_ptr = ptr, pa_size = sz\<rparr>]\<rparr>)\<rparr>))))"

definition process_free :: "u32 \<Rightarrow> u32 \<Rightarrow> 'a process_machine_scheme \<Rightarrow> 'a process_machine_scheme exec" where
  "process_free process ptr st =
     bindx (derefx (procs st) process) (\<lambda>p.
       case process_get_allocation_by_addr p ptr of
         None \<Rightarrow> Ret st
       | Some i \<Rightarrow>
           bindx (derefx (tasks st) (p_task p)) (\<lambda>t.
             let allocation = p_allocations p ! i;
                 (res, m) = paging_map_to (t_page_directory t) (pa_ptr allocation) (pa_ptr allocation)
                   (paging_align_address (pa_ptr allocation + pa_size allocation)) 0 (pmem st);
                 st = st\<lparr>pmem := m\<rparr>
             in if res < 0 then Ret st
                else Ret (kfree ptr (st\<lparr>procs := (procs st)(process \<mapsto> process_allocation_unjoin p ptr)\<rparr>))))"

primrec terminate_allocations_loop :: "nat \<Rightarrow> nat \<Rightarrow> u32 \<Rightarrow> 'a process_machine_scheme \<Rightarrow> 'a process_machine_scheme exec" where
  "terminate_allocations_loop 0 i process st = Ret st"
| "terminate_allocations_loop (Suc n) i process st =
     bindx (derefx (procs st) process) (\<lambda>p.
     bindx (process_free process (pa_ptr (p_allocations p ! i)) st) (\<lambda>st.
       terminate_allocations_loop n (Suc i) process st))"

definition process_terminate_allocations :: "u32 \<Rightarrow> 'a process_machine_scheme \<Rightarrow> (int \<times> 'a process_machine_scheme) exec" where
  "process_terminate_allocations process st =
     bindx (terminate_allocations_loop MAEROS_MAX_PROGRAM_ALLOCATIONS 0 process st) (\<lambda>st. Ret (0, st))"

section \<open>Termination\<close>

definition process_free_binary_data :: "process \<Rightarrow> 'a process_machine_scheme \<Rightarrow> (int \<times> 'a process_machine_scheme) exec" where
  "process_free_binary_data p st = Ret (0, kfree (p_ptr p) st)"

definition process_free_elf_data :: "process \<Rightarrow> 'a process_machine_scheme \<Rightarrow> (int \<times> 'a process_machine_scheme) exec" where
  "process_free_elf_data p st = bindx (elf_close (p_ptr p) st) (\<lambda>st. Ret (0, st))"

definition process_free_program_data :: "process \<Rightarrow> 'a process_machine_scheme \<Rightarrow> (int \<times> 'a process_machine_scheme) exec" where
  "process_free_program_data p st =
     (if p_filetype p = PROCESS_FILETYPE_BINARY then process_free_binary_data p st
      else if p_filetype p = PROCESS_FILETYPE_ELF then process_free_elf_data p st
      else Ret (- EINVARG, st))"

definition process_terminate :: "u32 \<Rightarrow> 'a process_machine_scheme \<Rightarrow> (int \<times> 'a process_machine_scheme) exec" where
  "process_terminate process st =
     bindx (process_terminate_allocations process st) (\<lambda>(res, st).
       if res < 0 then Ret (res, st)
       else bindx (derefx (procs st) process) (\<lambda>p.
         bindx (process_free_program_data p st) (\<lambda>(res, st).
           if res < 0 then Ret (res, st)
           else
             let st = kfree (p_stack p) st
             in bindx (task_free (p_task p) st) (\<lambda>st.
                  bindx (process_unlink process st) (\<lambda>st. Ret (res, st))))))"

section \<open>Arguments\<close>

definition process_get_arguments :: "process \<Rightarrow> int \<times> u32" where
  "process_get_arguments p = (pg_argc (p_arguments p), pg_argv (p_arguments p))"

text \<open>
  A \<open>command_argument\<close> is a structure in memory: 512 bytes of text and the pointer to the next. The
  list comes from a user program and may be cyclic, so the loops have fuel.
\<close>

definition argument_next :: "mem \<Rightarrow> u32 \<Rightarrow> u32" where
  "argument_next m p = load32 m (p + 512)"

primrec process_count_command_arguments :: "nat \<Rightarrow> u32 \<Rightarrow> mem \<Rightarrow> int exec" where
  "process_count_command_arguments 0 current m = Trap Diverge"
| "process_count_command_arguments (Suc fuel) current m =
     (if current = 0 then Ret 0
      else bindx (process_count_command_arguments fuel (argument_next m current) m) (\<lambda>i. Ret (i + 1)))"

text \<open>\<open>strncpy\<close> of \<open>string.c\<close> on addresses in the kernel's page: \<open>n\<close> is what is left of \<open>count - 1\<close>.\<close>

primrec mem_strncpy_loop :: "nat \<Rightarrow> u32 \<Rightarrow> u32 \<Rightarrow> mem \<Rightarrow> mem" where
  "mem_strncpy_loop 0 dest src m = m(dest := 0)"
| "mem_strncpy_loop (Suc n) dest src m =
     (if m src = 0 then m(dest := 0) else mem_strncpy_loop n (dest + 1) (src + 1) (m(dest := m src)))"

definition mem_strncpy :: "u32 \<Rightarrow> u32 \<Rightarrow> int \<Rightarrow> mem \<Rightarrow> mem" where
  "mem_strncpy dest src count m = mem_strncpy_loop (nat (count - 1)) dest src m"

primrec inject_loop ::
  "nat \<Rightarrow> u32 \<Rightarrow> u32 \<Rightarrow> u32 \<Rightarrow> nat \<Rightarrow> 'a process_machine_scheme \<Rightarrow> (int \<times> 'a process_machine_scheme) exec" where
  "inject_loop 0 process argv current i st = Trap Diverge"
| "inject_loop (Suc fuel) process argv current i st =
     (if current = 0 then Ret (0, st)
      else bindx (process_malloc process 512 st) (\<lambda>(argument_str, st).
        if argument_str = 0 then Ret (- ENOMEM, st)
        else
          let m = mem_strncpy argument_str current 512 (pmem st);
              m = store32 m (argv + 4 * of_nat i) argument_str;
              st = st\<lparr>pmem := m\<rparr>
          in inject_loop fuel process argv (argument_next m current) (Suc i) st))"

definition process_inject_arguments ::
  "nat \<Rightarrow> u32 \<Rightarrow> u32 \<Rightarrow> 'a process_machine_scheme \<Rightarrow> (int \<times> 'a process_machine_scheme) exec" where
  "process_inject_arguments fuel process root_argument st =
     bindx (process_count_command_arguments fuel root_argument (pmem st)) (\<lambda>argc.
       if argc = 0 then Ret (- EIO, st)
       else bindx (process_malloc process (4 * word_of_int argc) st) (\<lambda>(argv, st).
         if argv = 0 then Ret (- ENOMEM, st)
         else bindx (inject_loop fuel process argv root_argument 0 st) (\<lambda>(res, st).
           if res < 0 then Ret (res, st)
           else bindx (derefx (procs st) process) (\<lambda>p.
             Ret (0, st\<lparr>procs := (procs st)(process \<mapsto> p\<lparr>p_arguments := \<lparr>pg_argc = argc, pg_argv = argv\<rparr>\<rparr>)\<rparr>)))))"

section \<open>Mapping a loaded program\<close>

definition process_map_binary :: "process \<Rightarrow> 'a process_machine_scheme \<Rightarrow> (int \<times> 'a process_machine_scheme) exec" where
  "process_map_binary p st =
     bindx (derefx (tasks st) (p_task p)) (\<lambda>t.
       let (_, m) = paging_map_to (t_page_directory t) MAEROS_PROGRAM_VIRTUAL_ADDRESS (p_ptr p)
             (paging_align_address (p_ptr p + p_size p))
             (PAGING_IS_PRESENT OR PAGING_ACCESS_FROM_ALL OR PAGING_IS_WRITEABLE) (pmem st)
       in Ret (0, st\<lparr>pmem := m\<rparr>))"

text \<open>
  The loop reads \<open>e_phnum\<close>, a 16-bit number, again in each round; the first argument counts the
  rounds that are at most left.
\<close>

primrec map_elf_loop :: "nat \<Rightarrow> int \<Rightarrow> elf_file \<Rightarrow> paging_4gb_chunk \<Rightarrow> u32 \<Rightarrow> int \<Rightarrow> mem \<Rightarrow> int \<times> mem" where
  "map_elf_loop 0 i f chunk phdrs res m = (res, m)"
| "map_elf_loop (Suc n) i f chunk phdrs res m =
     (if i < int (unat (e_phnum (header_at m (elf_header_of f)))) then
        let phdr = phdr_at m (phdrs + 32 * word_of_int i);
            phdr_phys_address = elf_phdr_phys_address f phdr;
            flags = (PAGING_IS_PRESENT OR PAGING_ACCESS_FROM_ALL) OR
                    (if p_flags phdr AND PF_W \<noteq> 0 then PAGING_IS_WRITEABLE else 0);
            (res, m) = paging_map_to chunk (paging_align_to_lower_page (p_vaddr phdr))
              (paging_align_to_lower_page phdr_phys_address)
              (paging_align_address (phdr_phys_address + p_memsz phdr)) flags m
        in if res < 0 then (res, m) else map_elf_loop n (i + 1) f chunk phdrs res m
      else (res, m))"

definition process_map_elf :: "process \<Rightarrow> 'a process_machine_scheme \<Rightarrow> (int \<times> 'a process_machine_scheme) exec" where
  "process_map_elf p st =
     bindx (derefx (elf_files st) (p_ptr p)) (\<lambda>f.
     bindx (derefx (tasks st) (p_task p)) (\<lambda>t.
       let phdrs = elf_pheader (pmem st) (elf_header_of f);
           (res, m) = map_elf_loop 65536 0 f (t_page_directory t) phdrs 0 (pmem st)
       in Ret (res, st\<lparr>pmem := m\<rparr>)))"

definition process_map_memory :: "process \<Rightarrow> 'a process_machine_scheme \<Rightarrow> (int \<times> 'a process_machine_scheme) exec" where
  "process_map_memory p st =
     bindx (process_map_binary p st) (\<lambda>(_, st).
     bindx (if p_filetype p = PROCESS_FILETYPE_ELF then process_map_elf p st
            else if p_filetype p = PROCESS_FILETYPE_BINARY then process_map_binary p st
            else Trap (Panic (''process_map_memory: Invalid filetype'' @ [CHR 0x0A]))) (\<lambda>(res, st).
       if res < 0 then Ret (res, st)
       else bindx (derefx (tasks st) (p_task p)) (\<lambda>t.
         let (_, m) = paging_map_to (t_page_directory t) MAEROS_PROGRAM_VIRTUAL_STACK_ADDRESS_END (p_stack p)
               (paging_align_address (p_stack p + MAEROS_USER_PROGRAM_STACK_SIZE))
               (PAGING_IS_PRESENT OR PAGING_ACCESS_FROM_ALL OR PAGING_IS_WRITEABLE) (pmem st)
         in Ret (res, st\<lparr>pmem := m\<rparr>))))"

section \<open>Well-formed processes\<close>

text \<open>
  Each entry of the allocation table that is in use is a live allocation of the kernel heap of the
  recorded size, and no two entries hold the same pointer.
\<close>

definition allocs_ok :: "allocs \<Rightarrow> process_allocation list \<Rightarrow> bool" where
  "allocs_ok A as \<longleftrightarrow> length as = 1024 \<and>
     (\<forall>a \<in> set as. pa_ptr a \<noteq> 0 \<longrightarrow>
        (\<exists>b < KBLOCKS. pa_ptr a = kblock b \<and> 0 < blocks_for (pa_size a) \<and> A b = Some (blocks_for (pa_size a)))) \<and>
     (\<forall>i < 1024. \<forall>j < 1024. pa_ptr (as ! i) = pa_ptr (as ! j) \<longrightarrow> pa_ptr (as ! i) \<noteq> 0 \<longrightarrow> i = j) \<and>
     (\<forall>a \<in> set as. pa_ptr a = 0 \<longrightarrow> pa_size a = 0)"

text \<open>A process with its task and the blocks of its page directory.\<close>

definition proc_ok :: "'a process_machine_scheme \<Rightarrow> allocs \<Rightarrow> u32 \<Rightarrow> process \<Rightarrow> task \<Rightarrow> nat \<Rightarrow> nat \<Rightarrow> nat list \<Rightarrow> bool" where
  "proc_ok st A process p t c d us \<longleftrightarrow> kheap_rel st A \<and> procs st process = Some p \<and> tasks st (p_task p) = Some t \<and>
     t_page_directory t = kblock c \<and> owns_chunk (pmem st) A c d us \<and> allocs_ok A (p_allocations p) \<and>
     (\<forall>a \<in> set (p_allocations p). \<forall>b \<in> set (c # d # us). pa_ptr a \<noteq> kblock b)"

lemma first_ptr_Some:
  "first_ptr x i as = Some j \<Longrightarrow> \<exists>k. j = i + k \<and> k < length as \<and> pa_ptr (as ! k) = x \<and> (\<forall>l < k. pa_ptr (as ! l) \<noteq> x)"
proof (induction as arbitrary: i)
  case (Cons a as)
  show ?case
  proof (cases "pa_ptr a = x")
    case True
    with Cons.prems show ?thesis by (intro exI [of _ 0]) simp
  next
    case False
    with Cons.prems have "first_ptr x (Suc i) as = Some j" by simp
    then obtain k where "j = Suc i + k" "k < length as" "pa_ptr (as ! k) = x" "\<forall>l < k. pa_ptr (as ! l) \<noteq> x"
      using Cons.IH by blast
    with False show ?thesis by (intro exI [of _ "Suc k"]) (auto simp: less_Suc_eq_0_disj)
  qed
qed simp

lemma first_ptr_None: "first_ptr x i as = None \<longleftrightarrow> (\<forall>a \<in> set as. pa_ptr a \<noteq> x)"
  by (induction as arbitrary: i) auto

lemma owns_chunk_frame:
  assumes "owns_chunk m A c d ts" and "\<And>b a. b \<in> {c, d} \<Longrightarrow> in_block b a \<Longrightarrow> m' a = m a"
    and "\<And>b. b \<in> set (c # d # ts) \<Longrightarrow> A' b = A b"
  shows "owns_chunk m' A' c d ts"
proof -
  have b: "c < KBLOCKS" "d < KBLOCKS" using assms(1) by (auto simp: owns_chunk_def)
  have "load32 m' (cell (kblock x) k) = load32 m (cell (kblock x) k)" if "x \<in> {c, d}" "k < 1024" for x k
    using that b assms(2) [OF that(1)] by (intro load_block_cong) auto
  from this [of c 0] this [of d] show ?thesis
    using assms(1,3) by (simp add: owns_chunk_def directory_entry_def table_of_def cell_def)
qed

lemma unat_kblock_diff: "f + n \<le> KBLOCKS \<Longrightarrow> unat (kblock (f + n) - kblock f) = n * 4096 \<and> kblock f \<le> kblock (f + n)"
  using unat_kblock [of f] unat_kblock [of "f + n"] by (simp add: unat_sub word_le_nat_alt)

lemma map_block_run:
  assumes "owns_chunk m A c d us" and "f + n \<le> KBLOCKS" and "0 \<le> flags" and "flags < 4096"
  shows "\<exists>m'. paging_map_to (kblock c) (kblock f) (kblock f) (kblock (f + n)) flags m = (0, m') \<and>
    owns_chunk m' A c d us \<and> same_but (set us) m m' \<and>
    (\<forall>v. in_blocks f n v \<longrightarrow> paging_get (kblock d) (v AND 0xfffff000) m' = (v AND 0xfffff000) OR word_of_int flags) \<and>
    (\<forall>w. page_aligned w \<longrightarrow> \<not> in_blocks f n w \<longrightarrow> paging_get (kblock d) w m' = paging_get (kblock d) w m)"
proof -
  note wf = owns_chunk_wf [OF assms(1)]
  have dir: "directory_entry m (kblock c) = kblock d" using assms(1) by (simp add: owns_chunk_def)
  note u = unat_kblock_diff [OF assms(2)] and uf = unat_kblock [of f]
  have al: "page_aligned (kblock f)" "page_aligned (kblock (f + n))"
    using assms(2) unat_kblock [of f] unat_kblock [of "f + n"] by (simp_all add: page_aligned_def)
  have b: "unat (kblock f) + unat (kblock (f + n) - kblock f) \<le> 2 ^ 32" using u uf assms(2) by simp
  obtain m' where M: "paging_map_to (kblock c) (kblock f) (kblock f) (kblock (f + n)) flags m = (0, m')"
    "\<forall>k < n * 4096. paging_get (directory_entry m' (kblock c)) ((kblock f + of_nat k) AND 0xfffff000) m' =
         ((kblock f + of_nat k) AND 0xfffff000) OR word_of_int flags"
    "\<forall>w. page_aligned w \<longrightarrow> \<not> (unat (kblock f) \<le> unat w \<and> unat w < unat (kblock f) + n * 4096) \<longrightarrow>
       paging_get (directory_entry m' (kblock c)) w m' = paging_get (kblock d) w m"
    using map_to_run [OF wf al(1) al _ b assms(3,4)] u dir by auto
  have O: "owns_chunk m' A c d us" "same_but (set us) m m'"
    using map_to_owned [OF assms(1), of "kblock f" "kblock f" "kblock (f + n)" flags] M(1) by simp_all
  have d': "directory_entry m' (kblock c) = kblock d" using O(1) by (simp add: owns_chunk_def)
  have "paging_get (kblock d) (v AND 0xfffff000) m' = (v AND 0xfffff000) OR word_of_int flags"
    if v: "in_blocks f n v" for v
  proof -
    have le: "unat (kblock f) \<le> unat v" using v uf assms(2) by (simp add: in_blocks_def)
    have "unat v < unat (kblock f) + n * 4096" using v uf assms(2) by (simp add: in_blocks_def algebra_simps)
    then have "unat v - unat (kblock f) < n * 4096" using le by linarith
    moreover have "kblock f + of_nat (unat v - unat (kblock f)) = v"
      using le by (simp add: of_nat_diff)
    ultimately show ?thesis using M(2) d' by metis
  qed
  moreover have "in_blocks f n w \<longleftrightarrow> unat (kblock f) \<le> unat w \<and> unat w < unat (kblock f) + n * 4096" for w
    using uf assms(2) by (simp add: in_blocks_def algebra_simps)
  ultimately show ?thesis using M(1,3) O d' by auto
qed

lemma same_but_rel:
  assumes "kheap_rel st A" and "same_but S (pmem st) m" and "S \<subseteq> {..<KBLOCKS}"
  shows "kheap_rel (st\<lparr>pmem := m\<rparr>) A"
proof (rule kheap_rel_upd [OF assms(1)])
  fix a assume "\<not> in_data a"
  then show "m a = pmem st a" using assms(2,3) block_data by (auto simp: same_but_def)
qed

lemma kheap_rel_proc [simp]: "kheap_rel (st\<lparr>procs := ps\<rparr>) A = kheap_rel st A"
  by (simp add: kheap_rel_def)

section \<open>Allocation and release by a process\<close>

lemma allocs_ok_upd:
  assumes "allocs_ok A as" and "A f = None" and "f < KBLOCKS" and "0 < blocks_for sz"
    and "i < length as"
  shows "allocs_ok (A(f \<mapsto> blocks_for sz)) (as[i := \<lparr>pa_ptr = kblock f, pa_size = sz\<rparr>])"
proof -
  have old: "\<exists>b < KBLOCKS. b \<noteq> f \<and> pa_ptr a = kblock b \<and> 0 < blocks_for (pa_size a) \<and> A b = Some (blocks_for (pa_size a))"
    if "a \<in> set as" "pa_ptr a \<noteq> 0" for a
    using assms(1,2) that by (fastforce simp: allocs_ok_def)
  then have ne: "pa_ptr a \<noteq> kblock f" if "a \<in> set as" for a
  proof (cases "pa_ptr a = 0")
    case False
    with old [OF that] obtain b where "b < KBLOCKS" "b \<noteq> f" "pa_ptr a = kblock b" by blast
    then show ?thesis using assms(3) by (simp add: kblock_inj)
  qed (use assms(3) in simp)
  have "pa_ptr a \<noteq> 0 \<longrightarrow> (\<exists>b < KBLOCKS. pa_ptr a = kblock b \<and> 0 < blocks_for (pa_size a) \<and>
      (A(f \<mapsto> blocks_for sz)) b = Some (blocks_for (pa_size a)))"
    if "a \<in> set (as[i := \<lparr>pa_ptr = kblock f, pa_size = sz\<rparr>])" for a
    using set_update_subset_insert [of as i] that old assms(3,4) by fastforce
  moreover have "j = k" if "j < 1024" "k < 1024"
    "pa_ptr (as[i := \<lparr>pa_ptr = kblock f, pa_size = sz\<rparr>] ! j) = pa_ptr (as[i := \<lparr>pa_ptr = kblock f, pa_size = sz\<rparr>] ! k)"
    "pa_ptr (as[i := \<lparr>pa_ptr = kblock f, pa_size = sz\<rparr>] ! j) \<noteq> 0" for j k
    using that assms(1) ne [of "as ! j"] ne [of "as ! k"] assms(5)
    by (auto simp: allocs_ok_def nth_list_update split: if_splits)
  moreover have "pa_ptr a = 0 \<longrightarrow> pa_size a = 0" if "a \<in> set (as[i := \<lparr>pa_ptr = kblock f, pa_size = sz\<rparr>])" for a
    using set_update_subset_insert [of as i] that assms(1,3) by (fastforce simp: allocs_ok_def)
  ultimately show ?thesis using assms(1) by (simp add: allocs_ok_def)
qed

lemma paging_get_keep:
  assumes "owns_chunk m A c d ts" and "\<And>b a. b \<in> set (c # d # ts) \<Longrightarrow> in_block b a \<Longrightarrow> m' a = m a"
  shows "paging_get (kblock d) w m' = paging_get (kblock d) w m"
proof -
  have b: "d < KBLOCKS" "length ts = 1024" "\<And>i. i < 1024 \<Longrightarrow> ts ! i < KBLOCKS"
    using assms(1) by (auto simp: owns_chunk_def)
  define v where "v = (if page_aligned w then w else 0)"
  have "page_aligned 0" by (simp add: page_aligned_def)
  then have idx: "paging_get_indexes w 0 0 = (if page_aligned w then 0 else - 2, of_nat (dir_index v), of_nat (tab_index v))"
    using get_indexes_aligned [of w 0 0]
    by (simp add: paging_get_indexes_def paging_is_aligned_iff v_def dir_index_def tab_index_def)
  have get: "paging_get (kblock d) w m0 = load32 m0 (cell (table_of m0 (kblock d) (dir_index v)) (tab_index v))" for m0
    by (simp add: paging_get_def idx cell_def table_of_def)
  have eq: "load32 m' (cell (kblock x) k) = load32 m (cell (kblock x) k)" if "x \<in> set (c # d # ts)" "x < KBLOCKS" "k < 1024" for x k
    using that assms(2) [OF that(1)] by (intro load_block_cong) auto
  have tab: "table_of m' (kblock d) (dir_index v) = table_of m (kblock d) (dir_index v)"
    using eq [of d "dir_index v"] b(1) by (simp add: table_of_def)
  moreover have "table_of m (kblock d) (dir_index v) = kblock (ts ! dir_index v)"
    using assms(1) by (simp add: owns_chunk_def)
  moreover have "ts ! dir_index v \<in> set (c # d # ts)" using b(2) by simp
  ultimately show ?thesis using eq [of "ts ! dir_index v" "tab_index v"] b(3) by (simp add: get)
qed

lemma block_in_blocks: "b \<in> {f..<f + n} \<Longrightarrow> in_block b a \<Longrightarrow> in_blocks f n a"
  by (auto simp: in_block_def in_blocks_def)

lemma live_one_disjoint:
  assumes "kheap_rel st A" and "A b = Some 1" and "A f = Some n" and "b \<noteq> f" and "in_block b a"
  shows "\<not> in_blocks f n a"
  using kz.live_disjoint [OF assms(1-4), of a] assms(5) by (simp add: in_blocks_one)

lemma process_malloc_run:
  assumes ok: "proc_ok st A process p t c d us" and sz: "0 < blocks_for sz"
    and fit: "fits A KBLOCKS (blocks_for sz) s" and i: "first_ptr 0 0 (p_allocations p) = Some i"
  defines "n \<equiv> blocks_for sz"
  shows "\<exists>f m p'. process_malloc process sz st = Ret (kblock f, st\<lparr>pmem := m, procs := (procs st)(process \<mapsto> p')\<rparr>) \<and>
    p' = p\<lparr>p_allocations := (p_allocations p)[i := \<lparr>pa_ptr = kblock f, pa_size = sz\<rparr>]\<rparr> \<and>
    fits A KBLOCKS n f \<and> f < KBLOCKS \<and> A f = None \<and>
    proc_ok (st\<lparr>pmem := m, procs := (procs st)(process \<mapsto> p')\<rparr>) (A(f \<mapsto> n)) process p' t c d us \<and>
    (\<forall>a. in_range (kblock f) (unat sz) a \<longrightarrow> m a = 0) \<and>
    (\<forall>v. in_blocks f n v \<longrightarrow> paging_get (kblock d) (v AND 0xfffff000) m = (v AND 0xfffff000) OR 7) \<and>
    (\<forall>w. page_aligned w \<longrightarrow> \<not> in_blocks f n w \<longrightarrow> paging_get (kblock d) w m = paging_get (kblock d) w (pmem st)) \<and>
    (\<forall>a. KBLOCKS \<le> tbl_off (h_table kernel_heap_value) a \<longrightarrow> \<not> in_blocks f n a \<longrightarrow> (\<forall>b \<in> set us. \<not> in_block b a) \<longrightarrow> m a = pmem st a)"
proof -
  have P: "kheap_rel st A" "procs st process = Some p" "tasks st (p_task p) = Some t"
    "t_page_directory t = kblock c" "owns_chunk (pmem st) A c d us" "allocs_ok A (p_allocations p)"
    "\<forall>a \<in> set (p_allocations p). \<forall>b \<in> set (c # d # us). pa_ptr a \<noteq> kblock b"
    using ok by (simp_all add: proc_ok_def)
  obtain f m1 where Z: "kzalloc sz st = (kblock f, st\<lparr>pmem := m1\<rparr>)" "fits A KBLOCKS n f"
    "kheap_rel (st\<lparr>pmem := m1\<rparr>) (A(f \<mapsto> n))" "\<forall>a. in_range (kblock f) (unat sz) a \<longrightarrow> m1 a = 0"
    "\<forall>a. KBLOCKS \<le> tbl_off (h_table kernel_heap_value) a \<longrightarrow> \<not> in_range (kblock f) (unat sz) a \<longrightarrow> m1 a = pmem st a"
    using kzalloc_run [OF P(1) sz fit] by (auto simp: n_def)
  have f: "A f = None" "f < KBLOCKS" "f + n \<le> KBLOCKS"
    using fits_fresh [OF kheap_rel_wf [OF P(1)] Z(2)] Z(2) sz by (auto simp: fits_def n_def)
  have live: "A b = Some 1" "b < KBLOCKS" "b \<noteq> f" if "b \<in> set (c # d # us)" for b
    using that P(5) f(1) by (auto simp: owns_chunk_def)
  have keep: "m1 a = pmem st a" if "b \<in> set (c # d # us)" "in_block b a" for b a
    using kz.alloc_keeps_live [OF P(1) sz fit live(1) [OF that(1)], of a] that Z(1) by (simp add: in_blocks_one)
  have O1: "owns_chunk m1 (A(f \<mapsto> n)) c d us"
    using keep live(3) by (intro owns_chunk_frame [OF P(5)]) auto
  obtain m where M: "paging_map_to (kblock c) (kblock f) (kblock f) (kblock (f + n)) 7 m1 = (0, m)"
    "owns_chunk m (A(f \<mapsto> n)) c d us" "same_but (set us) m1 m"
    "\<forall>v. in_blocks f n v \<longrightarrow> paging_get (kblock d) (v AND 0xfffff000) m = (v AND 0xfffff000) OR 7"
    "\<forall>w. page_aligned w \<longrightarrow> \<not> in_blocks f n w \<longrightarrow> paging_get (kblock d) w m = paging_get (kblock d) w m1"
    using map_block_run [OF O1 f(3), of 7] by auto
  have old: "paging_get (kblock d) w m1 = paging_get (kblock d) w (pmem st)" for w
    using paging_get_keep [OF P(5) keep] by simp
  have us: "set us \<subseteq> {..<KBLOCKS}" using live by auto
  have rel: "kheap_rel (st\<lparr>pmem := m\<rparr>) (A(f \<mapsto> n))"
    using same_but_rel [OF Z(3), of "set us" m] M(3) us by simp
  have zero: "m a = 0" if "in_range (kblock f) (unat sz) a" for a
  proof -
    have inb: "in_blocks f n a"
      using in_range_blocks [OF f(3), of "unat sz" a] blocks_for_bytes [OF sz] that by (simp add: n_def)
    have "\<not> in_block b a" if "b \<in> set us" for b
      using live_one_disjoint [OF Z(3), of b f n a] live [of b] that inb by auto
    then show ?thesis using M(3) Z(4) that by (simp add: same_but_def)
  qed
  have frame: "m a = pmem st a"
    if "KBLOCKS \<le> tbl_off (h_table kernel_heap_value) a" "\<not> in_blocks f n a" "\<forall>b \<in> set us. \<not> in_block b a" for a
  proof -
    have "\<not> in_range (kblock f) (unat sz) a" using that(2) in_range_blocks [OF f(3), of "unat sz" a] blocks_for_bytes [OF sz] unfolding n_def by blast
    then show ?thesis using that M(3) Z(5) by (simp add: same_but_def)
  qed
  define p' where "p' = p\<lparr>p_allocations := (p_allocations p)[i := \<lparr>pa_ptr = kblock f, pa_size = sz\<rparr>]\<rparr>"
  have "process_malloc process sz st = Ret (kblock f, st\<lparr>pmem := m, procs := (procs st)(process \<mapsto> p')\<rparr>)"
    using Z(1) P(2-4) f(2) i M(1) align_address_block [of f sz] f(3) sz
    by (simp add: process_malloc_def derefx_def process_find_free_allocation_index_def p'_def n_def)
  moreover have "allocs_ok (A(f \<mapsto> n)) (p_allocations p')"
    using allocs_ok_upd [OF P(6) f(1,2) sz, of i] first_ptr_Some [OF i] by (simp add: p'_def n_def)
  moreover have "pa_ptr a \<noteq> kblock b" if "a \<in> set (p_allocations p')" "b \<in> set (c # d # us)" for a b
  proof -
    have "a = \<lparr>pa_ptr = kblock f, pa_size = sz\<rparr> \<or> a \<in> set (p_allocations p)"
      using that(1) set_update_subset_insert [of "p_allocations p" i] by (auto simp: p'_def)
    then show ?thesis using P(7) that(2) live(2,3) [OF that(2)] f(2) by (auto simp: kblock_inj)
  qed
  ultimately show ?thesis
    using Z(2) f(1,2) rel M(2,4,5) P(3,4) old zero frame
    by (intro exI [of _ f] exI [of _ m] exI [of _ p']) (simp add: proc_ok_def p'_def)
qed

lemma allocs_okD:
  assumes "allocs_ok A as" and "a \<in> set as" and "pa_ptr a \<noteq> 0"
  shows "\<exists>b < KBLOCKS. pa_ptr a = kblock b \<and> 0 < blocks_for (pa_size a) \<and> A b = Some (blocks_for (pa_size a))"
  using assms by (simp add: allocs_ok_def)

lemma first_ptr_index:
  assumes "i < length as" and "pa_ptr (as ! i) = x" and "\<And>j. j < length as \<Longrightarrow> pa_ptr (as ! j) = x \<Longrightarrow> j = i"
  shows "first_ptr x 0 as = Some i"
proof -
  have "first_ptr x 0 as \<noteq> None" using assms(1,2) by (auto simp: first_ptr_None)
  then obtain j where j: "first_ptr x 0 as = Some j" by auto
  from first_ptr_Some [OF this] have "j < length as" "pa_ptr (as ! j) = x" by auto
  with assms(3) j show ?thesis by simp
qed

lemma unjoin_index:
  assumes "i < length as" and "pa_ptr (as ! i) = x" and "\<And>j. j < length as \<Longrightarrow> pa_ptr (as ! j) = x \<Longrightarrow> j = i"
  shows "map (\<lambda>a. if pa_ptr a = x then z else a) as = as[i := z]"
proof (rule nth_equalityI)
  fix j assume "j < length (map (\<lambda>a. if pa_ptr a = x then z else a) as)"
  then have j: "j < length as" by simp
  show "map (\<lambda>a. if pa_ptr a = x then z else a) as ! j = as[i := z] ! j"
  proof (cases "j = i")
    case True
    with assms(1,2) show ?thesis by simp
  next
    case False
    then have "pa_ptr (as ! j) \<noteq> x" using assms(3) [OF j] by blast
    with False j show ?thesis by simp
  qed
qed simp

lemma allocs_ok_unique:
  assumes "allocs_ok A as" and "i < 1024" and "pa_ptr (as ! i) \<noteq> 0" and "j < length as" and "pa_ptr (as ! j) = pa_ptr (as ! i)"
  shows "j = i"
  using assms by (auto simp: allocs_ok_def)

lemma allocs_ok_del:
  assumes ok: "allocs_ok A as" and i: "i < 1024" "pa_ptr (as ! i) = kblock f" "f < KBLOCKS"
  shows "allocs_ok (A(f := None)) (as[i := \<lparr>pa_ptr = 0, pa_size = 0\<rparr>])"
proof -
  let ?z = "\<lparr>pa_ptr = 0, pa_size = 0\<rparr> :: process_allocation" and ?as = "as[i := \<lparr>pa_ptr = 0, pa_size = 0\<rparr>]"
  have len: "length as = 1024" using ok by (simp add: allocs_ok_def)
  have "\<exists>b < KBLOCKS. pa_ptr a = kblock b \<and> 0 < blocks_for (pa_size a) \<and> (A(f := None)) b = Some (blocks_for (pa_size a))"
    if H: "a \<in> set ?as" "pa_ptr a \<noteq> 0" for a
  proof -
    obtain j where "j < 1024" "a = ?as ! j" using H(1) len by (auto simp: in_set_conv_nth)
    moreover from this have "j \<noteq> i" using H(2) i(1) len by auto
    ultimately have j: "j < 1024" "j \<noteq> i" "a = as ! j" by simp_all
    then obtain b where b: "b < KBLOCKS" "pa_ptr a = kblock b" "0 < blocks_for (pa_size a)" "A b = Some (blocks_for (pa_size a))"
      using allocs_okD [OF ok, of a] H(2) len by auto
    have "b \<noteq> f" using allocs_ok_unique [OF ok i(1), of j] j b(2) i len by auto
    with b show ?thesis by auto
  qed
  moreover have "j = k" if "j < 1024" "k < 1024" "pa_ptr (?as ! j) = pa_ptr (?as ! k)" "pa_ptr (?as ! j) \<noteq> 0" for j k
    using that ok len i(1) by (auto simp: allocs_ok_def nth_list_update split: if_splits)
  moreover have "pa_ptr a = 0 \<longrightarrow> pa_size a = 0" if "a \<in> set ?as" for a
    using set_update_subset_insert [of as i ?z] that ok by (auto simp: allocs_ok_def)
  ultimately show ?thesis using len by (simp add: allocs_ok_def)
qed

text \<open>Releasing the allocation of slot \<open>i\<close>.\<close>

lemma process_free_run:
  assumes ok: "proc_ok st A process p t c d us" and i: "i < 1024"
    and a: "p_allocations p ! i = \<lparr>pa_ptr = kblock f, pa_size = sz\<rparr>" and f: "f < KBLOCKS"
  defines "p' \<equiv> p\<lparr>p_allocations := (p_allocations p)[i := \<lparr>pa_ptr = 0, pa_size = 0\<rparr>]\<rparr>"
  shows "\<exists>m. process_free process (kblock f) st = Ret (st\<lparr>pmem := m, procs := (procs st)(process \<mapsto> p')\<rparr>) \<and>
    A f = Some (blocks_for sz) \<and>
    proc_ok (st\<lparr>pmem := m, procs := (procs st)(process \<mapsto> p')\<rparr>) (A(f := None)) process p' t c d us \<and>
    (\<forall>v. in_blocks f (blocks_for sz) v \<longrightarrow> paging_get (kblock d) (v AND 0xfffff000) m = v AND 0xfffff000) \<and>
    (\<forall>w. page_aligned w \<longrightarrow> \<not> in_blocks f (blocks_for sz) w \<longrightarrow>
       paging_get (kblock d) w m = paging_get (kblock d) w (pmem st)) \<and>
    m 0x6E00 = pmem st 0x6E00"
proof -
  let ?as = "p_allocations p" and ?n = "blocks_for sz"
  have P: "kheap_rel st A" "procs st process = Some p" "tasks st (p_task p) = Some t"
    "t_page_directory t = kblock c" "owns_chunk (pmem st) A c d us" "allocs_ok A ?as"
    "\<forall>a \<in> set ?as. \<forall>b \<in> set (c # d # us). pa_ptr a \<noteq> kblock b"
    using ok by (simp_all add: proc_ok_def)
  have len: "length ?as = 1024" using P(6) by (simp add: allocs_ok_def)
  have "?as ! i \<in> set ?as" using i len by simp
  then have mem: "\<lparr>pa_ptr = kblock f, pa_size = sz\<rparr> \<in> set ?as" using a by (simp only:)
  have "pa_ptr \<lparr>pa_ptr = kblock f, pa_size = sz\<rparr> \<noteq> 0" using f by simp
  from allocs_okD [OF P(6) mem this] have "\<exists>b < KBLOCKS. kblock f = kblock b \<and> 0 < ?n \<and> A b = Some ?n"
    by (simp only: process_allocation.simps)
  then have A: "A f = Some ?n" "0 < ?n" using f kblock_inj [of f] by blast+
  have fn: "f + ?n \<le> KBLOCKS" using allocs_wfD(2) [OF kheap_rel_wf [OF P(1)] A(1)] .
  have uniq: "j < length ?as \<Longrightarrow> pa_ptr (?as ! j) = kblock f \<Longrightarrow> j = i" for j
    using allocs_ok_unique [OF P(6) i, of j] a f by simp
  have il: "i < length ?as" and ip: "pa_ptr (?as ! i) = kblock f" using i len a by simp_all
  have fst: "first_ptr (kblock f) 0 ?as = Some i" using first_ptr_index [OF il ip uniq] .
  have unj: "process_allocation_unjoin p (kblock f) = p'"
    using unjoin_index [OF il ip uniq] by (simp add: process_allocation_unjoin_def p'_def)
  obtain m where M: "paging_map_to (kblock c) (kblock f) (kblock f) (kblock (f + ?n)) 0 (pmem st) = (0, m)"
    "owns_chunk m A c d us" "same_but (set us) (pmem st) m"
    "\<forall>v. in_blocks f ?n v \<longrightarrow> paging_get (kblock d) (v AND 0xfffff000) m = (v AND 0xfffff000) OR word_of_int 0"
    "\<forall>w. page_aligned w \<longrightarrow> \<not> in_blocks f ?n w \<longrightarrow> paging_get (kblock d) w m = paging_get (kblock d) w (pmem st)"
    using map_block_run [OF P(5) fn, of 0] by auto
  let ?s = "st\<lparr>pmem := m, procs := (procs st)(process \<mapsto> p')\<rparr>"
  have us: "set us \<subseteq> {..<KBLOCKS}" and live: "\<And>b. b \<in> set (c # d # us) \<Longrightarrow> b < KBLOCKS \<and> A b = Some 1"
    using P(5) by (auto simp: owns_chunk_def)
  have "kheap_rel (st\<lparr>pmem := m\<rparr>) A" using same_but_rel [OF P(1) M(3) us] .
  then have rel: "kheap_rel ?s A" by simp
  note K = kfree_run [OF rel A(1)]
  let ?m = "pmem (kfree (kblock f) ?s)"
  have run: "process_free process (kblock f) st = Ret (st\<lparr>pmem := ?m, procs := (procs st)(process \<mapsto> p')\<rparr>)"
    using P(2-4) fst a M(1) unj align_address_block [OF fn A(2)]
    by (simp add: process_free_def derefx_def process_get_allocation_by_addr_def kfree_def)
  have data: "?m x = m x" if "b \<in> set (c # d # us)" "in_block b x" for b x
    using K(2) [of x] block_data [of b x] live that by simp
  have ne: "b \<noteq> f" if "b \<in> set (c # d # us)" for b
    using P(7) that i len a nth_mem [of i ?as] by force
  have O: "owns_chunk ?m (A(f := None)) c d us"
    using data ne by (intro owns_chunk_frame [OF M(2)]) auto
  have old: "paging_get (kblock d) w ?m = paging_get (kblock d) w m" for w
    using paging_get_keep [OF M(2) data] .
  have "allocs_ok (A(f := None)) (p_allocations p')"
    using allocs_ok_del [OF P(6) i _ f] a by (simp add: p'_def)
  moreover have "pa_ptr x \<noteq> kblock b" if "x \<in> set (p_allocations p')" "b \<in> set (c # d # us)" for x b
  proof -
    have "x = \<lparr>pa_ptr = 0, pa_size = 0\<rparr> \<or> x \<in> set ?as"
      using that(1) set_update_subset_insert [of ?as i] by (auto simp: p'_def)
    then show ?thesis using P(7) that(2) live [OF that(2)] kblock_nonzero [of b] by auto
  qed
  moreover have "kheap_rel (st\<lparr>pmem := ?m, procs := (procs st)(process \<mapsto> p')\<rparr>) (A(f := None))"
    using K(1) by (auto simp: kfree_def kheap_rel_def)
  ultimately have "proc_ok (st\<lparr>pmem := ?m, procs := (procs st)(process \<mapsto> p')\<rparr>) (A(f := None)) process p' t c d us"
    using P(3,4) O by (simp add: proc_ok_def p'_def)
  moreover have "?m 0x6E00 = pmem st 0x6E00"
  proof -
    have "tbl_off (h_table kernel_heap_value) 0x6E00 \<ge> KBLOCKS" by (simp add: tbl_off_def kernel_heap_value_def)
    moreover have "\<not> in_block b 0x6E00" for b by (simp add: in_block_def)
    ultimately show ?thesis using kfree_frame [OF rel A(1)] M(3) by (simp add: same_but_def)
  qed
  ultimately show ?thesis using run A(1) M(4,5) old by (intro exI [of _ ?m]) simp
qed

lemma proc_ok_outside:
  assumes ok: "proc_ok st A process p t c d us" and m: "\<And>a. in_data a \<or> tbl_off (h_table kernel_heap_value) a < KBLOCKS \<Longrightarrow> m a = pmem st a"
  shows "proc_ok (st\<lparr>pmem := m\<rparr>) A process p t c d us"
proof -
  have P: "kheap_rel st A" "owns_chunk (pmem st) A c d us" using ok by (simp_all add: proc_ok_def)
  have "heap_rel kernel_heap_value m A"
  proof (rule heap_rel_cong)
    show "heap_rel kernel_heap_value (pmem st) A" using P(1) by (simp add: kheap_rel_def)
    show "m a = pmem st a" if "tbl_off (h_table kernel_heap_value) a < heap_blocks kernel_heap_value" for a
      using that m [of a] by simp
  qed simp
  moreover have "owns_chunk m A c d us"
  proof (rule owns_chunk_frame [OF P(2)])
    fix b a assume "b \<in> {c, d}" "in_block b a"
    then have "in_data a" using P(2) block_data by (auto simp: owns_chunk_def)
    then show "m a = pmem st a" using m by blast
  qed simp
  ultimately show ?thesis using ok by (simp add: proc_ok_def kheap_rel_def)
qed

lemma proc_ok_low:
  assumes "proc_ok st A process p t c d us"
  shows "proc_ok (st\<lparr>pmem := (pmem st)(0x6E00 := v)\<rparr>) A process p t c d us"
proof (rule proc_ok_outside [OF assms])
  fix a assume "in_data a \<or> tbl_off (h_table kernel_heap_value) a < KBLOCKS"
  moreover have "\<not> in_data 0x6E00" "\<not> tbl_off (h_table kernel_heap_value) 0x6E00 < KBLOCKS"
    by (simp_all add: in_data_def tbl_off_def kernel_heap_value_def)
  ultimately have "a \<noteq> 0x6E00" by auto
  then show "((pmem st)(0x6E00 := v)) a = pmem st a" by simp
qed

text \<open>Releasing through an empty slot: the null pointer is found in the table and given to \<open>kfree\<close>.\<close>

lemma process_free_null:
  assumes ok: "proc_ok st A process p t c d us" and i: "i < 1024" "pa_ptr (p_allocations p ! i) = 0"
    and bit: "\<not> bit (pmem st 0x6E00) 7"
  shows "process_free process 0 st = Ret (st\<lparr>pmem := (pmem st)(0x6E00 := 0)\<rparr>)"
    and "proc_ok (st\<lparr>pmem := (pmem st)(0x6E00 := 0)\<rparr>) A process p t c d us"
proof -
  let ?as = "p_allocations p" and ?m = "(pmem st)(0x6E00 := 0)"
  have P: "kheap_rel st A" "procs st process = Some p" "tasks st (p_task p) = Some t"
    "t_page_directory t = kblock c" "owns_chunk (pmem st) A c d us" "allocs_ok A ?as"
    using ok by (simp_all add: proc_ok_def)
  have zero: "pa_size a = 0" if "a \<in> set ?as" "pa_ptr a = 0" for a
    using P(6) that by (simp add: allocs_ok_def)
  have "first_ptr 0 0 ?as \<noteq> None" using i P(6) nth_mem [of i ?as] by (auto simp: first_ptr_None allocs_ok_def)
  then obtain j where j: "first_ptr 0 0 ?as = Some j" by auto
  then have "j < length ?as" "pa_ptr (?as ! j) = 0" using first_ptr_Some [OF j] by auto
  moreover from this have "pa_size (?as ! j) = 0" using zero nth_mem by blast
  moreover have "process_allocation_unjoin p 0 = p"
  proof -
    have "map (\<lambda>a. if pa_ptr a = 0 then \<lparr>pa_ptr = 0, pa_size = 0\<rparr> else a) ?as = ?as"
      using zero by (intro map_idI) (auto intro: process_allocation.equality)
    then show ?thesis by (simp add: process_allocation_unjoin_def)
  qed
  moreover have "paging_map_to (kblock c) 0 0 (paging_align_address 0) 0 (pmem st) = (0, pmem st)"
    by (simp add: paging_map_to_def paging_align_address_def paging_map_range_def)
  moreover have "kfree 0 st = st\<lparr>pmem := ?m\<rparr>"
    using kfree_null_run [of st] P(1) bit by (simp add: kheap_rel_def)
  ultimately show "process_free process 0 st = Ret (st\<lparr>pmem := ?m\<rparr>)"
    using P(2-4) j by (simp add: process_free_def derefx_def process_get_allocation_by_addr_def fun_upd_idem)
  show "proc_ok (st\<lparr>pmem := ?m\<rparr>) A process p t c d us" using ok by (rule proc_ok_low)
qed

text \<open>The blocks a process holds through its allocation table.\<close>

definition held :: "process \<Rightarrow> nat set" where
  "held p = {b. b < KBLOCKS \<and> kblock b \<in> pa_ptr ` set (p_allocations p)}"

lemma held_upd:
  assumes "allocs_ok A (p_allocations p)" and "i < 1024" and "f < KBLOCKS" and "pa_ptr (p_allocations p ! i) = kblock f"
  shows "held p = insert f (held (p\<lparr>p_allocations := (p_allocations p)[i := \<lparr>pa_ptr = 0, pa_size = 0\<rparr>]\<rparr>))"
proof -
  let ?as = "p_allocations p" and ?z = "\<lparr>pa_ptr = 0, pa_size = 0\<rparr> :: process_allocation"
  have len: "length ?as = 1024" using assms(1) by (simp add: allocs_ok_def)
  have "insert (kblock f) (pa_ptr ` set (?as[i := ?z])) = insert 0 (pa_ptr ` set ?as)"
  proof -
    have "set ?as = insert (?as ! i) (set (take i ?as @ drop (Suc i) ?as))"
      using id_take_nth_drop [of i ?as] assms(2) len by (metis Un_insert_right list.set(2) set_append)
    moreover have "set (?as[i := ?z]) = insert ?z (set (take i ?as @ drop (Suc i) ?as))"
      using assms(2) len by (simp add: upd_conv_take_nth_drop)
    ultimately show ?thesis using assms(4) by auto
  qed
  then have "kblock b \<in> pa_ptr ` set ?as \<longleftrightarrow> b = f \<or> kblock b \<in> pa_ptr ` set (?as[i := ?z])" if "b < KBLOCKS" for b
    using kblock_nonzero [OF that] kblock_inj [OF that assms(3)] by (metis insert_iff)
  then show ?thesis using assms(3) by (auto simp: held_def)
qed

lemma terminate_loop_run:
  assumes "proc_ok st A process p t c d us" and "\<not> bit (pmem st 0x6E00) 7" and "i + n = 1024"
    and "\<forall>j < i. pa_ptr (p_allocations p ! j) = 0"
  shows "\<exists>m p'. terminate_allocations_loop n i process st = Ret (st\<lparr>pmem := m, procs := (procs st)(process \<mapsto> p')\<rparr>) \<and>
    p' = p\<lparr>p_allocations := replicate 1024 \<lparr>pa_ptr = 0, pa_size = 0\<rparr>\<rparr> \<and>
    proc_ok (st\<lparr>pmem := m, procs := (procs st)(process \<mapsto> p')\<rparr>) (revoke A (held p)) process p' t c d us"
  using assms
proof (induction n arbitrary: i st A p)
  case 0
  have as: "length (p_allocations p) = 1024" "\<forall>a \<in> set (p_allocations p). pa_ptr a = 0 \<longrightarrow> pa_size a = 0"
    using 0(1) by (simp_all add: proc_ok_def allocs_ok_def)
  have "pa_ptr a = 0" if "a \<in> set (p_allocations p)" for a
    using that as(1) 0(3,4) by (auto simp: in_set_conv_nth)
  then have z: "a = \<lparr>pa_ptr = 0, pa_size = 0\<rparr>" if "a \<in> set (p_allocations p)" for a
    using that as(2) by (auto intro: process_allocation.equality)
  then have rep: "p_allocations p = replicate 1024 \<lparr>pa_ptr = 0, pa_size = 0\<rparr>"
    using as(1) by (intro replicate_eqI) auto
  then have "held p = {}" using kblock_nonzero by (auto simp: held_def)
  moreover have "procs st process = Some p" using 0(1) by (simp add: proc_ok_def)
  ultimately show ?case
    using 0(1) rep by (intro exI [of _ "pmem st"] exI [of _ p]) (simp add: fun_upd_idem revoke_def)
next
  case (Suc n)
  let ?a = "p_allocations p ! i"
  have P: "procs st process = Some p" "allocs_ok A (p_allocations p)" "length (p_allocations p) = 1024"
    using Suc.prems(1) by (simp_all add: proc_ok_def allocs_ok_def)
  have i: "i < 1024" using Suc.prems(3) by simp
  show ?case
  proof (cases "pa_ptr ?a = 0")
    case True
    note N = process_free_null [OF Suc.prems(1) i True Suc.prems(2)]
    have z: "\<forall>j < Suc i. pa_ptr (p_allocations p ! j) = 0" using True Suc.prems(4) by (auto simp: less_Suc_eq)
    have sum: "Suc i + n = 1024" using Suc.prems(3) by simp
    have bit: "\<not> bit (pmem (st\<lparr>pmem := (pmem st)(0x6E00 := 0)\<rparr>) 0x6E00) 7" by simp
    have eq: "st\<lparr>pmem := m1\<rparr>\<lparr>pmem := m, procs := (procs (st\<lparr>pmem := m1\<rparr>))(process \<mapsto> p')\<rparr> =
        st\<lparr>pmem := m, procs := (procs st)(process \<mapsto> p')\<rparr>" for m1 m p' by simp
    from Suc.IH [OF N(2) bit sum z] N(1) P(1) True show ?thesis by (simp add: derefx_def eq)
  next
    case False
    have "?a \<in> set (p_allocations p)" using i P(3) by simp
    from allocs_okD [OF P(2) this False] obtain f where f: "f < KBLOCKS" "pa_ptr ?a = kblock f" by blast
    then have a: "?a = \<lparr>pa_ptr = kblock f, pa_size = pa_size ?a\<rparr>" by (intro process_allocation.equality) simp_all
    let ?p = "p\<lparr>p_allocations := (p_allocations p)[i := \<lparr>pa_ptr = 0, pa_size = 0\<rparr>]\<rparr>"
    obtain m where F: "process_free process (kblock f) st = Ret (st\<lparr>pmem := m, procs := (procs st)(process \<mapsto> ?p)\<rparr>)"
      "proc_ok (st\<lparr>pmem := m, procs := (procs st)(process \<mapsto> ?p)\<rparr>) (A(f := None)) process ?p t c d us"
      "m 0x6E00 = pmem st 0x6E00"
      using process_free_run [OF Suc.prems(1) i a f(1)] by blast
    let ?st = "st\<lparr>pmem := m, procs := (procs st)(process \<mapsto> ?p)\<rparr>"
    have z: "\<forall>j < Suc i. pa_ptr (p_allocations ?p ! j) = 0" using Suc.prems(4) i P(3) by (auto simp: less_Suc_eq nth_list_update)
    have sum: "Suc i + n = 1024" using Suc.prems(3) by simp
    have bit: "\<not> bit (pmem ?st 0x6E00) 7" using Suc.prems(2) F(3) by simp
    note I = Suc.IH [OF F(2) bit sum z]
    have eq: "?st\<lparr>pmem := m', procs := (procs ?st)(process \<mapsto> p')\<rparr> =
        st\<lparr>pmem := m', procs := (procs st)(process \<mapsto> p')\<rparr>" for m' p' by simp
    have "revoke (A(f := None)) (held ?p) = revoke A (held p)"
    proof -
      have "held p = insert f (held ?p)" using held_upd [OF P(2) i f] by simp
      then show ?thesis by (auto simp: revoke_def)
    qed
    moreover have "terminate_allocations_loop (Suc n) i process st = terminate_allocations_loop n (Suc i) process ?st"
      using F(1) f(2) P(1) by (simp add: derefx_def)
    moreover have "?p\<lparr>p_allocations := xs\<rparr> = p\<lparr>p_allocations := xs\<rparr>" for xs by simp
    ultimately show ?thesis using I unfolding eq by (simp only:)
  qed
qed

section \<open>Terminating a process\<close>

definition same_tables :: "'a process_machine_scheme \<Rightarrow> 'a process_machine_scheme \<Rightarrow> bool" where
  "same_tables s s' \<longleftrightarrow> procs s' = procs s \<and> processes s' = processes s \<and> current_process s' = current_process s"

lemma task_list_remove_same:
  assumes "task_list_remove a st = Ret st'"
  shows "same_tables st st'"
proof -
  define F where "F st1 = (\<lambda>t :: task. let s = (if a = task_head st1 then st1\<lparr>task_head := t_next t\<rparr> else st1);
      s = (if a = task_tail s then s\<lparr>task_tail := t_prev t\<rparr> else s)
    in if a = current_task s then bindx (task_get_next s) (\<lambda>n. Ret (s\<lparr>current_task := n\<rparr>)) else Ret s)"
    for st1 :: "'a process_machine_scheme"
  from assms obtain t u :: task and st1 where 1: "(if t_prev t \<noteq> 0
            then bindx (derefx (tasks st) (t_prev t)) (\<lambda>p.
                   Ret (st\<lparr>tasks := (tasks st)(t_prev t \<mapsto> p\<lparr>t_next := t_next t\<rparr>)\<rparr>))
            else Ret st) = Ret st1" and 2: "F st1 u = Ret st'"
    unfolding task_list_remove_def F_def bindx_eq_Ret by blast
  from 1 have "same_tables st st1" by (auto simp: same_tables_def split: if_splits)
  moreover from 2 have "same_tables st1 st'" by (auto simp: F_def same_tables_def Let_def split: if_splits)
  ultimately show ?thesis by (simp add: same_tables_def)
qed

lemma task_free_same:
  assumes "task_free a st = Ret st'"
  shows "same_tables st st'"
proof -
  from assms obtain t :: task and s1 where t: "task_list_remove a (paging_free_4gb (t_page_directory t) st) = Ret s1"
    "st' = kfree a (s1\<lparr>tasks := (tasks s1)(a := None)\<rparr>)"
    unfolding task_free_def Let_def bindx_eq_Ret by blast
  obtain m where "paging_free_4gb (t_page_directory t) st = st\<lparr>pmem := m\<rparr>" using paging_free_same by metis
  with task_list_remove_same [OF t(1)] t(2) show ?thesis by (simp add: same_tables_def kfree_def)
qed

text \<open>
  A running process: besides its allocations it holds the block of its task, the blocks of the program and
  those of the stack; its task is the last of the list.
\<close>

definition running ::
  "'a process_machine_scheme \<Rightarrow> allocs \<Rightarrow> u32 \<Rightarrow> process \<Rightarrow> task \<Rightarrow> nat \<Rightarrow> nat \<Rightarrow> nat list \<Rightarrow> u32 list \<Rightarrow> nat \<Rightarrow> nat \<Rightarrow> nat \<Rightarrow> bool" where
  "running st A process p t c d us ts b x y \<longleftrightarrow> proc_ok st A process p t c d us \<and>
     p_task p = kblock b \<and> p_ptr p = kblock x \<and> p_stack p = kblock y \<and>
     task_list st (ts @ [kblock b]) \<and> b < KBLOCKS \<and> A b = Some 1 \<and> A x \<noteq> None \<and> A y \<noteq> None \<and>
     distinct (b # x # y # c # d # us) \<and> held p \<inter> set (b # x # y # c # d # us) = {}"

text \<open>
  The blocks of a program: those of a flat binary, or those of the bytes of an ELF file and of the structure that
  describes it.
\<close>

definition program_blocks :: "'a process_machine_scheme \<Rightarrow> process \<Rightarrow> nat list \<Rightarrow> bool" where
  "program_blocks st p xs \<longleftrightarrow>
     p_filetype p = PROCESS_FILETYPE_BINARY \<and> (\<exists>x. xs = [x] \<and> p_ptr p = kblock x) \<or>
     p_filetype p = PROCESS_FILETYPE_ELF \<and> (\<exists>x y f. xs = [x, y] \<and> p_ptr p = kblock y \<and> y < KBLOCKS \<and>
       elf_files st (kblock y) = Some f \<and> ef_elf_memory f = kblock x)"

text \<open>A process anywhere in the list of tasks, with the blocks it holds.\<close>

definition established ::
  "'a process_machine_scheme \<Rightarrow> allocs \<Rightarrow> u32 \<Rightarrow> process \<Rightarrow> task \<Rightarrow> nat \<Rightarrow> nat \<Rightarrow> nat list \<Rightarrow> u32 list \<Rightarrow> u32 list \<Rightarrow> nat \<Rightarrow> nat list \<Rightarrow> nat \<Rightarrow> bool" where
  "established st A process p t c d us before after b xs y \<longleftrightarrow> proc_ok st A process p t c d us \<and>
     p_task p = kblock b \<and> program_blocks st p xs \<and> p_stack p = kblock y \<and>
     task_list st (before @ kblock b # after) \<and> b < KBLOCKS \<and> A b = Some 1 \<and> (\<forall>x \<in> set (y # xs). A x \<noteq> None) \<and>
     distinct (b # y # xs @ c # d # us) \<and> held p \<inter> set (b # y # xs @ c # d # us) = {}"

lemma running_established:
  assumes "running st A process p t c d us ts b x y" and "p_filetype p = PROCESS_FILETYPE_BINARY"
  shows "established st A process p t c d us ts [] b [x] y"
  using assms unfolding running_def established_def program_blocks_def by auto

text \<open>What releasing memory leaves of the structures.\<close>

definition same_lists :: "'a process_machine_scheme \<Rightarrow> 'a process_machine_scheme \<Rightarrow> bool" where
  "same_lists s s' \<longleftrightarrow> same_tables s s' \<and> tasks s' = tasks s \<and> task_head s' = task_head s \<and> task_tail s' = task_tail s \<and>
     (\<forall>a. in_data a \<longrightarrow> pmem s' a = pmem s a)"

lemma kfree_lists:
  assumes "kheap_rel s A" and "A x \<noteq> None"
  shows "kheap_rel (kfree (kblock x) s) (revoke A {x})" "same_lists s (kfree (kblock x) s)"
proof -
  obtain n where n: "A x = Some n" using assms(2) by blast
  have "A(x := None) = revoke A {x}" by (auto simp: revoke_def)
  then show "kheap_rel (kfree (kblock x) s) (revoke A {x})" using kfree_run(1) [OF assms(1) n] by simp
  show "same_lists s (kfree (kblock x) s)" using kfree_run(2) [OF assms(1) n] by (simp add: same_lists_def same_tables_def kfree_def)
qed

lemma free_program_run:
  assumes "kheap_rel s A" and "program_blocks s p xs" and "distinct xs" and "\<forall>x \<in> set xs. A x \<noteq> None"
  shows "\<exists>s'. process_free_program_data p s = Ret (0, s') \<and> kheap_rel s' (revoke A (set xs)) \<and> same_lists s s'"
  using assms(2) unfolding program_blocks_def
proof (elim disjE conjE exE)
  fix x assume "p_filetype p = PROCESS_FILETYPE_BINARY" "xs = [x]" "p_ptr p = kblock x"
  then show ?thesis using kfree_lists [OF assms(1), of x] assms(4)
    by (simp add: process_free_program_data_def process_free_binary_data_def)
next
  fix x y f assume E: "p_filetype p = PROCESS_FILETYPE_ELF" "xs = [x, y]" "p_ptr p = kblock y" "y < KBLOCKS"
    "elf_files s (kblock y) = Some f" "ef_elf_memory f = kblock x"
  let ?s1 = "kfree (kblock x) s"
  let ?s2 = "?s1\<lparr>elf_files := (elf_files ?s1)(kblock y := None)\<rparr>"
  have A: "A x \<noteq> None" "revoke A {x} y \<noteq> None" using assms(3,4) E(2) by (simp_all add: revoke_def)
  note K1 = kfree_lists [OF assms(1) A(1)]
  have K: "kheap_rel ?s2 (revoke A {x})" using K1(1) by (simp add: kheap_rel_def)
  note K2 = kfree_lists [OF K A(2)]
  have "revoke (revoke A {x}) {y} = revoke A (set xs)" using E(2) by (auto simp: revoke_def)
  moreover have "process_free_program_data p s = Ret (0, kfree (kblock y) ?s2)"
    using E by (simp add: process_free_program_data_def process_free_elf_data_def elf_close_def derefx_def Let_def)
  moreover have "same_lists s (kfree (kblock y) ?s2)" using K1(2) K2(2) by (simp add: same_lists_def same_tables_def)
  ultimately show ?thesis using K2(1) by simp
qed

section \<open>Example state\<close>

text \<open>
  A process whose task has been created by \<open>task_new\<close> on an empty heap and which has one block of program
  and one of stack.
\<close>

definition demo_process_start :: process_machine where
  "demo_process_start = task_machine.extend demo_task_machine \<lparr>current_process = 0, processes = []\<rparr>"

definition demo_process_machine :: process_machine where
  "demo_process_machine =
     (case task_new 0x10 demo_process_start of
        Ret (a, st) \<Rightarrow>
          let (x, st) = kzalloc 4096 st; (y, st) = kzalloc 4096 st
          in st\<lparr>pmem := (pmem st)(0x6E00 := 0), processes := 0x10 # 0x20 # replicate 10 0, current_process := 0x10, procs := (procs st)(0x10 \<mapsto> demo_process\<lparr>p_task := a, p_ptr := x, p_stack := y\<rparr>)\<rparr>
      | Trap _ \<Rightarrow> demo_process_start)"

lemma demo_process_start_simps:
  "kheap_rel demo_process_start Map.empty" "procs demo_process_start 0x10 = Some demo_process"
  "task_list demo_process_start []"
  using demo_task_rel demo_task_start
  by (simp_all add: demo_process_start_def task_machine.defs demo_task_machine_def kheap_rel_def task_list_def)

lemma free_blocks_grant:
  assumes "finite S"
  shows "KBLOCKS - card S \<le> free_blocks (grant Map.empty S)"
proof -
  have "{..<KBLOCKS} - S \<subseteq> {i. i < KBLOCKS \<and> \<not> owns (grant Map.empty S) i}"
    by (auto simp: owns_def grant_def less_Suc_eq split: if_splits)
  then have "card ({..<KBLOCKS} - S) \<le> free_blocks (grant Map.empty S)"
    unfolding free_blocks_def by (intro card_mono) auto
  moreover have "KBLOCKS - card S \<le> card ({..<KBLOCKS} - S)"
    using diff_card_le_card_Diff [OF assms, of "{..<KBLOCKS}"] by simp
  ultimately show ?thesis by linarith
qed

lemma kzalloc_owned:
  assumes rel: "kheap_rel st A" and sz: "0 < unat sz" "unat sz \<le> 4096" and free: "0 < free_blocks A"
    and own: "owns_chunk (pmem st) A c d us"
  shows "\<exists>f m. kzalloc sz st = (kblock f, st\<lparr>pmem := m\<rparr>) \<and> A f = None \<and> f < KBLOCKS \<and>
    kheap_rel (st\<lparr>pmem := m\<rparr>) (A(f \<mapsto> 1)) \<and> free_blocks (A(f \<mapsto> 1)) = free_blocks A - 1 \<and>
    owns_chunk m (A(f \<mapsto> 1)) c d us"
proof -
  obtain f m where F: "kzalloc sz st = (kblock f, st\<lparr>pmem := m\<rparr>)" "A f = None" "f < KBLOCKS"
    "kheap_rel (st\<lparr>pmem := m\<rparr>) (A(f \<mapsto> 1))" "free_blocks (A(f \<mapsto> 1)) = free_blocks A - 1"
    using kzalloc_one [OF rel sz free] by blast
  have one: "blocks_for sz = 1" using sz by (rule blocks_for_one)
  obtain s where s: "fits A KBLOCKS (blocks_for sz) s" using free_blocks_fits [OF free] unfolding one ..
  have live: "A e = Some 1" if "e \<in> set (c # d # us)" for e using own that by (auto simp: owns_chunk_def)
  have "m a = pmem st a" if "e \<in> {c, d}" "in_block e a" for e a
    using kz.alloc_keeps_live [OF rel _ s live, of e a] that F(1) one by (auto simp: in_blocks_one)
  then have "owns_chunk m (A(f \<mapsto> 1)) c d us"
    using live F(2) by (intro owns_chunk_frame [OF own]) auto
  with F show ?thesis by blast
qed

lemma demo_process_running:
  "\<exists>A p t c d us b x y. running demo_process_machine A 0x10 p t c d us [] b x y \<and>
     p_allocations p = replicate 1024 \<lparr>pa_ptr = 0, pa_size = 0\<rparr> \<and> 100 < free_blocks A \<and>
     p_filetype p = PROCESS_FILETYPE_BINARY \<and> p_id p = 0 \<and> pmem demo_process_machine 0x6E00 = 0 \<and>
     processes demo_process_machine = 0x10 # 0x20 # replicate 10 0 \<and> current_process demo_process_machine = 0x10"
proof -
  have fb: "1027 \<le> free_blocks Map.empty" unfolding demo_free_blocks by simp
  obtain b c d us t st' where N: "task_new 0x10 demo_process_start = Ret (kblock b, st')" "tasks st' (kblock b) = Some t"
    "t_page_directory t = kblock c" "kheap_rel st' (grant Map.empty (set (b # c # d # us)))"
    "owns_chunk (pmem st') (grant Map.empty (set (b # c # d # us))) c d us" "b \<notin> set (c # d # us)" "b < KBLOCKS"
    "task_list st' [kblock b]"
    using task_new_run [OF demo_process_start_simps(1) fb demo_process_start_simps(2) _ demo_process_start_simps(3) demo_task_start(4)]
      demo_task_start(2) by auto
  let ?S = "set (b # c # d # us)"
  have us: "length us = 1024" "distinct (c # d # us)" using N(5) by (auto simp: owns_chunk_def)
  have "card ?S \<le> 1027" using card_length [of "b # c # d # us"] us(1) by simp
  then have free: "102 < free_blocks (grant Map.empty ?S)"
    using free_blocks_grant [of ?S] by simp
  then have "0 < free_blocks (grant Map.empty ?S)" by simp
  then obtain x m1 where X: "kzalloc 4096 st' = (kblock x, st'\<lparr>pmem := m1\<rparr>)" "grant Map.empty ?S x = None" "x < KBLOCKS"
    "kheap_rel (st'\<lparr>pmem := m1\<rparr>) ((grant Map.empty ?S)(x \<mapsto> 1))"
    "free_blocks ((grant Map.empty ?S)(x \<mapsto> 1)) = free_blocks (grant Map.empty ?S) - 1"
    "owns_chunk m1 ((grant Map.empty ?S)(x \<mapsto> 1)) c d us"
    using kzalloc_owned [OF N(4) _ _ _ N(5), of 4096] by auto
  let ?A1 = "(grant Map.empty ?S)(x \<mapsto> 1)"
  have "0 < free_blocks ?A1" using free X(5) by simp
  then obtain y m2 where Y: "kzalloc 4096 (st'\<lparr>pmem := m1\<rparr>) = (kblock y, st'\<lparr>pmem := m2\<rparr>)" "?A1 y = None" "y < KBLOCKS"
    "kheap_rel (st'\<lparr>pmem := m2\<rparr>) (?A1(y \<mapsto> 1))" "free_blocks (?A1(y \<mapsto> 1)) = free_blocks ?A1 - 1"
    "owns_chunk m2 (?A1(y \<mapsto> 1)) c d us"
    using kzalloc_owned [OF X(4), of 4096 c d us] X(6) by auto
  let ?A = "?A1(y \<mapsto> 1)" and ?p = "demo_process\<lparr>p_task := kblock b, p_ptr := kblock x, p_stack := kblock y\<rparr>"
  let ?s = "st'\<lparr>pmem := m2, processes := 0x10 # 0x20 # replicate 10 0, current_process := 0x10, procs := (procs st')(0x10 \<mapsto> ?p)\<rparr>"
  have eq: "demo_process_machine = ?s\<lparr>pmem := (pmem ?s)(0x6E00 := 0)\<rparr>"
    using N(1) X(1) Y(1) by (simp add: demo_process_machine_def)
  have al: "p_allocations ?p = replicate 1024 \<lparr>pa_ptr = 0, pa_size = 0\<rparr>" by (simp add: demo_process_def)
  have blk: "e < KBLOCKS" if "e \<in> set (c # d # us)" for e using N(5) that by (auto simp: owns_chunk_def)
  have "allocs_ok ?A (p_allocations ?p)" by (simp add: al allocs_ok_def)
  moreover have "\<forall>a \<in> set (p_allocations ?p). \<forall>e \<in> set (c # d # us). pa_ptr a \<noteq> kblock e"
    using blk kblock_nonzero by (auto simp: al)
  ultimately have "proc_ok ?s ?A 0x10 ?p t c d us"
    using N(2,3) Y(4,6) by (simp add: proc_ok_def kheap_rel_def)
  then have ok: "proc_ok demo_process_machine ?A 0x10 ?p t c d us" unfolding eq by (rule proc_ok_low)
  have new: "x \<notin> ?S" "y \<notin> ?S" "y \<noteq> x"
    using X(2) Y(2) by (auto simp: grant_def split: if_splits)
  have "task_list demo_process_machine [kblock b]" using N(8) by (simp add: eq task_list_def)
  moreover have "held ?p = {}" using kblock_nonzero by (auto simp: held_def al)
  ultimately have "running demo_process_machine ?A 0x10 ?p t c d us [] b x y"
    using ok N(6,7) us new by (auto simp: running_def grant_def)
  moreover have "100 < free_blocks ?A" using free X(5) Y(5) by simp
  moreover have "p_filetype ?p = PROCESS_FILETYPE_BINARY" "p_id ?p = 0" by (simp_all add: demo_process_def)
  moreover have "pmem demo_process_machine 0x6E00 = 0" "processes demo_process_machine = 0x10 # 0x20 # replicate 10 0"
    "current_process demo_process_machine = 0x10" by (simp_all add: eq)
  ultimately show ?thesis using al by blast
qed

lemma demo_process_ok:
  "\<exists>A p t c d us. proc_ok demo_process_machine A 0x10 p t c d us \<and>
     p_allocations p = replicate 1024 \<lparr>pa_ptr = 0, pa_size = 0\<rparr> \<and> 100 < free_blocks A \<and> (\<exists>s. fits A KBLOCKS (blocks_for 100) s)"
proof -
  have "blocks_for 100 = 1" by (rule blocks_for_one) simp_all
  moreover have "0 < free_blocks A" if "100 < free_blocks A" for A using that by simp
  ultimately show ?thesis using demo_process_running free_blocks_fits unfolding running_def by metis
qed

section \<open>Properties\<close>

text \<open>
  C16. Memory of a process. If the allocation table has a free entry and the request fits into the heap,
  \<open>process_malloc\<close> returns the address of fresh heap blocks, cleared, recorded in the table, and
  mapped in the process's page directory onto themselves, writable and accessible from user mode; every
  other page keeps its mapping, and the process stays well-formed.
\<close>

theorem process_malloc_maps:
  assumes "proc_ok st A process p t c d us" and "0 < blocks_for sz" and "fits A KBLOCKS (blocks_for sz) s"
    and "process_is_process_pointer p 0"
  shows "\<exists>f m p'. process_malloc process sz st = Ret (kblock f, st\<lparr>pmem := m, procs := (procs st)(process \<mapsto> p')\<rparr>) \<and>
    fits A KBLOCKS (blocks_for sz) f \<and> process_is_process_pointer p' (kblock f) \<and>
    proc_ok (st\<lparr>pmem := m, procs := (procs st)(process \<mapsto> p')\<rparr>) (A(f \<mapsto> blocks_for sz)) process p' t c d us \<and>
    (\<forall>a. in_range (kblock f) (unat sz) a \<longrightarrow> m a = 0) \<and>
    (\<forall>v. in_blocks f (blocks_for sz) v \<longrightarrow> paging_get (kblock d) (v AND 0xfffff000) m = (v AND 0xfffff000) OR 7) \<and>
    (\<forall>w. page_aligned w \<longrightarrow> \<not> in_blocks f (blocks_for sz) w \<longrightarrow>
       paging_get (kblock d) w m = paging_get (kblock d) w (pmem st))"
proof -
  obtain i where i: "first_ptr 0 0 (p_allocations p) = Some i"
    using assms(4) by (auto simp: process_is_process_pointer_def)
  have "process_is_process_pointer (p\<lparr>p_allocations := (p_allocations p)[i := \<lparr>pa_ptr = x, pa_size = y\<rparr>]\<rparr>) x" for x y
    using first_ptr_Some [OF i] by (auto simp: process_is_process_pointer_def first_ptr_None intro!: bexI set_update_memI)
  then show ?thesis using process_malloc_run [OF assms(1-3) i] by blast
qed

theorem process_malloc_maps_witness:
  "\<exists>f st'. process_malloc 0x10 100 demo_process_machine = Ret (kblock f, st') \<and> pmem st' (kblock f) = 0"
proof -
  obtain A p t c d us s where D: "proc_ok demo_process_machine A 0x10 p t c d us"
    "p_allocations p = replicate 1024 \<lparr>pa_ptr = 0, pa_size = 0\<rparr>" "fits A KBLOCKS (blocks_for 100) s"
    using demo_process_ok by blast
  have "0 < blocks_for 100" using blocks_for_one [of 100] by simp
  moreover have "process_is_process_pointer p 0" by (auto simp: process_is_process_pointer_def first_ptr_None D(2))
  moreover have "in_range a (unat (100 :: u32)) a" for a by (simp add: in_range_def)
  ultimately show ?thesis using process_malloc_maps [OF D(1) _ D(3)] by fastforce
qed

text \<open>
  C17. Release of memory. \<open>process_free\<close> of a pointer other than null that the process holds removes it from the
  table, returns its blocks to the heap and leaves its pages without any access flag; a pointer the process does not
  hold changes nothing.
\<close>

theorem process_free_unmaps:
  assumes "proc_ok st A process p t c d us" and "ptr \<noteq> 0"
  shows "if process_is_process_pointer p ptr
    then \<exists>f n m p'. ptr = kblock f \<and> A f = Some n \<and>
      process_free process ptr st = Ret (st\<lparr>pmem := m, procs := (procs st)(process \<mapsto> p')\<rparr>) \<and>
      \<not> process_is_process_pointer p' ptr \<and>
      proc_ok (st\<lparr>pmem := m, procs := (procs st)(process \<mapsto> p')\<rparr>) (A(f := None)) process p' t c d us \<and>
      (\<forall>v. in_blocks f n v \<longrightarrow> paging_get (kblock d) (v AND 0xfffff000) m = v AND 0xfffff000) \<and>
      (\<forall>w. page_aligned w \<longrightarrow> \<not> in_blocks f n w \<longrightarrow> paging_get (kblock d) w m = paging_get (kblock d) w (pmem st))
    else process_free process ptr st = Ret st"
proof (cases "process_is_process_pointer p ptr")
  case True
  have al: "allocs_ok A (p_allocations p)" using assms(1) by (simp add: proc_ok_def)
  obtain i where i: "first_ptr ptr 0 (p_allocations p) = Some i"
    using True by (auto simp: process_is_process_pointer_def)
  then have i': "i < 1024" "pa_ptr (p_allocations p ! i) = ptr"
    using first_ptr_Some [OF i] al by (auto simp: allocs_ok_def)
  then obtain f where f: "f < KBLOCKS" "ptr = kblock f"
    using allocs_okD [OF al, of "p_allocations p ! i"] al assms(2) by (auto simp: allocs_ok_def)
  have a: "p_allocations p ! i = \<lparr>pa_ptr = kblock f, pa_size = pa_size (p_allocations p ! i)\<rparr>"
    using i'(2) f(2) by (intro process_allocation.equality) simp_all
  define p' where "p' = p\<lparr>p_allocations := (p_allocations p)[i := \<lparr>pa_ptr = 0, pa_size = 0\<rparr>]\<rparr>"
  have "pa_ptr x \<noteq> kblock f" if x: "x \<in> set (p_allocations p')" for x
  proof -
    obtain j where j: "j < 1024" "x = p_allocations p' ! j"
      using x al by (auto simp: in_set_conv_nth p'_def allocs_ok_def)
    show ?thesis
    proof (cases "j = i")
      case True
      then show ?thesis using j al i'(1) f by (simp add: p'_def allocs_ok_def)
    next
      case False
      then have "pa_ptr (p_allocations p ! j) \<noteq> pa_ptr (p_allocations p ! i)"
        using al j(1) i' assms(2) by (auto simp: allocs_ok_def)
      then show ?thesis using False j(2) i'(2) f(2) by (simp add: p'_def)
    qed
  qed
  then have "\<not> process_is_process_pointer p' ptr" using f(2) by (simp add: process_is_process_pointer_def first_ptr_None)
  then show ?thesis
    using process_free_run [OF assms(1) i'(1) a f(1)] True f(2) unfolding p'_def [symmetric] by auto
next
  case False
  then show ?thesis
    using assms(1) by (simp add: process_free_def proc_ok_def derefx_def process_is_process_pointer_def
        process_get_allocation_by_addr_def)
qed

theorem process_free_unmaps_witness:
  "process_free 0x10 0x1234 demo_process_machine = Ret demo_process_machine \<and>
   (\<exists>ptr st' st'' p'. process_malloc 0x10 100 demo_process_machine = Ret (ptr, st') \<and> process_free 0x10 ptr st' = Ret st'' \<and>
      procs st'' 0x10 = Some p' \<and> \<not> process_is_process_pointer p' ptr)"
proof -
  obtain A p t c d us s where D: "proc_ok demo_process_machine A 0x10 p t c d us"
    "p_allocations p = replicate 1024 \<lparr>pa_ptr = 0, pa_size = 0\<rparr>" "fits A KBLOCKS (blocks_for 100) s"
    using demo_process_ok by blast
  have "\<not> process_is_process_pointer p 0x1234" by (simp add: process_is_process_pointer_def first_ptr_None D(2))
  then have foreign: "process_free 0x10 0x1234 demo_process_machine = Ret demo_process_machine"
    using process_free_unmaps [OF D(1), of "0x1234"] by simp
  have "first_ptr 0 0 (p_allocations p) \<noteq> None" by (simp add: first_ptr_None D(2))
  then obtain i where i: "first_ptr 0 0 (p_allocations p) = Some i" by blast
  have i': "i < length (p_allocations p)" using first_ptr_Some [OF i] by auto
  have pos: "0 < blocks_for 100" using blocks_for_one [of 100] by simp
  obtain f m q where M: "process_malloc 0x10 100 demo_process_machine =
      Ret (kblock f, demo_process_machine\<lparr>pmem := m, procs := (procs demo_process_machine)(0x10 \<mapsto> q)\<rparr>)"
    "q = p\<lparr>p_allocations := (p_allocations p)[i := \<lparr>pa_ptr = kblock f, pa_size = 100\<rparr>]\<rparr>" "f < KBLOCKS"
    "proc_ok (demo_process_machine\<lparr>pmem := m, procs := (procs demo_process_machine)(0x10 \<mapsto> q)\<rparr>) (A(f \<mapsto> blocks_for 100)) 0x10 q t c d us"
    using process_malloc_run [OF D(1) pos D(3) i] by blast
  have "process_is_process_pointer q (kblock f)"
    using set_update_memI [OF i', of "\<lparr>pa_ptr = kblock f, pa_size = 100\<rparr>"]
    by (auto simp: process_is_process_pointer_def first_ptr_None M(2) intro!: bexI [rotated])
  then show ?thesis
    using process_free_unmaps [OF M(4), of "kblock f"] kblock_nonzero [OF M(3)] foreign M(1) by fastforce
qed

text \<open>
  Allocate and release. Freeing what \<open>process_malloc\<close> has just returned gives back the same allocation
  table and the same heap.
\<close>

lemma process_malloc_free_roundtrip:
  assumes "proc_ok st A process p t c d us" and "0 < blocks_for sz" and "fits A KBLOCKS (blocks_for sz) s"
    and "process_is_process_pointer p 0"
  shows "\<exists>ptr st' m. process_malloc process sz st = Ret (ptr, st') \<and> process_free process ptr st' = Ret (st\<lparr>pmem := m\<rparr>) \<and>
    proc_ok (st\<lparr>pmem := m\<rparr>) A process p t c d us"
proof -
  obtain i where i: "first_ptr 0 0 (p_allocations p) = Some i"
    using assms(4) by (auto simp: process_is_process_pointer_def)
  let ?p = "\<lambda>f. p\<lparr>p_allocations := (p_allocations p)[i := \<lparr>pa_ptr = kblock f, pa_size = sz\<rparr>]\<rparr>"
  obtain f m where M: "process_malloc process sz st = Ret (kblock f, st\<lparr>pmem := m, procs := (procs st)(process \<mapsto> ?p f)\<rparr>)"
    "f < KBLOCKS" "A f = None"
    "proc_ok (st\<lparr>pmem := m, procs := (procs st)(process \<mapsto> ?p f)\<rparr>) (A(f \<mapsto> blocks_for sz)) process (?p f) t c d us"
    using process_malloc_run [OF assms(1-3) i] by blast
  have al: "allocs_ok A (p_allocations p)" "procs st process = Some p" using assms(1) by (simp_all add: proc_ok_def)
  have i': "i < length (p_allocations p)" "i < 1024" "pa_ptr (p_allocations p ! i) = 0"
    using first_ptr_Some [OF i] al(1) by (auto simp: allocs_ok_def)
  then have z: "p_allocations p ! i = \<lparr>pa_ptr = 0, pa_size = 0\<rparr>"
    using al(1) by (intro process_allocation.equality) (auto simp: allocs_ok_def)
  have "(?p f)\<lparr>p_allocations := (p_allocations (?p f))[i := \<lparr>pa_ptr = 0, pa_size = 0\<rparr>]\<rparr> = p"
    using list_update_id [of "p_allocations p" i] z by simp
  moreover have "(A(f \<mapsto> blocks_for sz))(f := None) = A" using M(3) by auto
  moreover have "(procs st)(process \<mapsto> p) = procs st" using al(2) by auto
  ultimately show ?thesis
    using process_free_run [OF M(4) i'(2) _ M(2), of sz] i'(1) M(1) by auto
qed

text \<open>
  C11. Termination. For a process with a flat binary or an ELF program, whose task is anywhere in the task list,
  \<open>process_terminate\<close> succeeds if the byte that \<open>kfree\<close> of a null pointer looks at has its highest bit clear (the code
  releases the unused entries of the allocation table too) and, in case the process is the current one, another one
  is left to become current. Every allocation in its table, the program, the stack, the task, the page directory and
  all page tables go back to the heap; nothing else does, not even the structure of the process itself. The task
  leaves the list as the scheduler follows it, and the list stays consistent in both directions if it was the last
  task. The slot in the process table is cleared.
\<close>

theorem process_terminate_releases:
  assumes run: "established st A process p t c d us before after b xs y" and bit: "\<not> bit (pmem st 0x6E00) 7"
    and id: "unat (p_id p) < MAEROS_MAX_PROCESSES"
    and other: "current_process st = process \<longrightarrow>
      first_process (take MAEROS_MAX_PROCESSES ((processes st)[unat (p_id p) := 0])) = Some q"
  shows "\<exists>st'. process_terminate process st = Ret (0, st') \<and>
    kheap_rel st' (revoke A (held p \<union> set (b # y # xs @ c # d # us))) \<and> task_ring st' (before @ after) \<and>
    (after = [] \<longrightarrow> task_list st' before) \<and> processes st' = (processes st)[unat (p_id p) := 0] \<and>
    current_process st' = (if current_process st = process then q else current_process st)"
proof -
  have ok: "proc_ok st A process p t c d us" and B: "p_task p = kblock b" "p_stack p = kblock y" "program_blocks st p xs"
    "task_list st (before @ kblock b # after)" "b < KBLOCKS" "A b = Some 1" "A y \<noteq> None" "\<forall>x \<in> set xs. A x \<noteq> None"
    and ds: "distinct (b # y # xs @ c # d # us)" and H: "held p \<inter> set (b # y # xs @ c # d # us) = {}"
    using run by (auto simp: established_def)
  define p' where "p' = p\<lparr>p_allocations := replicate 1024 \<lparr>pa_ptr = 0, pa_size = 0\<rparr>\<rparr>"
  obtain m where T: "terminate_allocations_loop 1024 0 process st = Ret (st\<lparr>pmem := m, procs := (procs st)(process \<mapsto> p')\<rparr>)"
    "proc_ok (st\<lparr>pmem := m, procs := (procs st)(process \<mapsto> p')\<rparr>) (revoke A (held p)) process p' t c d us"
    using terminate_loop_run [OF ok bit, of 0 1024] unfolding p'_def by auto
  define s1 where "s1 = st\<lparr>pmem := m, procs := (procs st)(process \<mapsto> p')\<rparr>"
  have P: "kheap_rel s1 (revoke A (held p))" "tasks s1 (kblock b) = Some t" "t_page_directory t = kblock c"
    "owns_chunk (pmem s1) (revoke A (held p)) c d us" "procs s1 process = Some p'"
    using T(2) B(1) unfolding s1_def [symmetric] by (simp_all add: proc_ok_def p'_def)
  have "program_blocks s1 p' xs" using B(3) by (simp add: program_blocks_def s1_def p'_def)
  moreover have "\<forall>x \<in> set xs. revoke A (held p) x \<noteq> None" using B(8) H by (auto simp: revoke_def)
  ultimately obtain s2 where D: "process_free_program_data p' s1 = Ret (0, s2)" "kheap_rel s2 (revoke (revoke A (held p)) (set xs))" "same_lists s1 s2"
    using free_program_run [OF P(1), of p' xs] ds by auto
  have "revoke (revoke A (held p)) (set xs) y \<noteq> None" using B(7) ds H by (auto simp: revoke_def)
  note K = kfree_lists [OF D(2) this]
  let ?s3 = "kfree (kblock y) s2" and ?A3 = "revoke A (held p \<union> set (y # xs))"
  have A3: "revoke (revoke (revoke A (held p)) (set xs)) {y} = ?A3" by (auto simp: revoke_def)
  have S: "same_lists s1 ?s3" using D(3) K(2) by (simp add: same_lists_def same_tables_def)
  have O: "owns_chunk (pmem ?s3) ?A3 c d us"
  proof (rule owns_chunk_frame [OF P(4)])
    show "pmem ?s3 a = pmem s1 a" if "e \<in> {c, d}" "in_block e a" for e a
      using S P(4) block_data [of e a] that by (auto simp: same_lists_def owns_chunk_def)
    show "?A3 e = revoke A (held p) e" if "e \<in> set (c # d # us)" for e using ds that by (auto simp: revoke_def)
  qed
  have s3: "task_list ?s3 (before @ kblock b # after)" "tasks ?s3 (kblock b) = Some t"
    using B(4) P(2) S by (simp_all add: same_lists_def task_list_def s1_def)
  have b: "?A3 b = Some 1" "b \<notin> set (c # d # us)" using B(6) ds H by (auto simp: revoke_def)
  obtain s4 where F: "task_free (kblock b) ?s3 = Ret s4" "kheap_rel s4 (revoke ?A3 (set (b # c # d # us)))"
    "fwd (tasks s4) (task_head s4) (before @ after) 0" "after = [] \<longrightarrow> task_list s4 before"
    using task_free_at [OF K(1) [unfolded A3] s3(1) B(5) b(1) s3(2) P(3) O b(2)] by blast
  have rev: "revoke ?A3 (set (b # c # d # us)) = revoke A (held p \<union> set (b # y # xs @ c # d # us))" by (auto simp: revoke_def)
  have s4: "procs s4 process = Some p'" "processes s4 = processes st" "current_process s4 = current_process st"
    using task_free_same [OF F(1)] S P(5) by (simp_all add: same_lists_def same_tables_def s1_def)
  let ?s5 = "s4\<lparr>processes := (processes st)[unat (p_id p) := 0]\<rparr>"
  have U: "process_unlink process s4 = Ret (if current_process st = process then process_switch q ?s5 else ?s5)"
    using s4 id other by (simp add: process_unlink_def derefx_def guardx_def process_switch_to_any_def p'_def)
  have "process_terminate process st = Ret (0, if current_process st = process then process_switch q ?s5 else ?s5)"
    using T(1) P(5) D(1) F(1) U B(1,2) unfolding s1_def [symmetric]
    by (simp add: process_terminate_def process_terminate_allocations_def derefx_def p'_def)
  then show ?thesis
    using F(2-4) rev s4(3) by (auto simp: process_switch_def kheap_rel_def task_list_def task_ring_def)
qed

theorem process_terminate_releases_witness:
  "\<exists>st'. process_terminate 0x10 demo_process_machine = Ret (0, st') \<and> task_list st' [] \<and>
     processes st' = 0 # 0x20 # replicate 10 0 \<and> current_process st' = 0x20"
proof -
  obtain A p t c d us b x y where D: "running demo_process_machine A 0x10 p t c d us [] b x y"
    "p_filetype p = PROCESS_FILETYPE_BINARY" "p_id p = 0" "pmem demo_process_machine 0x6E00 = 0"
    "processes demo_process_machine = 0x10 # 0x20 # replicate 10 0" "current_process demo_process_machine = 0x10"
    using demo_process_running by blast
  have q: "first_process (take MAEROS_MAX_PROCESSES ((processes demo_process_machine)[unat (p_id p) := 0])) = Some 0x20"
    by (simp add: D(3,5) take_Cons')
  show ?thesis using process_terminate_releases [OF running_established [OF D(1,2)], of "0x20"] D(3-6) q by auto
qed

end
