(* ===== verification/Terminal.thy ===== *)
theory Terminal
  imports Process
begin

text \<open>
  The text terminal of \<open>src/src/kernel.c\<close>: cells of two bytes in video memory at 0xB8000, a cursor
  kept in two 16-bit globals, and \<open>print\<close>. Video memory is part of physical memory, so a store through
  a cursor that has left the screen reaches whatever lies there.
\<close>

section \<open>kernel.c, terminal\<close>

abbreviation (input) VGA_WIDTH :: "'a::numeral" where "VGA_WIDTH \<equiv> 80"
abbreviation (input) VGA_HEIGHT :: "'a::numeral" where "VGA_HEIGHT \<equiv> 20"

record term_machine = process_machine +
  video_mem :: u32
  terminal_row :: u16
  terminal_col :: u16

text \<open>Both arguments are signed characters that are promoted to \<open>int\<close>.\<close>

definition terminal_make_char :: "u8 \<Rightarrow> u8 \<Rightarrow> u16" where
  "terminal_make_char c colour = push_bit 8 (scast colour) OR scast c"

definition store16 :: "mem \<Rightarrow> u32 \<Rightarrow> u16 \<Rightarrow> mem" where
  "store16 m p v = mem_write m p [ucast v, ucast (drop_bit 8 v)]"

definition terminal_putchar :: "int \<Rightarrow> int \<Rightarrow> u8 \<Rightarrow> u8 \<Rightarrow> 'a term_machine_scheme \<Rightarrow> 'a term_machine_scheme" where
  "terminal_putchar x y c colour st =
     st\<lparr>pmem := store16 (pmem st) (video_mem st + 2 * word_of_int (y * VGA_WIDTH + x)) (terminal_make_char c colour)\<rparr>"

text \<open>\<open>terminal_writechar\<close> calls \<open>terminal_backspace\<close> on a backspace, which writes a blank in its turn.\<close>

function terminal_backspace :: "'a term_machine_scheme \<Rightarrow> 'a term_machine_scheme"
  and terminal_writechar :: "u8 \<Rightarrow> u8 \<Rightarrow> 'a term_machine_scheme \<Rightarrow> 'a term_machine_scheme" where
  "terminal_backspace st =
     (if terminal_row st = 0 \<and> terminal_col st = 0 then st
      else
        let st = (if terminal_col st = 0
                  then st\<lparr>terminal_row := terminal_row st - 1, terminal_col := VGA_WIDTH\<rparr> else st);
            st = st\<lparr>terminal_col := terminal_col st - 1\<rparr>;
            st = terminal_writechar 0x20 15 st
        in st\<lparr>terminal_col := terminal_col st - 1\<rparr>)"
| "terminal_writechar c colour st =
     (if c = 0x0A then st\<lparr>terminal_row := terminal_row st + 1, terminal_col := 0\<rparr>
      else if c = 0x08 then terminal_backspace st
      else
        let st = terminal_putchar (int (unat (terminal_col st))) (int (unat (terminal_row st))) c colour st;
            st = st\<lparr>terminal_col := terminal_col st + 1\<rparr>
        in if terminal_col st \<ge> VGA_WIDTH
           then st\<lparr>terminal_col := 0, terminal_row := terminal_row st + 1\<rparr> else st)"
  by pat_completeness auto
termination
  by (relation "measure (\<lambda>x. case x of Inl _ \<Rightarrow> 1 | Inr (c, _) \<Rightarrow> if c = 0x08 then 2 else 0)") auto

declare terminal_backspace.simps [simp del] terminal_writechar.simps [simp del]

fun print_loop :: "nat \<Rightarrow> u8 list \<Rightarrow> 'a term_machine_scheme \<Rightarrow> 'a term_machine_scheme" where
  "print_loop 0 str st = st"
| "print_loop (Suc n) str st = print_loop n (tl str) (terminal_writechar (hd str) 15 st)"

definition print :: "u8 list \<Rightarrow> 'a term_machine_scheme \<Rightarrow> 'a term_machine_scheme exec" where
  "print str st = bindx (strlen str) (\<lambda>len. Ret (print_loop (nat len) str st))"

text \<open>The two nested loops of \<open>terminal_initialize\<close>: rows from \<open>y\<close> on, columns from \<open>x\<close> on.\<close>

primrec clear_row :: "nat \<Rightarrow> int \<Rightarrow> int \<Rightarrow> 'a term_machine_scheme \<Rightarrow> 'a term_machine_scheme" where
  "clear_row 0 x y st = st"
| "clear_row (Suc n) x y st = clear_row n (x + 1) y (terminal_putchar x y 0x20 0 st)"

primrec clear_rows :: "nat \<Rightarrow> int \<Rightarrow> 'a term_machine_scheme \<Rightarrow> 'a term_machine_scheme" where
  "clear_rows 0 y st = st"
| "clear_rows (Suc n) y st = clear_rows n (y + 1) (clear_row VGA_WIDTH 0 y st)"

definition terminal_initialize :: "'a term_machine_scheme \<Rightarrow> 'a term_machine_scheme" where
  "terminal_initialize st =
     clear_rows VGA_HEIGHT 0 (st\<lparr>video_mem := 0xB8000, terminal_row := 0, terminal_col := 0\<rparr>)"

section \<open>The screen\<close>

text \<open>
  Cell \<open>k\<close>, counted row by row, and the place of the cursor in this count. The counter of the rows has 16 bits, so
  there are \<open>CELLS\<close> cells a cursor can be at; those of the 20 rows of the screen are the first 1600.
\<close>

abbreviation (input) CELLS :: nat where "CELLS \<equiv> 0x500000"

definition cell_addr :: "nat \<Rightarrow> u32" where
  "cell_addr k = 0xB8000 + 2 * of_nat k"

definition screen_cell :: "mem \<Rightarrow> nat \<Rightarrow> u16" where
  "screen_cell m k = load16 m (cell_addr k)"

definition cursor :: "'a term_machine_scheme \<Rightarrow> nat" where
  "cursor st = unat (terminal_row st) * 80 + unat (terminal_col st)"

text \<open>The terminal is set up and the column is on the screen.\<close>

definition term_ok :: "'a term_machine_scheme \<Rightarrow> bool" where
  "term_ok st \<longleftrightarrow> video_mem st = 0xB8000 \<and> unat (terminal_col st) < 80"

lemma load16_store16: "load16 (store16 m p v) p = v"
proof -
  have "ucast (ucast v :: u8) OR push_bit 8 (ucast (ucast (drop_bit 8 v) :: u8)) = v" (is "?l = v")
  proof (rule bit_eqI)
    fix n assume "possible_bit TYPE(16 word) n"
    then consider "n < 8" | "8 \<le> n" "n < 16" by (auto simp: possible_bit_word) linarith
    then show "bit ?l n = bit v n" by cases (auto simp: bit_simps)
  qed
  then show ?thesis by (simp add: load16_def store16_def)
qed

lemma store16_other: "\<not> in_range p 2 a \<Longrightarrow> store16 m p v a = m a"
  unfolding store16_def by (subst mem_write_apply) (simp_all add: numeral_2_eq_2 [symmetric])

lemma cell_addr_off: "k < CELLS \<Longrightarrow> unat (cell_addr k) = 0xB8000 + 2 * k"
  by (simp add: cell_addr_def unat_word_ariths unat_of_nat)

lemma in_cell:
  assumes "k < CELLS"
  shows "in_range (cell_addr k) 2 a \<longleftrightarrow> 0xB8000 + 2 * k \<le> unat a \<and> unat a < 0xB8000 + 2 * k + 2"
proof -
  note c = cell_addr_off [OF assms]
  have lt: "unat (a - cell_addr k) < 2 \<longleftrightarrow> unat (cell_addr k) \<le> unat a \<and> unat a < unat (cell_addr k) + 2"
  proof (cases "cell_addr k \<le> a")
    case True
    then show ?thesis by (auto simp: unat_sub word_le_nat_alt)
  next
    case False
    then have l: "unat a < unat (cell_addr k)" by (simp add: word_le_nat_alt)
    have "unat (a - cell_addr k) = 2 ^ 32 + unat a - unat (cell_addr k)"
      using l unat_sub_if_size [of a "cell_addr k"] by (simp add: word_size)
    then show ?thesis using l c assms by simp
  qed
  then show ?thesis by (simp add: in_range_def c)
qed

lemma screen_cell_store:
  assumes "j < CELLS" and "k < CELLS"
  shows "screen_cell (store16 m (cell_addr j) v) k = (if j = k then v else screen_cell m k)"
proof (cases "j = k")
  case True
  then show ?thesis by (simp add: screen_cell_def load16_store16)
next
  case False
  have u: "unat (cell_addr k + 1) = 0xB8000 + 2 * k + 1"
    using cell_addr_off [OF assms(2)] assms(2) by (simp add: unat_word_ariths)
  have "\<not> in_range (cell_addr j) 2 (cell_addr k)" "\<not> in_range (cell_addr j) 2 (cell_addr k + 1)"
    using False u unfolding in_cell [OF assms(1)] cell_addr_off [OF assms(2)] by linarith+
  with False show ?thesis by (simp add: screen_cell_def load16_def store16_other)
qed

text \<open>A printing character goes to the cell under the cursor, which moves on by one.\<close>

lemma writechar_plain:
  assumes ok: "term_ok st" and c: "c \<noteq> 0x0A" "c \<noteq> 0x08" and r: "Suc (cursor st) < CELLS"
  shows "\<exists>st'. terminal_writechar c colour st = st' \<and> term_ok st' \<and> cursor st' = Suc (cursor st) \<and>
    pmem st' = store16 (pmem st) (cell_addr (cursor st)) (terminal_make_char c colour)"
proof -
  let ?r = "terminal_row st" and ?c = "terminal_col st"
  have v: "video_mem st = 0xB8000" and cl: "unat ?c < 80" using ok by (simp_all add: term_ok_def)
  have addr: "video_mem st + 2 * word_of_int (int (unat ?r) * 80 + int (unat ?c)) = cell_addr (cursor st)"
    by (simp add: v cell_addr_def cursor_def)
  have u1: "unat (?c + 1) = unat ?c + 1" using cl by (simp add: unat_word_ariths)
  have u2: "unat (?r + 1) = unat ?r + 1" if "unat ?c = 79" using r that by (simp add: cursor_def unat_word_ariths)
  have ge: "80 \<le> ?c + 1 \<longleftrightarrow> unat ?c = 79" using u1 cl by (simp add: word_le_nat_alt) linarith
  show ?thesis
    using c addr u1 u2 ge cl v
    by (auto simp: terminal_writechar.simps terminal_putchar_def Let_def term_ok_def cursor_def)
qed

text \<open>
  The abstract terminal: the cells and the place of the next character. A newline moves to the start of the next row, a
  backspace puts a blank into the cell before the cursor and moves there. There is no result for a backspace at the
  start of a row other than the first, after which the column is out of range, and when the counter of the rows
  overflows. The terminal does not scroll: rows from the twentieth on are behind the screen.
\<close>

definition screen_write :: "u8 \<Rightarrow> (nat \<Rightarrow> u16) \<times> nat \<Rightarrow> ((nat \<Rightarrow> u16) \<times> nat) option" where
  "screen_write c = (\<lambda>(f, pos).
     if c = 0x0A then (if (pos div 80 + 1) * 80 < CELLS then Some (f, (pos div 80 + 1) * 80) else None)
     else if c = 0x08 then
       (if pos = 0 then Some (f, 0) else if pos mod 80 = 0 then None
        else Some (f(pos - 1 := terminal_make_char 0x20 15), pos - 1))
     else if Suc pos < CELLS then Some (f(pos := terminal_make_char c 15), Suc pos) else None)"

primrec screen_text :: "u8 list \<Rightarrow> (nat \<Rightarrow> u16) \<times> nat \<Rightarrow> ((nat \<Rightarrow> u16) \<times> nat) option" where
  "screen_text [] s = Some s"
| "screen_text (c # cs) s = Option.bind (screen_write c s) (screen_text cs)"

definition term_rel :: "'a term_machine_scheme \<Rightarrow> (nat \<Rightarrow> u16) \<times> nat \<Rightarrow> bool" where
  "term_rel st = (\<lambda>(f, pos). term_ok st \<and> cursor st = pos \<and> (\<forall>k < CELLS. screen_cell (pmem st) k = f k))"

text \<open>Only bytes of the cells differ.\<close>

definition cells_only :: "mem \<Rightarrow> mem \<Rightarrow> bool" where
  "cells_only m m' \<longleftrightarrow> (\<forall>a. unat a < 0xB8000 \<or> 0xB8000 + 2 * CELLS \<le> unat a \<longrightarrow> m' a = m a)"

lemma store_cell:
  assumes "pos < CELLS" and "\<forall>k < CELLS. screen_cell m k = f k"
  shows "\<forall>k < CELLS. screen_cell (store16 m (cell_addr pos) v) k = (f(pos := v)) k" "cells_only m (store16 m (cell_addr pos) v)"
  using assms screen_cell_store [of pos] in_cell [of pos] by (auto simp: cells_only_def intro!: store16_other)

lemma backspace_run:
  assumes ok: "term_ok st" and pos: "cursor st mod 80 \<noteq> 0" "cursor st < CELLS"
  shows "\<exists>st'. terminal_writechar 0x08 colour st = st' \<and> term_ok st' \<and> cursor st' = cursor st - 1 \<and>
    pmem st' = store16 (pmem st) (cell_addr (cursor st - 1)) (terminal_make_char 0x20 15)"
proof -
  have v: "video_mem st = 0xB8000" and cl: "unat (terminal_col st) < 80" using ok by (simp_all add: term_ok_def)
  then have c0: "unat (terminal_col st) \<noteq> 0" "terminal_col st \<noteq> 0" using pos by (auto simp: cursor_def)
  then have u: "unat (terminal_col st - 1) = unat (terminal_col st) - 1" by (simp add: unat_sub word_le_nat_alt)
  let ?s = "st\<lparr>terminal_col := terminal_col st - 1\<rparr>"
  have ok1: "term_ok ?s" "cursor ?s = cursor st - 1" using u cl v c0 by (simp_all add: term_ok_def cursor_def)
  have "Suc (cursor ?s) < CELLS" using ok1(2) pos by simp
  then obtain s2 where W: "terminal_writechar 0x20 15 ?s = s2" "term_ok s2" "cursor s2 = cursor st"
    "pmem s2 = store16 (pmem st) (cell_addr (cursor st - 1)) (terminal_make_char 0x20 15)"
    using writechar_plain [OF ok1(1), of "0x20" 15] ok1(2) pos by (cases "cursor st") auto
  have cl2: "unat (terminal_col s2) < 80" and "video_mem s2 = 0xB8000" using W(2) by (simp_all add: term_ok_def)
  then have "cursor s2 mod 80 = unat (terminal_col s2)" by (simp add: cursor_def)
  then have d0: "unat (terminal_col s2) \<noteq> 0" using W(3) pos by simp
  then have u2: "unat (terminal_col s2 - 1) = unat (terminal_col s2) - 1" by (simp add: unat_sub word_le_nat_alt)
  have "terminal_writechar 0x08 colour st = s2\<lparr>terminal_col := terminal_col s2 - 1\<rparr>"
    using c0 W(1) by (subst terminal_writechar.simps) (simp add: terminal_backspace.simps Let_def)
  then show ?thesis using W(2-4) u2 d0 cl2 by (auto simp: term_ok_def cursor_def)
qed

lemma writechar_rel:
  assumes rel: "term_rel st (f, pos)" and s: "screen_write c (f, pos) = Some s'"
  shows "term_rel (terminal_writechar c 15 st) s' \<and> cells_only (pmem st) (pmem (terminal_writechar c 15 st))"
proof -
  have ok: "term_ok st" "cursor st = pos" "\<forall>k < CELLS. screen_cell (pmem st) k = f k"
    using rel by (simp_all add: term_rel_def)
  have "unat (terminal_row st) < 2 ^ LENGTH(16)" by (rule unsigned_less)
  then have row: "pos div 80 = unat (terminal_row st)" "pos < CELLS"
    using ok by (auto simp: term_ok_def cursor_def)
  consider "c = 0x0A" | "c = 0x08" "pos = 0" | "c = 0x08" "pos \<noteq> 0" | "c \<noteq> 0x0A" "c \<noteq> 0x08" by blast
  then show ?thesis
  proof cases
    case 1
    then have "(pos div 80 + 1) * 80 < CELLS" "s' = (f, (pos div 80 + 1) * 80)" using s by (auto simp: screen_write_def split: if_splits)
    moreover from this have "unat (terminal_row st + 1) = unat (terminal_row st) + 1" using row by (simp add: unat_word_ariths)
    ultimately show ?thesis
      using 1 ok row by (simp add: terminal_writechar.simps term_rel_def term_ok_def cursor_def cells_only_def)
  next
    case 2
    then have "unat (terminal_row st) = 0" "unat (terminal_col st) = 0" using ok(2) by (simp_all add: cursor_def)
    then have "terminal_writechar 0x08 15 st = st"
      by (subst terminal_writechar.simps) (simp add: terminal_backspace.simps unsigned_eq_0_iff)
    then show ?thesis using 2 rel s by (simp add: screen_write_def cells_only_def)
  next
    case 3
    then have "pos mod 80 \<noteq> 0" "s' = (f(pos - 1 := terminal_make_char 0x20 15), pos - 1)"
      using s by (auto simp: screen_write_def split: if_splits)
    then show ?thesis
      using 3 backspace_run [OF ok(1), of 15] ok(2) row(2) store_cell [of "pos - 1" "pmem st" f "terminal_make_char 0x20 15"] ok(3)
      by (auto simp: term_rel_def)
  next
    case 4
    then have "Suc pos < CELLS" "s' = (f(pos := terminal_make_char c 15), Suc pos)" using s by (auto simp: screen_write_def split: if_splits)
    then show ?thesis
      using writechar_plain [OF ok(1) 4, of 15] ok(2) row(2) store_cell [of pos "pmem st" f "terminal_make_char c 15"] ok(3)
      by (auto simp: term_rel_def)
  qed
qed

lemma print_loop_rel:
  assumes "term_rel st s" and "screen_text cs s = Some s'"
  shows "term_rel (print_loop (length cs) (cs @ rest) st) s' \<and> cells_only (pmem st) (pmem (print_loop (length cs) (cs @ rest) st))"
  using assms
proof (induction cs arbitrary: st s)
  case Nil
  then show ?case by (simp add: cells_only_def)
next
  case (Cons c cs)
  obtain s1 where s1: "screen_write c s = Some s1" "screen_text cs s1 = Some s'" using Cons.prems(2) by (auto simp: bind_eq_Some_conv)
  have W: "term_rel (terminal_writechar c 15 st) s1" "cells_only (pmem st) (pmem (terminal_writechar c 15 st))"
    using writechar_rel [of st "fst s" "snd s" c s1] Cons.prems(1) s1(1) by simp_all
  from Cons.IH [OF W(1) s1(2)] W(2) show ?case by (simp add: cells_only_def)
qed

lemma backspace_line_start:
  assumes "term_ok st" and "terminal_col st = 0" and "0 < unat (terminal_row st)" and "unat (terminal_row st) < 800"
  shows "terminal_col (terminal_writechar 0x08 colour st) = 0xFFFF \<and>
    terminal_row (terminal_writechar 0x08 colour st) = terminal_row st \<and>
    video_mem (terminal_writechar 0x08 colour st) = 0xB8000"
proof -
  let ?s = "st\<lparr>terminal_row := terminal_row st - 1, terminal_col := 79\<rparr>"
  have "terminal_row st \<noteq> 0" using assms(3) by auto
  then show ?thesis
    using assms(1,2) by (simp add: terminal_writechar.simps terminal_backspace.simps terminal_putchar_def Let_def term_ok_def)
qed

section \<open>Example state\<close>

definition demo_terminal :: term_machine where
  "demo_terminal = process_machine.extend demo_process_start \<lparr>video_mem = 0xB8000, terminal_row = 1, terminal_col = 0\<rparr>"

lemma demo_terminal_simps [simp]:
  "video_mem demo_terminal = 0xB8000" "terminal_row demo_terminal = 1" "terminal_col demo_terminal = 0"
  by (simp_all add: demo_terminal_def process_machine.defs)

lemma demo_terminal_ok: "term_ok demo_terminal" "cursor demo_terminal = 80"
  by (simp_all add: term_ok_def cursor_def)

section \<open>Properties\<close>

text \<open>
  C22. Printing refines the abstract terminal. Whenever the abstract terminal has a result for a text, \<open>print\<close> gives
  it: characters go to the cells under the cursor, a row ends after 80 characters or at a newline, a backspace inside a
  row erases the character before it, the column stays in range, and no byte changes but those of the cells the text
  names. The abstract terminal has a result unless the text has a backspace at the start of a row other than the
  first or makes the 16-bit counter of the rows overflow. Cells behind the twentieth row are not on the screen: the
  code neither scrolls nor stops there.
\<close>

theorem terminal_print_refines:
  assumes "term_rel st s" and "terminated str" and "screen_text (cstr str) s = Some s'"
  shows "\<exists>st'. print str st = Ret st' \<and> term_rel st' s' \<and> cells_only (pmem st) (pmem st')"
proof -
  have "str = cstr str @ dropWhile (\<lambda>c. c \<noteq> 0) str" by (simp add: cstr_def)
  then obtain rest where str: "str = cstr str @ rest" ..
  have "strlen str = Ret (int (length (cstr str)))" using assms(2) by (simp add: strlen_run)
  then have "print str st = Ret (print_loop (length (cstr str)) (cstr str @ rest) st)"
    using str by (simp add: print_def)
  then show ?thesis using print_loop_rel [OF assms(1,3), of rest] by simp
qed

text \<open>The text is \<open>Hx\<close>, a backspace, \<open>i\<close> and a newline.\<close>

theorem terminal_print_refines_witness:
  "\<exists>st'. print [0x48, 0x78, 0x08, 0x69, 0x0A, 0] demo_terminal = Ret st' \<and> cursor st' = 160 \<and>
     screen_cell (pmem st') 80 = terminal_make_char 0x48 15 \<and> screen_cell (pmem st') 81 = terminal_make_char 0x69 15"
proof -
  let ?s = "(screen_cell (pmem demo_terminal), 80 :: nat)"
  have "term_rel demo_terminal ?s" using demo_terminal_ok by (simp add: term_rel_def)
  then show ?thesis
    using terminal_print_refines [of demo_terminal ?s "[0x48, 0x78, 0x08, 0x69, 0x0A, 0]"]
    by (auto simp: terminated_def screen_write_def term_rel_def)
qed

text \<open>
  Backspace at the start of a row. The blank written into the last column of the row above moves the
  cursor back to column zero, and the decrement that follows wraps the 16-bit column to 65535: the next
  character is stored far outside the screen.
\<close>

lemma terminal_backspace_wraps:
  assumes "term_ok st" and "terminal_col st = 0" and "0 < unat (terminal_row st)" and "unat (terminal_row st) < 800"
    and "c \<noteq> 0x0A" and "c \<noteq> 0x08"
  shows "let st' = terminal_writechar 0x08 15 st in terminal_col st' = 0xFFFF \<and> terminal_row st' = terminal_row st \<and>
    pmem (terminal_writechar c 15 st') =
      store16 (pmem st') (0xB8000 + 2 * (80 * of_nat (unat (terminal_row st)) + 65535)) (terminal_make_char c 15)"
proof -
  let ?s = "terminal_writechar 0x08 15 st"
  have B: "terminal_col ?s = 0xFFFF" "terminal_row ?s = terminal_row st" "video_mem ?s = 0xB8000"
    using backspace_line_start [OF assms(1-4)] by simp_all
  have "word_of_int (int (unat (terminal_row st)) * 80 + 65535) = (80 * of_nat (unat (terminal_row st)) + 65535 :: u32)"
    by (simp add: mult.commute)
  then have "pmem (terminal_writechar c 15 ?s) =
      store16 (pmem ?s) (0xB8000 + 2 * (80 * of_nat (unat (terminal_row st)) + 65535)) (terminal_make_char c 15)"
    using B assms(5,6) by (subst terminal_writechar.simps) (simp add: terminal_putchar_def Let_def)
  with B show ?thesis by (simp add: Let_def)
qed

end
