(* ===== verification/Interrupt_Table.thy ===== *)
theory Interrupt_Table
  imports Terminal
begin

text \<open>
  Port access, \<open>src/src/io/io.asm\<close>, and the tables of \<open>src/src/idt/idt.c\<close>: the gates of the interrupt
  descriptor table, the callbacks by interrupt number and the commands of interrupt 0x80. The devices
  behind the ports are not part of the kernel: what they answer and how they change is an argument of
  the definitions, a record of functions over an arbitrary device state.
\<close>

section \<open>io.asm\<close>

record 'd ports =
  port_in8 :: "u16 \<Rightarrow> 'd \<Rightarrow> u8 \<times> 'd"
  port_in16 :: "u16 \<Rightarrow> 'd \<Rightarrow> u16 \<times> 'd"
  port_out8 :: "u16 \<Rightarrow> u8 \<Rightarrow> 'd \<Rightarrow> 'd"

section \<open>State of idt.c\<close>

abbreviation (input) KERNEL_CODE_SELECTOR :: "'a::numeral" where "KERNEL_CODE_SELECTOR \<equiv> 0x08"
abbreviation (input) KERNEL_DATA_SELECTOR :: "'a::numeral" where "KERNEL_DATA_SELECTOR \<equiv> 0x10"

record idt_desc =
  offset_1 :: u16
  selector :: u16
  zero_byte :: u8
  type_attr :: u8
  offset_2 :: u16

record idtr_desc =
  idtr_limit :: u16
  idtr_base :: u32

text \<open>The functions the kernel stores in the two tables; a null pointer is \<open>None\<close>.\<close>

datatype interrupt_callback = Idt_handle_exception | Idt_clock | Classic_keyboard_handle_interrupt

datatype isr80h_command =
    Isr80h_command0_sum | Isr80h_command1_print | Isr80h_command2_getkey | Isr80h_command3_putchar
  | Isr80h_command4_malloc | Isr80h_command5_free | Isr80h_command6_process_load_start
  | Isr80h_command7_invoke_system_command | Isr80h_command8_get_program_arguments | Isr80h_command9_exit

text \<open>\<open>idtr\<close> is the register that \<open>lidt\<close> loads.\<close>

record 'd idt_machine = term_machine +
  device :: 'd
  idt_descriptors :: "idt_desc list"
  idtr :: idtr_desc
  interrupt_callbacks :: "interrupt_callback option list"
  isr80h_commands :: "isr80h_command option list"

definition insb :: "'d ports \<Rightarrow> u16 \<Rightarrow> ('d, 'a) idt_machine_scheme \<Rightarrow> u8 \<times> ('d, 'a) idt_machine_scheme" where
  "insb io port st = (let (v, d) = port_in8 io port (device st) in (v, st\<lparr>device := d\<rparr>))"

definition insw :: "'d ports \<Rightarrow> u16 \<Rightarrow> ('d, 'a) idt_machine_scheme \<Rightarrow> u16 \<times> ('d, 'a) idt_machine_scheme" where
  "insw io port st = (let (v, d) = port_in16 io port (device st) in (v, st\<lparr>device := d\<rparr>))"

definition outb :: "'d ports \<Rightarrow> u16 \<Rightarrow> u8 \<Rightarrow> ('d, 'a) idt_machine_scheme \<Rightarrow> ('d, 'a) idt_machine_scheme" where
  "outb io port val st = st\<lparr>device := port_out8 io port val (device st)\<rparr>"

section \<open>idt.c, tables\<close>

definition no_interrupt_handler :: "'d ports \<Rightarrow> ('d, 'a) idt_machine_scheme \<Rightarrow> ('d, 'a) idt_machine_scheme" where
  "no_interrupt_handler io st = outb io 0x20 0x20 st"

definition idt_zero :: "('d, 'a) idt_machine_scheme \<Rightarrow> ('d, 'a) idt_machine_scheme exec" where
  "idt_zero st = print (map (of_nat \<circ> of_char) ''Divide by zero error'' @ [0x0A, 0]) st"

definition zero_gate :: idt_desc where
  "zero_gate = \<lparr>offset_1 = 0, selector = 0, zero_byte = 0, type_attr = 0, offset_2 = 0\<rparr>"

definition idt_set :: "nat \<Rightarrow> u32 \<Rightarrow> idt_desc list \<Rightarrow> idt_desc list" where
  "idt_set interrupt_no address ds =
     ds[interrupt_no := \<lparr>offset_1 = ucast (address AND 0x0000ffff), selector = KERNEL_CODE_SELECTOR,
        zero_byte = 0x00, type_attr = 0xEE, offset_2 = ucast (drop_bit 16 address)\<rparr>]"

definition idt_register_interrupt_callback ::
  "int \<Rightarrow> interrupt_callback \<Rightarrow> ('d, 'a) idt_machine_scheme \<Rightarrow> int \<times> ('d, 'a) idt_machine_scheme" where
  "idt_register_interrupt_callback interrupt callback st =
     (if interrupt < 0 \<or> interrupt \<ge> MAEROS_TOTAL_INTERRUPTS then (- EINVARG, st)
      else (0, st\<lparr>interrupt_callbacks := (interrupt_callbacks st)[nat interrupt := Some callback]\<rparr>))"

definition isr80h_register_command ::
  "int \<Rightarrow> isr80h_command \<Rightarrow> ('d, 'a) idt_machine_scheme \<Rightarrow> ('d, 'a) idt_machine_scheme exec" where
  "isr80h_register_command command_id command st =
     (if command_id < 0 \<or> command_id \<ge> MAEROS_MAX_ISR80H_COMMANDS
      then Trap (Panic (''The command is out of bounds'' @ [CHR 0x0A]))
      else if isr80h_commands st ! nat command_id \<noteq> None
      then Trap (Panic (''Your attempting to overwrite an existing command'' @ [CHR 0x0A]))
      else Ret (st\<lparr>isr80h_commands := (isr80h_commands st)[nat command_id := Some command]\<rparr>))"

text \<open>
  The addresses the linker gives to \<open>idt_descriptors\<close>, the 512 stubs of \<open>idt.asm\<close>, \<open>idt_zero\<close> and
  \<open>isr80h_wrapper\<close>.
\<close>

record symbols =
  sym_idt_descriptors :: u32
  sym_interrupt_pointer_table :: "u32 list"
  sym_idt_zero :: u32
  sym_isr80h_wrapper :: u32

primrec idt_set_loop :: "nat \<Rightarrow> nat \<Rightarrow> u32 list \<Rightarrow> idt_desc list \<Rightarrow> idt_desc list" where
  "idt_set_loop 0 i tab ds = ds"
| "idt_set_loop (Suc n) i tab ds = idt_set_loop n (Suc i) tab (idt_set i (tab ! i) ds)"

primrec register_exceptions :: "nat \<Rightarrow> int \<Rightarrow> ('d, 'a) idt_machine_scheme \<Rightarrow> ('d, 'a) idt_machine_scheme" where
  "register_exceptions 0 i st = st"
| "register_exceptions (Suc n) i st =
     register_exceptions n (i + 1) (snd (idt_register_interrupt_callback i Idt_handle_exception st))"

text \<open>\<open>idt_load\<close> of \<open>idt.asm\<close> loads the register from the descriptor.\<close>

definition idt_init :: "symbols \<Rightarrow> ('d, 'a) idt_machine_scheme \<Rightarrow> ('d, 'a) idt_machine_scheme" where
  "idt_init syms st =
     (let ds = replicate MAEROS_TOTAL_INTERRUPTS zero_gate;
          desc = \<lparr>idtr_limit = 8 * MAEROS_TOTAL_INTERRUPTS - 1, idtr_base = sym_idt_descriptors syms\<rparr>;
          ds = idt_set_loop MAEROS_TOTAL_INTERRUPTS 0 (sym_interrupt_pointer_table syms) ds;
          ds = idt_set 0 (sym_idt_zero syms) ds;
          ds = idt_set 0x80 (sym_isr80h_wrapper syms) ds;
          st = st\<lparr>idt_descriptors := ds\<rparr>;
          st = register_exceptions 0x20 0 st;
          st = snd (idt_register_interrupt_callback 0x20 Idt_clock st)
      in st\<lparr>idtr := desc\<rparr>)"

text \<open>\<open>isr80h_register_commands\<close> of \<open>src/src/isr80h/isr80h.c\<close>; the numbers are the enumeration of \<open>isr80h.h\<close>.\<close>

abbreviation (input) SYSTEM_COMMAND0_SUM :: int where "SYSTEM_COMMAND0_SUM \<equiv> 0"
abbreviation (input) SYSTEM_COMMAND1_PRINT :: int where "SYSTEM_COMMAND1_PRINT \<equiv> 1"
abbreviation (input) SYSTEM_COMMAND2_GETKEY :: int where "SYSTEM_COMMAND2_GETKEY \<equiv> 2"
abbreviation (input) SYSTEM_COMMAND3_PUTCHAR :: int where "SYSTEM_COMMAND3_PUTCHAR \<equiv> 3"
abbreviation (input) SYSTEM_COMMAND4_MALLOC :: int where "SYSTEM_COMMAND4_MALLOC \<equiv> 4"
abbreviation (input) SYSTEM_COMMAND5_FREE :: int where "SYSTEM_COMMAND5_FREE \<equiv> 5"
abbreviation (input) SYSTEM_COMMAND6_PROCESS_LOAD_START :: int where "SYSTEM_COMMAND6_PROCESS_LOAD_START \<equiv> 6"
abbreviation (input) SYSTEM_COMMAND7_INVOKE_SYSTEM_COMMAND :: int where "SYSTEM_COMMAND7_INVOKE_SYSTEM_COMMAND \<equiv> 7"
abbreviation (input) SYSTEM_COMMAND8_GET_PROGRAM_ARGUMENTS :: int where "SYSTEM_COMMAND8_GET_PROGRAM_ARGUMENTS \<equiv> 8"
abbreviation (input) SYSTEM_COMMAND9_EXIT :: int where "SYSTEM_COMMAND9_EXIT \<equiv> 9"

definition isr80h_register_commands :: "('d, 'a) idt_machine_scheme \<Rightarrow> ('d, 'a) idt_machine_scheme exec" where
  "isr80h_register_commands st =
     bindx (isr80h_register_command SYSTEM_COMMAND0_SUM Isr80h_command0_sum st) (\<lambda>st.
     bindx (isr80h_register_command SYSTEM_COMMAND1_PRINT Isr80h_command1_print st) (\<lambda>st.
     bindx (isr80h_register_command SYSTEM_COMMAND2_GETKEY Isr80h_command2_getkey st) (\<lambda>st.
     bindx (isr80h_register_command SYSTEM_COMMAND3_PUTCHAR Isr80h_command3_putchar st) (\<lambda>st.
     bindx (isr80h_register_command SYSTEM_COMMAND4_MALLOC Isr80h_command4_malloc st) (\<lambda>st.
     bindx (isr80h_register_command SYSTEM_COMMAND5_FREE Isr80h_command5_free st) (\<lambda>st.
     bindx (isr80h_register_command SYSTEM_COMMAND6_PROCESS_LOAD_START Isr80h_command6_process_load_start st) (\<lambda>st.
     bindx (isr80h_register_command SYSTEM_COMMAND7_INVOKE_SYSTEM_COMMAND Isr80h_command7_invoke_system_command st) (\<lambda>st.
     bindx (isr80h_register_command SYSTEM_COMMAND8_GET_PROGRAM_ARGUMENTS Isr80h_command8_get_program_arguments st) (\<lambda>st.
       isr80h_register_command SYSTEM_COMMAND9_EXIT Isr80h_command9_exit st)))))))))"

section \<open>What the processor finds in the tables\<close>

text \<open>The processor joins the two halves of the offset of a gate.\<close>

definition gate_offset :: "idt_desc \<Rightarrow> u32" where
  "gate_offset d = ucast (offset_1 d) OR push_bit 16 (ucast (offset_2 d))"

definition gate_ok :: "idt_desc \<Rightarrow> u32 \<Rightarrow> bool" where
  "gate_ok d address \<longleftrightarrow> gate_offset d = address \<and> selector d = KERNEL_CODE_SELECTOR \<and> zero_byte d = 0 \<and> type_attr d = 0xEE"

lemma offset_halves: "ucast (ucast (a AND 0xffff) :: u16) OR push_bit 16 (ucast (ucast (drop_bit 16 a) :: u16)) = (a :: u32)"
  (is "?l = a")
proof (rule bit_eqI)
  have m: "(0xFFFF :: u32) = mask 16" by (simp add: mask_eq_exp_minus_1)
  fix n assume "possible_bit TYPE(32 word) n"
  then consider "n < 16" | "16 \<le> n" "n < 32" by (auto simp: possible_bit_word) linarith
  then show "bit ?l n = bit a n" unfolding m by cases (auto simp: bit_simps)
qed

lemma length_idt_set [simp]: "length (idt_set i a ds) = length ds"
  by (simp add: idt_set_def)

lemma idt_set_nth: "i < length ds \<Longrightarrow> j < length ds \<Longrightarrow>
    gate_ok (idt_set i a ds ! j) b \<longleftrightarrow> (if i = j then a = b else gate_ok (ds ! j) b)"
  by (simp add: idt_set_def gate_ok_def gate_offset_def offset_halves)

lemma idt_set_loop_nth:
  "i + n = length ds \<Longrightarrow> length (idt_set_loop n i tab ds) = length ds \<and>
    (\<forall>j < length ds. i \<le> j \<longrightarrow> gate_ok (idt_set_loop n i tab ds ! j) (tab ! j)) \<and>
    (\<forall>j < i. idt_set_loop n i tab ds ! j = ds ! j)"
proof (induction n arbitrary: i ds)
  case 0
  then show ?case by simp
next
  case (Suc n)
  have i: "i < length ds" using Suc.prems by simp
  let ?ds = "idt_set i (tab ! i) ds"
  have IH: "length (idt_set_loop n (Suc i) tab ?ds) = length ds"
    "\<And>j. j < length ds \<Longrightarrow> Suc i \<le> j \<Longrightarrow> gate_ok (idt_set_loop n (Suc i) tab ?ds ! j) (tab ! j)"
    "\<And>j. j < Suc i \<Longrightarrow> idt_set_loop n (Suc i) tab ?ds ! j = ?ds ! j"
    using Suc.IH [of "Suc i" ?ds] Suc.prems by simp_all
  have "gate_ok (idt_set_loop n (Suc i) tab ?ds ! i) (tab ! i)"
    using IH(3) [of i] idt_set_nth [OF i i, of "tab ! i"] by simp
  moreover have "?ds ! j = ds ! j" if "j < i" for j using that by (simp add: idt_set_def)
  moreover have "gate_ok (idt_set_loop n (Suc i) tab ?ds ! j) (tab ! j)" if "j < length ds" "i \<le> j" for j
    using that IH(2) [of j] calculation(1) by (cases "i = j") auto
  ultimately show ?case using IH(1,3) by simp
qed

lemma register_exceptions_run:
  "0 \<le> i \<Longrightarrow> i + int n \<le> 512 \<Longrightarrow> length (interrupt_callbacks st) = 512 \<Longrightarrow>
    \<exists>cs. register_exceptions n i st = st\<lparr>interrupt_callbacks := cs\<rparr> \<and> length cs = 512 \<and>
      (\<forall>j < 512. cs ! j = (if i \<le> int j \<and> int j < i + int n then Some Idt_handle_exception else interrupt_callbacks st ! j))"
proof (induction n arbitrary: i st)
  case 0
  then show ?case by (intro exI [of _ "interrupt_callbacks st"]) auto
next
  case (Suc n)
  let ?st = "st\<lparr>interrupt_callbacks := (interrupt_callbacks st)[nat i := Some Idt_handle_exception]\<rparr>"
  obtain cs where C: "register_exceptions n (i + 1) ?st = ?st\<lparr>interrupt_callbacks := cs\<rparr>" "length cs = 512"
    "\<forall>j < 512. cs ! j = (if i + 1 \<le> int j \<and> int j < i + 1 + int n then Some Idt_handle_exception
       else interrupt_callbacks ?st ! j)"
    using Suc.IH [of "i + 1" ?st] Suc.prems by auto
  have "cs ! j = (if i \<le> int j \<and> int j < i + int (Suc n) then Some Idt_handle_exception else interrupt_callbacks st ! j)"
    if "j < 512" for j
    using C(3) that Suc.prems by (auto simp: nth_list_update split: if_splits)
  then show ?case
    using C(1,2) Suc.prems by (intro exI [of _ cs]) (simp add: idt_register_interrupt_callback_def)
qed

section \<open>Properties\<close>

text \<open>
  C36. The interrupt table after \<open>idt_init\<close>. Every vector has a present ring-3 interrupt gate into the
  kernel's code segment: vector 0 leads to \<open>idt_zero\<close>, vector 0x80 to \<open>isr80h_wrapper\<close>, every other one to
  its stub; the processor's register describes the 512 gates; the exceptions call
  \<open>idt_handle_exception\<close>, the timer calls \<open>idt_clock\<close>, and the other callbacks stay as they were.
\<close>

theorem idt_init_gates:
  assumes "length (interrupt_callbacks st) = 512"
  shows "let st' = idt_init syms st in
    length (idt_descriptors st') = 512 \<and>
    (\<forall>i < 512. gate_ok (idt_descriptors st' ! i)
       (if i = 0x80 then sym_isr80h_wrapper syms else if i = 0 then sym_idt_zero syms
        else sym_interrupt_pointer_table syms ! i)) \<and>
    idtr_limit (idtr st') = 4095 \<and> idtr_base (idtr st') = sym_idt_descriptors syms \<and>
    (\<forall>i < 512. interrupt_callbacks st' ! i =
       (if i < 0x20 then Some Idt_handle_exception else if i = 0x20 then Some Idt_clock
        else interrupt_callbacks st ! i))"
proof -
  define ds where "ds = idt_set_loop 512 0 (sym_interrupt_pointer_table syms) (replicate 512 zero_gate)"
  have D: "length ds = 512" "\<And>j. j < 512 \<Longrightarrow> gate_ok (ds ! j) (sym_interrupt_pointer_table syms ! j)"
    using idt_set_loop_nth [of 0 512 "replicate 512 zero_gate" "sym_interrupt_pointer_table syms"] by (simp_all add: ds_def)
  let ?ds = "idt_set 0x80 (sym_isr80h_wrapper syms) (idt_set 0 (sym_idt_zero syms) ds)"
  have G: "gate_ok (?ds ! i) (if i = 0x80 then sym_isr80h_wrapper syms else if i = 0 then sym_idt_zero syms
        else sym_interrupt_pointer_table syms ! i)" if "i < 512" for i
    using that D idt_set_nth [of "0x80" "idt_set 0 (sym_idt_zero syms) ds" i] idt_set_nth [of 0 ds i] by auto
  obtain cs where C: "register_exceptions 0x20 0 (st\<lparr>idt_descriptors := ?ds\<rparr>) =
      st\<lparr>idt_descriptors := ?ds, interrupt_callbacks := cs\<rparr>" "length cs = 512"
    "\<And>j. j < 512 \<Longrightarrow> cs ! j = (if j < 0x20 then Some Idt_handle_exception else interrupt_callbacks st ! j)"
    using register_exceptions_run [of 0 "0x20" "st\<lparr>idt_descriptors := ?ds\<rparr>"] assms by auto
  have "idt_init syms st = st\<lparr>idt_descriptors := ?ds, interrupt_callbacks := cs[0x20 := Some Idt_clock],
      idtr := \<lparr>idtr_limit = 8 * 512 - 1, idtr_base = sym_idt_descriptors syms\<rparr>\<rparr>"
    using C(1) by (simp add: idt_init_def Let_def ds_def idt_register_interrupt_callback_def)
  then show ?thesis using G C(2,3) D(1) by (simp add: nth_list_update)
qed

definition demo_idt :: "unit idt_machine" where
  "demo_idt = term_machine.extend demo_terminal \<lparr>device = (), idt_descriptors = [],
     idtr = \<lparr>idtr_limit = 0, idtr_base = 0\<rparr>, interrupt_callbacks = replicate 512 None, isr80h_commands = replicate 1024 None\<rparr>"

definition demo_symbols :: symbols where
  "demo_symbols = \<lparr>sym_idt_descriptors = 0x1000, sym_interrupt_pointer_table = replicate 512 0x2000,
     sym_idt_zero = 0x3000, sym_isr80h_wrapper = 0x4000\<rparr>"

theorem idt_init_gates_witness: "gate_ok (idt_descriptors (idt_init demo_symbols demo_idt) ! 0x80) 0x4000"
proof -
  have "length (interrupt_callbacks demo_idt) = 512" by (simp add: demo_idt_def term_machine.defs)
  from idt_init_gates [OF this, of demo_symbols]
  have "0x80 < (512 :: nat) \<longrightarrow> gate_ok (idt_descriptors (idt_init demo_symbols demo_idt) ! 0x80) (sym_isr80h_wrapper demo_symbols)"
    unfolding Let_def by presburger
  then show ?thesis by (simp add: demo_symbols_def)
qed

end
