(* ===== verification/Keyboard.thy ===== *)
theory Keyboard
  imports Interrupt_Table
begin

text \<open>
  Keyboards, \<open>src/src/keyboard/keyboard.c\<close> and \<open>classic.c\<close>: the list of keyboards, the ring buffer of
  characters each process has, the translation of scan codes, and the interrupt handler that joins them.
\<close>

section \<open>keyboard.h\<close>

abbreviation (input) KEYBOARD_CAPS_LOCK_ON :: int where "KEYBOARD_CAPS_LOCK_ON \<equiv> 1"
abbreviation (input) KEYBOARD_CAPS_LOCK_OFF :: int where "KEYBOARD_CAPS_LOCK_OFF \<equiv> 0"

datatype keyboard_init_function = Classic_keyboard_init

record keyboard =
  k_init :: "keyboard_init_function option"
  k_name :: "u8 list"
  k_capslock_state :: int
  k_next :: u32

text \<open>\<open>classic_keyboard\<close> is the address of the static structure of that name.\<close>

record 'd kbd_machine = "'d idt_machine" +
  keyboards :: "u32 \<rightharpoonup> keyboard"
  keyboard_list_head :: u32
  keyboard_list_last :: u32
  classic_keyboard :: u32

section \<open>keyboard.c, state of a keyboard\<close>

definition keyboard_set_capslock :: "u32 \<Rightarrow> int \<Rightarrow> ('d, 'a) kbd_machine_scheme \<Rightarrow> ('d, 'a) kbd_machine_scheme exec" where
  "keyboard_set_capslock keyboard state st =
     bindx (derefx (keyboards st) keyboard) (\<lambda>k.
       Ret (st\<lparr>keyboards := (keyboards st)(keyboard \<mapsto> k\<lparr>k_capslock_state := state\<rparr>)\<rparr>))"

definition keyboard_get_capslock :: "u32 \<Rightarrow> ('d, 'a) kbd_machine_scheme \<Rightarrow> int exec" where
  "keyboard_get_capslock keyboard st = bindx (derefx (keyboards st) keyboard) (\<lambda>k. Ret (k_capslock_state k))"

section \<open>classic.c\<close>

abbreviation (input) CLASSIC_KEYBOARD_CAPSLOCK :: u8 where "CLASSIC_KEYBOARD_CAPSLOCK \<equiv> 0x3A"
abbreviation (input) PS2_PORT :: u16 where "PS2_PORT \<equiv> 0x64"
abbreviation (input) PS2_COMMAND_ENABLE_FIRST_PORT :: u8 where "PS2_COMMAND_ENABLE_FIRST_PORT \<equiv> 0xAE"
abbreviation (input) CLASSIC_KEYBOARD_KEY_RELEASED :: u8 where "CLASSIC_KEYBOARD_KEY_RELEASED \<equiv> 0x80"
abbreviation (input) ISR_KEYBOARD_INTERRUPT :: int where "ISR_KEYBOARD_INTERRUPT \<equiv> 0x21"
abbreviation (input) KEYBOARD_INPUT_PORT :: u16 where "KEYBOARD_INPUT_PORT \<equiv> 0x60"

definition keyboard_scan_set_one :: "u8 list" where
  "keyboard_scan_set_one =
     [0x00, 0x1B, 0x31, 0x32, 0x33, 0x34, 0x35,
      0x36, 0x37, 0x38, 0x39, 0x30, 0x2D, 0x3D,
      0x08, 0x09, 0x51, 0x57, 0x45, 0x52, 0x54,
      0x59, 0x55, 0x49, 0x4F, 0x50, 0x5B, 0x5D,
      0x0D, 0x00, 0x41, 0x53, 0x44, 0x46, 0x47,
      0x48, 0x4A, 0x4B, 0x4C, 0x3B, 0x27, 0x60,
      0x00, 0x5C, 0x5A, 0x58, 0x43, 0x56, 0x42,
      0x4E, 0x4D, 0x2C, 0x2E, 0x2F, 0x00, 0x2A,
      0x00, 0x20, 0x00, 0x00, 0x00, 0x00,
      0x00, 0x00, 0x00, 0x00, 0x00, 0x00,
      0x00, 0x37, 0x38, 0x39, 0x2D, 0x34, 0x35,
      0x36, 0x2B, 0x31, 0x32, 0x33, 0x30, 0x2E]"

definition classic_keyboard_init ::
  "'d ports \<Rightarrow> ('d, 'a) kbd_machine_scheme \<Rightarrow> (int \<times> ('d, 'a) kbd_machine_scheme) exec" where
  "classic_keyboard_init io st =
     (let (_, st) = idt_register_interrupt_callback ISR_KEYBOARD_INTERRUPT Classic_keyboard_handle_interrupt st
      in bindx (keyboard_set_capslock (classic_keyboard st) KEYBOARD_CAPS_LOCK_OFF st) (\<lambda>st.
           Ret (0, outb io PS2_PORT PS2_COMMAND_ENABLE_FIRST_PORT st)))"

text \<open>The test lets the index that is one past the table through.\<close>

definition classic_keyboard_scancode_to_char :: "u8 \<Rightarrow> ('d, 'a) kbd_machine_scheme \<Rightarrow> u8 exec" where
  "classic_keyboard_scancode_to_char scancode st =
     (if unat scancode > length keyboard_scan_set_one then Ret 0
      else bindx (guardx (unat scancode < length keyboard_scan_set_one) Fault) (\<lambda>_.
        let c = keyboard_scan_set_one ! unat scancode
        in bindx (keyboard_get_capslock (classic_keyboard st) st) (\<lambda>caps.
             if caps = KEYBOARD_CAPS_LOCK_OFF \<and> sint c \<ge> 65 \<and> sint c \<le> 90 then Ret (c + 32) else Ret c)))"

definition classic_init :: "('d, 'a) kbd_machine_scheme \<Rightarrow> u32" where
  "classic_init st = classic_keyboard st"

section \<open>keyboard.c\<close>

text \<open>The call through the function pointer \<open>init\<close>.\<close>

definition call_keyboard_init ::
  "'d ports \<Rightarrow> keyboard_init_function \<Rightarrow> ('d, 'a) kbd_machine_scheme \<Rightarrow> (int \<times> ('d, 'a) kbd_machine_scheme) exec" where
  "call_keyboard_init io f st = (case f of Classic_keyboard_init \<Rightarrow> classic_keyboard_init io st)"

definition keyboard_insert ::
  "'d ports \<Rightarrow> u32 \<Rightarrow> ('d, 'a) kbd_machine_scheme \<Rightarrow> (int \<times> ('d, 'a) kbd_machine_scheme) exec" where
  "keyboard_insert io keyboard st =
     bindx (derefx (keyboards st) keyboard) (\<lambda>k.
       case k_init k of
         None \<Rightarrow> Ret (- EINVARG, st)
       | Some f \<Rightarrow>
           bindx (if keyboard_list_last st \<noteq> 0
                  then bindx (derefx (keyboards st) (keyboard_list_last st)) (\<lambda>l.
                    Ret (st\<lparr>keyboards := (keyboards st)(keyboard_list_last st \<mapsto> l\<lparr>k_next := keyboard\<rparr>),
                            keyboard_list_last := keyboard\<rparr>))
                  else Ret (st\<lparr>keyboard_list_head := keyboard, keyboard_list_last := keyboard\<rparr>)) (\<lambda>st.
             call_keyboard_init io f st))"

definition keyboard_init :: "'d ports \<Rightarrow> ('d, 'a) kbd_machine_scheme \<Rightarrow> ('d, 'a) kbd_machine_scheme exec" where
  "keyboard_init io st = bindx (keyboard_insert io (classic_init st) st) (\<lambda>(_, st). Ret st)"

definition keyboard_get_tail_index :: "process \<Rightarrow> nat" where
  "keyboard_get_tail_index p = unat (kb_tail (p_keyboard p) mod MAEROS_KEYBOARD_BUFFER_SIZE)"

definition keyboard_backspace :: "u32 \<Rightarrow> ('d, 'a) kbd_machine_scheme \<Rightarrow> ('d, 'a) kbd_machine_scheme exec" where
  "keyboard_backspace process st =
     bindx (derefx (procs st) process) (\<lambda>p.
       let p = p\<lparr>p_keyboard := (p_keyboard p)\<lparr>kb_tail := kb_tail (p_keyboard p) - 1\<rparr>\<rparr>;
           real_index = keyboard_get_tail_index p;
           p = p\<lparr>p_keyboard := (p_keyboard p)\<lparr>kb_buffer := (kb_buffer (p_keyboard p))[real_index := 0x00]\<rparr>\<rparr>
       in Ret (st\<lparr>procs := (procs st)(process \<mapsto> p)\<rparr>))"

definition keyboard_push :: "u8 \<Rightarrow> ('d, 'a) kbd_machine_scheme \<Rightarrow> ('d, 'a) kbd_machine_scheme exec" where
  "keyboard_push c st =
     (let process = current_process st
      in if process = 0 then Ret st
         else if c = 0 then Ret st
         else bindx (derefx (procs st) process) (\<lambda>p.
           let real_index = keyboard_get_tail_index p;
               kb = p_keyboard p;
               kb = kb\<lparr>kb_buffer := (kb_buffer kb)[real_index := c]\<rparr>;
               kb = kb\<lparr>kb_tail := kb_tail kb + 1\<rparr>
           in Ret (st\<lparr>procs := (procs st)(process \<mapsto> p\<lparr>p_keyboard := kb\<rparr>)\<rparr>)))"

definition keyboard_pop :: "('d, 'a) kbd_machine_scheme \<Rightarrow> (u8 \<times> ('d, 'a) kbd_machine_scheme) exec" where
  "keyboard_pop st =
     (if current_task st = 0 then Ret (0, st)
      else bindx (derefx (tasks st) (current_task st)) (\<lambda>t.
        let process = t_process t
        in bindx (derefx (procs st) process) (\<lambda>p.
             let kb = p_keyboard p;
                 real_index = unat (kb_head kb mod MAEROS_KEYBOARD_BUFFER_SIZE);
                 c = kb_buffer kb ! real_index
             in if c = 0x00 then Ret (0, st)
                else
                  let kb = kb\<lparr>kb_buffer := (kb_buffer kb)[real_index := 0]\<rparr>;
                      kb = kb\<lparr>kb_head := kb_head kb + 1\<rparr>
                  in Ret (c, st\<lparr>procs := (procs st)(process \<mapsto> p\<lparr>p_keyboard := kb\<rparr>)\<rparr>))))"

section \<open>The interrupt handler of classic.c\<close>

definition classic_keyboard_handle_interrupt ::
  "'d ports \<Rightarrow> ('d, 'a) kbd_machine_scheme \<Rightarrow> ('d, 'a) kbd_machine_scheme exec" where
  "classic_keyboard_handle_interrupt io st =
     (let st = kernel_page st;
          (scancode, st) = insb io KEYBOARD_INPUT_PORT st;
          (_, st) = insb io KEYBOARD_INPUT_PORT st
      in if scancode AND CLASSIC_KEYBOARD_KEY_RELEASED \<noteq> 0 then Ret st
         else
           bindx (if scancode = CLASSIC_KEYBOARD_CAPSLOCK
                  then bindx (keyboard_get_capslock (classic_keyboard st) st) (\<lambda>old_state.
                         keyboard_set_capslock (classic_keyboard st)
                           (if old_state = KEYBOARD_CAPS_LOCK_ON then KEYBOARD_CAPS_LOCK_OFF else KEYBOARD_CAPS_LOCK_ON) st)
                  else Ret st) (\<lambda>st.
           bindx (classic_keyboard_scancode_to_char scancode st) (\<lambda>c.
           bindx (if c \<noteq> 0 then keyboard_push c st else Ret st) (\<lambda>st.
             task_page st))))"

section \<open>A bounded queue of characters\<close>

text \<open>Keys typed and characters fetched, in the order in which they happen.\<close>

datatype 'c kb_event = Key 'c | Getkey

primrec run_events ::
  "('c \<Rightarrow> 's \<Rightarrow> 's exec) \<Rightarrow> ('s \<Rightarrow> ('c \<times> 's) exec) \<Rightarrow> 'c kb_event list \<Rightarrow> 's \<Rightarrow> ('c list \<times> 's) exec" where
  "run_events enq deq [] s = Ret ([], s)"
| "run_events enq deq (e # es) s =
     (case e of
        Key c \<Rightarrow> bindx (enq c s) (run_events enq deq es)
      | Getkey \<Rightarrow> bindx (deq s) (\<lambda>(c, s). bindx (run_events enq deq es s) (\<lambda>(cs, s). Ret (c # cs, s))))"

text \<open>The specification: a list, and the null character when it is empty.\<close>

primrec queue_run :: "'c \<Rightarrow> 'c kb_event list \<Rightarrow> 'c list \<Rightarrow> 'c list \<times> 'c list" where
  "queue_run nul [] q = ([], q)"
| "queue_run nul (e # es) q =
     (case e of
        Key c \<Rightarrow> queue_run nul es (q @ [c])
      | Getkey \<Rightarrow> (case q of
          [] \<Rightarrow> (let (cs, q') = queue_run nul es [] in (nul # cs, q'))
        | c # q \<Rightarrow> (let (cs, q') = queue_run nul es q in (c # cs, q'))))"

text \<open>No key is the null character and none is typed while the queue is full.\<close>

primrec within_capacity :: "'c \<Rightarrow> nat \<Rightarrow> 'c kb_event list \<Rightarrow> 'c list \<Rightarrow> bool" where
  "within_capacity nul cap [] q \<longleftrightarrow> True"
| "within_capacity nul cap (e # es) q \<longleftrightarrow>
     (case e of
        Key c \<Rightarrow> c \<noteq> nul \<and> length q < cap \<and> within_capacity nul cap es (q @ [c])
      | Getkey \<Rightarrow> within_capacity nul cap es (tl q))"

locale fifo_store =
  fixes holds :: "'s \<Rightarrow> 'c list \<Rightarrow> bool"
    and enq :: "'c \<Rightarrow> 's \<Rightarrow> 's exec"
    and deq :: "'s \<Rightarrow> ('c \<times> 's) exec"
    and nul :: 'c
    and cap :: nat
  assumes enq_law: "holds s q \<Longrightarrow> length q < cap \<Longrightarrow> c \<noteq> nul \<Longrightarrow> \<exists>s'. enq c s = Ret s' \<and> holds s' (q @ [c])"
    and deq_law: "holds s (c # q) \<Longrightarrow> \<exists>s'. deq s = Ret (c, s') \<and> holds s' q"
    and deq_empty: "holds s [] \<Longrightarrow> deq s = Ret (nul, s)"
begin

lemma run_refines:
  "holds s q \<Longrightarrow> within_capacity nul cap es q \<Longrightarrow>
    \<exists>s'. run_events enq deq es s = Ret (fst (queue_run nul es q), s') \<and> holds s' (snd (queue_run nul es q))"
proof (induction es arbitrary: s q)
  case Nil
  then show ?case by simp
next
  case (Cons e es)
  show ?case
  proof (cases e)
    case (Key c)
    then obtain s1 where "enq c s = Ret s1" "holds s1 (q @ [c])"
      using enq_law [OF Cons.prems(1)] Cons.prems(2) by auto
    with Cons.IH [of s1 "q @ [c]"] Cons.prems(2) Key show ?thesis by simp
  next
    case Getkey
    show ?thesis
    proof (cases q)
      case Nil
      with Cons.IH [of s "[]"] Cons.prems Getkey deq_empty [of s] show ?thesis
        by (auto simp: split_beta)
    next
      case (Cons c q')
      then obtain s1 where "deq s = Ret (c, s1)" "holds s1 q'"
        using deq_law [of s c q'] \<open>holds s q\<close> by auto
      with Cons.IH [of s1 q'] Cons.prems Getkey Cons show ?thesis by (auto simp: split_beta)
    qed
  qed
qed

end

section \<open>The ring buffer holds a queue\<close>

definition kb_rel :: "keyboard_buffer \<Rightarrow> u8 list \<Rightarrow> bool" where
  "kb_rel kb q \<longleftrightarrow> length (kb_buffer kb) = 1024 \<and> length q \<le> 1024 \<and> 0 \<notin> set q \<and>
     kb_tail kb = kb_head kb + of_nat (length q) \<and>
     (\<forall>i < 1024. kb_buffer kb ! ((unat (kb_head kb) + i) mod 1024) = (if i < length q then q ! i else 0))"

lemma ring_index: "unat ((h + of_nat n) mod 1024 :: u32) = (unat h + n) mod 1024"
proof -
  have "unat (h + of_nat n) = (unat h + n) mod 2 ^ 32"
    by (simp add: unat_word_ariths unat_of_nat mod_simps)
  moreover have "(unat h + n) mod 2 ^ 32 mod 1024 = (unat h + n) mod 1024"
    by (rule mod_mod_cancel) simp
  ultimately show ?thesis by (simp add: unat_mod_distrib)
qed

lemma ring_le:
  fixes i j :: nat
  assumes "(h + i) mod 1024 = (h + j) mod 1024" and "i \<le> j" and "j < 1024"
  shows "i = j"
proof -
  have "1024 dvd (h + j) - (h + i)"
    using assms(1,2) mod_eq_dvd_iff_nat [of "h + i" "h + j" 1024] by simp
  then have "1024 dvd j - i" by simp
  then show ?thesis using assms(2,3) by (auto dest: dvd_imp_le)
qed

lemma ring_eq: "i < 1024 \<Longrightarrow> j < 1024 \<Longrightarrow> (h + i) mod 1024 = (h + j) mod 1024 \<longleftrightarrow> i = (j :: nat)"
  using ring_le [of h i j] ring_le [of h j i] by (metis nat_le_linear)

lemma kb_enq:
  assumes rel: "kb_rel kb q" and len: "length q < 1024" and c: "c \<noteq> 0"
  shows "kb_rel (kb\<lparr>kb_buffer := (kb_buffer kb)[unat (kb_tail kb mod 1024) := c], kb_tail := kb_tail kb + 1\<rparr>) (q @ [c])"
proof -
  let ?h = "unat (kb_head kb)"
  have K: "length (kb_buffer kb) = 1024" "0 \<notin> set q" "kb_tail kb = kb_head kb + of_nat (length q)"
    "\<And>i. i < 1024 \<Longrightarrow> kb_buffer kb ! ((?h + i) mod 1024) = (if i < length q then q ! i else 0)"
    using rel by (simp_all add: kb_rel_def)
  have t: "unat (kb_tail kb mod 1024) = (?h + length q) mod 1024" using ring_index [of "kb_head kb" "length q"] K(3) by simp
  have "(kb_buffer kb)[(?h + length q) mod 1024 := c] ! ((?h + i) mod 1024) =
      (if i < length (q @ [c]) then (q @ [c]) ! i else 0)" if i: "i < 1024" for i
  proof (cases "i = length q")
    case True
    then show ?thesis using K(1) by simp
  next
    case False
    then have "(?h + length q) mod 1024 \<noteq> (?h + i) mod 1024" using ring_eq [OF len i, of ?h] by auto
    then show ?thesis using K(4) [OF i] False by (auto simp: nth_append)
  qed
  then show ?thesis using K c len unfolding t by (simp add: kb_rel_def)
qed

lemma kb_deq:
  assumes rel: "kb_rel kb (c # q)"
  shows "kb_buffer kb ! unat (kb_head kb mod 1024) = c" and "c \<noteq> 0"
    and "kb_rel (kb\<lparr>kb_buffer := (kb_buffer kb)[unat (kb_head kb mod 1024) := 0], kb_head := kb_head kb + 1\<rparr>) q"
proof -
  let ?h = "unat (kb_head kb)"
  have K: "length (kb_buffer kb) = 1024" "0 \<notin> set q" "c \<noteq> 0" "kb_tail kb = kb_head kb + 1 + of_nat (length q)"
    "length q < 1024"
    "\<And>i. i < 1024 \<Longrightarrow> kb_buffer kb ! ((?h + i) mod 1024) = (if i < Suc (length q) then (c # q) ! i else 0)"
    using rel by (auto simp: kb_rel_def)
  have h: "unat (kb_head kb mod 1024) = ?h mod 1024" by (simp add: unat_mod_distrib)
  show "kb_buffer kb ! unat (kb_head kb mod 1024) = c" using K(6) [of 0] h by simp
  show "c \<noteq> 0" by (rule K(3))
  have h1: "(unat (kb_head kb + 1) + i) mod 1024 = (?h + Suc i) mod 1024" for i
  proof -
    have "unat (kb_head kb + 1) mod 1024 = Suc ?h mod 1024"
      using ring_index [of "kb_head kb" 1] by (simp add: unat_mod_distrib)
    then have "(unat (kb_head kb + 1) + i) mod 1024 = (Suc ?h + i) mod 1024" by (rule mod_add_cong) simp
    then show ?thesis by simp
  qed
  have "(kb_buffer kb)[?h mod 1024 := 0] ! ((?h + Suc i) mod 1024) = (if i < length q then q ! i else 0)"
    if i: "i < 1024" for i
  proof (cases "i = 1023")
    case True
    then have "(?h + Suc i) mod 1024 = ?h mod 1024" by simp
    then show ?thesis using K(1,5) True by simp
  next
    case False
    then have s: "Suc i < 1024" using i by simp
    then have "?h mod 1024 \<noteq> (?h + Suc i) mod 1024" using ring_eq [of 0 "Suc i" ?h] by simp
    then show ?thesis using K(6) [OF s] by simp
  qed
  then show "kb_rel (kb\<lparr>kb_buffer := (kb_buffer kb)[unat (kb_head kb mod 1024) := 0], kb_head := kb_head kb + 1\<rparr>) q"
    using K(1,2,4,5) unfolding h by (simp add: kb_rel_def h1)
qed

text \<open>The current process is the one of the current task, and its buffer holds \<open>q\<close>.\<close>

definition kb_state :: "('d, 'a) kbd_machine_scheme \<Rightarrow> u8 list \<Rightarrow> bool" where
  "kb_state st q \<longleftrightarrow> current_process st \<noteq> 0 \<and> current_task st \<noteq> 0 \<and>
     (case tasks st (current_task st) of None \<Rightarrow> False | Some t \<Rightarrow> t_process t = current_process st) \<and>
     (case procs st (current_process st) of None \<Rightarrow> False | Some p \<Rightarrow> kb_rel (p_keyboard p) q)"

lemma kb_stateE:
  assumes "kb_state st q"
  obtains t :: task and p where "tasks st (current_task st) = Some t" "procs st (current_process st) = Some p"
    "current_process st \<noteq> 0" "current_task st \<noteq> 0" "t_process t = current_process st" "kb_rel (p_keyboard p) q"
  using assms by (auto simp: kb_state_def split: option.splits)

lemma push_run:
  assumes "kb_state st q" and "length q < 1024" and "c \<noteq> 0"
  shows "\<exists>st'. keyboard_push c st = Ret st' \<and> kb_state st' (q @ [c])"
proof -
  obtain t :: task and p where S: "tasks st (current_task st) = Some t" "procs st (current_process st) = Some p"
    "current_process st \<noteq> 0" "current_task st \<noteq> 0" "t_process t = current_process st" "kb_rel (p_keyboard p) q"
    using assms(1) by (rule kb_stateE)
  from kb_enq [OF S(6) assms(2,3)] S assms(3) show ?thesis
    by (simp add: keyboard_push_def keyboard_get_tail_index_def derefx_def Let_def kb_state_def)
qed

lemma pop_run:
  assumes "kb_state st (c # q)"
  shows "\<exists>st'. keyboard_pop st = Ret (c, st') \<and> kb_state st' q"
proof -
  obtain t :: task and p where S: "tasks st (current_task st) = Some t" "procs st (current_process st) = Some p"
    "current_process st \<noteq> 0" "current_task st \<noteq> 0" "t_process t = current_process st" "kb_rel (p_keyboard p) (c # q)"
    using assms by (rule kb_stateE)
  from kb_deq [OF S(6)] S show ?thesis
    by (simp add: keyboard_pop_def derefx_def Let_def kb_state_def)
qed

lemma pop_empty:
  assumes "kb_state st []"
  shows "keyboard_pop st = Ret (0, st)"
proof -
  obtain t :: task and p where S: "tasks st (current_task st) = Some t" "procs st (current_process st) = Some p"
    "current_process st \<noteq> 0" "current_task st \<noteq> 0" "t_process t = current_process st" "kb_rel (p_keyboard p) []"
    using assms by (rule kb_stateE)
  have "kb_buffer (p_keyboard p) ! ((unat (kb_head (p_keyboard p)) + 0) mod 1024) = 0"
    using S(6) unfolding kb_rel_def by (elim conjE allE [where x = 0]) simp
  then show ?thesis using S by (simp add: keyboard_pop_def derefx_def Let_def unat_mod_distrib)
qed

interpretation kbq: fifo_store kb_state keyboard_push keyboard_pop 0 1024
  using push_run pop_run pop_empty by unfold_locales blast+

section \<open>A key press\<close>

text \<open>The character a scan code stands for, with the state of caps lock after the key.\<close>

definition typed_char :: "int \<Rightarrow> u8 \<Rightarrow> u8" where
  "typed_char caps sc =
     (let c = keyboard_scan_set_one ! unat sc
      in if unat sc < 82 then (if caps = 0 \<and> 65 \<le> sint c \<and> sint c \<le> 90 then c + 32 else c) else 0)"

lemma length_scan_set [simp]: "length keyboard_scan_set_one = 82"
  by (simp add: keyboard_scan_set_one_def)

lemma kb_state_cong:
  "kb_state st q \<Longrightarrow> current_process st' = current_process st \<Longrightarrow> current_task st' = current_task st \<Longrightarrow>
    tasks st' = tasks st \<Longrightarrow> procs st' = procs st \<Longrightarrow> kb_state st' q"
  by (auto simp: kb_state_def split: option.splits)

lemma scancode_char:
  assumes "keyboards st (classic_keyboard st) = Some k" and "unat sc \<noteq> 82"
  shows "classic_keyboard_scancode_to_char sc st = Ret (typed_char (k_capslock_state k) sc)"
  using assms by (auto simp: classic_keyboard_scancode_to_char_def typed_char_def keyboard_get_capslock_def derefx_def Let_def)

lemma task_page_run:
  assumes "kb_state st q"
  shows "\<exists>st'. task_page st = Ret st' \<and> kb_state st' q \<and> keyboards st' = keyboards st \<and> classic_keyboard st' = classic_keyboard st"
proof -
  obtain t :: task where t: "tasks st (current_task st) = Some t" using assms by (rule kb_stateE)
  let ?st = "paging_switch (t_page_directory t) (st\<lparr>data_segments := 0x23, current_task := current_task st\<rparr>)"
  have run: "task_page st = Ret ?st"
    using t by (simp add: task_page_def task_switch_def user_registers_def derefx_def Let_def)
  have "kb_state ?st q" by (rule kb_state_cong [OF assms]) (simp_all add: paging_switch_def)
  with run show ?thesis by (simp add: paging_switch_def)
qed

section \<open>Example state\<close>

text \<open>A keyboard controller that always answers with the make code of the key A.\<close>

definition demo_ports :: "unit ports" where
  "demo_ports = \<lparr>port_in8 = \<lambda>p d. (0x1E, ()), port_in16 = \<lambda>p d. (0, ()), port_out8 = \<lambda>p v d. ()\<rparr>"

definition demo_keyboard :: "unit kbd_machine" where
  "demo_keyboard = (idt_machine.extend demo_idt \<lparr>keyboards = [0x500 \<mapsto> \<lparr>k_init = Some Classic_keyboard_init,
      k_name = [], k_capslock_state = 0, k_next = 0\<rparr>], keyboard_list_head = 0, keyboard_list_last = 0, classic_keyboard = 0x500\<rparr>)
     \<lparr>procs := [0x10 \<mapsto> demo_process], tasks := [0x40 \<mapsto> zero_task\<lparr>t_process := 0x10\<rparr>], current_process := 0x10, current_task := 0x40\<rparr>"

lemma demo_keyboard_state: "kb_state demo_keyboard []"
  by (simp add: kb_state_def demo_keyboard_def demo_process_def kb_rel_def)

section \<open>Properties\<close>

text \<open>
  C12. The keyboard buffer is a queue. Take any interleaving of typed keys and calls of \<open>keyboard_pop\<close> in
  which no more than 1024 characters wait at a time. No operation faults, and the characters fetched are
  those of a list used first in, first out, with zero whenever nothing waits.
\<close>

theorem keyboard_fifo:
  assumes "kb_state st q" and "within_capacity 0 1024 es q"
  shows "\<exists>st'. run_events keyboard_push keyboard_pop es st = Ret (fst (queue_run 0 es q), st') \<and>
    kb_state st' (snd (queue_run 0 es q))"
  using assms by (rule kbq.run_refines)

theorem keyboard_fifo_witness:
  "\<exists>st'. run_events keyboard_push keyboard_pop [Key 0x61, Key 0x62, Getkey, Getkey, Getkey] demo_keyboard =
     Ret ([0x61, 0x62, 0], st')"
  using keyboard_fifo [OF demo_keyboard_state, of "[Key 0x61, Key 0x62, Getkey, Getkey, Getkey]"] by auto

text \<open>
  C37. A key press. When the controller delivers the make code of a key other than caps lock, the
  interrupt handler appends the character of the key to the buffer of the current process: lower case
  while caps lock is off, upper case while it is on, nothing for a key without character. The code 0x52,
  which is the first one past the table, makes the handler read behind the table.
\<close>

theorem keyboard_interrupt_types:
  assumes "kb_state st q" and "length q < 1024" and "keyboards st (classic_keyboard st) = Some k"
    and "fst (port_in8 io 0x60 (device st)) = sc" and "sc AND 0x80 = 0" and "sc \<noteq> 0x3A"
  shows "if sc = 0x52 then classic_keyboard_handle_interrupt io st = Trap Fault
    else \<exists>st'. classic_keyboard_handle_interrupt io st = Ret st' \<and>
      kb_state st' (let c = typed_char (k_capslock_state k) sc in if c = 0 then q else q @ [c]) \<and>
      keyboards st' = keyboards st"
proof -
  define s1 where "s1 = snd (insb io 0x60 (snd (insb io 0x60 (kernel_page st))))"
  have sc: "fst (insb io 0x60 (kernel_page st)) = sc"
    using assms(4) by (simp add: insb_def kernel_page_def paging_switch_def split_beta Let_def)
  have s1: "keyboards s1 = keyboards st" "classic_keyboard s1 = classic_keyboard st"
    "current_process s1 = current_process st" "current_task s1 = current_task st" "tasks s1 = tasks st" "procs s1 = procs st"
    by (simp_all add: s1_def insb_def kernel_page_def paging_switch_def split_beta Let_def)
  have k1: "keyboards s1 (classic_keyboard s1) = Some k" using assms(3) s1 by simp
  have rel: "kb_state s1 q" using assms(1) by (rule kb_state_cong) (simp_all add: s1)
  have run: "classic_keyboard_handle_interrupt io st =
      bindx (classic_keyboard_scancode_to_char sc s1) (\<lambda>c. bindx (if c \<noteq> 0 then keyboard_push c s1 else Ret s1) task_page)"
    using assms(5,6) sc unfolding s1_def by (simp add: classic_keyboard_handle_interrupt_def Let_def split_beta)
  show ?thesis
  proof (cases "sc = 0x52")
    case True
    then show ?thesis unfolding run by (simp add: classic_keyboard_scancode_to_char_def)
  next
    case False
    then have "unat sc \<noteq> 82" by (simp add: word_unat_eq_iff)
    note ch = scancode_char [OF k1 this]
    let ?c = "typed_char (k_capslock_state k) sc"
    obtain s2 where s2: "(if ?c \<noteq> 0 then keyboard_push ?c s1 else Ret s1) = Ret s2"
      "kb_state s2 (if ?c = 0 then q else q @ [?c])" "keyboards s2 = keyboards s1"
    proof (cases "?c = 0")
      case False
      obtain s2 where "keyboard_push ?c s1 = Ret s2" "kb_state s2 (q @ [?c])"
        using push_run [OF rel assms(2) False] by blast
      moreover from this have "keyboards s2 = keyboards s1"
        by (auto simp: keyboard_push_def derefx_def Let_def split: if_splits option.splits)
      ultimately show ?thesis using that False by simp
    qed (use that rel in simp)
    from task_page_run [OF s2(2)] s2(1,3) s1(1) ch False show ?thesis
      unfolding run by (auto simp: Let_def)
  qed
qed

theorem keyboard_interrupt_types_witness:
  "\<exists>st'. classic_keyboard_handle_interrupt demo_ports demo_keyboard = Ret st' \<and> kb_state st' [0x61]"
proof -
  have "keyboards demo_keyboard (classic_keyboard demo_keyboard) =
      Some \<lparr>k_init = Some Classic_keyboard_init, k_name = [], k_capslock_state = 0, k_next = 0\<rparr>"
    by (simp add: demo_keyboard_def idt_machine.defs)
  from keyboard_interrupt_types [OF demo_keyboard_state _ this, of demo_ports "0x1E"] show ?thesis
    by (auto simp: demo_ports_def typed_char_def keyboard_scan_set_one_def sint8)
qed

end
