(* ===== verification/Disk.thy ===== *)
theory Disk
  imports Keyboard
begin

text \<open>
  The disk driver, \<open>src/src/disk/disk.c\<close>, and byte streams over it, \<open>src/src/disk/streamer.c\<close>. The driver
  programs an ATA controller through ports and polls its status; the loop that polls has \<open>fuel\<close>, because
  it ends only if the controller answers. A buffer the caller hands in is a result here: the bytes the
  function stores into it, in order. Positions and counts are integers; the statements ask for disks of less
  than two gigabytes, on which every one of them fits the type \<open>int\<close> of the code.
\<close>

section \<open>disk.h and streamer.h\<close>

abbreviation (input) MAEROS_DISK_TYPE_REAL :: u32 where "MAEROS_DISK_TYPE_REAL \<equiv> 0"

record disk =
  d_type :: u32
  d_sector_size :: int
  d_id :: int
  d_filesystem :: u32
  d_fs_private :: u32

record disk_stream =
  ds_pos :: int
  ds_disk :: u32

text \<open>The static structure \<open>disk\<close> and its address.\<close>

record 'd disk_machine = "'d kbd_machine" +
  the_disk :: disk
  disk_addr :: u32
  disk_streams :: "u32 \<rightharpoonup> disk_stream"

section \<open>disk.c\<close>

definition disk_get :: "int \<Rightarrow> ('d, 'a) disk_machine_scheme \<Rightarrow> u32" where
  "disk_get index st = (if index \<noteq> 0 then 0 else disk_addr st)"

text \<open>Waiting for the ready bit of the status register.\<close>

primrec disk_wait :: "'d ports \<Rightarrow> nat \<Rightarrow> ('d, 'a) disk_machine_scheme \<Rightarrow> ('d, 'a) disk_machine_scheme exec" where
  "disk_wait io 0 st = Trap Diverge"
| "disk_wait io (Suc fuel) st =
     (let (c, st) = insb io 0x1F7 st
      in if c AND 0x08 \<noteq> 0 then Ret st else disk_wait io fuel st)"

text \<open>\<open>n\<close> words from the data register, as the bytes they are in memory.\<close>

primrec disk_words :: "'d ports \<Rightarrow> nat \<Rightarrow> ('d, 'a) disk_machine_scheme \<Rightarrow> u8 list \<times> ('d, 'a) disk_machine_scheme" where
  "disk_words io 0 st = ([], st)"
| "disk_words io (Suc n) st =
     (let (w, st) = insw io 0x1F0 st; (bs, st) = disk_words io n st
      in (ucast w # ucast (drop_bit 8 w) # bs, st))"

primrec disk_sectors ::
  "'d ports \<Rightarrow> nat \<Rightarrow> nat \<Rightarrow> ('d, 'a) disk_machine_scheme \<Rightarrow> (u8 list \<times> ('d, 'a) disk_machine_scheme) exec" where
  "disk_sectors io fuel 0 st = Ret ([], st)"
| "disk_sectors io fuel (Suc n) st =
     bindx (disk_wait io fuel st) (\<lambda>st.
       let (bs, st) = disk_words io 256 st
       in bindx (disk_sectors io fuel n st) (\<lambda>(cs, st). Ret (bs @ cs, st)))"

text \<open>The low bytes of the shifted address are the same for a signed and an unsigned shift.\<close>

definition disk_read_sector ::
  "'d ports \<Rightarrow> nat \<Rightarrow> u32 \<Rightarrow> int \<Rightarrow> ('d, 'a) disk_machine_scheme \<Rightarrow> (int \<times> u8 list \<times> ('d, 'a) disk_machine_scheme) exec" where
  "disk_read_sector io fuel lba tot st =
     (let st = outb io 0x1F6 (ucast (drop_bit 24 lba) OR 0xE0) st;
          st = outb io 0x1F2 (word_of_int tot) st;
          st = outb io 0x1F3 (ucast (lba AND 0xff)) st;
          st = outb io 0x1F4 (ucast (drop_bit 8 lba)) st;
          st = outb io 0x1F5 (ucast (drop_bit 16 lba)) st;
          st = outb io 0x1F7 0x20 st
      in bindx (disk_sectors io fuel (nat tot) st) (\<lambda>(bs, st). Ret (0, bs, st)))"

definition disk_read_block ::
  "'d ports \<Rightarrow> nat \<Rightarrow> u32 \<Rightarrow> u32 \<Rightarrow> int \<Rightarrow> ('d, 'a) disk_machine_scheme \<Rightarrow> (int \<times> u8 list \<times> ('d, 'a) disk_machine_scheme) exec" where
  "disk_read_block io fuel idisk lba tot st =
     (if idisk \<noteq> disk_addr st then Ret (- EIO, [], st) else disk_read_sector io fuel lba tot st)"

section \<open>streamer.c\<close>

definition diskstreamer_new :: "int \<Rightarrow> ('d, 'a) disk_machine_scheme \<Rightarrow> (u32 \<times> ('d, 'a) disk_machine_scheme) exec" where
  "diskstreamer_new disk_id st =
     (let disk = disk_get disk_id st
      in if disk = 0 then Ret (0, st)
         else
           let (streamer, st) = kzalloc 8 st
           in if streamer = 0 then Trap Fault
              else Ret (streamer, st\<lparr>disk_streams := (disk_streams st)(streamer \<mapsto> \<lparr>ds_pos = 0, ds_disk = disk\<rparr>)\<rparr>))"

definition diskstreamer_seek :: "u32 \<Rightarrow> int \<Rightarrow> ('d, 'a) disk_machine_scheme \<Rightarrow> (int \<times> ('d, 'a) disk_machine_scheme) exec" where
  "diskstreamer_seek stream pos st =
     bindx (derefx (disk_streams st) stream) (\<lambda>s.
       Ret (0, st\<lparr>disk_streams := (disk_streams st)(stream \<mapsto> s\<lparr>ds_pos := pos\<rparr>)\<rparr>))"

lemma smod_less: "(a :: int) smod 512 < 512"
  using smod_int_range [of 512 a] by simp

lemma overflow_pos: "512 \<le> a smod 512 + tot \<Longrightarrow> 0 < (tot :: int)"
  using smod_less [of a] by linarith

text \<open>The sector buffer is local; an index outside it is a \<open>Fault\<close>.\<close>

function diskstreamer_read ::
  "'d ports \<Rightarrow> nat \<Rightarrow> u32 \<Rightarrow> int \<Rightarrow> ('d, 'a) disk_machine_scheme \<Rightarrow> (int \<times> u8 list \<times> ('d, 'a) disk_machine_scheme) exec" where
  "diskstreamer_read io fuel stream tot st =
     bindx (derefx (disk_streams st) stream) (\<lambda>s.
       let sector = ds_pos s sdiv MAEROS_SECTOR_SIZE;
           offset = ds_pos s smod MAEROS_SECTOR_SIZE;
           overflow = (offset + tot \<ge> MAEROS_SECTOR_SIZE);
           total_to_read = (if overflow then tot - (offset + tot - MAEROS_SECTOR_SIZE) else tot)
       in bindx (disk_read_block io fuel (ds_disk s) (word_of_int sector) 1 st) (\<lambda>(res, buf, st).
            if res < 0 then Ret (res, [], st)
            else bindx (guardx (total_to_read \<le> 0 \<or> 0 \<le> offset) Fault) (\<lambda>_.
              let out = map (\<lambda>i. buf ! nat (offset + int i)) [0..<nat total_to_read]
              in bindx (derefx (disk_streams st) stream) (\<lambda>s.
                   let st = st\<lparr>disk_streams := (disk_streams st)(stream \<mapsto> s\<lparr>ds_pos := ds_pos s + total_to_read\<rparr>)\<rparr>
                   in if overflow
                      then bindx (diskstreamer_read io fuel stream (tot - total_to_read) st) (\<lambda>(res, rest, st).
                             Ret (res, out @ rest, st))
                      else Ret (res, out, st)))))"
  by pat_completeness auto
termination
  by (relation "measure (\<lambda>(io, fuel, stream, tot, st). nat tot)") (auto simp: Let_def smod_less dest: overflow_pos)

declare diskstreamer_read.simps [simp del]

definition diskstreamer_close :: "u32 \<Rightarrow> ('d, 'a) disk_machine_scheme \<Rightarrow> ('d, 'a) disk_machine_scheme" where
  "diskstreamer_close stream st = kfree stream (st\<lparr>disk_streams := (disk_streams st)(stream := None)\<rparr>)"

section \<open>The controller\<close>

text \<open>
  What the driver relies on, the behaviour of an ATA device for the command READ SECTORS: the registers
  keep what is written to them; with the drive register in block address mode on the first drive and a
  count that is not 0, the command starts the transfer of the sectors the registers name, provided they exist; the status has the data request bit once the device is ready, which happens after
  at most \<open>W\<close> polls; each read of the data register gives the next word, and after the last word of a
  sector the device may be busy again. \<open>view\<close> reads the registers off a device state, \<open>img\<close> is the contents
  of the disk.
\<close>

record ata =
  a_drive :: u8
  a_count :: u8
  a_lo :: u8
  a_mid :: u8
  a_hi :: u8
  a_data :: "u16 list"
  a_wait :: nat

definition ata_lba :: "ata \<Rightarrow> nat" where
  "ata_lba a = unat (a_lo a) + 256 * (unat (a_mid a) + 256 * (unat (a_hi a) + 256 * (unat (a_drive a) mod 16)))"

definition le16 :: "u8 \<Rightarrow> u8 \<Rightarrow> u16" where
  "le16 l h = ucast l OR push_bit 8 (ucast h)"

definition sector_words :: "u8 list \<Rightarrow> nat \<Rightarrow> nat \<Rightarrow> u16 list" where
  "sector_words img lba n = map (\<lambda>k. le16 (img ! (512 * lba + 2 * k)) (img ! (512 * lba + 2 * k + 1))) [0..<256 * n]"

definition ata_registers :: "'d ports \<Rightarrow> ('d \<Rightarrow> ata) \<Rightarrow> bool" where
  "ata_registers io view \<longleftrightarrow> (\<forall>d v.
     view (port_out8 io 0x1F6 v d) = (view d)\<lparr>a_drive := v\<rparr> \<and>
     view (port_out8 io 0x1F2 v d) = (view d)\<lparr>a_count := v\<rparr> \<and>
     view (port_out8 io 0x1F3 v d) = (view d)\<lparr>a_lo := v\<rparr> \<and>
     view (port_out8 io 0x1F4 v d) = (view d)\<lparr>a_mid := v\<rparr> \<and>
     view (port_out8 io 0x1F5 v d) = (view d)\<lparr>a_hi := v\<rparr>)"

definition ata_starts :: "'d ports \<Rightarrow> ('d \<Rightarrow> ata) \<Rightarrow> u8 list \<Rightarrow> nat \<Rightarrow> bool" where
  "ata_starts io view img W \<longleftrightarrow>
     (\<forall>d. a_drive (view d) AND 0xF0 = 0xE0 \<longrightarrow> a_count (view d) \<noteq> 0 \<longrightarrow>
        512 * (ata_lba (view d) + unat (a_count (view d))) \<le> length img \<longrightarrow> (\<exists>w \<le> W.
        view (port_out8 io 0x1F7 0x20 d) =
          (view d)\<lparr>a_data := sector_words img (ata_lba (view d)) (unat (a_count (view d))), a_wait := w\<rparr>))"

definition ata_polls :: "'d ports \<Rightarrow> ('d \<Rightarrow> ata) \<Rightarrow> bool" where
  "ata_polls io view \<longleftrightarrow>
     (\<forall>d c d'. a_data (view d) \<noteq> [] \<longrightarrow> port_in8 io 0x1F7 d = (c, d') \<longrightarrow>
        (if a_wait (view d) = 0 then c AND 0x08 \<noteq> 0 \<and> view d' = view d
         else c AND 0x08 = 0 \<and> view d' = (view d)\<lparr>a_wait := a_wait (view d) - 1\<rparr>))"

definition ata_transfers :: "'d ports \<Rightarrow> ('d \<Rightarrow> ata) \<Rightarrow> nat \<Rightarrow> bool" where
  "ata_transfers io view W \<longleftrightarrow>
     (\<forall>d x xs y d'. a_wait (view d) = 0 \<longrightarrow> a_data (view d) = x # xs \<longrightarrow> port_in16 io 0x1F0 d = (y, d') \<longrightarrow>
        y = x \<and> (\<exists>w \<le> W. (length xs mod 256 \<noteq> 0 \<longrightarrow> w = 0) \<and> view d' = (view d)\<lparr>a_data := xs, a_wait := w\<rparr>))"

definition ata_conforms :: "'d ports \<Rightarrow> ('d \<Rightarrow> ata) \<Rightarrow> u8 list \<Rightarrow> nat \<Rightarrow> bool" where
  "ata_conforms io view img W \<longleftrightarrow>
     ata_registers io view \<and> ata_starts io view img W \<and> ata_polls io view \<and> ata_transfers io view W"

lemma ata_conformsD:
  assumes "ata_conforms io view img W"
  shows ata_command: "a_drive (view d) AND 0xF0 = 0xE0 \<Longrightarrow> a_count (view d) \<noteq> 0 \<Longrightarrow>
        512 * (ata_lba (view d) + unat (a_count (view d))) \<le> length img \<Longrightarrow> \<exists>w \<le> W.
        view (port_out8 io 0x1F7 0x20 d) =
          (view d)\<lparr>a_data := sector_words img (ata_lba (view d)) (unat (a_count (view d))), a_wait := w\<rparr>"
    and ata_status: "a_data (view d) \<noteq> [] \<Longrightarrow> port_in8 io 0x1F7 d = (c, d') \<Longrightarrow>
        (if a_wait (view d) = 0 then c AND 0x08 \<noteq> 0 \<and> view d' = view d
         else c AND 0x08 = 0 \<and> view d' = (view d)\<lparr>a_wait := a_wait (view d) - 1\<rparr>)"
    and ata_word: "a_wait (view d) = 0 \<Longrightarrow> a_data (view d) = x # xs \<Longrightarrow> port_in16 io 0x1F0 d = (y, d') \<Longrightarrow>
        y = x \<and> (\<exists>w \<le> W. (length xs mod 256 \<noteq> 0 \<longrightarrow> w = 0) \<and> view d' = (view d)\<lparr>a_data := xs, a_wait := w\<rparr>)"
  using assms unfolding ata_conforms_def ata_starts_def ata_polls_def ata_transfers_def by blast+

lemma wait_run:
  assumes "ata_conforms io view img W" and "a_data (view (device st)) \<noteq> []" and "a_wait (view (device st)) < fuel"
  shows "\<exists>d. disk_wait io fuel st = Ret (st\<lparr>device := d\<rparr>) \<and> view d = (view (device st))\<lparr>a_wait := 0\<rparr>"
  using assms(2,3)
proof (induction fuel arbitrary: st)
  case (Suc fuel)
  obtain c d where i: "port_in8 io 0x1F7 (device st) = (c, d)" by fastforce
  have C: "if a_wait (view (device st)) = 0 then c AND 0x08 \<noteq> 0 \<and> view d = view (device st)
        else c AND 0x08 = 0 \<and> view d = (view (device st))\<lparr>a_wait := a_wait (view (device st)) - 1\<rparr>"
    using ata_status [OF assms(1) Suc.prems(1) i] .
  show ?case
  proof (cases "a_wait (view (device st)) = 0")
    case True
    then show ?thesis using C i by (intro exI [of _ d]) (simp add: insb_def)
  next
    case False
    then have "\<exists>d'. disk_wait io fuel (st\<lparr>device := d\<rparr>) = Ret (st\<lparr>device := d\<rparr>\<lparr>device := d'\<rparr>) \<and>
        view d' = (view (device (st\<lparr>device := d\<rparr>)))\<lparr>a_wait := 0\<rparr>"
      using C Suc.prems by (intro Suc.IH) auto
    then show ?thesis using False C i by (auto simp: insb_def)
  qed
qed simp

definition word_bytes :: "u16 list \<Rightarrow> u8 list" where
  "word_bytes ws = concat (map (\<lambda>w. [ucast w, ucast (drop_bit 8 w)]) ws)"

lemma words_run:
  assumes "ata_conforms io view img W" and "a_wait (view (device st)) = 0"
    and "a_data (view (device st)) = ws @ rest" and "length ws \<le> 256" and "length rest mod 256 = 0"
  shows "\<exists>d. disk_words io (length ws) st = (word_bytes ws, st\<lparr>device := d\<rparr>) \<and>
    (\<exists>w \<le> W. view d = (view (device st))\<lparr>a_data := rest, a_wait := w\<rparr>)"
  using assms(2-4)
proof (induction ws arbitrary: st)
  case Nil
  then have "view (device st) = (view (device st))\<lparr>a_data := rest, a_wait := 0\<rparr>" by simp
  then show ?case by (intro exI [of _ "device st"]) (auto simp: word_bytes_def)
next
  case (Cons x ws)
  obtain c d where i: "port_in16 io 0x1F0 (device st) = (c, d)" by fastforce
  have "c = x \<and> (\<exists>w \<le> W. (length (ws @ rest) mod 256 \<noteq> 0 \<longrightarrow> w = 0) \<and>
      view d = (view (device st))\<lparr>a_data := ws @ rest, a_wait := w\<rparr>)"
    using ata_word [OF assms(1) Cons.prems(1) _ i] Cons.prems(2) by simp
  then obtain w where C: "c = x" "w \<le> W" "length (ws @ rest) mod 256 \<noteq> 0 \<longrightarrow> w = 0"
    "view d = (view (device st))\<lparr>a_data := ws @ rest, a_wait := w\<rparr>" by blast
  show ?case
  proof (cases "ws = []")
    case True
    then show ?thesis using C(1,2,4) i by (intro exI [of _ d]) (auto simp: insw_def word_bytes_def)
  next
    case False
    obtain k where "length rest = 256 * k" using assms(5) by (auto elim: dvdE dest: mod_0_imp_dvd)
    then have "length (ws @ rest) mod 256 = length ws" using Cons.prems(3) by simp
    then have "length (ws @ rest) mod 256 \<noteq> 0" using False by simp
    then have "w = 0" using C(3) by blast
    then have "\<exists>d'. disk_words io (length ws) (st\<lparr>device := d\<rparr>) = (word_bytes ws, st\<lparr>device := d\<rparr>\<lparr>device := d'\<rparr>) \<and>
        (\<exists>w \<le> W. view d' = (view (device (st\<lparr>device := d\<rparr>)))\<lparr>a_data := rest, a_wait := w\<rparr>)"
      using C Cons.prems(3) by (intro Cons.IH) auto
    then obtain d' w' where D: "disk_words io (length ws) (st\<lparr>device := d\<rparr>) = (word_bytes ws, st\<lparr>device := d'\<rparr>)"
      "w' \<le> W" "view d' = (view d)\<lparr>a_data := rest, a_wait := w'\<rparr>" by auto
    have "view d' = (view (device st))\<lparr>a_data := rest, a_wait := w'\<rparr>" using D(3) C(4) by simp
    moreover have "disk_words io (length (x # ws)) st = (word_bytes (x # ws), st\<lparr>device := d'\<rparr>)"
      using D(1) C(1) i by (simp add: insw_def word_bytes_def)
    ultimately show ?thesis using D(2) by blast
  qed
qed

lemma le16_bytes: "ucast (le16 l h) = l" "ucast (drop_bit 8 (le16 l h)) = h"
proof -
  show "ucast (le16 l h) = l" unfolding le16_def by (rule bit_eqI) (auto simp: bit_simps)
  show "ucast (drop_bit 8 (le16 l h)) = h"
    unfolding le16_def by (rule bit_eqI) (auto simp: bit_simps dest: bit_imp_le_length)
qed

lemma pairs_bytes: "2 * n \<le> length xs \<Longrightarrow>
    word_bytes (map (\<lambda>k. le16 (xs ! (2 * k)) (xs ! (2 * k + 1))) [0..<n]) = take (2 * n) xs"
proof (induction n)
  case (Suc n)
  then have "take (2 * Suc n) xs = take (2 * n) xs @ [xs ! (2 * n), xs ! (2 * n + 1)]"
    by (simp add: take_Suc_conv_app_nth)
  with Suc show ?case by (simp add: word_bytes_def le16_bytes)
qed (simp add: word_bytes_def)

lemma sector_bytes:
  assumes "512 * (lba + n) \<le> length img"
  shows "word_bytes (sector_words img lba n) = take (512 * n) (drop (512 * lba) img)"
proof -
  have "sector_words img lba n =
      map (\<lambda>k. le16 (drop (512 * lba) img ! (2 * k)) (drop (512 * lba) img ! (2 * k + 1))) [0..<256 * n]"
    using assms by (auto simp: sector_words_def add.assoc)
  then show ?thesis using pairs_bytes [of "256 * n" "drop (512 * lba) img"] assms by simp
qed

lemma sector_words_Suc: "sector_words img lba (Suc n) = sector_words img lba 1 @ sector_words img (Suc lba) n"
proof (rule nth_equalityI)
  show "length (sector_words img lba (Suc n)) = length (sector_words img lba 1 @ sector_words img (Suc lba) n)"
    by (simp add: sector_words_def)
  fix i assume "i < length (sector_words img lba (Suc n))"
  then have i: "i < 256 * Suc n" by (simp add: sector_words_def)
  show "sector_words img lba (Suc n) ! i = (sector_words img lba 1 @ sector_words img (Suc lba) n) ! i"
  proof (cases "i < 256")
    case False
    then obtain j where "i = 256 + j" using nat_le_iff_add not_less by blast
    with i show ?thesis by (simp add: sector_words_def nth_append algebra_simps)
  qed (use i in \<open>simp add: sector_words_def nth_append\<close>)
qed

lemma length_sector_words [simp]: "length (sector_words img lba n) = 256 * n"
  by (simp add: sector_words_def)

lemma sectors_run:
  assumes "ata_conforms io view img W" and "W < fuel" and "512 * (lba + n) \<le> length img"
    and "a_data (view (device st)) = sector_words img lba n" and "a_wait (view (device st)) \<le> W"
  shows "\<exists>d. disk_sectors io fuel n st = Ret (take (512 * n) (drop (512 * lba) img), st\<lparr>device := d\<rparr>)"
  using assms(3-5)
proof (induction n arbitrary: st lba)
  case 0
  then show ?case by (intro exI [of _ "device st"]) simp
next
  case (Suc n)
  let ?ws = "sector_words img lba 1" and ?rest = "sector_words img (Suc lba) n"
  have data: "a_data (view (device st)) = ?ws @ ?rest" unfolding Suc.prems(2) by (rule sector_words_Suc)
  then have ne: "a_data (view (device st)) \<noteq> []" by (simp add: sector_words_def)
  have "a_wait (view (device st)) < fuel" using Suc.prems(3) assms(2) by linarith
  from wait_run [OF assms(1) ne this]
  obtain d1 where D1: "disk_wait io fuel st = Ret (st\<lparr>device := d1\<rparr>)" "view d1 = (view (device st))\<lparr>a_wait := 0\<rparr>"
    by blast
  have "\<exists>d. disk_words io (length ?ws) (st\<lparr>device := d1\<rparr>) = (word_bytes ?ws, st\<lparr>device := d1\<rparr>\<lparr>device := d\<rparr>) \<and>
      (\<exists>w \<le> W. view d = (view (device (st\<lparr>device := d1\<rparr>)))\<lparr>a_data := ?rest, a_wait := w\<rparr>)"
    using D1(2) data by (intro words_run [OF assms(1)]) simp_all
  then obtain d2 w where D2: "disk_words io 256 (st\<lparr>device := d1\<rparr>) = (word_bytes ?ws, st\<lparr>device := d2\<rparr>)"
    "w \<le> W" "view d2 = (view d1)\<lparr>a_data := ?rest, a_wait := w\<rparr>" by auto
  have "\<exists>d. disk_sectors io fuel n (st\<lparr>device := d2\<rparr>) =
      Ret (take (512 * n) (drop (512 * Suc lba) img), st\<lparr>device := d2\<rparr>\<lparr>device := d\<rparr>)"
    using D2(2,3) Suc.prems(1) by (intro Suc.IH) simp_all
  then obtain d3 where D3: "disk_sectors io fuel n (st\<lparr>device := d2\<rparr>) =
      Ret (take (512 * n) (drop (512 * Suc lba) img), st\<lparr>device := d3\<rparr>)" by auto
  have "word_bytes ?ws = take 512 (drop (512 * lba) img)" using sector_bytes [of lba 1 img] Suc.prems(1) by simp
  then have "word_bytes ?ws @ take (512 * n) (drop (512 * Suc lba) img) = take (512 * Suc n) (drop (512 * lba) img)"
    using take_add [of 512 "512 * n" "drop (512 * lba) img"] by (simp add: add.commute)
  with D1(1) D2(1) D3 show ?case by (intro exI [of _ d3]) simp
qed

lemma lba_bytes:
  fixes lba :: u32
  assumes "unat lba < 2 ^ 28"
  shows "unat (ucast (lba AND 0xff) :: u8) + 256 * (unat (ucast (drop_bit 8 lba) :: u8) +
      256 * (unat (ucast (drop_bit 16 lba) :: u8) + 256 * (unat (ucast (drop_bit 24 lba) OR 0xE0 :: u8) mod 16))) = unat lba"
proof -
  define n where "n = unat lba"
  have m: "(0xff :: u32) = mask 8" by (simp add: mask_eq_exp_minus_1)
  have b: "unat (ucast (lba AND 0xff) :: u8) = n mod 256" "unat (ucast (drop_bit 8 lba) :: u8) = n div 256 mod 256"
    "unat (ucast (drop_bit 16 lba) :: u8) = n div 65536 mod 256"
    unfolding m by (simp_all add: n_def unsigned_ucast_eq take_bit_eq_mod unat_drop_bit_eq drop_bit_eq_div take_bit_eq_mask [symmetric]
        unsigned_take_bit_eq unat_div unat_mod_distrib)
  have "unat (ucast (drop_bit 24 lba) OR 0xE0 :: u8) mod 16 = unat (take_bit 4 (ucast (drop_bit 24 lba) OR 0xE0 :: u8))"
    by (simp add: take_bit_eq_mod unat_mod_distrib)
  also have "take_bit 4 (ucast (drop_bit 24 lba) OR 0xE0 :: u8) = take_bit 4 (ucast (drop_bit 24 lba))"
    by (simp add: take_bit_or)
  also have "unat (take_bit 4 (ucast (drop_bit 24 lba) :: u8)) = n div 16777216 mod 16"
    by (simp add: n_def take_bit_eq_mod unat_mod_distrib unsigned_ucast_eq drop_bit_eq_div unat_div mod_mod_cancel)
  finally have "unat (ucast (drop_bit 24 lba) OR 0xE0 :: u8) mod 16 = n div 16777216 mod 16" .
  moreover have "n div 16777216 mod 16 = n div 16777216" using assms by (simp add: n_def)
  moreover have "n div 65536 mod 256 + 256 * (n div 16777216) = n div 65536"
    using div_mult_mod_eq [of "n div 65536" 256] by (simp add: div_mult2_eq [symmetric])
  moreover have "n div 256 mod 256 + 256 * (n div 65536) = n div 256"
    using div_mult_mod_eq [of "n div 256" 256] by (simp add: div_mult2_eq [symmetric])
  ultimately show ?thesis using b unfolding n_def [symmetric] by simp
qed

lemma drive_mode:
  fixes lba :: u32
  assumes "unat lba < 2 ^ 28"
  shows "(ucast (drop_bit 24 lba) OR 0xE0) AND (0xF0 :: u8) = 0xE0"
proof -
  let ?x = "ucast (drop_bit 24 lba) :: u8"
  have "unat (drop_bit 24 lba) < 16" using assms by (simp add: drop_bit_eq_div unat_div div_less_iff_less_mult)
  then have "unat ?x < 2 ^ 4" by (simp add: unsigned_ucast_eq take_bit_eq_mod)
  then have "unat (take_bit 4 ?x) = unat ?x" by (simp add: unsigned_take_bit_eq take_bit_nat_eq_self)
  then have x: "?x = ?x AND mask 4" by (simp add: word_unat_eq_iff flip: take_bit_eq_mask)
  have "mask 4 AND (0xF0 :: u8) = 0" by (simp add: mask_eq_exp_minus_1)
  then have "(?x AND mask 4) AND 0xF0 = 0" by (simp add: and.assoc)
  then have "?x AND 0xF0 = 0" unfolding x [symmetric] .
  then show ?thesis by (simp add: bit.conj_disj_distrib2)
qed

text \<open>Reading \<open>n\<close> sectors that exist.\<close>

lemma read_sector_run:
  assumes conf: "ata_conforms io view img W" and fuel: "W < fuel" and lba: "unat lba < 2 ^ 28" and n: "0 < n" "n < 256"
    and size: "512 * (unat lba + n) \<le> length img"
  shows "\<exists>d. disk_read_sector io fuel lba (int n) st = Ret (0, take (512 * n) (drop (512 * unat lba) img), st\<lparr>device := d\<rparr>)"
proof -
  let ?o = "port_out8 io" and ?d = "device st"
  define d1 where "d1 = ?o 0x1F5 (ucast (drop_bit 16 lba)) (?o 0x1F4 (ucast (drop_bit 8 lba)) (?o 0x1F3 (ucast (lba AND 0xff))
    (?o 0x1F2 (of_nat n) (?o 0x1F6 (ucast (drop_bit 24 lba) OR 0xE0) ?d))))"
  have regs: "ata_registers io view" using conf by (simp add: ata_conforms_def)
  then have v: "view d1 = (view ?d)\<lparr>a_drive := ucast (drop_bit 24 lba) OR 0xE0, a_count := of_nat n,
      a_lo := ucast (lba AND 0xff), a_mid := ucast (drop_bit 8 lba), a_hi := ucast (drop_bit 16 lba)\<rparr>"
    by (simp add: d1_def ata_registers_def)
  have cnt: "unat (a_count (view d1)) = n" using n v by (simp add: unat_of_nat)
  have l: "ata_lba (view d1) = unat lba" unfolding ata_lba_def v using lba_bytes [OF lba] by simp
  have "a_drive (view d1) AND 0xF0 = 0xE0" "a_count (view d1) \<noteq> 0"
    using drive_mode [OF lba] cnt n(1) v by auto
  then obtain w where w: "w \<le> W" "view (?o 0x1F7 0x20 d1) = (view d1)\<lparr>a_data := sector_words img (unat lba) n, a_wait := w\<rparr>"
    using ata_command [OF conf, of d1] size unfolding cnt l by blast
  have "\<exists>d. disk_sectors io fuel n (st\<lparr>device := ?o 0x1F7 0x20 d1\<rparr>) =
      Ret (take (512 * n) (drop (512 * unat lba) img), st\<lparr>device := ?o 0x1F7 0x20 d1\<rparr>\<lparr>device := d\<rparr>)"
    using w by (intro sectors_run [OF conf fuel size]) simp_all
  then show ?thesis by (auto simp: disk_read_sector_def outb_def Let_def d1_def)
qed

section \<open>Streams\<close>

lemma int_sdiv_nat: "int p sdiv 512 = int (p div 512)" "int p smod 512 = int (p mod 512)"
  by (cases "p = 0"; simp add: signed_divide_int_def signed_modulo_int_def zdiv_int zmod_int)+

lemma diskstreamer_run:
  assumes conf: "ata_conforms io view img W" and fuel: "W < fuel" and size: "length img < 2 ^ 31"
    and s: "disk_streams st stream = Some \<lparr>ds_pos = int p, ds_disk = disk_addr st\<rparr>"
    and fit: "p + n < 512 * (length img div 512)"
  shows "\<exists>d. diskstreamer_read io fuel stream (int n) st = Ret (0, take n (drop p img),
    st\<lparr>device := d, disk_streams := (disk_streams st)(stream \<mapsto> \<lparr>ds_pos = int (p + n), ds_disk = disk_addr st\<rparr>)\<rparr>)"
  using s fit
proof (induction n arbitrary: p st rule: less_induct)
  case (less n)
  let ?sec = "p div 512" and ?off = "p mod 512"
  have sec: "?sec < length img div 512" using less.prems(2) by (simp add: div_less_iff_less_mult mult.commute)
  then have "?sec < 2 ^ 28" using size by simp
  then have u: "unat (of_nat ?sec :: u32) = ?sec" by (simp add: unat_of_nat)
  have "512 * (?sec + 1) \<le> length img" using sec by (simp add: algebra_simps)
  then obtain d where D: "disk_read_block io fuel (disk_addr st) (of_nat ?sec) 1 st = Ret (0, take 512 (drop (512 * ?sec) img), st\<lparr>device := d\<rparr>)"
    using read_sector_run [OF conf fuel, of "of_nat ?sec" 1 st] u \<open>?sec < 2 ^ 28\<close> by (auto simp: disk_read_block_def)
  define buf where "buf = take 512 (drop (512 * ?sec) img)"
  have lb: "length buf = 512" using \<open>512 * (?sec + 1) \<le> length img\<close> by (simp add: buf_def)
  have piece: "map (\<lambda>i. buf ! nat (int ?off + int i)) [0..<k] = take k (drop p img)" if "?off + k \<le> 512" for k
  proof (rule nth_equalityI)
    have "p = 512 * ?sec + ?off" by simp
    then have pk: "p + k \<le> length img" using that \<open>512 * (?sec + 1) \<le> length img\<close> by (simp only: distrib_left)
    then show "length (map (\<lambda>i. buf ! nat (int ?off + int i)) [0..<k]) = length (take k (drop p img))" by simp
    fix i assume "i < length (map (\<lambda>i. buf ! nat (int ?off + int i)) [0..<k])"
    then have i: "i < k" by simp
    have "buf ! (?off + i) = img ! (p + i)"
      using that i lb div_mult_mod_eq [of p 512] by (simp add: buf_def nth_take nth_drop mult.commute)
    then show "map (\<lambda>i. buf ! nat (int ?off + int i)) [0..<k] ! i = take k (drop p img) ! i"
      using i pk by (simp add: nat_add_distrib)
  qed
  show ?case
  proof (cases "?off + n \<ge> 512")
    case False
    then show ?thesis
      using less.prems(1) D piece [of n]
      by (subst diskstreamer_read.simps) (auto simp: derefx_def Let_def int_sdiv_nat buf_def)
  next
    case True
    define k where "k = 512 - ?off"
    have ko: "int ?off + int k = 512" by (simp add: k_def of_nat_diff)
    let ?st = "st\<lparr>device := d, disk_streams := (disk_streams st)(stream \<mapsto> \<lparr>ds_pos = int (p + k), ds_disk = disk_addr st\<rparr>)\<rparr>"
    have k: "0 < k" "k \<le> n" "?off + k \<le> 512" using True by (simp_all add: k_def)
    have "\<exists>d'. diskstreamer_read io fuel stream (int (n - k)) ?st = Ret (0, take (n - k) (drop (p + k) img),
      ?st\<lparr>device := d', disk_streams := (disk_streams ?st)(stream \<mapsto> \<lparr>ds_pos = int (p + k + (n - k)), ds_disk = disk_addr ?st\<rparr>)\<rparr>)"
      using k less.prems(2) by (intro less.IH) auto
    then obtain d' where R: "diskstreamer_read io fuel stream (int (n - k)) ?st = Ret (0, take (n - k) (drop (p + k) img),
      st\<lparr>device := d', disk_streams := (disk_streams st)(stream \<mapsto> \<lparr>ds_pos = int (p + n), ds_disk = disk_addr st\<rparr>)\<rparr>)"
      using k by auto
    have split: "take k (drop p img) @ take (n - k) (drop (p + k) img) = take n (drop p img)"
      using k take_add [of k "n - k" "drop p img"] by (simp add: add.commute)
    have e: "int n - (int ?off + int n - 512) = int k" "int n - int k = int (n - k)" "int p + int k = int (p + k)"
      using ko k(2) by (simp_all add: of_nat_diff)
    show ?thesis
      using less.prems(1) D True R piece [OF k(3)] split
      by (intro exI [of _ d'], subst diskstreamer_read.simps)
        (simp add: derefx_def Let_def int_sdiv_nat buf_def e del: of_nat_diff of_nat_add)
  qed
qed

section \<open>Example device\<close>

text \<open>A controller that is busy for one poll before each sector.\<close>

definition sim_ports :: "u8 list \<Rightarrow> ata ports" where
  "sim_ports img =
     \<lparr>port_in8 = \<lambda>p d. (if a_wait d = 0 then 0x08 else 0, d\<lparr>a_wait := a_wait d - 1\<rparr>),
      port_in16 = \<lambda>p d. (case a_data d of [] \<Rightarrow> (0, d)
        | x # xs \<Rightarrow> (x, d\<lparr>a_data := xs, a_wait := (if length xs mod 256 = 0 then 1 else 0)\<rparr>)),
      port_out8 = \<lambda>p v d.
        if p = 0x1F6 then d\<lparr>a_drive := v\<rparr> else if p = 0x1F2 then d\<lparr>a_count := v\<rparr>
        else if p = 0x1F3 then d\<lparr>a_lo := v\<rparr> else if p = 0x1F4 then d\<lparr>a_mid := v\<rparr>
        else if p = 0x1F5 then d\<lparr>a_hi := v\<rparr>
        else if p = 0x1F7 then d\<lparr>a_data := sector_words img (ata_lba d) (unat (a_count d)), a_wait := 1\<rparr> else d\<rparr>"

lemma sim_conforms: "ata_conforms (sim_ports img) id img 1"
  by (auto simp: ata_conforms_def ata_registers_def ata_starts_def ata_polls_def ata_transfers_def sim_ports_def split: if_splits)

definition demo_disk :: "ata disk_machine" where
  "demo_disk = \<lparr>pmem = \<lambda>_. 0, kernel_heap = kernel_heap_value, current_directory = 0, cr3 = 0,
     strings = Map.empty, path_parts = Map.empty, path_roots = Map.empty, elf_files = Map.empty,
     tasks = Map.empty, procs = Map.empty, current_task = 0, task_tail = 0, task_head = 0,
     kernel_chunk = 0, data_segments = 0x10, kernel_flags = 2, current_process = 0, processes = replicate 12 0,
     video_mem = 0xB8000, terminal_row = 0, terminal_col = 0,
     device = \<lparr>a_drive = 0, a_count = 0, a_lo = 0, a_mid = 0, a_hi = 0, a_data = [], a_wait = 0\<rparr>,
     idt_descriptors = [], idtr = \<lparr>idtr_limit = 0, idtr_base = 0\<rparr>, interrupt_callbacks = replicate 512 None,
     isr80h_commands = replicate 1024 None, keyboards = Map.empty, keyboard_list_head = 0, keyboard_list_last = 0,
     classic_keyboard = 0, the_disk = \<lparr>d_type = 0, d_sector_size = 512, d_id = 0, d_filesystem = 0, d_fs_private = 0\<rparr>,
     disk_addr = 0x800, disk_streams = [0x900 \<mapsto> \<lparr>ds_pos = 510, ds_disk = 0x800\<rparr>]\<rparr>"

section \<open>Properties\<close>

text \<open>
  C13. Reading a stream. On a controller that answers within \<open>W\<close> polls, \<open>diskstreamer_read\<close> ends and
  delivers exactly the bytes of the disk from the position of the stream on, across sector boundaries,
  and advances the position by their number; it changes nothing but the device and the stream. The sector
  that holds the byte after the last one has to exist, because the code reads it when the request ends at
  the end of a sector.
\<close>

theorem diskstreamer_read_bytes:
  assumes "ata_conforms io view img W" and "W < fuel" and "length img < 2 ^ 31"
    and "disk_streams st stream = Some \<lparr>ds_pos = int p, ds_disk = disk_addr st\<rparr>"
    and "p + n < 512 * (length img div 512)"
  shows "\<exists>d. diskstreamer_read io fuel stream (int n) st = Ret (0, take n (drop p img),
    st\<lparr>device := d, disk_streams := (disk_streams st)(stream \<mapsto> \<lparr>ds_pos = int (p + n), ds_disk = disk_addr st\<rparr>)\<rparr>)"
  using assms by (rule diskstreamer_run)

theorem diskstreamer_read_bytes_witness:
  "\<exists>st'. diskstreamer_read (sim_ports (replicate 511 0 @ [7, 8] @ replicate 511 0)) 2 0x900 (int 4) demo_disk =
     Ret (0, [0, 7, 8, 0], st')"
  using diskstreamer_read_bytes [OF sim_conforms [of "replicate 511 0 @ [7, 8] @ replicate 511 0"], of 2 demo_disk "0x900" 510 4]
  by (auto simp: demo_disk_def take_Cons')

end
