(* ===== verification/Fat16.thy ===== *)
theory Fat16
  imports Disk
begin

text \<open>
  The FAT16 file system, \<open>src/src/fs/fat/fat16.c\<close>. The packed structures of the disk are decoded from the
  bytes they consist of; directory entries lie in physical memory, where the streams put them, and the
  structures with pointers are kernel objects. The same \<open>fuel\<close> bounds the polls of the disk controller, the
  entries of a directory that are scanned for its end, and the parts of a path.
\<close>

section \<open>Constants and structures\<close>

abbreviation (input) MAEROS_FAT16_SIGNATURE :: u8 where "MAEROS_FAT16_SIGNATURE \<equiv> 0x29"
abbreviation (input) MAEROS_FAT16_FAT_ENTRY_SIZE :: "'a::numeral" where "MAEROS_FAT16_FAT_ENTRY_SIZE \<equiv> 0x02"
abbreviation (input) MAEROS_FAT16_BAD_SECTOR :: int where "MAEROS_FAT16_BAD_SECTOR \<equiv> 0xFF7"
abbreviation (input) FAT_ITEM_TYPE_DIRECTORY :: u32 where "FAT_ITEM_TYPE_DIRECTORY \<equiv> 0"
abbreviation (input) FAT_ITEM_TYPE_FILE :: u32 where "FAT_ITEM_TYPE_FILE \<equiv> 1"
abbreviation (input) FAT_FILE_READ_ONLY :: u8 where "FAT_FILE_READ_ONLY \<equiv> 0x01"
abbreviation (input) FAT_FILE_SUBDIRECTORY :: u8 where "FAT_FILE_SUBDIRECTORY \<equiv> 0x10"

record fat_header =
  short_jmp_ins :: "u8 list"
  oem_identifier :: "u8 list"
  bytes_per_sector :: u16
  sectors_per_cluster :: u8
  reserved_sectors :: u16
  fat_copies :: u8
  root_dir_entries :: u16
  number_of_sectors :: u16
  media_type :: u8
  sectors_per_fat :: u16
  sectors_per_track :: u16
  number_of_heads :: u16
  hidden_setors :: u32
  sectors_big :: u32

record fat_header_extended =
  drive_number :: u8
  win_nt_bit :: u8
  signature :: u8
  volume_id :: u32
  volume_id_string :: "u8 list"
  system_id_string :: "u8 list"

record fat_directory_item =
  fdi_filename :: "u8 list"
  fdi_ext :: "u8 list"
  fdi_attribute :: u8
  fdi_reserved :: u8
  creation_time_tenths_of_a_sec :: u8
  creation_time :: u16
  creation_date :: u16
  last_access :: u16
  high_16_bits_first_cluster :: u16
  last_mod_time :: u16
  last_mod_date :: u16
  low_16_bits_first_cluster :: u16
  fdi_filesize :: u32

record fat_directory =
  fd_item :: u32
  fd_total :: int
  fd_sector_pos :: int
  fd_ending_sector_pos :: int

text \<open>The union of \<open>item\<close> and \<open>directory\<close> is one pointer.\<close>

record fat_item =
  fi_ptr :: u32
  fi_type :: u32

record fat_file_descriptor =
  ff_item :: u32
  ff_pos :: u32

text \<open>The header is kept as the 62 bytes that are read from the disk.\<close>

record fat_private =
  fp_header :: "u8 list"
  fp_root_directory :: fat_directory
  fp_cluster_read_stream :: u32
  fp_fat_read_stream :: u32
  fp_directory_stream :: u32

text \<open>\<open>fat16_fs\<close> is the address of the static structure of that name.\<close>

record 'd fat_machine = "'d disk_machine" +
  fat_privates :: "u32 \<rightharpoonup> fat_private"
  fat_directories :: "u32 \<rightharpoonup> fat_directory"
  fat_items :: "u32 \<rightharpoonup> fat_item"
  fat_descriptors :: "u32 \<rightharpoonup> fat_file_descriptor"
  fat16_fs :: u32

definition le32_of :: "u8 \<Rightarrow> u8 \<Rightarrow> u8 \<Rightarrow> u8 \<Rightarrow> u32" where
  "le32_of b0 b1 b2 b3 = ucast b0 OR push_bit 8 (ucast b1) OR push_bit 16 (ucast b2) OR push_bit 24 (ucast b3)"

definition primary_header :: "fat_private \<Rightarrow> fat_header" where
  "primary_header p = (let b = fp_header p in
     \<lparr>short_jmp_ins = take 3 b, oem_identifier = take 8 (drop 3 b), bytes_per_sector = le16 (b ! 11) (b ! 12),
      sectors_per_cluster = b ! 13, reserved_sectors = le16 (b ! 14) (b ! 15), fat_copies = b ! 16,
      root_dir_entries = le16 (b ! 17) (b ! 18), number_of_sectors = le16 (b ! 19) (b ! 20), media_type = b ! 21,
      sectors_per_fat = le16 (b ! 22) (b ! 23), sectors_per_track = le16 (b ! 24) (b ! 25),
      number_of_heads = le16 (b ! 26) (b ! 27), hidden_setors = le32_of (b ! 28) (b ! 29) (b ! 30) (b ! 31),
      sectors_big = le32_of (b ! 32) (b ! 33) (b ! 34) (b ! 35)\<rparr>)"

definition extended_header :: "fat_private \<Rightarrow> fat_header_extended" where
  "extended_header p = (let b = fp_header p in
     \<lparr>drive_number = b ! 36, win_nt_bit = b ! 37, signature = b ! 38,
      volume_id = le32_of (b ! 39) (b ! 40) (b ! 41) (b ! 42), volume_id_string = take 11 (drop 43 b),
      system_id_string = take 8 (drop 54 b)\<rparr>)"

text \<open>A directory entry of 32 bytes, and the one at an address.\<close>

definition item_of :: "u8 list \<Rightarrow> fat_directory_item" where
  "item_of b =
     \<lparr>fdi_filename = take 8 b, fdi_ext = take 3 (drop 8 b), fdi_attribute = b ! 11, fdi_reserved = b ! 12,
      creation_time_tenths_of_a_sec = b ! 13, creation_time = le16 (b ! 14) (b ! 15), creation_date = le16 (b ! 16) (b ! 17),
      last_access = le16 (b ! 18) (b ! 19), high_16_bits_first_cluster = le16 (b ! 20) (b ! 21),
      last_mod_time = le16 (b ! 22) (b ! 23), last_mod_date = le16 (b ! 24) (b ! 25),
      low_16_bits_first_cluster = le16 (b ! 26) (b ! 27), fdi_filesize = le32_of (b ! 28) (b ! 29) (b ! 30) (b ! 31)\<rparr>"

definition item_at :: "mem \<Rightarrow> u32 \<Rightarrow> fat_directory_item" where
  "item_at m p = item_of (mem_bytes m p 32)"

definition deref_disk :: "u32 \<Rightarrow> ('d, 'a) disk_machine_scheme \<Rightarrow> disk exec" where
  "deref_disk disk st = (if disk = disk_addr st then Ret (the_disk st) else Trap Fault)"

text \<open>\<open>diskstreamer_read\<close> into physical memory.\<close>

definition stream_into ::
  "'d ports \<Rightarrow> nat \<Rightarrow> u32 \<Rightarrow> u32 \<Rightarrow> int \<Rightarrow> ('d, 'a) disk_machine_scheme \<Rightarrow> (int \<times> ('d, 'a) disk_machine_scheme) exec" where
  "stream_into io fuel stream out tot st =
     bindx (diskstreamer_read io fuel stream tot st) (\<lambda>(res, bs, st). Ret (res, st\<lparr>pmem := mem_write (pmem st) out bs\<rparr>))"

section \<open>Resolving the file system\<close>

definition zero_fat_private :: fat_private where
  "zero_fat_private = \<lparr>fp_header = replicate 62 0,
     fp_root_directory = \<lparr>fd_item = 0, fd_total = 0, fd_sector_pos = 0, fd_ending_sector_pos = 0\<rparr>,
     fp_cluster_read_stream = 0, fp_fat_read_stream = 0, fp_directory_stream = 0\<rparr>"

definition fat16_init_private ::
  "u32 \<Rightarrow> u32 \<Rightarrow> ('d, 'a) fat_machine_scheme \<Rightarrow> ('d, 'a) fat_machine_scheme exec" where
  "fat16_init_private disk private st =
     bindx (deref_disk disk st) (\<lambda>dk.
     bindx (guardx (private \<noteq> 0) Fault) (\<lambda>_.
     bindx (diskstreamer_new (d_id dk) st) (\<lambda>(s1, st).
     bindx (diskstreamer_new (d_id dk) st) (\<lambda>(s2, st).
     bindx (diskstreamer_new (d_id dk) st) (\<lambda>(s3, st).
       Ret (st\<lparr>fat_privates := (fat_privates st)(private \<mapsto> zero_fat_private
         \<lparr>fp_cluster_read_stream := s1, fp_fat_read_stream := s2, fp_directory_stream := s3\<rparr>)\<rparr>))))))"

definition fat16_sector_to_absolute :: "disk \<Rightarrow> int \<Rightarrow> int" where
  "fat16_sector_to_absolute dk sector = sector * d_sector_size dk"

primrec total_items_loop ::
  "'d ports \<Rightarrow> nat \<Rightarrow> nat \<Rightarrow> u32 \<Rightarrow> int \<Rightarrow> ('d, 'a) fat_machine_scheme \<Rightarrow> (int \<times> ('d, 'a) fat_machine_scheme) exec" where
  "total_items_loop io fuel 0 stream i st = Trap Diverge"
| "total_items_loop io fuel (Suc n) stream i st =
     bindx (diskstreamer_read io fuel stream 32 st) (\<lambda>(res, bs, st).
       if res \<noteq> MAEROS_ALL_OK then Ret (- EIO, st)
       else
         let c = fdi_filename (item_of bs) ! 0
         in if c = 0x00 then Ret (i, st)
            else if c = 0xE5 then total_items_loop io fuel n stream i st
            else total_items_loop io fuel n stream (i + 1) st)"

definition fat16_get_total_items_for_directory ::
  "'d ports \<Rightarrow> nat \<Rightarrow> u32 \<Rightarrow> u32 \<Rightarrow> ('d, 'a) fat_machine_scheme \<Rightarrow> (int \<times> ('d, 'a) fat_machine_scheme) exec" where
  "fat16_get_total_items_for_directory io fuel disk directory_start_sector st =
     bindx (deref_disk disk st) (\<lambda>dk.
     bindx (derefx (fat_privates st) (d_fs_private dk)) (\<lambda>priv.
       let directory_start_pos = sint (directory_start_sector * word_of_int (d_sector_size dk));
           stream = fp_directory_stream priv
       in bindx (diskstreamer_seek stream directory_start_pos st) (\<lambda>(res, st).
            if res \<noteq> MAEROS_ALL_OK then Ret (- EIO, st)
            else total_items_loop io fuel fuel stream 0 st)))"

text \<open>The structure to fill is the one in the private data. The quotients are by the sector size.\<close>

definition fat16_get_root_directory ::
  "'d ports \<Rightarrow> nat \<Rightarrow> u32 \<Rightarrow> u32 \<Rightarrow> ('d, 'a) fat_machine_scheme \<Rightarrow> (int \<times> ('d, 'a) fat_machine_scheme) exec" where
  "fat16_get_root_directory io fuel disk private st =
     bindx (deref_disk disk st) (\<lambda>dk.
     bindx (derefx (fat_privates st) private) (\<lambda>priv.
     bindx (guardx (d_sector_size dk \<noteq> 0) Fault) (\<lambda>_.
       let h = primary_header priv;
           root_dir_sector_pos = int (unat (fat_copies h)) * int (unat (sectors_per_fat h)) + int (unat (reserved_sectors h));
           root_dir_size = int (unat (root_dir_entries h)) * 32
       in bindx (fat16_get_total_items_for_directory io fuel disk (word_of_int root_dir_sector_pos) st) (\<lambda>(total_items, st).
            let (dir, st) = kzalloc (word_of_int root_dir_size) st
            in if dir = 0 then Ret (- ENOMEM, st)
               else
                 let stream = fp_directory_stream priv
                 in bindx (diskstreamer_seek stream (fat16_sector_to_absolute dk root_dir_sector_pos) st) (\<lambda>(res, st).
                      if res \<noteq> MAEROS_ALL_OK then Ret (- EIO, kfree dir st)
                      else bindx (stream_into io fuel stream dir root_dir_size st) (\<lambda>(res, st).
                        if res \<noteq> MAEROS_ALL_OK then Ret (- EIO, kfree dir st)
                        else bindx (derefx (fat_privates st) private) (\<lambda>priv.
                          Ret (0, st\<lparr>fat_privates := (fat_privates st)(private \<mapsto> priv\<lparr>fp_root_directory :=
                            \<lparr>fd_item = dir, fd_total = total_items, fd_sector_pos = root_dir_sector_pos,
                             fd_ending_sector_pos = root_dir_sector_pos + root_dir_size sdiv d_sector_size dk\<rparr>\<rparr>)\<rparr>))))))))"

text \<open>The part of \<open>fat16_resolve\<close> before the label \<open>out\<close>, once the stream is there; the result is \<open>res\<close>.\<close>

definition fat16_resolve_header ::
  "'d ports \<Rightarrow> nat \<Rightarrow> u32 \<Rightarrow> u32 \<Rightarrow> u32 \<Rightarrow> ('d, 'a) fat_machine_scheme \<Rightarrow> (int \<times> ('d, 'a) fat_machine_scheme) exec" where
  "fat16_resolve_header io fuel disk private stream st =
     bindx (diskstreamer_read io fuel stream 62 st) (\<lambda>(res, bs, st).
     bindx (derefx (fat_privates st) private) (\<lambda>priv.
       let priv = priv\<lparr>fp_header := bs @ drop (length bs) (fp_header priv)\<rparr>;
           st = st\<lparr>fat_privates := (fat_privates st)(private \<mapsto> priv)\<rparr>
       in if res \<noteq> MAEROS_ALL_OK then Ret (- EIO, st)
          else if signature (extended_header priv) \<noteq> 0x29 then Ret (- EFSNOTUS, st)
          else bindx (fat16_get_root_directory io fuel disk private st) (\<lambda>(res, st).
            if res \<noteq> MAEROS_ALL_OK then Ret (- EIO, st) else Ret (0, st))))"

text \<open>\<open>sizeof(struct fat_private)\<close> is 92.\<close>

definition fat16_resolve ::
  "'d ports \<Rightarrow> nat \<Rightarrow> u32 \<Rightarrow> ('d, 'a) fat_machine_scheme \<Rightarrow> (int \<times> ('d, 'a) fat_machine_scheme) exec" where
  "fat16_resolve io fuel disk st =
     (let (private, st) = kzalloc 92 st
      in bindx (fat16_init_private disk private st) (\<lambda>st.
         bindx (deref_disk disk st) (\<lambda>dk.
           let st = st\<lparr>the_disk := dk\<lparr>d_fs_private := private, d_filesystem := fat16_fs st\<rparr>\<rparr>
           in bindx (diskstreamer_new (d_id dk) st) (\<lambda>(stream, st).
              bindx (if stream = 0 then Ret (- ENOMEM, st)
                     else fat16_resolve_header io fuel disk private stream st) (\<lambda>(res, st).
                let st = (if stream \<noteq> 0 then diskstreamer_close stream st else st)
                in if res < 0
                   then Ret (res, (kfree private (st\<lparr>fat_privates := (fat_privates st)(private := None)\<rparr>))
                          \<lparr>the_disk := (the_disk st)\<lparr>d_fs_private := 0\<rparr>\<rparr>)
                   else Ret (res, st))))))"

section \<open>Names\<close>

text \<open>The object \<open>out\<close> points into and the position of the pointer; \<open>size\<close> is unsigned.\<close>

fun proper_string_loop :: "nat \<Rightarrow> nat \<Rightarrow> u8 list \<Rightarrow> u8 list \<Rightarrow> nat \<Rightarrow> (u8 list \<times> nat) exec" where
  "proper_string_loop sz i [] out pos = Trap Fault"
| "proper_string_loop sz i (c # inp) out pos =
     (if c \<noteq> 0x00 \<and> c \<noteq> 0x20 then
        bindx (put_byte out pos c) (\<lambda>out.
          if i \<ge> sz - 1 then Ret (out, Suc pos) else proper_string_loop sz (Suc i) inp out (Suc pos))
      else Ret (out, pos))"

definition fat16_to_proper_string :: "u8 list \<Rightarrow> nat \<Rightarrow> u8 list \<Rightarrow> nat \<Rightarrow> (u8 list \<times> nat) exec" where
  "fat16_to_proper_string out pos inp sz =
     bindx (proper_string_loop sz 0 inp out pos) (\<lambda>(out, pos).
     bindx (put_byte out pos 0x00) (\<lambda>out. Ret (out, pos)))"

definition fat16_get_full_relative_filename :: "fat_directory_item \<Rightarrow> nat \<Rightarrow> u8 list exec" where
  "fat16_get_full_relative_filename item max_len =
     bindx (fat16_to_proper_string (replicate max_len 0x00) 0 (fdi_filename item) 8) (\<lambda>(out, out_tmp).
       if fdi_ext item ! 0 \<noteq> 0x00 \<and> fdi_ext item ! 0 \<noteq> 0x20
       then bindx (put_byte out out_tmp 0x2E) (\<lambda>out.
            bindx (fat16_to_proper_string out (Suc out_tmp) (fdi_ext item) 3) (\<lambda>(out, _). Ret out))
       else Ret out)"

definition fat16_clone_directory_item ::
  "u32 \<Rightarrow> int \<Rightarrow> ('d, 'a) fat_machine_scheme \<Rightarrow> u32 \<times> ('d, 'a) fat_machine_scheme" where
  "fat16_clone_directory_item item sz st =
     (if (word_of_int sz :: u32) < 32 then (0, st)
      else
        let (item_copy, st) = kzalloc (word_of_int sz) st
        in if item_copy = 0 then (0, st) else (item_copy, st\<lparr>pmem := memcpy item_copy item sz (pmem st)\<rparr>))"

section \<open>Clusters\<close>

definition fat16_get_first_cluster :: "fat_directory_item \<Rightarrow> u32" where
  "fat16_get_first_cluster item = ucast (high_16_bits_first_cluster item) OR ucast (low_16_bits_first_cluster item)"

definition fat16_cluster_to_sector :: "fat_private \<Rightarrow> int \<Rightarrow> int" where
  "fat16_cluster_to_sector priv cluster =
     fd_ending_sector_pos (fp_root_directory priv) + (cluster - 2) * int (unat (sectors_per_cluster (primary_header priv)))"

definition fat16_get_first_fat_sector :: "fat_private \<Rightarrow> u32" where
  "fat16_get_first_fat_sector priv = ucast (reserved_sectors (primary_header priv))"

definition fat16_get_fat_entry ::
  "'d ports \<Rightarrow> nat \<Rightarrow> u32 \<Rightarrow> int \<Rightarrow> ('d, 'a) fat_machine_scheme \<Rightarrow> (int \<times> ('d, 'a) fat_machine_scheme) exec" where
  "fat16_get_fat_entry io fuel disk cluster st =
     bindx (deref_disk disk st) (\<lambda>dk.
     bindx (derefx (fat_privates st) (d_fs_private dk)) (\<lambda>priv.
       let stream = fp_fat_read_stream priv
       in if stream = 0 then Ret (- 1, st)
          else
            let fat_table_position = fat16_get_first_fat_sector priv * word_of_int (d_sector_size dk)
            in bindx (diskstreamer_seek stream
                 (sint (fat_table_position * word_of_int (cluster * MAEROS_FAT16_FAT_ENTRY_SIZE))) st) (\<lambda>(res, st).
                 if res < 0 then Ret (res, st)
                 else bindx (diskstreamer_read io fuel stream 2 st) (\<lambda>(res, bs, st).
                   if res < 0 then Ret (res, st) else Ret (int (unat (le16 (bs ! 0) (bs ! 1))), st)))))"

primrec cluster_loop ::
  "'d ports \<Rightarrow> nat \<Rightarrow> u32 \<Rightarrow> nat \<Rightarrow> int \<Rightarrow> ('d, 'a) fat_machine_scheme \<Rightarrow> (int \<times> ('d, 'a) fat_machine_scheme) exec" where
  "cluster_loop io fuel disk 0 cluster_to_use st = Ret (cluster_to_use, st)"
| "cluster_loop io fuel disk (Suc n) cluster_to_use st =
     bindx (fat16_get_fat_entry io fuel disk cluster_to_use st) (\<lambda>(entry, st).
       if entry = 0xFF8 \<or> entry = 0xFFF then Ret (- EIO, st)
       else if entry = MAEROS_FAT16_BAD_SECTOR then Ret (- EIO, st)
       else if entry = 0xFF0 \<or> entry = 0xFF6 then Ret (- EIO, st)
       else if entry = 0x00 then Ret (- EIO, st)
       else cluster_loop io fuel disk n entry st)"

definition size_of_cluster_bytes :: "fat_private \<Rightarrow> disk \<Rightarrow> int" where
  "size_of_cluster_bytes priv dk = int (unat (sectors_per_cluster (primary_header priv))) * d_sector_size dk"

definition fat16_get_cluster_for_offset ::
  "'d ports \<Rightarrow> nat \<Rightarrow> u32 \<Rightarrow> int \<Rightarrow> int \<Rightarrow> ('d, 'a) fat_machine_scheme \<Rightarrow> (int \<times> ('d, 'a) fat_machine_scheme) exec" where
  "fat16_get_cluster_for_offset io fuel disk starting_cluster offset st =
     bindx (deref_disk disk st) (\<lambda>dk.
     bindx (derefx (fat_privates st) (d_fs_private dk)) (\<lambda>priv.
     bindx (guardx (size_of_cluster_bytes priv dk \<noteq> 0) Fault) (\<lambda>_.
       let clusters_ahead = offset sdiv size_of_cluster_bytes priv dk
       in cluster_loop io fuel disk (nat clusters_ahead) starting_cluster st)))"

text \<open>
  The recursion is by what is left to read. A cluster has a positive size: a quotient by zero is a fault of
  the processor, and the sector size is 512.
\<close>

function fat16_read_internal_from_stream ::
  "'d ports \<Rightarrow> nat \<Rightarrow> u32 \<Rightarrow> u32 \<Rightarrow> int \<Rightarrow> int \<Rightarrow> int \<Rightarrow> u32 \<Rightarrow> ('d, 'a) fat_machine_scheme \<Rightarrow>
    (int \<times> ('d, 'a) fat_machine_scheme) exec" where
  "fat16_read_internal_from_stream io fuel disk stream cluster offset tot out st =
     bindx (deref_disk disk st) (\<lambda>dk.
     bindx (derefx (fat_privates st) (d_fs_private dk)) (\<lambda>priv.
     bindx (fat16_get_cluster_for_offset io fuel disk cluster offset st) (\<lambda>(cluster_to_use, st).
       if cluster_to_use < 0 then Ret (cluster_to_use, st)
       else bindx (guardx (0 < size_of_cluster_bytes priv dk) Fault) (\<lambda>_.
         let offset_from_cluster = offset smod size_of_cluster_bytes priv dk;
             starting_sector = fat16_cluster_to_sector priv cluster_to_use;
             starting_pos = starting_sector * d_sector_size dk + offset_from_cluster;
             total_to_read = (if tot > size_of_cluster_bytes priv dk then size_of_cluster_bytes priv dk else tot)
         in bindx (diskstreamer_seek stream starting_pos st) (\<lambda>(res, st).
              if res \<noteq> MAEROS_ALL_OK then Ret (res, st)
              else bindx (stream_into io fuel stream out total_to_read st) (\<lambda>(res, st).
                if res \<noteq> MAEROS_ALL_OK then Ret (res, st)
                else if tot - total_to_read > 0
                then fat16_read_internal_from_stream io fuel disk stream cluster (offset + total_to_read)
                       (tot - total_to_read) (out + word_of_int total_to_read) st
                else Ret (res, st)))))))"
  by pat_completeness auto
termination
  by (relation "measure (\<lambda>(io, fuel, disk, stream, cluster, offset, tot, out, st). nat tot)")
    (auto simp: Let_def split: if_splits)

declare fat16_read_internal_from_stream.simps [simp del]

definition fat16_read_internal ::
  "'d ports \<Rightarrow> nat \<Rightarrow> u32 \<Rightarrow> int \<Rightarrow> int \<Rightarrow> int \<Rightarrow> u32 \<Rightarrow> ('d, 'a) fat_machine_scheme \<Rightarrow> (int \<times> ('d, 'a) fat_machine_scheme) exec" where
  "fat16_read_internal io fuel disk starting_cluster offset tot out st =
     bindx (deref_disk disk st) (\<lambda>dk.
     bindx (derefx (fat_privates st) (d_fs_private dk)) (\<lambda>priv.
       fat16_read_internal_from_stream io fuel disk (fp_cluster_read_stream priv) starting_cluster offset tot out st))"

section \<open>Directories and items\<close>

definition fat16_free_directory :: "u32 \<Rightarrow> ('d, 'a) fat_machine_scheme \<Rightarrow> ('d, 'a) fat_machine_scheme exec" where
  "fat16_free_directory directory st =
     (if directory = 0 then Ret st
      else bindx (derefx (fat_directories st) directory) (\<lambda>d.
        let st = (if fd_item d \<noteq> 0 then kfree (fd_item d) st else st)
        in Ret (kfree directory (st\<lparr>fat_directories := (fat_directories st)(directory := None)\<rparr>))))"

definition fat16_fat_item_free :: "u32 \<Rightarrow> ('d, 'a) fat_machine_scheme \<Rightarrow> ('d, 'a) fat_machine_scheme exec" where
  "fat16_fat_item_free item st =
     bindx (derefx (fat_items st) item) (\<lambda>i.
     bindx (if fi_type i = FAT_ITEM_TYPE_DIRECTORY then fat16_free_directory (fi_ptr i) st
            else if fi_type i = FAT_ITEM_TYPE_FILE then Ret (kfree (fi_ptr i) st)
            else Ret st) (\<lambda>st.
       Ret (kfree item (st\<lparr>fat_items := (fat_items st)(item := None)\<rparr>))))"

text \<open>
  The entry is read at address \<open>item\<close>. The result is the pointer \<open>directory\<close>, also when the error path has
  released the structure.
\<close>

definition fat16_load_fat_directory ::
  "'d ports \<Rightarrow> nat \<Rightarrow> u32 \<Rightarrow> u32 \<Rightarrow> ('d, 'a) fat_machine_scheme \<Rightarrow> (u32 \<times> ('d, 'a) fat_machine_scheme) exec" where
  "fat16_load_fat_directory io fuel disk item st =
     bindx (deref_disk disk st) (\<lambda>dk.
       if fdi_attribute (item_at (pmem st) item) AND FAT_FILE_SUBDIRECTORY = 0 then Ret (0, st)
       else
         let (directory, st) = kzalloc 16 st
         in if directory = 0 then Ret (0, st)
            else bindx (derefx (fat_privates st) (d_fs_private dk)) (\<lambda>priv.
              let cluster = sint (fat16_get_first_cluster (item_at (pmem st) item));
                  cluster_sector = fat16_cluster_to_sector priv cluster
              in bindx (fat16_get_total_items_for_directory io fuel disk (word_of_int cluster_sector) st) (\<lambda>(total_items, st).
                   let directory_size = total_items * 32;
                       (items, st) = kzalloc (word_of_int directory_size) st;
                       st = st\<lparr>fat_directories := (fat_directories st)(directory \<mapsto>
                         \<lparr>fd_item = items, fd_total = total_items, fd_sector_pos = 0, fd_ending_sector_pos = 0\<rparr>)\<rparr>
                   in if items = 0
                      then bindx (fat16_free_directory directory st) (\<lambda>st. Ret (directory, st))
                      else bindx (fat16_read_internal io fuel disk cluster 0x00 directory_size items st) (\<lambda>(res, st).
                        if res \<noteq> MAEROS_ALL_OK
                        then bindx (fat16_free_directory directory st) (\<lambda>st. Ret (directory, st))
                        else Ret (directory, st)))))"

definition fat16_new_fat_item_for_directory_item ::
  "'d ports \<Rightarrow> nat \<Rightarrow> u32 \<Rightarrow> u32 \<Rightarrow> ('d, 'a) fat_machine_scheme \<Rightarrow> (u32 \<times> ('d, 'a) fat_machine_scheme) exec" where
  "fat16_new_fat_item_for_directory_item io fuel disk item st =
     (let (f_item, st) = kzalloc 8 st
      in if f_item = 0 then Ret (0, st)
         else if fdi_attribute (item_at (pmem st) item) AND FAT_FILE_SUBDIRECTORY \<noteq> 0
         then bindx (fat16_load_fat_directory io fuel disk item st) (\<lambda>(directory, st).
                Ret (f_item, st\<lparr>fat_items := (fat_items st)(f_item \<mapsto> \<lparr>fi_ptr = directory, fi_type = FAT_ITEM_TYPE_DIRECTORY\<rparr>)\<rparr>))
         else
           let (copy, st) = fat16_clone_directory_item item 32 st
           in Ret (f_item, st\<lparr>fat_items := (fat_items st)(f_item \<mapsto> \<lparr>fi_ptr = copy, fi_type = FAT_ITEM_TYPE_FILE\<rparr>)\<rparr>))"

text \<open>The loop runs through all entries and keeps the last item it has created. \<open>n\<close> is what is left of \<open>total\<close>.\<close>

primrec find_item_loop ::
  "'d ports \<Rightarrow> nat \<Rightarrow> u32 \<Rightarrow> nat \<Rightarrow> u32 \<Rightarrow> u8 list \<Rightarrow> u32 \<Rightarrow> ('d, 'a) fat_machine_scheme \<Rightarrow>
    (u32 \<times> ('d, 'a) fat_machine_scheme) exec" where
  "find_item_loop io fuel disk 0 item name f_item st = Ret (f_item, st)"
| "find_item_loop io fuel disk (Suc n) item name f_item st =
     bindx (fat16_get_full_relative_filename (item_at (pmem st) item) MAEROS_MAX_PATH) (\<lambda>tmp_filename.
     bindx (istrncmp tmp_filename name MAEROS_MAX_PATH) (\<lambda>c.
       if c = 0
       then bindx (fat16_new_fat_item_for_directory_item io fuel disk item st) (\<lambda>(f_item, st).
              find_item_loop io fuel disk n (item + 32) name f_item st)
       else find_item_loop io fuel disk n (item + 32) name f_item st))"

definition fat16_find_item_in_directory ::
  "'d ports \<Rightarrow> nat \<Rightarrow> u32 \<Rightarrow> fat_directory \<Rightarrow> u8 list \<Rightarrow> ('d, 'a) fat_machine_scheme \<Rightarrow> (u32 \<times> ('d, 'a) fat_machine_scheme) exec" where
  "fat16_find_item_in_directory io fuel disk directory name st =
     find_item_loop io fuel disk (nat (fd_total directory)) (fd_item directory) name 0 st"

text \<open>
  The loop over the later parts of the path. An item that is not a directory ends the search without being
  released; a missing entry makes the current item null, which the next round would read through.
\<close>

primrec directory_entry_loop ::
  "'d ports \<Rightarrow> nat \<Rightarrow> nat \<Rightarrow> u32 \<Rightarrow> u32 \<Rightarrow> u32 \<Rightarrow> ('d, 'a) fat_machine_scheme \<Rightarrow> (u32 \<times> ('d, 'a) fat_machine_scheme) exec" where
  "directory_entry_loop io fuel 0 disk current_item next_part st = Trap Diverge"
| "directory_entry_loop io fuel (Suc n) disk current_item next_part st =
     (if next_part = 0 then Ret (current_item, st)
      else bindx (derefx (fat_items st) current_item) (\<lambda>i.
        if fi_type i \<noteq> FAT_ITEM_TYPE_DIRECTORY then Ret (0, st)
        else bindx (derefx (fat_directories st) (fi_ptr i)) (\<lambda>d.
          bindx (derefx (path_parts st) next_part) (\<lambda>part.
          bindx (derefx (strings st) (pp_part part)) (\<lambda>name.
          bindx (fat16_find_item_in_directory io fuel disk d name st) (\<lambda>(tmp_item, st).
          bindx (fat16_fat_item_free current_item st) (\<lambda>st.
            directory_entry_loop io fuel n disk tmp_item (pp_next part) st)))))))"

definition fat16_get_directory_entry ::
  "'d ports \<Rightarrow> nat \<Rightarrow> u32 \<Rightarrow> u32 \<Rightarrow> ('d, 'a) fat_machine_scheme \<Rightarrow> (u32 \<times> ('d, 'a) fat_machine_scheme) exec" where
  "fat16_get_directory_entry io fuel disk path st =
     bindx (deref_disk disk st) (\<lambda>dk.
     bindx (derefx (fat_privates st) (d_fs_private dk)) (\<lambda>priv.
     bindx (derefx (path_parts st) path) (\<lambda>part.
     bindx (derefx (strings st) (pp_part part)) (\<lambda>name.
     bindx (fat16_find_item_in_directory io fuel disk (fp_root_directory priv) name st) (\<lambda>(root_item, st).
       if root_item = 0 then Ret (0, st)
       else directory_entry_loop io fuel fuel disk root_item (pp_next part) st)))))"

section \<open>Files\<close>

abbreviation (input) FILE_MODE_READ :: u32 where "FILE_MODE_READ \<equiv> 0"
abbreviation (input) FILE_MODE_WRITE :: u32 where "FILE_MODE_WRITE \<equiv> 1"
abbreviation (input) FILE_MODE_APPEND :: u32 where "FILE_MODE_APPEND \<equiv> 2"
abbreviation (input) FILE_MODE_INVALID :: u32 where "FILE_MODE_INVALID \<equiv> 3"
abbreviation (input) SEEK_SET :: u32 where "SEEK_SET \<equiv> 0"
abbreviation (input) SEEK_CUR :: u32 where "SEEK_CUR \<equiv> 1"
abbreviation (input) SEEK_END :: u32 where "SEEK_END \<equiv> 2"
abbreviation (input) FILE_STAT_READ_ONLY :: u32 where "FILE_STAT_READ_ONLY \<equiv> 1"

record file_stat =
  fs_flags :: u32
  fs_filesize :: u32

text \<open>The result is the descriptor, or an error code cast to a pointer.\<close>

definition fat16_open ::
  "'d ports \<Rightarrow> nat \<Rightarrow> u32 \<Rightarrow> u32 \<Rightarrow> u32 \<Rightarrow> ('d, 'a) fat_machine_scheme \<Rightarrow> (u32 \<times> ('d, 'a) fat_machine_scheme) exec" where
  "fat16_open io fuel disk path mode st =
     (if mode \<noteq> FILE_MODE_READ then Ret (word_of_int (- ERDONLY), st)
      else
        let (descriptor, st) = kzalloc 8 st
        in if descriptor = 0 then Ret (word_of_int (- ENOMEM), st)
           else bindx (fat16_get_directory_entry io fuel disk path st) (\<lambda>(item, st).
             if item = 0 then Ret (word_of_int (- EIO), kfree descriptor st)
             else Ret (descriptor, st\<lparr>fat_descriptors := (fat_descriptors st)(descriptor \<mapsto> \<lparr>ff_item = item, ff_pos = 0\<rparr>)\<rparr>)))"

definition fat16_free_file_descriptor :: "u32 \<Rightarrow> ('d, 'a) fat_machine_scheme \<Rightarrow> ('d, 'a) fat_machine_scheme exec" where
  "fat16_free_file_descriptor desc st =
     bindx (derefx (fat_descriptors st) desc) (\<lambda>f.
     bindx (fat16_fat_item_free (ff_item f) st) (\<lambda>st.
       Ret (kfree desc (st\<lparr>fat_descriptors := (fat_descriptors st)(desc := None)\<rparr>))))"

definition fat16_close :: "u32 \<Rightarrow> ('d, 'a) fat_machine_scheme \<Rightarrow> (int \<times> ('d, 'a) fat_machine_scheme) exec" where
  "fat16_close private st = bindx (fat16_free_file_descriptor private st) (\<lambda>st. Ret (0, st))"

text \<open>The structure \<open>stat\<close> stays as it is when the descriptor is not of a file.\<close>

definition fat16_stat :: "u32 \<Rightarrow> ('d, 'a) fat_machine_scheme \<Rightarrow> file_stat \<Rightarrow> (int \<times> file_stat) exec" where
  "fat16_stat private st stat =
     bindx (derefx (fat_descriptors st) private) (\<lambda>f.
     bindx (derefx (fat_items st) (ff_item f)) (\<lambda>i.
       if fi_type i \<noteq> FAT_ITEM_TYPE_FILE then Ret (- EINVARG, stat)
       else
         let ritem = item_at (pmem st) (fi_ptr i)
         in Ret (0, \<lparr>fs_flags = (if fdi_attribute ritem AND FAT_FILE_READ_ONLY \<noteq> 0 then 0 OR FILE_STAT_READ_ONLY else 0),
                     fs_filesize = fdi_filesize ritem\<rparr>)))"

text \<open>The loop over \<open>nmemb\<close>; \<open>n\<close> is what is left of it. \<open>size\<close> is converted to \<open>int\<close>.\<close>

primrec fat16_read_loop ::
  "'d ports \<Rightarrow> nat \<Rightarrow> u32 \<Rightarrow> u32 \<Rightarrow> u32 \<Rightarrow> nat \<Rightarrow> int \<Rightarrow> u32 \<Rightarrow> ('d, 'a) fat_machine_scheme \<Rightarrow>
    (int \<times> ('d, 'a) fat_machine_scheme) exec" where
  "fat16_read_loop io fuel disk item sz 0 offset out_ptr st = Ret (0, st)"
| "fat16_read_loop io fuel disk item sz (Suc n) offset out_ptr st =
     bindx (fat16_read_internal io fuel disk (sint (fat16_get_first_cluster (item_at (pmem st) item))) offset (sint sz) out_ptr st)
       (\<lambda>(res, st).
         if res < 0 then Ret (res, st)
         else fat16_read_loop io fuel disk item sz n (sint (word_of_int offset + sz)) (out_ptr + sz) st)"

definition fat16_read ::
  "'d ports \<Rightarrow> nat \<Rightarrow> u32 \<Rightarrow> u32 \<Rightarrow> u32 \<Rightarrow> u32 \<Rightarrow> u32 \<Rightarrow> ('d, 'a) fat_machine_scheme \<Rightarrow> (int \<times> ('d, 'a) fat_machine_scheme) exec" where
  "fat16_read io fuel disk descriptor sz nmemb out_ptr st =
     bindx (derefx (fat_descriptors st) descriptor) (\<lambda>f.
     bindx (derefx (fat_items st) (ff_item f)) (\<lambda>i.
     bindx (fat16_read_loop io fuel disk (fi_ptr i) sz (unat nmemb) (sint (ff_pos f)) out_ptr st) (\<lambda>(res, st).
       if res < 0 then Ret (res, st) else Ret (sint nmemb, st))))"

definition fat16_seek :: "u32 \<Rightarrow> u32 \<Rightarrow> u32 \<Rightarrow> ('d, 'a) fat_machine_scheme \<Rightarrow> (int \<times> ('d, 'a) fat_machine_scheme) exec" where
  "fat16_seek private offset seek_mode st =
     bindx (derefx (fat_descriptors st) private) (\<lambda>desc.
     bindx (derefx (fat_items st) (ff_item desc)) (\<lambda>i.
       if fi_type i \<noteq> FAT_ITEM_TYPE_FILE then Ret (- EINVARG, st)
       else if offset \<ge> fdi_filesize (item_at (pmem st) (fi_ptr i)) then Ret (- EIO, st)
       else if seek_mode = SEEK_SET
       then Ret (0, st\<lparr>fat_descriptors := (fat_descriptors st)(private \<mapsto> desc\<lparr>ff_pos := offset\<rparr>)\<rparr>)
       else if seek_mode = SEEK_END then Ret (- EUNIMP, st)
       else if seek_mode = SEEK_CUR
       then Ret (0, st\<lparr>fat_descriptors := (fat_descriptors st)(private \<mapsto> desc\<lparr>ff_pos := ff_pos desc + offset\<rparr>)\<rparr>)
       else Ret (- EINVARG, st)))"

end
