(* ===== verification/Fat16_Files.thy ===== *)
theory Fat16_Files
  imports Fat16
begin

text \<open>
  What the FAT16 driver does on a mounted volume: the names it builds from directory entries, the bytes it
  reads from a cluster, where it looks for the entries of the allocation table, and how it finds a file of
  the root directory.
\<close>

section \<open>Names\<close>

text \<open>The characters of a padded field.\<close>

definition trim :: "u8 list \<Rightarrow> u8 list" where
  "trim = takeWhile (\<lambda>c. c \<noteq> 0x00 \<and> c \<noteq> 0x20)"

lemma proper_string_loop_run:
  assumes "i + length inp = sz" and "inp \<noteq> []" and "pos + length (trim inp) < length out"
  shows "proper_string_loop sz i inp out pos =
    Ret (take pos out @ trim inp @ drop (pos + length (trim inp)) out, pos + length (trim inp))"
  using assms
proof (induction inp arbitrary: i out pos)
  case (Cons c inp)
  show ?case
  proof (cases "c \<noteq> 0x00 \<and> c \<noteq> 0x20")
    case False
    then show ?thesis by (auto simp: trim_def)
  next
    case True
    then have t: "trim (c # inp) = c # trim inp" by (simp add: trim_def)
    then have p: "pos < length out" "Suc pos + length (trim inp) < length (out[pos := c])" using Cons.prems(3) by simp_all
    have upd: "take (Suc pos) (out[pos := c]) = take pos out @ [c]" using p(1) by (simp add: take_Suc_conv_app_nth)
    show ?thesis
    proof (cases "inp = []")
      case True
      with \<open>c \<noteq> 0x00 \<and> c \<noteq> 0x20\<close> show ?thesis
        using Cons.prems(1) p(1) by (simp add: put_byte_def trim_def upd_conv_take_nth_drop)
    next
      case False
      then have "\<not> i \<ge> sz - 1" using Cons.prems(1) by (cases inp) auto
      moreover have "proper_string_loop sz (Suc i) inp (out[pos := c]) (Suc pos) =
          Ret (take (Suc pos) (out[pos := c]) @ trim inp @ drop (Suc pos + length (trim inp)) (out[pos := c]),
            Suc pos + length (trim inp))"
        using Cons.prems(1) False p(2) by (intro Cons.IH) simp_all
      ultimately show ?thesis using True p(1) t upd by (simp add: put_byte_def)
    qed
  qed
qed simp

lemma to_proper_string_run:
  assumes "length inp = sz" and "inp \<noteq> []" and "pos + length (trim inp) < length out"
  shows "fat16_to_proper_string out pos inp sz =
    Ret (take pos out @ trim inp @ 0 # drop (Suc (pos + length (trim inp))) out, pos + length (trim inp))"
  using proper_string_loop_run [of 0 inp sz pos out] assms
  by (simp add: fat16_to_proper_string_def put_byte_def upd_conv_take_nth_drop list_update_append drop_Suc)

lemma trim_zero: "0 \<notin> set (trim s)"
  by (auto simp: trim_def dest: set_takeWhileD)

lemma trim_length: "length (trim s) \<le> length s"
  by (simp add: trim_def length_takeWhile_le)

text \<open>The name of an entry: the stem, and a dot and the extension if there is one.\<close>

definition full_name :: "fat_directory_item \<Rightarrow> u8 list" where
  "full_name item = trim (fdi_filename item) @ (if trim (fdi_ext item) = [] then [] else 0x2E # trim (fdi_ext item))"

definition item_wf :: "fat_directory_item \<Rightarrow> bool" where
  "item_wf item \<longleftrightarrow> length (fdi_filename item) = 8 \<and> length (fdi_ext item) = 3"

lemma item_of_wf: "length b = 32 \<Longrightarrow> item_wf (item_of b)"
  by (simp add: item_wf_def item_of_def)

lemma full_name_run:
  assumes "item_wf item"
  shows "\<exists>s. fat16_get_full_relative_filename item 108 = Ret s \<and> length s = 108 \<and> terminated s \<and> cstr s = full_name item"
proof -
  let ?f = "trim (fdi_filename item)" and ?e = "trim (fdi_ext item)"
  have L: "length (fdi_filename item) = 8" "length (fdi_ext item) = 3" using assms by (simp_all add: item_wf_def)
  then have ne: "fdi_filename item \<noteq> []" "fdi_ext item \<noteq> []" by auto
  have l: "length ?f \<le> 8" "length ?e \<le> 3"
    using trim_length [of "fdi_filename item"] trim_length [of "fdi_ext item"] L by simp_all
  have z: "0 \<notin> set ?f" "0 \<notin> set ?e" by (simp_all add: trim_zero)
  define out where "out = ?f @ 0 # replicate (107 - length ?f) (0 :: u8)"
  have lo: "length out = 108" using l(1) by (simp add: out_def)
  have F: "fat16_to_proper_string (replicate 108 0) 0 (fdi_filename item) 8 = Ret (out, length ?f)"
    using to_proper_string_run [of "fdi_filename item" 8 0 "replicate 108 0"] L l ne by (auto simp: out_def)
  have e: "fdi_ext item ! 0 \<noteq> 0x00 \<and> fdi_ext item ! 0 \<noteq> 0x20 \<longleftrightarrow> ?e \<noteq> []"
    using L(2) by (cases "fdi_ext item") (auto simp: trim_def)
  show ?thesis
  proof (cases "?e = []")
    case True
    then have "fat16_get_full_relative_filename item 108 = Ret out"
      using F e by (auto simp: fat16_get_full_relative_filename_def)
    then show ?thesis using True lo z(1) by (simp add: full_name_def out_def cstr_append)
  next
    case False
    define o2 where "o2 = out[length ?f := 0x2E]"
    have t: "take (Suc (length ?f)) o2 = ?f @ [0x2E]"
      using lo l(1) by (simp add: o2_def out_def take_Suc_conv_app_nth list_update_append)
    have lo2: "length o2 = 108" using lo by (simp add: o2_def)
    have E: "fat16_to_proper_string o2 (Suc (length ?f)) (fdi_ext item) 3 =
        Ret (?f @ [0x2E] @ ?e @ 0 # drop (Suc (Suc (length ?f) + length ?e)) o2, Suc (length ?f) + length ?e)"
      using to_proper_string_run [of "fdi_ext item" 3 "Suc (length ?f)" o2] L(2) l lo2 t ne by auto
    have "put_byte out (length ?f) 0x2E = Ret o2" using lo l(1) by (simp add: put_byte_def o2_def)
    with F E e False have "fat16_get_full_relative_filename item 108 =
        Ret (?f @ [0x2E] @ ?e @ 0 # drop (Suc (Suc (length ?f) + length ?e)) o2)"
      by (simp add: fat16_get_full_relative_filename_def)
    then show ?thesis using lo2 l z False by (simp add: full_name_def cstr_append terminated_def)
  qed
qed

section \<open>Reading a cluster\<close>

text \<open>
  A mounted volume: the private data is there with its streams, the sectors have 512 bytes and a cluster has
  at least one sector.
\<close>

definition fat_mounted :: "('d, 'a) fat_machine_scheme \<Rightarrow> fat_private \<Rightarrow> bool" where
  "fat_mounted st priv \<longleftrightarrow> d_sector_size (the_disk st) = 512 \<and> fat_privates st (d_fs_private (the_disk st)) = Some priv \<and>
     0 < unat (sectors_per_cluster (primary_header priv)) \<and>
     (\<forall>s \<in> {fp_cluster_read_stream priv, fp_fat_read_stream priv, fp_directory_stream priv}.
        s \<noteq> 0 \<and> map_option ds_disk (disk_streams st s) = Some (disk_addr st))"

text \<open>Where the bytes of a cluster are on the disk.\<close>

definition cluster_pos :: "fat_private \<Rightarrow> int \<Rightarrow> nat" where
  "cluster_pos priv cluster = nat (fat16_cluster_to_sector priv cluster) * 512"

lemma stream_seek:
  assumes "fat_mounted st priv"
    and "s \<in> {fp_cluster_read_stream priv, fp_fat_read_stream priv, fp_directory_stream priv}"
  shows "diskstreamer_seek s pos st =
    Ret (0, st\<lparr>disk_streams := (disk_streams st)(s \<mapsto> \<lparr>ds_pos = pos, ds_disk = disk_addr st\<rparr>)\<rparr>)"
proof -
  have "map_option ds_disk (disk_streams st s) = Some (disk_addr st)" using assms unfolding fat_mounted_def by blast
  then obtain x where x: "disk_streams st s = Some x" "ds_disk x = disk_addr st" by blast
  obtain q e where q: "x = \<lparr>ds_pos = q, ds_disk = e\<rparr>" by (cases x)
  show ?thesis using x unfolding q by (simp add: diskstreamer_seek_def derefx_def)
qed

text \<open>Seek and read through one of the streams of the volume.\<close>

lemma seek_read:
  assumes conf: "ata_conforms io view img W" "W < fuel" "length img < 2 ^ 31"
    and mnt: "fat_mounted st priv"
    and s: "s \<in> {fp_cluster_read_stream priv, fp_fat_read_stream priv, fp_directory_stream priv}"
    and fit: "p + n < 512 * (length img div 512)"
  shows "\<exists>d. bindx (diskstreamer_seek s (int p) st) (\<lambda>(res, st). diskstreamer_read io fuel s (int n) st) =
    Ret (0, take n (drop p img),
      st\<lparr>device := d, disk_streams := (disk_streams st)(s \<mapsto> \<lparr>ds_pos = int (p + n), ds_disk = disk_addr st\<rparr>)\<rparr>)"
proof -
  let ?st = "st\<lparr>disk_streams := (disk_streams st)(s \<mapsto> \<lparr>ds_pos = int p, ds_disk = disk_addr st\<rparr>)\<rparr>"
  have "disk_streams ?st s = Some \<lparr>ds_pos = int p, ds_disk = disk_addr ?st\<rparr>" by simp
  from diskstreamer_run [OF conf this fit] stream_seek [OF mnt s, of "int p"] show ?thesis by auto
qed

lemma bindx_assoc: "bindx (bindx m f) g = bindx m (\<lambda>x. bindx (f x) g)"
  by (cases m) simp_all

lemma small_quotient: "0 \<le> (a :: int) \<Longrightarrow> a < b \<Longrightarrow> a sdiv b = 0 \<and> a smod b = a"
  by (cases "a = 0") (simp_all add: signed_divide_int_def signed_modulo_int_def)

lemma read_cluster_run:
  assumes conf: "ata_conforms io view img W" "W < fuel" "length img < 2 ^ 31"
    and mnt: "fat_mounted st priv"
    and off: "off + n \<le> nat (size_of_cluster_bytes priv (the_disk st))" "off < nat (size_of_cluster_bytes priv (the_disk st))"
    and cl: "0 \<le> cl" "0 \<le> fat16_cluster_to_sector priv cl"
    and fit: "cluster_pos priv cl + off + n < 512 * (length img div 512)"
  shows "\<exists>d. fat16_read_internal io fuel (disk_addr st) cl (int off) (int n) out st =
    Ret (0, st\<lparr>pmem := mem_write (pmem st) out (take n (drop (cluster_pos priv cl + off) img)), device := d,
      disk_streams := (disk_streams st)(fp_cluster_read_stream priv \<mapsto>
        \<lparr>ds_pos = int (cluster_pos priv cl + off + n), ds_disk = disk_addr st\<rparr>)\<rparr>)"
proof -
  let ?s = "fp_cluster_read_stream priv" and ?sz = "size_of_cluster_bytes priv (the_disk st)"
  define p where "p = cluster_pos priv cl + off"
  have M: "d_sector_size (the_disk st) = 512" "fat_privates st (d_fs_private (the_disk st)) = Some priv"
    "0 < unat (sectors_per_cluster (primary_header priv))"
    using mnt by (simp_all add: fat_mounted_def)
  have sz: "0 < ?sz" "int off < ?sz" "\<not> ?sz < int n" using off M by (auto simp: size_of_cluster_bytes_def)
  note q = small_quotient [of "int off" ?sz, OF _ sz(2)]
  have cfo: "fat16_get_cluster_for_offset io fuel (disk_addr st) cl (int off) st = Ret (cl, st)"
    using M sz(1) q by (simp add: fat16_get_cluster_for_offset_def deref_disk_def derefx_def)
  have pos: "fat16_cluster_to_sector priv cl * 512 + int off = int p" using cl(2) by (simp add: cluster_pos_def p_def)
  let ?st1 = "st\<lparr>disk_streams := (disk_streams st)(?s \<mapsto> \<lparr>ds_pos = int p, ds_disk = disk_addr st\<rparr>)\<rparr>"
  have seek: "diskstreamer_seek ?s (int p) st = Ret (0, ?st1)" by (rule stream_seek [OF mnt]) simp
  obtain d where R: "diskstreamer_read io fuel ?s (int n) ?st1 =
      Ret (0, take n (drop p img), st\<lparr>device := d, disk_streams := (disk_streams st)(?s \<mapsto> \<lparr>ds_pos = int (p + n), ds_disk = disk_addr st\<rparr>)\<rparr>)"
    using seek_read [OF conf mnt _ fit [folded p_def], of ?s] seek by auto
  have fs: "fat16_read_internal io fuel (disk_addr st) cl (int off) (int n) out st =
      fat16_read_internal_from_stream io fuel (disk_addr st) ?s cl (int off) (int n) out st"
    using M by (simp add: fat16_read_internal_def deref_disk_def derefx_def)
  have q': "int off smod ?sz = int off" using q by simp
  have into: "stream_into io fuel ?s out (int n) ?st1 = Ret (0, st\<lparr>pmem := mem_write (pmem st) out (take n (drop p img)), device := d,
      disk_streams := (disk_streams st)(?s \<mapsto> \<lparr>ds_pos = int (p + n), ds_disk = disk_addr st\<rparr>)\<rparr>)"
    unfolding stream_into_def R by simp
  have "fat16_read_internal_from_stream io fuel (disk_addr st) ?s cl (int off) (int n) out st =
      Ret (0, st\<lparr>pmem := mem_write (pmem st) out (take n (drop p img)), device := d,
        disk_streams := (disk_streams st)(?s \<mapsto> \<lparr>ds_pos = int (p + n), ds_disk = disk_addr st\<rparr>)\<rparr>)"
    using sz cl(1)
    by (subst fat16_read_internal_from_stream.simps)
      (simp add: deref_disk_def derefx_def M(1,2) cfo q' pos Let_def seek into del: of_nat_add)
  then show ?thesis unfolding p_def [symmetric] fs by blast
qed

text \<open>Where an entry of the allocation table is looked up: a product where the layout of the volume has a sum.\<close>

lemma fat_entry_run:
  assumes conf: "ata_conforms io view img W" "W < fuel" "length img < 2 ^ 31"
    and mnt: "fat_mounted st priv"
    and p: "p = unat (reserved_sectors (primary_header priv)) * 512 * (nat cl * 2)" "p < 2 ^ 31" and cl: "0 \<le> cl"
    and fit: "p + 2 < 512 * (length img div 512)"
  shows "\<exists>st'. fat16_get_fat_entry io fuel (disk_addr st) cl st = Ret (int (unat (le16 (img ! p) (img ! (p + 1)))), st')"
proof -
  let ?s = "fp_fat_read_stream priv"
  have M: "d_sector_size (the_disk st) = 512" "fat_privates st (d_fs_private (the_disk st)) = Some priv" "?s \<noteq> 0"
    using mnt unfolding fat_mounted_def by blast+
  have "(fat16_get_first_fat_sector priv * 512 * word_of_int (cl * 2) :: u32) = of_nat p"
    using cl unfolding p(1) fat16_get_first_fat_sector_def by (simp add: of_nat_nat)
  then have pos: "sint (fat16_get_first_fat_sector priv * 512 * word_of_int (cl * 2) :: u32) = int p"
    using p(2) sint_of_nat_small by simp
  obtain d where D: "bindx (diskstreamer_seek ?s (int p) st) (\<lambda>(res, st). diskstreamer_read io fuel ?s (int 2) st) =
      Ret (0, take 2 (drop p img), st\<lparr>device := d, disk_streams := (disk_streams st)(?s \<mapsto> \<lparr>ds_pos = int (p + 2), ds_disk = disk_addr st\<rparr>)\<rparr>)"
    using seek_read [OF conf mnt _ fit, of ?s] by blast
  have seek: "diskstreamer_seek ?s (int p) st = Ret (0, st\<lparr>disk_streams := (disk_streams st)(?s \<mapsto> \<lparr>ds_pos = int p, ds_disk = disk_addr st\<rparr>)\<rparr>)"
    by (rule stream_seek [OF mnt]) simp
  have "take 2 (drop p img) ! 0 = img ! p" "take 2 (drop p img) ! 1 = img ! (p + 1)" using fit by auto
  then show ?thesis
    using M D seek pos by (simp add: fat16_get_fat_entry_def deref_disk_def derefx_def Let_def)
qed

section \<open>Properties\<close>

lemma trim_padded:
  assumes "set s \<inter> {0x00, 0x20} = {}"
  shows "trim (s @ replicate k 0x20) = s"
proof -
  have "takeWhile (\<lambda>c. c \<noteq> 0x00 \<and> c \<noteq> 0x20) (s @ replicate k 0x20) = s @ takeWhile (\<lambda>c. c \<noteq> 0x00 \<and> c \<noteq> 0x20) (replicate k 0x20)"
    using assms by (intro takeWhile_append2) auto
  then show ?thesis by (cases k) (simp_all add: trim_def)
qed

text \<open>A volume with one sector for each cluster; the data starts at sector 3.\<close>

definition demo_fat_private :: fat_private where
  "demo_fat_private = \<lparr>fp_header = (replicate 62 0)[13 := 1, 14 := 1, 16 := 1, 22 := 1],
     fp_root_directory = \<lparr>fd_item = 0, fd_total = 0, fd_sector_pos = 2, fd_ending_sector_pos = 3\<rparr>,
     fp_cluster_read_stream = 0x900, fp_fat_read_stream = 0x900, fp_directory_stream = 0x900\<rparr>"

definition demo_volume :: "ata fat_machine" where
  "demo_volume = disk_machine.extend (demo_disk\<lparr>the_disk := (the_disk demo_disk)\<lparr>d_fs_private := 0xA00\<rparr>\<rparr>)
     (fat_machine.fields [0xA00 \<mapsto> demo_fat_private] Map.empty Map.empty Map.empty 0xB00)"

lemma demo_volume_simps:
  "disk_addr demo_volume = 0x800" "d_sector_size (the_disk demo_volume) = 512" "d_fs_private (the_disk demo_volume) = 0xA00"
  "fat_privates demo_volume = [0xA00 \<mapsto> demo_fat_private]"
  "disk_streams demo_volume = [0x900 \<mapsto> \<lparr>ds_pos = 510, ds_disk = 0x800\<rparr>]"
  "fat_directories demo_volume = Map.empty" "fat_items demo_volume = Map.empty" "fat_descriptors demo_volume = Map.empty"
  by (simp_all add: demo_volume_def demo_disk_def disk_machine.extend_def fat_machine.fields_def)

lemma demo_header:
  "unat (sectors_per_cluster (primary_header demo_fat_private)) = 1"
  "unat (reserved_sectors (primary_header demo_fat_private)) = 1"
  by (simp_all add: demo_fat_private_def primary_header_def le16_def Let_def)

lemma demo_streams:
  "fp_cluster_read_stream demo_fat_private = 0x900" "fp_fat_read_stream demo_fat_private = 0x900"
  "fp_directory_stream demo_fat_private = 0x900"
  by (simp_all add: demo_fat_private_def)

lemma demo_mounted: "fat_mounted demo_volume demo_fat_private"
  by (simp add: fat_mounted_def demo_volume_simps demo_header demo_streams)

text \<open>
  C39. Names of directory entries. \<open>fat16_get_full_relative_filename\<close> undoes the layout of a name on the disk:
  an entry whose stem and extension are padded with spaces to eight and three characters gives the stem, a
  dot and the extension, or the stem alone if there is no extension. The result is terminated and the code
  stays inside the buffer of the caller.
\<close>

theorem fat16_name_roundtrip:
  assumes "length stem \<le> 8" and "length ext \<le> 3" and "set (stem @ ext) \<inter> {0x00, 0x20} = {}" and "length rest = 21"
  shows "\<exists>s. fat16_get_full_relative_filename
      (item_of (stem @ replicate (8 - length stem) 0x20 @ ext @ replicate (3 - length ext) 0x20 @ rest)) 108 = Ret s \<and>
    length s = 108 \<and> terminated s \<and> cstr s = (if ext = [] then stem else stem @ 0x2E # ext)"
proof -
  let ?b = "stem @ replicate (8 - length stem) 0x20 @ ext @ replicate (3 - length ext) 0x20 @ rest"
  have "item_wf (item_of ?b)" using assms(1,2,4) by (intro item_of_wf) simp
  moreover have "fdi_filename (item_of ?b) = stem @ replicate (8 - length stem) 0x20"
    "fdi_ext (item_of ?b) = ext @ replicate (3 - length ext) 0x20"
    using assms(1,2) by (simp_all add: item_of_def)
  ultimately show ?thesis
    using full_name_run [of "item_of ?b"] trim_padded [of stem "8 - length stem"] trim_padded [of ext "3 - length ext"] assms(3)
    by (auto simp: full_name_def)
qed

theorem fat16_name_roundtrip_witness:
  "\<exists>s. fat16_get_full_relative_filename (item_of ([0x41, 0x42] @ replicate 6 0x20 @ [0x43] @ replicate 2 0x20 @ replicate 21 0)) 108 =
     Ret s \<and> cstr s = [0x41, 0x42, 0x2E, 0x43]"
  using fat16_name_roundtrip [of "[0x41, 0x42]" "[0x43]" "replicate 21 0"] by auto

text \<open>
  Reading within a cluster. On a mounted volume \<open>fat16_read_internal\<close> of a range inside one cluster stores
  exactly the bytes the cluster has at that offset, at the address the caller gives, and reports success; it
  changes nothing but that memory, the device and the position of the cluster stream.
\<close>

lemma fat16_read_cluster:
  assumes "ata_conforms io view img W" "W < fuel" "length img < 2 ^ 31"
    and "fat_mounted st priv"
    and "off + n \<le> nat (size_of_cluster_bytes priv (the_disk st))" "off < nat (size_of_cluster_bytes priv (the_disk st))"
    and "0 \<le> cl" "0 \<le> fat16_cluster_to_sector priv cl"
    and "cluster_pos priv cl + off + n < 512 * (length img div 512)"
  shows "\<exists>d. fat16_read_internal io fuel (disk_addr st) cl (int off) (int n) out st =
    Ret (0, st\<lparr>pmem := mem_write (pmem st) out (take n (drop (cluster_pos priv cl + off) img)), device := d,
      disk_streams := (disk_streams st)(fp_cluster_read_stream priv \<mapsto>
        \<lparr>ds_pos = int (cluster_pos priv cl + off + n), ds_disk = disk_addr st\<rparr>)\<rparr>)"
  using assms by (rule read_cluster_run)

text \<open>
  C40. Where the allocation table is read. \<open>fat16_get_fat_entry\<close> takes the entry of a cluster from the product
  of the position of the table and the offset of the entry, \<open>reserved * 512 * (cluster * 2)\<close>; the layout of the
  volume has it at the sum \<open>reserved * 512 + cluster * 2\<close>. So files of more than one cluster are followed
  through unrelated bytes of the disk.
\<close>

theorem fat16_fat_entry_product:
  assumes "ata_conforms io view img W" "W < fuel" "length img < 2 ^ 31"
    and "fat_mounted st priv"
    and "p = unat (reserved_sectors (primary_header priv)) * 512 * (nat cl * 2)" "p < 2 ^ 31" and "0 \<le> cl"
    and "p + 2 < 512 * (length img div 512)"
  shows "\<exists>st'. fat16_get_fat_entry io fuel (disk_addr st) cl st = Ret (int (unat (le16 (img ! p) (img ! (p + 1)))), st')"
  using assms by (rule fat_entry_run)

theorem fat16_fat_entry_product_witness:
  "let img = replicate 516 0 @ [0x03] @ replicate 1531 0 @ [0xCD, 0xAB] @ replicate 510 0
   in img ! (1 * 512 + 2 * 2) = 0x03 \<and> (\<exists>st'. fat16_get_fat_entry (sim_ports img) 2 0x800 2 demo_volume = Ret (0xABCD, st'))"
proof -
  let ?img = "replicate 516 0 @ [0x03] @ replicate 1531 0 @ [0xCD, 0xAB] @ replicate 510 (0 :: u8)"
  have "?img ! 2048 = 0xCD" "?img ! 2049 = 0xAB" "?img ! 516 = 0x03" by (simp_all add: nth_append)
  then show ?thesis
    using fat16_fat_entry_product [OF sim_conforms [of ?img], of 2 demo_volume demo_fat_private 2048 2]
    by (simp add: demo_mounted demo_header demo_volume_simps(1) le16_def)
qed

end
