(* ===== verification/Fat16_Open.thy ===== *)
theory Fat16_Open
  imports Fat16_Files
begin

text \<open>
  Opening and reading a file of the root directory: the search through the entries, the objects that are created
  for the file, and the bytes that are read through them.
\<close>

section \<open>Allocated blocks\<close>

text \<open>The bytes of a live allocation, seen after a change that is confined to other blocks.\<close>

lemma live_bytes:
  assumes "kheap_rel st A" and "A b = Some n" and "k + l \<le> n * 4096"
    and "\<And>f. f \<in> F \<Longrightarrow> A f = Some 1 \<and> f \<noteq> b"
    and "\<And>a. in_data a \<Longrightarrow> (\<forall>f \<in> F. \<not> in_block f a) \<Longrightarrow> m' a = m a"
  shows "mem_bytes m' (kblock b + of_nat k) l = mem_bytes m (kblock b + of_nat k) l"
proof -
  have wf: "b + n \<le> KBLOCKS" using allocs_wfD(2) [OF kheap_rel_wf [OF assms(1)] assms(2)] .
  have "m' (kblock b + of_nat (k + i)) = m (kblock b + of_nat (k + i))" if "i < l" for i
  proof -
    have "unat (kblock b) + (k + i) < 2 ^ 32" "unat (kblock b) = 0x01000000 + b * 4096"
      using wf that assms(3) unat_kblock [of b] by simp_all
    then have u: "unat (kblock b + of_nat (k + i)) = 0x01000000 + b * 4096 + (k + i)"
      by (simp add: unat_word_ariths unat_of_nat del: of_nat_add)
    then have ib: "in_blocks b n (kblock b + of_nat (k + i))" using that assms(3) by (simp add: in_blocks_def algebra_simps)
    have "\<not> in_block f (kblock b + of_nat (k + i))" if "f \<in> F" for f
      using kz.live_disjoint [OF assms(1,2) _ _ ib, of f 1] assms(4) [OF that] by (simp add: in_blocks_one)
    then show ?thesis using assms(5) in_blocks_data [OF wf ib] by blast
  qed
  then show ?thesis by (simp add: mem_bytes_def add.assoc)
qed

section \<open>The search\<close>

text \<open>The entries of a directory in memory, and the comparison the driver makes.\<close>

definition dir_entry :: "mem \<Rightarrow> u32 \<Rightarrow> nat \<Rightarrow> fat_directory_item" where
  "dir_entry m p i = item_at m (p + of_nat (32 * i))"

definition named :: "fat_directory_item \<Rightarrow> u8 list \<Rightarrow> bool" where
  "named e name \<longleftrightarrow> map tolower (full_name e) = map tolower (take 108 (cstr name))"

lemma item_at_wf: "item_wf (item_at m p)"
  by (simp add: item_at_def item_of_wf)

lemma full_name_length: "item_wf e \<Longrightarrow> length (full_name e) \<le> 12"
  using trim_length [of "fdi_filename e"] trim_length [of "fdi_ext e"] by (auto simp: full_name_def item_wf_def)

lemma compare_run:
  assumes "item_wf e" and "terminated name"
  shows "\<exists>s r. fat16_get_full_relative_filename e 108 = Ret s \<and> istrncmp s name 108 = Ret r \<and> (r = 0 \<longleftrightarrow> named e name)"
proof -
  obtain s where s: "fat16_get_full_relative_filename e 108 = Ret s" "terminated s" "cstr s = full_name e"
    using full_name_run [OF assms(1)] by blast
  have "take 108 (cstr s) = full_name e" using full_name_length [OF assms(1)] s(3) by simp
  then show ?thesis
    using istrncmp_loop_zero [of s 108 name] s assms(2) by (auto simp: istrncmp_def named_def)
qed

text \<open>Entries with other names are passed over.\<close>

lemma scan_none:
  assumes "terminated name" and "\<And>i. i < n \<Longrightarrow> \<not> named (dir_entry (pmem st) p i) name"
  shows "find_item_loop io fuel disk n p name f st = Ret (f, st)"
  using assms(2)
proof (induction n arbitrary: p)
  case (Suc n)
  have "\<not> named (item_at (pmem st) p) name" using Suc.prems [of 0] by (simp add: dir_entry_def)
  then obtain s r where "fat16_get_full_relative_filename (item_at (pmem st) p) 108 = Ret s" "istrncmp s name 108 = Ret r" "r \<noteq> 0"
    using compare_run [OF item_at_wf assms(1)] by blast
  moreover have "find_item_loop io fuel disk n (p + 32) name f st = Ret (f, st)"
  proof (rule Suc.IH)
    fix i assume "i < n"
    moreover have "dir_entry (pmem st) (p + 32) i = dir_entry (pmem st) p (Suc i)" by (simp add: dir_entry_def add.assoc)
    ultimately show "\<not> named (dir_entry (pmem st) (p + 32) i) name" using Suc.prems [of "Suc i"] by simp
  qed
  ultimately show ?case by simp
qed simp

lemma scan_split:
  "find_item_loop io fuel disk (n + k) p name f st =
    bindx (find_item_loop io fuel disk n p name f st) (\<lambda>(f, st). find_item_loop io fuel disk k (p + of_nat (32 * n)) name f st)"
proof (induction n arbitrary: p f st)
  case (Suc n)
  have "p + 32 + of_nat (32 * n) = p + of_nat (32 * Suc n)" by simp
  then show ?case
    by (auto simp: Suc bindx_assoc add.assoc split: prod.splits intro!: arg_cong2 [where f = bindx] ext)
qed simp

section \<open>Objects for a file\<close>

lemma new_item_run:
  assumes rel: "kheap_rel st A" and free: "2 \<le> free_blocks A"
    and live: "A b = Some n" "k + 32 \<le> n * 4096" and item: "item = kblock b + of_nat k"
    and plain: "fdi_attribute (item_at (pmem st) item) AND FAT_FILE_SUBDIRECTORY = 0"
  shows "\<exists>f c m. fat16_new_fat_item_for_directory_item io fuel disk item st =
      Ret (kblock f, st\<lparr>pmem := m, fat_items := (fat_items st)(kblock f \<mapsto> \<lparr>fi_ptr = kblock c, fi_type = FAT_ITEM_TYPE_FILE\<rparr>)\<rparr>) \<and>
    f \<noteq> c \<and> A f = None \<and> A c = None \<and> f < KBLOCKS \<and> c < KBLOCKS \<and> kheap_rel (st\<lparr>pmem := m\<rparr>) (A(f \<mapsto> 1, c \<mapsto> 1)) \<and>
    item_at m (kblock c) = item_at (pmem st) item \<and>
    (\<forall>a. in_data a \<longrightarrow> (\<forall>x \<in> {f, c}. \<not> in_block x a) \<longrightarrow> m a = pmem st a)"
proof -
  obtain f m1 where F: "kzalloc 8 st = (kblock f, st\<lparr>pmem := m1\<rparr>)" "A f = None" "f < KBLOCKS"
    "kheap_rel (st\<lparr>pmem := m1\<rparr>) (A(f \<mapsto> 1))" "free_blocks (A(f \<mapsto> 1)) = free_blocks A - 1"
    "\<forall>a. in_data a \<longrightarrow> \<not> in_block f a \<longrightarrow> m1 a = pmem st a"
    using kzalloc_block [OF rel, of 8] free by auto
  obtain c m2 where C: "kzalloc 32 (st\<lparr>pmem := m1\<rparr>) = (kblock c, st\<lparr>pmem := m2\<rparr>)" "(A(f \<mapsto> 1)) c = None" "c < KBLOCKS"
    "kheap_rel (st\<lparr>pmem := m2\<rparr>) (A(f \<mapsto> 1, c \<mapsto> 1))" "\<forall>a. in_data a \<longrightarrow> \<not> in_block c a \<longrightarrow> m2 a = m1 a"
    using kzalloc_block [OF F(4), of 32] free F(5) by auto
  have ne: "f \<noteq> c" "A c = None" "f \<noteq> b" "c \<noteq> b" using C(2) F(2) live(1) by (auto split: if_splits)
  let ?A = "A(f \<mapsto> 1, c \<mapsto> 1)"
  have lb: "?A b = Some n" using live(1) ne by simp
  have same: "mem_bytes m1 item 32 = mem_bytes (pmem st) item 32" "mem_bytes m2 item 32 = mem_bytes (pmem st) item 32"
    unfolding item using F(6) C(5) ne live(2)
    by (intro live_bytes [OF C(4) lb, where F = "{f, c}"]; auto)+
  define m where "m = memcpy (kblock c) item 32 m2"
  have mc: "m = memcpy_loop 32 (kblock c) item m2" by (simp add: m_def memcpy_def)
  have rng: "in_blocks c 1 a" if "in_range (kblock c) 32 a" for a using that C(3) by (intro in_range_blocks [of c 1 32]) auto
  have wf: "b + n \<le> KBLOCKS" using allocs_wfD(2) [OF kheap_rel_wf [OF rel] live(1)] .
  have item_in: "in_blocks b n (item + of_nat j)" if "j < 32" for j
  proof -
    have "unat (kblock b + of_nat (k + j)) = 0x01000000 + b * 4096 + (k + j)"
      using wf that live(2) unat_kblock [of b] by (simp add: unat_word_ariths unat_of_nat del: of_nat_add)
    moreover have "item + of_nat j = kblock b + of_nat (k + j)" by (simp add: item add.assoc)
    ultimately have "unat (item + of_nat j) = 0x01000000 + b * 4096 + (k + j)" by (simp only:)
    then show ?thesis using that live(2) unfolding in_blocks_def distrib_right by linarith
  qed
  have copied: "mem_bytes m (kblock c) 32 = mem_bytes m2 item 32"
  proof (rule nth_equalityI)
    fix i assume "i < length (mem_bytes m (kblock c) 32)"
    then have i: "i < 32" by simp
    have "kblock c + of_nat x \<noteq> item + of_nat y" if "x < y" "y < 32" for x y
    proof
      assume "kblock c + of_nat x = item + of_nat y"
      then have "in_blocks b n (kblock c + of_nat x)" using item_in that by simp
      moreover have "in_blocks c 1 (kblock c + of_nat x)" using that by (intro rng) (simp add: in_range_def unat_of_nat)
      ultimately show False using kz.live_disjoint [OF C(4) lb, of c 1] ne by auto
    qed
    then have "m (kblock c + of_nat i) = m2 (item + of_nat i)"
      unfolding mc using i by (intro memcpy_loop_copies) auto
    then show "mem_bytes m (kblock c) 32 ! i = mem_bytes m2 item 32 ! i" using i by (simp add: mem_bytes_def)
  qed simp
  have out: "m a = m2 a" if "\<not> in_blocks c 1 a" for a unfolding mc using that rng by (intro memcpy_loop_frame) auto
  have "kheap_rel (st\<lparr>pmem := m2\<rparr>\<lparr>pmem := m\<rparr>) ?A"
    using C(3) by (intro kheap_rel_upd [OF C(4)]) (auto intro!: out dest: in_blocks_data [of c 1, rotated])
  moreover have "\<forall>a. in_data a \<longrightarrow> (\<forall>x \<in> {f, c}. \<not> in_block x a) \<longrightarrow> m a = pmem st a"
    using out F(6) C(5) by (simp add: in_blocks_one)
  moreover have "fat16_new_fat_item_for_directory_item io fuel disk item st =
      Ret (kblock f, st\<lparr>pmem := m, fat_items := (fat_items st)(kblock f \<mapsto> \<lparr>fi_ptr = kblock c, fi_type = FAT_ITEM_TYPE_FILE\<rparr>)\<rparr>)"
    using F(1,3) C(1,3) plain same(1) by (simp add: fat16_new_fat_item_for_directory_item_def fat16_clone_directory_item_def item_at_def m_def Let_def)
  ultimately show ?thesis
    using ne F(2,3) C(3) copied same(2) by (intro exI [of _ f] exI [of _ c] exI [of _ m]) (simp add: item_at_def)
qed

text \<open>
  A directory whose entries lie in a live allocation; its entry \<open>k\<close> is a file of the name, and no other entry has
  the name.
\<close>

definition dir_has :: "mem \<Rightarrow> allocs \<Rightarrow> fat_directory \<Rightarrow> u8 list \<Rightarrow> nat \<Rightarrow> bool" where
  "dir_has m A d name k \<longleftrightarrow> terminated name \<and> k < nat (fd_total d) \<and>
     (\<exists>b n. fd_item d = kblock b \<and> A b = Some n \<and> 32 * nat (fd_total d) \<le> n * 4096) \<and>
     (\<forall>i < nat (fd_total d). named (dir_entry m (fd_item d) i) name \<longleftrightarrow> i = k) \<and>
     fdi_attribute (dir_entry m (fd_item d) k) AND FAT_FILE_SUBDIRECTORY = 0"

text \<open>Changes in other blocks leave the entries alone.\<close>

lemma dir_has_frame:
  assumes "dir_has m A d name k" and "kheap_rel st A'" and "\<And>f. f \<in> F \<Longrightarrow> A f = None" and "A' = grant A F"
    and "\<And>a. in_data a \<Longrightarrow> (\<forall>f \<in> F. \<not> in_block f a) \<Longrightarrow> m' a = m a"
  shows "dir_has m' A' d name k" and "i < nat (fd_total d) \<Longrightarrow> dir_entry m' (fd_item d) i = dir_entry m (fd_item d) i"
proof -
  obtain b n where b: "fd_item d = kblock b" "A b = Some n" "32 * nat (fd_total d) \<le> n * 4096"
    using assms(1) unfolding dir_has_def by blast
  have b': "A' b = Some n" using b(2) assms(3,4) by (auto simp: grant_def)
  have E: "dir_entry m' (fd_item d) i = dir_entry m (fd_item d) i" if "i < nat (fd_total d)" for i
  proof -
    have "32 * i + 32 \<le> n * 4096" using b(3) that by linarith
    then have "mem_bytes m' (kblock b + of_nat (32 * i)) 32 = mem_bytes m (kblock b + of_nat (32 * i)) 32"
      using assms(3-5) b(2) by (intro live_bytes [OF assms(2) b', where F = F]) (auto simp: grant_def)
    then show ?thesis by (simp add: dir_entry_def item_at_def b(1) del: of_nat_mult)
  qed
  then show "i < nat (fd_total d) \<Longrightarrow> dir_entry m' (fd_item d) i = dir_entry m (fd_item d) i" .
  show "dir_has m' A' d name k" using assms(1) E b(1,3) b' unfolding dir_has_def by auto
qed

lemma grant_two: "A(f \<mapsto> 1, c \<mapsto> 1) = grant A {f, c}"
  by (auto simp: grant_def)

lemma find_run:
  assumes rel: "kheap_rel st A" and free: "2 \<le> free_blocks A" and has: "dir_has (pmem st) A d name k"
  shows "\<exists>f c m. fat16_find_item_in_directory io fuel disk d name st =
      Ret (kblock f, st\<lparr>pmem := m, fat_items := (fat_items st)(kblock f \<mapsto> \<lparr>fi_ptr = kblock c, fi_type = FAT_ITEM_TYPE_FILE\<rparr>)\<rparr>) \<and>
    f \<noteq> c \<and> A f = None \<and> A c = None \<and> f < KBLOCKS \<and> c < KBLOCKS \<and> kheap_rel (st\<lparr>pmem := m\<rparr>) (grant A {f, c}) \<and>
    item_at m (kblock c) = dir_entry (pmem st) (fd_item d) k \<and>
    (\<forall>a. in_data a \<longrightarrow> (\<forall>x \<in> {f, c}. \<not> in_block x a) \<longrightarrow> m a = pmem st a)"
proof -
  let ?p = "fd_item d"
  obtain b n where b: "?p = kblock b" "A b = Some n" "32 * nat (fd_total d) \<le> n * 4096"
    using has unfolding dir_has_def by blast
  have H: "terminated name" "k < nat (fd_total d)" "\<And>i. i < nat (fd_total d) \<Longrightarrow> named (dir_entry (pmem st) ?p i) name \<longleftrightarrow> i = k"
    "fdi_attribute (dir_entry (pmem st) ?p k) AND FAT_FILE_SUBDIRECTORY = 0"
    using has unfolding dir_has_def by blast+
  define item where "item = ?p + of_nat (32 * k)"
  have e: "item_at (pmem st) item = dir_entry (pmem st) ?p k" by (simp add: item_def dir_entry_def)
  have "32 * k + 32 \<le> n * 4096" using b(3) H(2) by linarith
  then obtain f c m where N: "fat16_new_fat_item_for_directory_item io fuel disk item st =
      Ret (kblock f, st\<lparr>pmem := m, fat_items := (fat_items st)(kblock f \<mapsto> \<lparr>fi_ptr = kblock c, fi_type = FAT_ITEM_TYPE_FILE\<rparr>)\<rparr>)"
    "f \<noteq> c" "A f = None" "A c = None" "f < KBLOCKS" "c < KBLOCKS" "kheap_rel (st\<lparr>pmem := m\<rparr>) (grant A {f, c})"
    "item_at m (kblock c) = dir_entry (pmem st) ?p k"
    "\<forall>a. in_data a \<longrightarrow> (\<forall>x \<in> {f, c}. \<not> in_block x a) \<longrightarrow> m a = pmem st a"
    using new_item_run [OF rel free b(2), of "32 * k" item io fuel disk] e H(4) item_def b(1) unfolding grant_two by auto
  let ?st = "st\<lparr>pmem := m, fat_items := (fat_items st)(kblock f \<mapsto> \<lparr>fi_ptr = kblock c, fi_type = FAT_ITEM_TYPE_FILE\<rparr>)\<rparr>"
  obtain s r where c: "fat16_get_full_relative_filename (item_at (pmem st) item) 108 = Ret s" "istrncmp s name 108 = Ret r" "r = 0"
    using compare_run [OF item_at_wf H(1), of "pmem st" item] H(2,3) e by auto
  have pre: "find_item_loop io fuel disk k ?p name 0 st = Ret (0, st)"
    using H by (intro scan_none) auto
  have same: "dir_entry m ?p i = dir_entry (pmem st) ?p i" if "i < nat (fd_total d)" for i
    using N(3,4,9) by (intro dir_has_frame(2) [OF has N(7), of "{f, c}"] that) auto
  have post: "find_item_loop io fuel disk (nat (fd_total d) - Suc k) (item + 32) name (kblock f) ?st = Ret (kblock f, ?st)"
  proof (rule scan_none [OF H(1)])
    fix i assume i: "i < nat (fd_total d) - Suc k"
    have "dir_entry m (item + 32) i = dir_entry m ?p (Suc k + i)" by (simp add: dir_entry_def item_def algebra_simps)
    also have "\<dots> = dir_entry (pmem st) ?p (Suc k + i)" using i by (intro same) simp
    finally show "\<not> named (dir_entry (pmem ?st) (item + 32) i) name" using H(3) [of "Suc k + i"] i by simp
  qed
  have "nat (fd_total d) = k + Suc (nat (fd_total d) - Suc k)" using H(2) by simp
  then have "fat16_find_item_in_directory io fuel disk d name st =
      find_item_loop io fuel disk (k + Suc (nat (fd_total d) - Suc k)) ?p name 0 st"
    unfolding fat16_find_item_in_directory_def by simp
  also have "\<dots> = Ret (kblock f, ?st)"
    unfolding scan_split pre using c N(1) post by (simp add: item_def [symmetric] del: of_nat_mult)
  finally show ?thesis using N(2-9) by blast
qed

lemma open_run:
  assumes rel: "kheap_rel st A" and free: "3 \<le> free_blocks A" and mnt: "fat_mounted st priv" and fuel: "0 < fuel"
    and part: "path_parts st path = Some part" "pp_next part = 0" "strings st (pp_part part) = Some name"
    and has: "dir_has (pmem st) A (fp_root_directory priv) name k"
  shows "\<exists>e f c m. fat16_open io fuel (disk_addr st) path FILE_MODE_READ st =
      Ret (kblock e, st\<lparr>pmem := m, fat_items := (fat_items st)(kblock f \<mapsto> \<lparr>fi_ptr = kblock c, fi_type = FAT_ITEM_TYPE_FILE\<rparr>),
        fat_descriptors := (fat_descriptors st)(kblock e \<mapsto> \<lparr>ff_item = kblock f, ff_pos = 0\<rparr>)\<rparr>) \<and>
    distinct [e, f, c] \<and> {e, f, c} \<subseteq> {..<KBLOCKS} \<and> (\<forall>x \<in> {e, f, c}. A x = None) \<and>
    kheap_rel (st\<lparr>pmem := m\<rparr>) (grant A {e, f, c}) \<and>
    item_at m (kblock c) = dir_entry (pmem st) (fd_item (fp_root_directory priv)) k \<and>
    (\<forall>a. in_data a \<longrightarrow> (\<forall>x \<in> {e, f, c}. \<not> in_block x a) \<longrightarrow> m a = pmem st a)"
proof -
  let ?d = "fp_root_directory priv"
  have M: "fat_privates st (d_fs_private (the_disk st)) = Some priv" using mnt by (simp add: fat_mounted_def)
  obtain e m1 where E: "kzalloc 8 st = (kblock e, st\<lparr>pmem := m1\<rparr>)" "A e = None" "e < KBLOCKS"
    "kheap_rel (st\<lparr>pmem := m1\<rparr>) (A(e \<mapsto> 1))" "free_blocks (A(e \<mapsto> 1)) = free_blocks A - 1"
    "\<forall>a. in_data a \<longrightarrow> \<not> in_block e a \<longrightarrow> m1 a = pmem st a"
    using kzalloc_block [OF rel, of 8] free by auto
  have g: "A(e \<mapsto> 1) = grant A {e}" by (auto simp: grant_def)
  let ?s1 = "st\<lparr>pmem := m1\<rparr>"
  have has1: "dir_has (pmem ?s1) (A(e \<mapsto> 1)) ?d name k"
    and ent: "dir_entry m1 (fd_item ?d) k = dir_entry (pmem st) (fd_item ?d) k"
    using dir_has_frame(1) [OF has E(4), of "{e}" m1] dir_has_frame(2) [OF has E(4), of "{e}" m1 k] E(2,6) g has
    by (simp_all add: dir_has_def)
  have fr: "2 \<le> free_blocks (A(e \<mapsto> 1))" using E(5) free by simp
  obtain f c m where F: "fat16_find_item_in_directory io fuel (disk_addr st) ?d name ?s1 =
      Ret (kblock f, ?s1\<lparr>pmem := m, fat_items := (fat_items ?s1)(kblock f \<mapsto> \<lparr>fi_ptr = kblock c, fi_type = FAT_ITEM_TYPE_FILE\<rparr>)\<rparr>)"
    "f \<noteq> c" "(A(e \<mapsto> 1)) f = None" "(A(e \<mapsto> 1)) c = None" "f < KBLOCKS" "c < KBLOCKS"
    "kheap_rel (?s1\<lparr>pmem := m\<rparr>) (grant (A(e \<mapsto> 1)) {f, c})" "item_at m (kblock c) = dir_entry (pmem ?s1) (fd_item ?d) k"
    "\<forall>a. in_data a \<longrightarrow> (\<forall>x \<in> {f, c}. \<not> in_block x a) \<longrightarrow> m a = pmem ?s1 a"
    using find_run [OF E(4) fr has1, of io fuel "disk_addr st"] by blast
  have ne: "f \<noteq> e" "c \<noteq> e" "A f = None" "A c = None" using F(3,4) by (auto split: if_splits)
  have gg: "grant (A(e \<mapsto> 1)) {f, c} = grant A {e, f, c}" by (auto simp: grant_def)
  obtain fu where fu: "fuel = Suc fu" using fuel by (cases fuel) simp_all
  have "fat16_get_directory_entry io fuel (disk_addr st) path ?s1 =
      Ret (kblock f, st\<lparr>pmem := m, fat_items := (fat_items st)(kblock f \<mapsto> \<lparr>fi_ptr = kblock c, fi_type = FAT_ITEM_TYPE_FILE\<rparr>)\<rparr>)"
    using F(1,5) M part by (simp add: fat16_get_directory_entry_def deref_disk_def derefx_def fu)
  then have "fat16_open io fuel (disk_addr st) path FILE_MODE_READ st =
      Ret (kblock e, st\<lparr>pmem := m, fat_items := (fat_items st)(kblock f \<mapsto> \<lparr>fi_ptr = kblock c, fi_type = FAT_ITEM_TYPE_FILE\<rparr>),
        fat_descriptors := (fat_descriptors st)(kblock e \<mapsto> \<lparr>ff_item = kblock f, ff_pos = 0\<rparr>)\<rparr>)"
    using E(1,3) F(5) by (simp add: fat16_open_def)
  moreover have "\<forall>a. in_data a \<longrightarrow> (\<forall>x \<in> {e, f, c}. \<not> in_block x a) \<longrightarrow> m a = pmem st a" using F(9) E(6) by simp
  ultimately show ?thesis using F(2,5-8) E(2,3) ne ent gg by (intro exI [of _ e] exI [of _ f] exI [of _ c] exI [of _ m]) auto
qed

section \<open>Properties\<close>

text \<open>
  C8. Opening and reading a file. If exactly one entry of the root directory has the name of the path (in upper or
  lower case) and is not a directory, then \<open>fat16_open\<close> returns a descriptor that is no error code; \<open>fat16_stat\<close>
  on it gives the size and the read-only flag of the entry; and \<open>fat16_read\<close> of up to a cluster stores exactly
  the first bytes of the first cluster of the entry at the address of the caller and returns one.
\<close>

theorem fat16_open_read:
  assumes conf: "ata_conforms io view img W" "W < fuel" "length img < 2 ^ 31"
    and rel: "kheap_rel st A" "3 \<le> free_blocks A" and mnt: "fat_mounted st priv"
    and part: "path_parts st path = Some part" "pp_next part = 0" "strings st (pp_part part) = Some name"
    and has: "dir_has (pmem st) A (fp_root_directory priv) name k"
    and e: "e = dir_entry (pmem st) (fd_item (fp_root_directory priv)) k" and cl: "cl = sint (fat16_get_first_cluster e)"
    and n: "0 < n" "n \<le> nat (size_of_cluster_bytes priv (the_disk st))"
    and pos: "0 \<le> cl" "0 \<le> fat16_cluster_to_sector priv cl" "cluster_pos priv cl + n < 512 * (length img div 512)"
  shows "\<exists>desc st1 st2. fat16_open io fuel (disk_addr st) path FILE_MODE_READ st = Ret (desc, st1) \<and> 0 < sint desc \<and>
    fat16_stat desc st1 stat =
      Ret (0, \<lparr>fs_flags = (if fdi_attribute e AND FAT_FILE_READ_ONLY \<noteq> 0 then FILE_STAT_READ_ONLY else 0), fs_filesize = fdi_filesize e\<rparr>) \<and>
    fat16_read io fuel (disk_addr st) desc (of_nat n) 1 out st1 = Ret (1, st2) \<and>
    pmem st2 = mem_write (pmem st1) out (take n (drop (cluster_pos priv cl) img))"
proof -
  have "0 < fuel" using conf(2) by simp
  from open_run [OF rel mnt this part has, of io] e obtain q f c m where O: "fat16_open io fuel (disk_addr st) path FILE_MODE_READ st =
      Ret (kblock q, st\<lparr>pmem := m, fat_items := (fat_items st)(kblock f \<mapsto> \<lparr>fi_ptr = kblock c, fi_type = FAT_ITEM_TYPE_FILE\<rparr>),
        fat_descriptors := (fat_descriptors st)(kblock q \<mapsto> \<lparr>ff_item = kblock f, ff_pos = 0\<rparr>)\<rparr>)"
    "q < KBLOCKS" "item_at m (kblock c) = e" by auto
  let ?s = "st\<lparr>pmem := m, fat_items := (fat_items st)(kblock f \<mapsto> \<lparr>fi_ptr = kblock c, fi_type = FAT_ITEM_TYPE_FILE\<rparr>),
        fat_descriptors := (fat_descriptors st)(kblock q \<mapsto> \<lparr>ff_item = kblock f, ff_pos = 0\<rparr>)\<rparr>"
  have sd: "0 < sint (kblock q)" using O(2) unat_kblock [of q] by (subst sint_small) simp_all
  have mnt': "fat_mounted ?s priv" using mnt by (simp add: fat_mounted_def)
  have small: "n < 2 ^ 31"
  proof -
    have "cluster_pos priv cl + n < length img" using pos(3) by (rule less_le_trans) simp
    then show ?thesis using conf(3) by simp
  qed
  have h: "0 + n \<le> nat (size_of_cluster_bytes priv (the_disk ?s))" "0 < nat (size_of_cluster_bytes priv (the_disk ?s))"
    "cluster_pos priv cl + 0 + n < 512 * (length img div 512)" using n pos(3) by simp_all
  obtain d where "fat16_read_internal io fuel (disk_addr ?s) cl (int 0) (int n) out ?s =
      Ret (0, ?s\<lparr>pmem := mem_write (pmem ?s) out (take n (drop (cluster_pos priv cl + 0) img)), device := d,
        disk_streams := (disk_streams ?s)(fp_cluster_read_stream priv \<mapsto> \<lparr>ds_pos = int (cluster_pos priv cl + 0 + n), ds_disk = disk_addr ?s\<rparr>)\<rparr>)"
    using read_cluster_run [OF conf mnt' h(1,2) pos(1,2) h(3), of out] by blast
  then have "\<exists>st2. fat16_read io fuel (disk_addr st) (kblock q) (of_nat n) 1 out ?s = Ret (1, st2) \<and>
      pmem st2 = mem_write m out (take n (drop (cluster_pos priv cl) img))"
    using O(3) cl small by (simp add: fat16_read_def derefx_def sint_of_nat_small)
  moreover have "fat16_stat (kblock q) ?s stat =
      Ret (0, \<lparr>fs_flags = (if fdi_attribute e AND FAT_FILE_READ_ONLY \<noteq> 0 then FILE_STAT_READ_ONLY else 0), fs_filesize = fdi_filesize e\<rparr>)"
    using O(3) by (simp add: fat16_stat_def derefx_def Let_def)
  ultimately show ?thesis using O(1) sd by auto
qed

text \<open>A root directory with one file of three bytes, \<open>A.TXT\<close>, in cluster 2; its entry is in the first block of the heap.\<close>

definition demo_entry :: "u8 list" where
  "demo_entry = [0x41] @ replicate 7 0x20 @ [0x54, 0x58, 0x54, 0x21] @ replicate 14 0 @ [2, 0, 3, 0, 0, 0]"

definition demo_root :: fat_private where
  "demo_root = demo_fat_private\<lparr>fp_root_directory := \<lparr>fd_item = 0x01000000, fd_total = 1, fd_sector_pos = 2, fd_ending_sector_pos = 3\<rparr>\<rparr>"

definition demo_dir_mem :: mem where
  "demo_dir_mem = mem_write ((\<lambda>_. 0)(0x7E00 := 0x41)) 0x01000000 demo_entry"

definition demo_dir :: "ata fat_machine" where
  "demo_dir = demo_volume\<lparr>pmem := demo_dir_mem, fat_privates := [0xA00 \<mapsto> demo_root],
     path_parts := [0xC00 \<mapsto> \<lparr>pp_part = 0xD00, pp_next = 0\<rparr>], strings := [0xD00 \<mapsto> [0x61, 0x2E, 0x74, 0x78, 0x74, 0]]\<rparr>"

lemma demo_dir_heap: "kheap_rel demo_dir [0 \<mapsto> 1]" "free_blocks [0 \<mapsto> 1] = 25599"
proof -
  have "length demo_entry = 32" by (simp add: demo_entry_def)
  then have m: "demo_dir_mem a = (if a = 0x7E00 then 0x41 else 0)" if "\<not> in_data a" for a
    using that in_range_nowrap [of "0x01000000" 32 a] by (auto simp: demo_dir_mem_def mem_write_apply in_data_def)
  have t: "demo_dir_mem (entry_addr (h_table kernel_heap_value) (int i)) = (if i = 0 then 0x41 else 0)" if "i < KBLOCKS" for i
  proof -
    have u: "unat (0x7E00 + of_nat i :: u32) = 0x7E00 + i" using that by (simp add: unat_word_ariths unat_of_nat)
    then have "\<not> in_data (0x7E00 + of_nat i)" using that by (simp add: in_data_def)
    moreover have "(0x7E00 + of_nat i = (0x7E00 :: u32)) \<longleftrightarrow> i = 0" using u by auto
    ultimately show ?thesis using m [of "0x7E00 + of_nat i"] by (simp add: entry_addr_def kernel_heap_value_def)
  qed
  have "heap_rel kernel_heap_value demo_dir_mem [0 \<mapsto> 1]"
    unfolding heap_rel_def using t
    by (auto simp: allocs_wf_def owns_def entry_code_def kernel_heap_value_def split: if_splits)
  moreover have "kernel_heap demo_dir = kernel_heap_value" "pmem demo_dir = demo_dir_mem"
    by (simp_all add: demo_dir_def demo_volume_def demo_disk_def disk_machine.extend_def fat_machine.fields_def)
  ultimately show "kheap_rel demo_dir [0 \<mapsto> 1]" by (simp add: kheap_rel_def)
  have "allocs_wf KBLOCKS Map.empty" "fits Map.empty KBLOCKS 1 0" "free_blocks Map.empty = KBLOCKS"
    by (simp_all add: allocs_wf_def fits_def owns_def free_blocks_def)
  then show "free_blocks [0 \<mapsto> 1] = 25599" using free_blocks_one [of Map.empty 0] by simp
qed

lemma demo_root_simps:
  "primary_header demo_root = primary_header demo_fat_private" "fd_item (fp_root_directory demo_root) = 0x01000000"
  "fd_total (fp_root_directory demo_root) = 1" "fd_ending_sector_pos (fp_root_directory demo_root) = 3"
  "fp_cluster_read_stream demo_root = 0x900" "fp_fat_read_stream demo_root = 0x900" "fp_directory_stream demo_root = 0x900"
  by (simp_all add: demo_root_def primary_header_def demo_streams)

lemma demo_dir_simps:
  "disk_addr demo_dir = 0x800" "pmem demo_dir = demo_dir_mem" "fat_privates demo_dir = [0xA00 \<mapsto> demo_root]"
  "the_disk demo_dir = the_disk demo_volume" "disk_streams demo_dir = disk_streams demo_volume"
  "path_parts demo_dir = [0xC00 \<mapsto> \<lparr>pp_part = 0xD00, pp_next = 0\<rparr>]"
  "strings demo_dir = [0xD00 \<mapsto> [0x61, 0x2E, 0x74, 0x78, 0x74, 0]]"
  by (simp_all add: demo_dir_def demo_volume_simps)

lemma demo_dir_entry: "dir_entry demo_dir_mem 0x01000000 0 = item_of demo_entry"
proof -
  have "length demo_entry = 32" by (simp add: demo_entry_def)
  then have "mem_bytes demo_dir_mem 0x01000000 32 = demo_entry"
    using mem_bytes_write [of demo_entry "(\<lambda>_. 0)(0x7E00 := 0x41)" "0x01000000"] by (simp add: demo_dir_mem_def)
  then show ?thesis by (simp add: dir_entry_def item_at_def)
qed

lemma demo_entry_simps:
  "fdi_filename (item_of demo_entry) = 0x41 # replicate 7 0x20" "fdi_ext (item_of demo_entry) = [0x54, 0x58, 0x54]"
  "fdi_attribute (item_of demo_entry) = 0x21" "high_16_bits_first_cluster (item_of demo_entry) = 0"
  "low_16_bits_first_cluster (item_of demo_entry) = 2" "fdi_filesize (item_of demo_entry) = 3"
  by (simp_all add: item_of_def demo_entry_def le16_def le32_of_def nth_append)

lemma demo_cluster:
  "sint (fat16_get_first_cluster (item_of demo_entry)) = 2" "fat16_cluster_to_sector demo_root 2 = 3" "cluster_pos demo_root 2 = 1536"
  "size_of_cluster_bytes demo_root (the_disk demo_volume) = 512"
  by (simp_all add: fat16_get_first_cluster_def demo_entry_simps cluster_pos_def fat16_cluster_to_sector_def demo_root_simps
      size_of_cluster_bytes_def demo_volume_simps demo_header)

lemma demo_dir_has:
  assumes "terminated name" and "cstr name = [0x61, 0x2E, 0x74, 0x78, 0x74]"
  shows "dir_has demo_dir_mem [0 \<mapsto> 1] (fp_root_directory demo_root) name 0"
proof -
  have "full_name (item_of demo_entry) = [0x41, 0x2E, 0x54, 0x58, 0x54]" by (simp add: full_name_def demo_entry_simps trim_def)
  then have "named (item_of demo_entry) name" by (simp add: named_def assms(2) tolower_def)
  moreover have "kblock 0 = 0x01000000" by (simp add: kblock_def)
  ultimately show ?thesis
    unfolding dir_has_def demo_root_simps using demo_dir_entry demo_entry_simps(3) assms(1)
    by (auto intro!: exI [of _ 0] exI [of _ 1])
qed

theorem fat16_open_read_witness:
  "\<exists>desc st1 st2. fat16_open (sim_ports (replicate 1536 0 @ [10, 20, 30] @ replicate 1021 0)) 2 0x800 0xC00 FILE_MODE_READ demo_dir = Ret (desc, st1) \<and>
     fat16_stat desc st1 \<lparr>fs_flags = 0, fs_filesize = 0\<rparr> = Ret (0, \<lparr>fs_flags = FILE_STAT_READ_ONLY, fs_filesize = 3\<rparr>) \<and>
     fat16_read (sim_ports (replicate 1536 0 @ [10, 20, 30] @ replicate 1021 0)) 2 0x800 desc 3 1 0x8000000 st1 = Ret (1, st2) \<and>
     mem_bytes (pmem st2) 0x8000000 3 = [10, 20, 30]"
proof -
  let ?img = "replicate 1536 0 @ [10, 20, 30] @ replicate 1021 (0 :: u8)"
  have mnt: "fat_mounted demo_dir demo_root"
    using demo_mounted by (simp add: fat_mounted_def demo_dir_simps demo_volume_simps demo_root_simps)
  have has: "dir_has (pmem demo_dir) [0 \<mapsto> 1] (fp_root_directory demo_root) [0x61, 0x2E, 0x74, 0x78, 0x74, 0] 0"
    unfolding demo_dir_simps by (rule demo_dir_has) simp_all
  have fr: "3 \<le> free_blocks [0 \<mapsto> 1]" unfolding demo_dir_heap(2) by simp
  have "take 3 (drop 1536 ?img) = [10, 20, 30]" by (simp add: take_Cons')
  then show ?thesis
    using fat16_open_read [OF sim_conforms [of ?img] _ _ demo_dir_heap(1) fr mnt _ _ _ has, of 2 "0xC00" "\<lparr>pp_part = 0xD00, pp_next = 0\<rparr>"
      "item_of demo_entry" 2 3 "\<lparr>fs_flags = 0, fs_filesize = 0\<rparr>" "0x8000000"] demo_entry_simps(3,6)
    by (fastforce simp: demo_dir_simps demo_root_simps demo_dir_entry demo_cluster mem_bytes_def upt_conv_Cons)
qed

end
