(* ===== verification/File.thy ===== *)
theory File
  imports Fat16_Open
begin

text \<open>
  The file layer, \<open>src/src/fs/file.c\<close>: the table of file systems, the table of file descriptors and the
  functions \<open>fopen\<close>, \<open>fstat\<close>, \<open>fclose\<close>, \<open>fseek\<close> and \<open>fread\<close>, which call the file system of a descriptor
  through its function pointers; with them \<open>fat16_init\<close> of \<open>fat16.c\<close> and \<open>disk_search_and_init\<close> of \<open>disk.c\<close>,
  which mounts the disk.
\<close>

section \<open>file.h\<close>

text \<open>The functions that are stored in the pointers of a \<open>struct filesystem\<close>.\<close>

datatype fs_resolve_function = Fat16_resolve
datatype fs_open_function = Fat16_open
datatype fs_read_function = Fat16_read
datatype fs_seek_function = Fat16_seek
datatype fs_stat_function = Fat16_stat
datatype fs_close_function = Fat16_close

record filesystem =
  fsys_resolve :: fs_resolve_function
  fsys_open :: fs_open_function
  fsys_read :: fs_read_function
  fsys_seek :: fs_seek_function
  fsys_stat :: fs_stat_function
  fsys_close :: fs_close_function
  fsys_name :: "u8 list"

record file_descriptor =
  fdesc_index :: int
  fdesc_filesystem :: u32
  fdesc_private :: u32
  fdesc_disk :: u32

text \<open>The structures at their addresses, and the two tables of pointers.\<close>

record 'd file_machine = "'d fat_machine" +
  filesystem_objects :: "u32 \<rightharpoonup> filesystem"
  filesystems :: "u32 list"
  descriptor_objects :: "u32 \<rightharpoonup> file_descriptor"
  file_descriptors :: "u32 list"

text \<open>The initialiser of \<open>fat16_fs\<close>.\<close>

definition fat16_fs_value :: filesystem where
  "fat16_fs_value = \<lparr>fsys_resolve = Fat16_resolve, fsys_open = Fat16_open, fsys_read = Fat16_read,
     fsys_seek = Fat16_seek, fsys_stat = Fat16_stat, fsys_close = Fat16_close, fsys_name = replicate 20 0\<rparr>"

section \<open>Calls through the pointers\<close>

definition call_resolve ::
  "'d ports \<Rightarrow> nat \<Rightarrow> fs_resolve_function \<Rightarrow> u32 \<Rightarrow> ('d, 'a) file_machine_scheme \<Rightarrow> (int \<times> ('d, 'a) file_machine_scheme) exec" where
  "call_resolve io fuel f disk st = (case f of Fat16_resolve \<Rightarrow> fat16_resolve io fuel disk st)"

definition call_open ::
  "'d ports \<Rightarrow> nat \<Rightarrow> fs_open_function \<Rightarrow> u32 \<Rightarrow> u32 \<Rightarrow> u32 \<Rightarrow> ('d, 'a) file_machine_scheme \<Rightarrow> (u32 \<times> ('d, 'a) file_machine_scheme) exec" where
  "call_open io fuel f disk path mode st = (case f of Fat16_open \<Rightarrow> fat16_open io fuel disk path mode st)"

definition call_read ::
  "'d ports \<Rightarrow> nat \<Rightarrow> fs_read_function \<Rightarrow> u32 \<Rightarrow> u32 \<Rightarrow> u32 \<Rightarrow> u32 \<Rightarrow> u32 \<Rightarrow> ('d, 'a) file_machine_scheme \<Rightarrow>
    (int \<times> ('d, 'a) file_machine_scheme) exec" where
  "call_read io fuel f disk private sz nmemb out st = (case f of Fat16_read \<Rightarrow> fat16_read io fuel disk private sz nmemb out st)"

definition call_seek :: "fs_seek_function \<Rightarrow> u32 \<Rightarrow> u32 \<Rightarrow> u32 \<Rightarrow> ('d, 'a) file_machine_scheme \<Rightarrow> (int \<times> ('d, 'a) file_machine_scheme) exec" where
  "call_seek f private offset mode st = (case f of Fat16_seek \<Rightarrow> fat16_seek private offset mode st)"

definition call_stat :: "fs_stat_function \<Rightarrow> u32 \<Rightarrow> ('d, 'a) file_machine_scheme \<Rightarrow> file_stat \<Rightarrow> (int \<times> file_stat) exec" where
  "call_stat f private st stat = (case f of Fat16_stat \<Rightarrow> fat16_stat private st stat)"

definition call_close :: "fs_close_function \<Rightarrow> u32 \<Rightarrow> ('d, 'a) file_machine_scheme \<Rightarrow> (int \<times> ('d, 'a) file_machine_scheme) exec" where
  "call_close f private st = (case f of Fat16_close \<Rightarrow> fat16_close private st)"

section \<open>File systems\<close>

definition fat16_init :: "('d, 'a) file_machine_scheme \<Rightarrow> (u32 \<times> ('d, 'a) file_machine_scheme) exec" where
  "fat16_init st =
     bindx (derefx (filesystem_objects st) (fat16_fs st)) (\<lambda>fs.
     bindx (strcpy (fsys_name fs) [0x46, 0x41, 0x54, 0x31, 0x36, 0]) (\<lambda>name.
       Ret (fat16_fs st, st\<lparr>filesystem_objects := (filesystem_objects st)(fat16_fs st \<mapsto> fs\<lparr>fsys_name := name\<rparr>)\<rparr>)))"

text \<open>The index of the first null pointer of a table.\<close>

definition fs_get_free_filesystem :: "('d, 'a) file_machine_scheme \<Rightarrow> nat option" where
  "fs_get_free_filesystem st = first_slot 0 (filesystems st)"

text \<open>A full table prints a message and loops.\<close>

definition fs_insert_filesystem :: "u32 \<Rightarrow> ('d, 'a) file_machine_scheme \<Rightarrow> ('d, 'a) file_machine_scheme exec" where
  "fs_insert_filesystem filesystem st =
     (case fs_get_free_filesystem st of
        None \<Rightarrow> bindx (print (map (of_nat \<circ> of_char) ''Problem inserting filesystem'' @ [0]) st) (\<lambda>st. Trap Diverge)
      | Some i \<Rightarrow> Ret (st\<lparr>filesystems := (filesystems st)[i := filesystem]\<rparr>))"

definition fs_static_load :: "('d, 'a) file_machine_scheme \<Rightarrow> ('d, 'a) file_machine_scheme exec" where
  "fs_static_load st = bindx (fat16_init st) (\<lambda>(fs, st). fs_insert_filesystem fs st)"

definition fs_load :: "('d, 'a) file_machine_scheme \<Rightarrow> ('d, 'a) file_machine_scheme exec" where
  "fs_load st = fs_static_load (st\<lparr>filesystems := replicate MAEROS_MAX_FILESYSTEMS 0\<rparr>)"

definition fs_init :: "('d, 'a) file_machine_scheme \<Rightarrow> ('d, 'a) file_machine_scheme exec" where
  "fs_init st = fs_load (st\<lparr>file_descriptors := replicate MAEROS_MAX_FILE_DESCRIPTORS 0\<rparr>)"

text \<open>The loop of \<open>fs_resolve\<close> over the table.\<close>

fun fs_resolve_loop ::
  "'d ports \<Rightarrow> nat \<Rightarrow> u32 \<Rightarrow> u32 list \<Rightarrow> ('d, 'a) file_machine_scheme \<Rightarrow> (u32 \<times> ('d, 'a) file_machine_scheme) exec" where
  "fs_resolve_loop io fuel disk [] st = Ret (0, st)"
| "fs_resolve_loop io fuel disk (f # fs) st =
     (if f = 0 then fs_resolve_loop io fuel disk fs st
      else bindx (derefx (filesystem_objects st) f) (\<lambda>o1.
           bindx (call_resolve io fuel (fsys_resolve o1) disk st) (\<lambda>(res, st).
             if res = 0 then Ret (f, st) else fs_resolve_loop io fuel disk fs st)))"

definition fs_resolve ::
  "'d ports \<Rightarrow> nat \<Rightarrow> u32 \<Rightarrow> ('d, 'a) file_machine_scheme \<Rightarrow> (u32 \<times> ('d, 'a) file_machine_scheme) exec" where
  "fs_resolve io fuel disk st = fs_resolve_loop io fuel disk (filesystems st) st"

definition disk_search_and_init ::
  "'d ports \<Rightarrow> nat \<Rightarrow> ('d, 'a) file_machine_scheme \<Rightarrow> ('d, 'a) file_machine_scheme exec" where
  "disk_search_and_init io fuel st =
     (let st = st\<lparr>the_disk := \<lparr>d_type = MAEROS_DISK_TYPE_REAL, d_sector_size = MAEROS_SECTOR_SIZE, d_id = 0,
                d_filesystem = 0, d_fs_private = 0\<rparr>\<rparr>
      in bindx (fs_resolve io fuel (disk_addr st) st) (\<lambda>(fs, st).
           Ret (st\<lparr>the_disk := (the_disk st)\<lparr>d_filesystem := fs\<rparr>\<rparr>)))"

section \<open>Descriptors\<close>

definition file_free_descriptor :: "u32 \<Rightarrow> ('d, 'a) file_machine_scheme \<Rightarrow> ('d, 'a) file_machine_scheme exec" where
  "file_free_descriptor desc st =
     bindx (derefx (descriptor_objects st) desc) (\<lambda>d.
     bindx (guardx (1 \<le> fdesc_index d \<and> nat (fdesc_index d) \<le> length (file_descriptors st)) Fault) (\<lambda>_.
       Ret (kfree desc (st\<lparr>file_descriptors := (file_descriptors st)[nat (fdesc_index d - 1) := 0x00],
              descriptor_objects := (descriptor_objects st)(desc := None)\<rparr>))))"

text \<open>The result is the status and the pointer that is stored through \<open>desc_out\<close>; \<open>sizeof(struct file_descriptor)\<close> is 16.\<close>

definition file_new_descriptor :: "('d, 'a) file_machine_scheme \<Rightarrow> (int \<times> u32 \<times> ('d, 'a) file_machine_scheme) exec" where
  "file_new_descriptor st =
     (case first_slot 0 (file_descriptors st) of
        None \<Rightarrow> Ret (- ENOMEM, 0, st)
      | Some i \<Rightarrow>
          let (desc, st) = kzalloc 16 st
          in if desc = 0 then Trap Fault
             else Ret (0, desc, st\<lparr>file_descriptors := (file_descriptors st)[i := desc],
                    descriptor_objects := (descriptor_objects st)(desc \<mapsto>
                      \<lparr>fdesc_index = int i + 1, fdesc_filesystem = 0, fdesc_private = 0, fdesc_disk = 0\<rparr>)\<rparr>))"

definition file_get_descriptor :: "int \<Rightarrow> ('d, 'a) file_machine_scheme \<Rightarrow> u32" where
  "file_get_descriptor fd st =
     (if fd \<le> 0 \<or> fd \<ge> MAEROS_MAX_FILE_DESCRIPTORS then 0 else file_descriptors st ! nat (fd - 1))"

definition file_get_mode_by_string :: "u8 list \<Rightarrow> u32 exec" where
  "file_get_mode_by_string str =
     bindx (strncmp str [0x72, 0] 1) (\<lambda>r. if r = 0 then Ret FILE_MODE_READ
     else bindx (strncmp str [0x77, 0] 1) (\<lambda>w. if w = 0 then Ret FILE_MODE_WRITE
     else bindx (strncmp str [0x61, 0] 1) (\<lambda>a. if a = 0 then Ret FILE_MODE_APPEND else Ret FILE_MODE_INVALID)))"

section \<open>Files\<close>

text \<open>What \<open>fopen\<close> does before the label \<open>out\<close>; the value is \<open>res\<close> there.\<close>

definition fopen_open ::
  "'d ports \<Rightarrow> nat \<Rightarrow> u32 \<Rightarrow> u32 \<Rightarrow> u8 list \<Rightarrow> ('d, 'a) file_machine_scheme \<Rightarrow> (int \<times> ('d, 'a) file_machine_scheme) exec" where
  "fopen_open io fuel disk first mode_str st =
     bindx (deref_disk disk st) (\<lambda>dk.
       if d_filesystem dk = 0 then Ret (- EIO, st)
       else bindx (file_get_mode_by_string mode_str) (\<lambda>mode.
         if mode = FILE_MODE_INVALID then Ret (- EINVARG, st)
         else bindx (derefx (filesystem_objects st) (d_filesystem dk)) (\<lambda>fs.
           bindx (call_open io fuel (fsys_open fs) disk first mode st) (\<lambda>(private, st).
             if sint private < 0 then Ret (sint private, st)
             else bindx (file_new_descriptor st) (\<lambda>(res, desc, st).
               if res < 0 then Ret (res, st)
               else bindx (deref_disk disk st) (\<lambda>dk.
                 bindx (derefx (descriptor_objects st) desc) (\<lambda>d.
                   Ret (fdesc_index d, st\<lparr>descriptor_objects := (descriptor_objects st)(desc \<mapsto>
                     d\<lparr>fdesc_filesystem := d_filesystem dk, fdesc_private := private, fdesc_disk := disk\<rparr>)\<rparr>))))))))"

definition fopen ::
  "'d ports \<Rightarrow> nat \<Rightarrow> u8 list \<Rightarrow> u8 list \<Rightarrow> ('d, 'a) file_machine_scheme \<Rightarrow> (int \<times> ('d, 'a) file_machine_scheme) exec" where
  "fopen io fuel filename mode_str st =
     bindx (pathparser_parse filename st) (\<lambda>(root_path, st).
     bindx (if root_path = 0 then Ret (- EINVARG, st)
            else bindx (derefx (path_roots st) root_path) (\<lambda>root.
              if pr_first root = 0 then Ret (- EINVARG, st)
              else
                let disk = disk_get (pr_drive_no root) st
                in if disk = 0 then Ret (- EIO, st) else fopen_open io fuel disk (pr_first root) mode_str st)) (\<lambda>(res, st).
       Ret (if res < 0 then 0 else res, st)))"

definition fstat :: "int \<Rightarrow> ('d, 'a) file_machine_scheme \<Rightarrow> file_stat \<Rightarrow> (int \<times> file_stat) exec" where
  "fstat fd st stat =
     (let desc = file_get_descriptor fd st
      in if desc = 0 then Ret (- EIO, stat)
         else bindx (derefx (descriptor_objects st) desc) (\<lambda>d.
              bindx (derefx (filesystem_objects st) (fdesc_filesystem d)) (\<lambda>fs.
                call_stat (fsys_stat fs) (fdesc_private d) st stat)))"

definition fclose :: "int \<Rightarrow> ('d, 'a) file_machine_scheme \<Rightarrow> (int \<times> ('d, 'a) file_machine_scheme) exec" where
  "fclose fd st =
     (let desc = file_get_descriptor fd st
      in if desc = 0 then Ret (- EIO, st)
         else bindx (derefx (descriptor_objects st) desc) (\<lambda>d.
              bindx (derefx (filesystem_objects st) (fdesc_filesystem d)) (\<lambda>fs.
              bindx (call_close (fsys_close fs) (fdesc_private d) st) (\<lambda>(res, st).
                if res = MAEROS_ALL_OK then bindx (file_free_descriptor desc st) (\<lambda>st. Ret (res, st)) else Ret (res, st)))))"

definition fseek :: "int \<Rightarrow> int \<Rightarrow> u32 \<Rightarrow> ('d, 'a) file_machine_scheme \<Rightarrow> (int \<times> ('d, 'a) file_machine_scheme) exec" where
  "fseek fd offset whence st =
     (let desc = file_get_descriptor fd st
      in if desc = 0 then Ret (- EIO, st)
         else bindx (derefx (descriptor_objects st) desc) (\<lambda>d.
              bindx (derefx (filesystem_objects st) (fdesc_filesystem d)) (\<lambda>fs.
                call_seek (fsys_seek fs) (fdesc_private d) (word_of_int offset) whence st)))"

definition fread ::
  "'d ports \<Rightarrow> nat \<Rightarrow> u32 \<Rightarrow> u32 \<Rightarrow> u32 \<Rightarrow> int \<Rightarrow> ('d, 'a) file_machine_scheme \<Rightarrow> (int \<times> ('d, 'a) file_machine_scheme) exec" where
  "fread io fuel ptr sz nmemb fd st =
     (if sz = 0 \<or> nmemb = 0 \<or> fd < 1 then Ret (- EINVARG, st)
      else
        let desc = file_get_descriptor fd st
        in if desc = 0 then Ret (- EINVARG, st)
           else bindx (derefx (descriptor_objects st) desc) (\<lambda>d.
                bindx (derefx (filesystem_objects st) (fdesc_filesystem d)) (\<lambda>fs.
                  call_read io fuel (fsys_read fs) (fdesc_disk d) (fdesc_private d) sz nmemb ptr st)))"

section \<open>The descriptor table\<close>

lemma first_slot_Some: "first_slot i xs = Some k \<Longrightarrow> i \<le> k \<and> k < i + length xs \<and> xs ! (k - i) = 0"
proof (induction xs arbitrary: i)
  case (Cons x xs)
  show ?case
  proof (cases "x = 0")
    case False
    then have "Suc i \<le> k \<and> k < Suc i + length xs \<and> xs ! (k - Suc i) = 0" using Cons by (intro Cons.IH) simp
    moreover from this have "k - i = Suc (k - Suc i)" by linarith
    ultimately show ?thesis by simp
  qed (use Cons in auto)
qed simp

lemma first_slot_None: "first_slot i xs = None \<longleftrightarrow> 0 \<notin> set xs"
  by (induction xs arbitrary: i) auto

text \<open>
  The invariant: the table has 512 entries, and each entry that is not null points to a descriptor of its own,
  in a live block, that carries the number of the entry.
\<close>

definition table_ok :: "('d, 'a) file_machine_scheme \<Rightarrow> allocs \<Rightarrow> bool" where
  "table_ok st A \<longleftrightarrow> length (file_descriptors st) = 512 \<and>
     (\<forall>i < 512. file_descriptors st ! i \<noteq> 0 \<longrightarrow> (\<exists>b d. file_descriptors st ! i = kblock b \<and> A b = Some 1 \<and> b < KBLOCKS \<and>
        descriptor_objects st (kblock b) = Some d \<and> fdesc_index d = int i + 1))"

lemma table_okD:
  assumes "table_ok st A" and "i < 512" and "file_descriptors st ! i \<noteq> 0"
  obtains b d where "file_descriptors st ! i = kblock b" "A b = Some 1" "b < KBLOCKS"
    "descriptor_objects st (kblock b) = Some d" "fdesc_index d = int i + 1"
  using assms unfolding table_ok_def by blast

lemma new_descriptor_run:
  assumes rel: "kheap_rel st A" "0 < free_blocks A" and ok: "table_ok st A" and slot: "first_slot 0 (file_descriptors st) = Some i"
  shows "\<exists>b st'. file_new_descriptor st = Ret (0, kblock b, st') \<and> A b = None \<and> b < KBLOCKS \<and> i < 512 \<and>
    file_descriptors st ! i = 0 \<and> file_descriptors st' = (file_descriptors st)[i := kblock b] \<and>
    kheap_rel st' (A(b \<mapsto> 1)) \<and> table_ok st' (A(b \<mapsto> 1))"
proof -
  obtain b m where B: "kzalloc 16 st = (kblock b, st\<lparr>pmem := m\<rparr>)" "A b = None" "b < KBLOCKS" "kheap_rel (st\<lparr>pmem := m\<rparr>) (A(b \<mapsto> 1))"
    using kzalloc_one [OF rel(1), of 16] rel(2) by auto
  have L: "length (file_descriptors st) = 512" using ok by (simp add: table_ok_def)
  then have i: "i < 512" "file_descriptors st ! i = 0" using first_slot_Some [OF slot] by simp_all
  let ?st = "st\<lparr>pmem := m, file_descriptors := (file_descriptors st)[i := kblock b], descriptor_objects := (descriptor_objects st)(kblock b \<mapsto>
      \<lparr>fdesc_index = int i + 1, fdesc_filesystem = 0, fdesc_private = 0, fdesc_disk = 0\<rparr>)\<rparr>"
  have "\<exists>c d. file_descriptors ?st ! j = kblock c \<and> (A(b \<mapsto> 1)) c = Some 1 \<and> c < KBLOCKS \<and>
      descriptor_objects ?st (kblock c) = Some d \<and> fdesc_index d = int j + 1" if j: "j < 512" "file_descriptors ?st ! j \<noteq> 0" for j
  proof (cases "j = i")
    case True
    then show ?thesis using i(1) L B(3) by (intro exI [of _ b]) simp
  next
    case False
    then have "file_descriptors st ! j \<noteq> 0" using j(2) by simp
    then obtain c d where c: "file_descriptors st ! j = kblock c" "A c = Some 1" "c < KBLOCKS"
      "descriptor_objects st (kblock c) = Some d" "fdesc_index d = int j + 1"
      using table_okD [OF ok j(1)] by blast
    then have "c \<noteq> b" using B(2) by auto
    then show ?thesis using c False kblock_inj [OF c(3) B(3)] by (intro exI [of _ c] exI [of _ d]) simp
  qed
  then have "table_ok ?st (A(b \<mapsto> 1))" using L unfolding table_ok_def by simp
  moreover have "file_new_descriptor st = Ret (0, kblock b, ?st)" using slot B(1,3) by (simp add: file_new_descriptor_def)
  moreover have "kheap_rel ?st (A(b \<mapsto> 1))" using B(4) by (simp add: kheap_rel_def)
  ultimately show ?thesis using B(2,3) i by (intro exI [of _ b] exI [of _ ?st]) simp
qed

lemma free_descriptor_run:
  assumes rel: "kheap_rel st A" and ok: "table_ok st A" and i: "i < 512" "file_descriptors st ! i = kblock b" and b: "b < KBLOCKS"
  shows "\<exists>st'. file_free_descriptor (kblock b) st = Ret st' \<and> file_descriptors st' = (file_descriptors st)[i := 0] \<and>
    kheap_rel st' (A(b := None)) \<and> table_ok st' (A(b := None))"
proof -
  have L: "length (file_descriptors st) = 512" using ok by (simp add: table_ok_def)
  have "file_descriptors st ! i \<noteq> 0" using i(2) b by simp
  then obtain c d where c: "kblock b = kblock c" "c < KBLOCKS" "A c = Some 1"
    "descriptor_objects st (kblock c) = Some d" "fdesc_index d = int i + 1"
    using table_okD [OF ok i(1)] i(2) by metis
  then have cb: "c = b" using kblock_inj [OF c(2) b] by simp
  let ?s = "st\<lparr>file_descriptors := (file_descriptors st)[i := 0], descriptor_objects := (descriptor_objects st)(kblock b := None)\<rparr>"
  have "file_free_descriptor (kblock b) st = Ret (kfree (kblock b) ?s)"
    using c(4,5) cb i(1) L by (simp add: file_free_descriptor_def derefx_def)
  moreover have "kheap_rel (kfree (kblock b) ?s) (A(b := None))"
    using kfree_run(1) [of ?s A b 1] rel c(3) cb by (simp add: kheap_rel_def)
  moreover have "\<exists>c d. file_descriptors ?s ! j = kblock c \<and> (A(b := None)) c = Some 1 \<and> c < KBLOCKS \<and>
      descriptor_objects ?s (kblock c) = Some d \<and> fdesc_index d = int j + 1" if j: "j < 512" "file_descriptors ?s ! j \<noteq> 0" for j
  proof -
    have "j \<noteq> i" using j(2) i(1) L by auto
    then have "file_descriptors st ! j \<noteq> 0" using j(2) by simp
    then obtain c' d' where d: "file_descriptors st ! j = kblock c'" "A c' = Some 1" "c' < KBLOCKS"
      "descriptor_objects st (kblock c') = Some d'" "fdesc_index d' = int j + 1"
      using table_okD [OF ok j(1)] by blast
    have "c' \<noteq> b" using d(4,5) c(4,5) cb \<open>j \<noteq> i\<close> by auto
    then show ?thesis using d \<open>j \<noteq> i\<close> kblock_inj [OF d(3) b] by (intro exI [of _ c'] exI [of _ d']) simp
  qed
  then have "table_ok (kfree (kblock b) ?s) (A(b := None))" using L unfolding table_ok_def by (simp add: kfree_def)
  ultimately show ?thesis by (intro exI [of _ "kfree (kblock b) ?s"]) (simp add: kfree_def)
qed

section \<open>Properties\<close>

text \<open>
  C14. The table of descriptors. \<open>file_new_descriptor\<close> takes the first free entry and keeps the invariant of the
  table; through \<open>file_get_descriptor\<close> exactly the new number changes its meaning, except that the last entry,
  number 512, is refused; and \<open>file_free_descriptor\<close> keeps the invariant and restores the table and the heap.
\<close>

theorem file_table_invariant:
  assumes "kheap_rel st A" and "0 < free_blocks A" and "table_ok st A" and "first_slot 0 (file_descriptors st) = Some i"
  shows "\<exists>b st1 st2. file_new_descriptor st = Ret (0, kblock b, st1) \<and> A b = None \<and>
    kheap_rel st1 (A(b \<mapsto> 1)) \<and> table_ok st1 (A(b \<mapsto> 1)) \<and>
    file_get_descriptor (int i + 1) st1 = (if i < 511 then kblock b else 0) \<and>
    (\<forall>fd. fd \<noteq> int i + 1 \<longrightarrow> file_get_descriptor fd st1 = file_get_descriptor fd st) \<and>
    file_free_descriptor (kblock b) st1 = Ret st2 \<and> kheap_rel st2 A \<and> table_ok st2 A \<and>
    file_descriptors st2 = file_descriptors st"
proof -
  obtain b st1 where N: "file_new_descriptor st = Ret (0, kblock b, st1)" "A b = None" "b < KBLOCKS" "i < 512"
    "file_descriptors st ! i = 0" "file_descriptors st1 = (file_descriptors st)[i := kblock b]"
    "kheap_rel st1 (A(b \<mapsto> 1))" "table_ok st1 (A(b \<mapsto> 1))"
    using new_descriptor_run [OF assms] by blast
  have L: "length (file_descriptors st) = 512" using assms(3) by (simp add: table_ok_def)
  have "file_descriptors st1 ! i = kblock b" using N(4,6) L by simp
  from free_descriptor_run [OF N(7,8) N(4) this N(3)] obtain st2 where F: "file_free_descriptor (kblock b) st1 = Ret st2"
    "file_descriptors st2 = (file_descriptors st1)[i := 0]" "kheap_rel st2 ((A(b \<mapsto> 1))(b := None))" "table_ok st2 ((A(b \<mapsto> 1))(b := None))"
    by blast
  have A: "(A(b \<mapsto> 1))(b := None) = A" using N(2) by auto
  have "file_descriptors st2 = file_descriptors st" using F(2) N(5,6) by (simp add: list_update_same_conv L N(4))
  moreover have "file_get_descriptor fd st1 = file_get_descriptor fd st" if "fd \<noteq> int i + 1" for fd
    using that N(6) by (auto simp: file_get_descriptor_def)
  moreover have "file_get_descriptor (int i + 1) st1 = (if i < 511 then kblock b else 0)"
    using N(4,6) L by (simp add: file_get_descriptor_def)
  ultimately show ?thesis using N(1,2,7,8) F(1,3,4) unfolding A by blast
qed

definition demo_files :: "ata file_machine" where
  "demo_files = fat_machine.extend (demo_dir\<lparr>pmem := \<lambda>_. 0\<rparr>)
     (file_machine.fields [0xB00 \<mapsto> fat16_fs_value] [] Map.empty (replicate 512 0))"

theorem file_table_invariant_witness:
  "\<exists>b st1. file_new_descriptor demo_files = Ret (0, kblock b, st1) \<and> file_get_descriptor 1 st1 = kblock b"
proof -
  have "kernel_heap demo_files = kernel_heap demo_machine" "pmem demo_files = pmem demo_machine"
    "file_descriptors demo_files = replicate 512 0"
    by (simp_all add: demo_files_def demo_machine_def fat_machine.extend_def file_machine.fields_def demo_dir_def demo_volume_def
        disk_machine.extend_def fat_machine.fields_def demo_disk_def)
  then have "kheap_rel demo_files Map.empty" "table_ok demo_files Map.empty" "first_slot 0 (file_descriptors demo_files) = Some 0"
    using demo_machine_rel replicate_Suc [of 511 "0 :: u32"] by (simp_all add: kheap_rel_def table_ok_def nth_Cons')
  then show ?thesis using file_table_invariant [of demo_files Map.empty 0] demo_free_blocks by auto
qed

end
