(* ===== verification/Loader.thy ===== *)
theory Loader
  imports File
begin

text \<open>
  Loading programs: \<open>elf_load\<close> of \<open>src/src/loader/formats/elfloader.c\<close> and the functions of
  \<open>src/src/task/process.c\<close> that read a program from a file and start a process with it. A pointer the caller
  passes to be set is a result, null where the function leaves it alone, as the callers initialise it. To read a
  local variable that no path has set is undefined; it is a \<open>Fault\<close> here.
\<close>

section \<open>elf_load\<close>

text \<open>\<open>sizeof(struct elf_file)\<close> is 132.\<close>

definition zero_elf_file :: elf_file where
  "zero_elf_file = \<lparr>ef_filename = replicate MAEROS_MAX_PATH 0, ef_in_memory_size = 0, ef_elf_memory = 0,
     ef_virtual_base_address = 0, ef_virtual_end_address = 0, ef_physical_base_address = 0, ef_physical_end_address = 0\<rparr>"

text \<open>From the successful \<open>fopen\<close> to the label \<open>out\<close>: the status and the pointer for \<open>file_out\<close>.\<close>

definition elf_load_open ::
  "'d ports \<Rightarrow> nat \<Rightarrow> u32 \<Rightarrow> int \<Rightarrow> ('d, 'a) file_machine_scheme \<Rightarrow> (int \<times> u32 \<times> ('d, 'a) file_machine_scheme) exec" where
  "elf_load_open io fuel elf_file fd st =
     bindx (fstat fd st \<lparr>fs_flags = 0, fs_filesize = 0\<rparr>) (\<lambda>(res, stat).
       if res < 0 then Ret (res, 0, st)
       else
         let (memory, st) = kzalloc (fs_filesize stat) st
         in bindx (derefx (elf_files st) elf_file) (\<lambda>f.
              let st = st\<lparr>elf_files := (elf_files st)(elf_file \<mapsto> f\<lparr>ef_elf_memory := memory\<rparr>)\<rparr>
              in bindx (fread io fuel memory (fs_filesize stat) 1 fd st) (\<lambda>(res, st).
                   if res < 0 then Ret (res, 0, st)
                   else bindx (derefx (elf_files st) elf_file) (\<lambda>f.
                     let (res, f) = elf_process_loaded (pmem st) f;
                         st = st\<lparr>elf_files := (elf_files st)(elf_file \<mapsto> f)\<rparr>
                     in if res < 0 then Ret (res, 0, st) else Ret (res, elf_file, st)))))"

definition elf_load ::
  "'d ports \<Rightarrow> nat \<Rightarrow> u8 list \<Rightarrow> ('d, 'a) file_machine_scheme \<Rightarrow> (int \<times> u32 \<times> ('d, 'a) file_machine_scheme) exec" where
  "elf_load io fuel filename st =
     (let (elf_file, st) = kzalloc 132 st;
          st = (if elf_file = 0 then st else st\<lparr>elf_files := (elf_files st)(elf_file \<mapsto> zero_elf_file)\<rparr>)
      in bindx (fopen io fuel filename [0x72, 0] st) (\<lambda>(fd, st).
           if fd \<le> 0 then bindx (fclose 0 st) (\<lambda>(_, st). Ret (- EIO, 0, st))
           else bindx (elf_load_open io fuel elf_file fd st) (\<lambda>(res, file_out, st).
                bindx (fclose fd st) (\<lambda>(_, st). Ret (res, file_out, st)))))"

section \<open>Programs\<close>

text \<open>
  The two early exits leave \<open>program_data_ptr\<close> unset, which the label \<open>out\<close> tests when the result is negative.
\<close>

definition process_load_binary ::
  "'d ports \<Rightarrow> nat \<Rightarrow> u8 list \<Rightarrow> u32 \<Rightarrow> ('d, 'a) file_machine_scheme \<Rightarrow> (int \<times> ('d, 'a) file_machine_scheme) exec" where
  "process_load_binary io fuel filename process st =
     bindx (fopen io fuel filename [0x72, 0] st) (\<lambda>(fd, st).
       if fd = 0 then Trap Fault
       else bindx (fstat fd st \<lparr>fs_flags = 0, fs_filesize = 0\<rparr>) (\<lambda>(res, stat).
         if res < 0 then Trap Fault
         else if res \<noteq> MAEROS_ALL_OK then bindx (fclose fd st) (\<lambda>(_, st). Ret (res, st))
         else
           let (program_data_ptr, st) = kzalloc (fs_filesize stat) st
           in if program_data_ptr = 0 then bindx (fclose fd st) (\<lambda>(_, st). Ret (- ENOMEM, st))
              else bindx (fread io fuel program_data_ptr (fs_filesize stat) 1 fd st) (\<lambda>(n, st).
                if n \<noteq> 1 then bindx (fclose fd (kfree program_data_ptr st)) (\<lambda>(_, st). Ret (- EIO, st))
                else bindx (derefx (procs st) process) (\<lambda>p.
                  let st = st\<lparr>procs := (procs st)(process \<mapsto> p\<lparr>p_filetype := PROCESS_FILETYPE_BINARY,
                             p_ptr := program_data_ptr, p_size := fs_filesize stat\<rparr>)\<rparr>
                  in bindx (fclose fd st) (\<lambda>(_, st). Ret (res, st))))))"

definition process_load_elf ::
  "'d ports \<Rightarrow> nat \<Rightarrow> u8 list \<Rightarrow> u32 \<Rightarrow> ('d, 'a) file_machine_scheme \<Rightarrow> (int \<times> ('d, 'a) file_machine_scheme) exec" where
  "process_load_elf io fuel filename process st =
     bindx (elf_load io fuel filename st) (\<lambda>(res, elf_file, st).
       if res < 0 then Ret (res, st)
       else bindx (derefx (procs st) process) (\<lambda>p.
         Ret (res, st\<lparr>procs := (procs st)(process \<mapsto> p\<lparr>p_filetype := PROCESS_FILETYPE_ELF, p_ptr := elf_file\<rparr>)\<rparr>)))"

definition process_load_data ::
  "'d ports \<Rightarrow> nat \<Rightarrow> u8 list \<Rightarrow> u32 \<Rightarrow> ('d, 'a) file_machine_scheme \<Rightarrow> (int \<times> ('d, 'a) file_machine_scheme) exec" where
  "process_load_data io fuel filename process st =
     bindx (process_load_elf io fuel filename process st) (\<lambda>(res, st).
       if res = - EINFORMAT then process_load_binary io fuel filename process st else Ret (res, st))"

section \<open>Processes\<close>

text \<open>What follows \<open>process_init\<close> up to the label \<open>out\<close>: the status and the pointer stored through \<open>process\<close>.\<close>

definition process_load_parts ::
  "'d ports \<Rightarrow> nat \<Rightarrow> u8 list \<Rightarrow> u32 \<Rightarrow> nat \<Rightarrow> ('d, 'a) file_machine_scheme \<Rightarrow> (int \<times> u32 \<times> ('d, 'a) file_machine_scheme) exec" where
  "process_load_parts io fuel filename process slot st =
     bindx (process_load_data io fuel filename process st) (\<lambda>(res, st).
       if res < 0 then Ret (res, 0, st)
       else
         let (program_stack_ptr, st) = kzalloc MAEROS_USER_PROGRAM_STACK_SIZE st
         in if program_stack_ptr = 0 then Ret (- ENOMEM, 0, st)
            else bindx (derefx (procs st) process) (\<lambda>p.
              bindx (strncpy (p_filename p) filename MAEROS_MAX_PATH) (\<lambda>name.
                let st = st\<lparr>procs := (procs st)(process \<mapsto> p\<lparr>p_filename := name, p_stack := program_stack_ptr,
                           p_id := of_nat slot\<rparr>)\<rparr>
                in bindx (task_new process st) (\<lambda>(task, st).
                     if sint task = 0 then Ret (sint task, 0, st)
                     else bindx (derefx (procs st) process) (\<lambda>p.
                       let p = p\<lparr>p_task := task\<rparr>;
                           st = st\<lparr>procs := (procs st)(process \<mapsto> p)\<rparr>
                       in bindx (process_map_memory p st) (\<lambda>(res, st).
                            if res < 0 then Ret (res, 0, st)
                            else Ret (res, process, st\<lparr>processes := (processes st)[slot := process]\<rparr>)))))))"

text \<open>\<open>sizeof(struct process)\<close> is 9364. A slot that is taken leaves \<open>_process\<close> unset, which the label \<open>out\<close> tests.\<close>

definition process_load_for_slot ::
  "'d ports \<Rightarrow> nat \<Rightarrow> u8 list \<Rightarrow> int \<Rightarrow> ('d, 'a) file_machine_scheme \<Rightarrow> (int \<times> u32 \<times> ('d, 'a) file_machine_scheme) exec" where
  "process_load_for_slot io fuel filename process_slot st =
     (if process_get process_slot st \<noteq> 0 then Trap Fault
      else
        let (process, st) = kzalloc 9364 st
        in if process = 0 then Ret (- ENOMEM, 0, st)
           else
             let st = process_init process st
             in bindx (process_load_parts io fuel filename process (nat process_slot) st) (\<lambda>(res, out, st).
                  if res < 0
                  then bindx (derefx (procs st) process) (\<lambda>p.
                    if p_task p \<noteq> 0 then bindx (task_free (p_task p) st) (\<lambda>st. Ret (res, out, st)) else Ret (res, out, st))
                  else Ret (res, out, st)))"

definition process_load ::
  "'d ports \<Rightarrow> nat \<Rightarrow> u8 list \<Rightarrow> ('d, 'a) file_machine_scheme \<Rightarrow> (int \<times> u32 \<times> ('d, 'a) file_machine_scheme) exec" where
  "process_load io fuel filename st =
     (let process_slot = process_get_free_slot st
      in if process_slot < 0 then Ret (- EISTKN, 0, st) else process_load_for_slot io fuel filename process_slot st)"

definition process_load_switch ::
  "'d ports \<Rightarrow> nat \<Rightarrow> u8 list \<Rightarrow> ('d, 'a) file_machine_scheme \<Rightarrow> (int \<times> u32 \<times> ('d, 'a) file_machine_scheme) exec" where
  "process_load_switch io fuel filename st =
     bindx (process_load io fuel filename st) (\<lambda>(res, process, st).
       Ret (res, process, if res = 0 then process_switch process st else st))"

end
