(* ===== verification/Syscalls.thy ===== *)
theory Syscalls
  imports Loader
begin

text \<open>
  System calls and interrupts: the commands of \<open>src/src/isr80h/\<close> and the handlers of \<open>src/src/idt/idt.c\<close> that
  dispatch them. A handler either returns, or it ends in \<open>task_return\<close>, which enters a task and never comes
  back; \<open>flow\<close> tells the two apart. The frame the stub in \<open>idt.asm\<close> pushes is an argument; the commands
  receive its address and do not use it.
\<close>

datatype 'r flow = Resume 'r | Enter registers

text \<open>The address of the buffers that a command has among its local variables, on the kernel stack.\<close>

record 'd sys_machine = "'d file_machine" +
  local_buffer :: u32

type_synonym ('d, 'a, 'r) handler = "('d, 'a) sys_machine_scheme \<Rightarrow> ('r flow \<times> ('d, 'a) sys_machine_scheme) exec"

definition enter :: "(registers \<times> 's) exec \<Rightarrow> ('r flow \<times> 's) exec" where
  "enter m = bindx m (\<lambda>(r, st). Ret (Enter r, st))"

section \<open>Commands\<close>

text \<open>\<open>misc.c\<close>\<close>

definition isr80h_command0_sum :: "('d, 'a, u32) handler" where
  "isr80h_command0_sum st =
     bindx (task_get_stack_item (current_task st) 1 st) (\<lambda>(v2, st).
     bindx (task_get_stack_item (current_task st) 0 st) (\<lambda>(v1, st). Ret (Resume (v1 + v2), st)))"

text \<open>\<open>io.c\<close>\<close>

definition isr80h_command1_print :: "('d, 'a, u32) handler" where
  "isr80h_command1_print st =
     bindx (task_get_stack_item (current_task st) 0 st) (\<lambda>(user_space_msg_buffer, st).
     bindx (copy_string_from_task (current_task st) user_space_msg_buffer (local_buffer st) 1024 st) (\<lambda>(_, st).
     bindx (print (mem_bytes (pmem st) (local_buffer st) 1024) st) (\<lambda>st. Ret (Resume 0, st))))"

definition isr80h_command2_getkey :: "('d, 'a, u32) handler" where
  "isr80h_command2_getkey st = bindx (keyboard_pop st) (\<lambda>(c, st). Ret (Resume (word_of_int (sint c)), st))"

definition isr80h_command3_putchar :: "('d, 'a, u32) handler" where
  "isr80h_command3_putchar st =
     bindx (task_get_stack_item (current_task st) 0 st) (\<lambda>(c, st). Ret (Resume 0, terminal_writechar (ucast c) 15 st))"

text \<open>\<open>heap.c\<close>\<close>

definition isr80h_command4_malloc :: "('d, 'a, u32) handler" where
  "isr80h_command4_malloc st =
     bindx (task_get_stack_item (current_task st) 0 st) (\<lambda>(sz, st).
     bindx (derefx (tasks st) (current_task st)) (\<lambda>t.
     bindx (process_malloc (t_process t) sz st) (\<lambda>(ptr, st). Ret (Resume ptr, st))))"

definition isr80h_command5_free :: "('d, 'a, u32) handler" where
  "isr80h_command5_free st =
     bindx (task_get_stack_item (current_task st) 0 st) (\<lambda>(ptr_to_free, st).
     bindx (derefx (tasks st) (current_task st)) (\<lambda>t.
     bindx (process_free (t_process t) ptr_to_free st) (\<lambda>st. Ret (Resume 0, st))))"

text \<open>
  \<open>process.c\<close>. The array \<open>path\<close> has \<open>MAEROS_MAX_PATH\<close> bytes and starts as whatever is on the stack; a store behind
  it is a \<open>Fault\<close>. Its first bytes are set before they are read, so zeros stand for them.
\<close>

definition path_prefix :: "u8 list exec" where
  "path_prefix = strcpy (replicate MAEROS_MAX_PATH 0) [0x30, 0x3A, 0x2F, 0]"

definition start_process :: "u32 \<Rightarrow> ('d, 'a, u32) handler" where
  "start_process process st =
     bindx (derefx (procs st) process) (\<lambda>p.
     bindx (task_switch (p_task p) st) (\<lambda>st. enter (task_return (p_task p) st)))"

definition isr80h_command6_process_load_start :: "'d ports \<Rightarrow> nat \<Rightarrow> ('d, 'a, u32) handler" where
  "isr80h_command6_process_load_start io fuel st =
     bindx (task_get_stack_item (current_task st) 0 st) (\<lambda>(filename_user_ptr, st).
     bindx (copy_string_from_task (current_task st) filename_user_ptr (local_buffer st) MAEROS_MAX_PATH st) (\<lambda>(res, st).
       if res < 0 then Ret (Resume 0, st)
       else
         let filename = mem_bytes (pmem st) (local_buffer st) MAEROS_MAX_PATH
         in bindx path_prefix (\<lambda>path.
            bindx (strcpy_loop path 3 filename) (\<lambda>path.
            bindx (process_load_switch io fuel path st) (\<lambda>(res, process, st).
              if res < 0 then Ret (Resume 0, st) else start_process process st)))))"

definition isr80h_command7_invoke_system_command :: "'d ports \<Rightarrow> nat \<Rightarrow> ('d, 'a, u32) handler" where
  "isr80h_command7_invoke_system_command io fuel st =
     bindx (task_get_stack_item (current_task st) 0 st) (\<lambda>(user_ptr, st).
     bindx (task_virtual_address_to_physical (current_task st) user_ptr st) (\<lambda>arguments.
       let program_name = mem_bytes (pmem st) arguments 512
       in bindx (if arguments = 0 then Ret 0 else strlen program_name) (\<lambda>len.
            if arguments = 0 \<or> len = 0 then Ret (Resume (word_of_int (- EINVARG)), st)
            else bindx path_prefix (\<lambda>path.
              bindx (strncpy_loop (MAEROS_MAX_PATH - 1) path 3 program_name) (\<lambda>path.
              bindx (process_load_switch io fuel path st) (\<lambda>(res, process, st).
                if res < 0 then Ret (Resume (word_of_int res), st)
                else bindx (process_inject_arguments fuel process arguments st) (\<lambda>(res, st).
                  if res < 0 then Ret (Resume (word_of_int res), st) else start_process process st)))))))"

definition isr80h_command8_get_program_arguments :: "('d, 'a, u32) handler" where
  "isr80h_command8_get_program_arguments st =
     bindx (derefx (tasks st) (current_task st)) (\<lambda>t.
     bindx (task_get_stack_item (current_task st) 0 st) (\<lambda>(user_ptr, st).
     bindx (task_virtual_address_to_physical (current_task st) user_ptr st) (\<lambda>arguments.
     bindx (derefx (procs st) (t_process t)) (\<lambda>p.
       let (argc, argv) = process_get_arguments p
       in Ret (Resume 0, st\<lparr>pmem := store32 (store32 (pmem st) arguments (word_of_int argc)) (arguments + 4) argv\<rparr>)))))"

definition isr80h_command9_exit :: "('d, 'a, u32) handler" where
  "isr80h_command9_exit st =
     bindx (derefx (tasks st) (current_task st)) (\<lambda>t.
     bindx (process_terminate (t_process t) st) (\<lambda>(_, st). enter (task_next st)))"

section \<open>idt.c, dispatch\<close>

definition call_isr80h_command :: "'d ports \<Rightarrow> nat \<Rightarrow> isr80h_command \<Rightarrow> ('d, 'a, u32) handler" where
  "call_isr80h_command io fuel command st =
     (case command of
        Isr80h_command0_sum \<Rightarrow> isr80h_command0_sum st
      | Isr80h_command1_print \<Rightarrow> isr80h_command1_print st
      | Isr80h_command2_getkey \<Rightarrow> isr80h_command2_getkey st
      | Isr80h_command3_putchar \<Rightarrow> isr80h_command3_putchar st
      | Isr80h_command4_malloc \<Rightarrow> isr80h_command4_malloc st
      | Isr80h_command5_free \<Rightarrow> isr80h_command5_free st
      | Isr80h_command6_process_load_start \<Rightarrow> isr80h_command6_process_load_start io fuel st
      | Isr80h_command7_invoke_system_command \<Rightarrow> isr80h_command7_invoke_system_command io fuel st
      | Isr80h_command8_get_program_arguments \<Rightarrow> isr80h_command8_get_program_arguments st
      | Isr80h_command9_exit \<Rightarrow> isr80h_command9_exit st)"

definition isr80h_handle_command :: "'d ports \<Rightarrow> nat \<Rightarrow> int \<Rightarrow> ('d, 'a, u32) handler" where
  "isr80h_handle_command io fuel command st =
     (if command < 0 \<or> command \<ge> MAEROS_MAX_ISR80H_COMMANDS then Ret (Resume 0, st)
      else case isr80h_commands st ! nat command of
        None \<Rightarrow> Ret (Resume 0, st)
      | Some command_func \<Rightarrow> call_isr80h_command io fuel command_func st)"

definition isr80h_handler :: "'d ports \<Rightarrow> nat \<Rightarrow> int \<Rightarrow> interrupt_frame \<Rightarrow> ('d, 'a, u32) handler" where
  "isr80h_handler io fuel command frame st =
     (let st = kernel_page st
      in bindx (task_current_save_state frame st) (\<lambda>st.
         bindx (isr80h_handle_command io fuel command st) (\<lambda>(f, st).
           case f of
             Enter r \<Rightarrow> Ret (Enter r, st)
           | Resume res \<Rightarrow> bindx (task_page st) (\<lambda>st. Ret (Resume res, st)))))"

definition idt_handle_exception :: "('d, 'a, unit) handler" where
  "idt_handle_exception st =
     bindx (derefx (tasks st) (current_task st)) (\<lambda>t.
     bindx (process_terminate (t_process t) st) (\<lambda>(_, st). enter (task_next st)))"

definition idt_clock :: "'d ports \<Rightarrow> ('d, 'a, unit) handler" where
  "idt_clock io st = enter (task_next (outb io 0x20 0x20 st))"

definition call_interrupt_callback :: "'d ports \<Rightarrow> interrupt_callback \<Rightarrow> ('d, 'a, unit) handler" where
  "call_interrupt_callback io callback st =
     (case callback of
        Idt_handle_exception \<Rightarrow> idt_handle_exception st
      | Idt_clock \<Rightarrow> idt_clock io st
      | Classic_keyboard_handle_interrupt \<Rightarrow>
          bindx (classic_keyboard_handle_interrupt io st) (\<lambda>st. Ret (Resume (), st)))"

definition interrupt_handler :: "'d ports \<Rightarrow> nat \<Rightarrow> interrupt_frame \<Rightarrow> ('d, 'a, unit) handler" where
  "interrupt_handler io interrupt frame st =
     (let st = kernel_page st
      in bindx (guardx (interrupt < length (interrupt_callbacks st)) Fault) (\<lambda>_.
         bindx (case interrupt_callbacks st ! interrupt of
                  None \<Rightarrow> Ret (Resume (), st)
                | Some callback \<Rightarrow>
                    bindx (task_current_save_state frame st) (\<lambda>st. call_interrupt_callback io callback st)) (\<lambda>(f, st).
           case f of
             Enter r \<Rightarrow> Ret (Enter r, st)
           | Resume _ \<Rightarrow> bindx (task_page st) (\<lambda>st. Ret (Resume (), outb io 0x20 0x20 st)))))"

end
