(* ===== verification/Gdt.thy ===== *)
theory Gdt
  imports Maeros_Prelude
begin

text \<open>
  Segment descriptors, \<open>src/src/gdt/gdt.c\<close>, with the table \<open>gdt_structured\<close> of \<open>src/src/kernel.c\<close>. The packed
  eight-byte descriptors are byte lists; a specification decodes a descriptor the way the processor reads
  it: base and limit in pieces, the limit counted in bytes or, with the granularity bit, in pages.
\<close>

section \<open>gdt.c\<close>

record gdt_structured =
  gs_base :: u32
  gs_limit :: u32
  gs_type :: u8

text \<open>The fields of the packed structure \<open>gdt\<close> and the bytes they occupy are the eight bytes of \<open>target\<close>.\<close>

definition encodeGdtEntry :: "gdt_structured \<Rightarrow> u8 list exec" where
  "encodeGdtEntry source =
     (if gs_limit source > 65536 \<and> gs_limit source AND 0xFFF \<noteq> 0xFFF
      then Trap (Panic (''encodeGdtEntry: Invalid argument'' @ [CHR 0x0A]))
      else
        let big = gs_limit source > 65536;
            limit = (if big then drop_bit 12 (gs_limit source) else gs_limit source);
            target6 = (if big then 0xC0 else 0x40);
            base = gs_base source
        in Ret [ucast (limit AND 0xFF),
                ucast (drop_bit 8 limit AND 0xFF),
                ucast (base AND 0xFF),
                ucast (drop_bit 8 base AND 0xFF),
                ucast (drop_bit 16 base AND 0xFF),
                gs_type source,
                target6 OR ucast (drop_bit 16 limit AND 0x0F),
                ucast (drop_bit 24 base AND 0xFF)])"

primrec gdt_structured_to_gdt :: "gdt_structured list \<Rightarrow> u8 list list exec" where
  "gdt_structured_to_gdt [] = Ret []"
| "gdt_structured_to_gdt (e # es) =
     bindx (encodeGdtEntry e) (\<lambda>g. bindx (gdt_structured_to_gdt es) (\<lambda>gs. Ret (g # gs)))"

text \<open>
  The table of \<open>kernel.c\<close>: null, kernel code and data, user code and data, and the task state segment,
  whose structure has 25 words; its address is chosen by the linker.
\<close>

definition gdt_structured_table :: "u32 \<Rightarrow> gdt_structured list" where
  "gdt_structured_table tss =
     [\<lparr>gs_base = 0x00, gs_limit = 0x00, gs_type = 0x00\<rparr>,
      \<lparr>gs_base = 0x00, gs_limit = 0xffffffff, gs_type = 0x9a\<rparr>,
      \<lparr>gs_base = 0x00, gs_limit = 0xffffffff, gs_type = 0x92\<rparr>,
      \<lparr>gs_base = 0x00, gs_limit = 0xffffffff, gs_type = 0xf8\<rparr>,
      \<lparr>gs_base = 0x00, gs_limit = 0xffffffff, gs_type = 0xf2\<rparr>,
      \<lparr>gs_base = tss, gs_limit = 100, gs_type = 0xE9\<rparr>]"

section \<open>How the processor reads a descriptor\<close>

definition descriptor_base :: "u8 list \<Rightarrow> u32" where
  "descriptor_base g = ucast (g ! 2) OR push_bit 8 (ucast (g ! 3)) OR push_bit 16 (ucast (g ! 4)) OR
     push_bit 24 (ucast (g ! 7))"

definition descriptor_limit :: "u8 list \<Rightarrow> u32" where
  "descriptor_limit g =
     (let l = ucast (g ! 0) OR push_bit 8 (ucast (g ! 1)) OR push_bit 16 (ucast (g ! 6 AND 0x0F))
      in if bit (g ! 6) 7 then push_bit 12 l OR 0xFFF else l)"

definition descriptor_access :: "u8 list \<Rightarrow> u8" where
  "descriptor_access g = g ! 5"

lemma bit32_cases:
  assumes "possible_bit TYPE(32 word) n"
  obtains "n < 8" | "8 \<le> n" "n < 16" | "16 \<le> n" "n < 20" | "20 \<le> n" "n < 24" | "24 \<le> n" "n < 32"
  using assms by (auto simp: possible_bit_word) linarith

lemma base_pieces:
  "ucast (ucast (b AND 0xFF) :: u8) OR push_bit 8 (ucast (ucast (drop_bit 8 b AND 0xFF) :: u8)) OR
     push_bit 16 (ucast (ucast (drop_bit 16 b AND 0xFF) :: u8)) OR
     push_bit 24 (ucast (ucast (drop_bit 24 b AND 0xFF) :: u8)) = (b :: u32)" (is "?l = b")
proof (rule bit_eqI)
  have m: "(0xFF :: u32) = mask 8" by (simp add: mask_eq_exp_minus_1)
  fix n assume "possible_bit TYPE(32 word) n"
  then show "bit ?l n = bit b n" unfolding m
    by (cases rule: bit32_cases) (auto simp: bit_simps)
qed

lemma limit_pieces:
  fixes l :: u32 and f :: u8
  assumes "l < 0x100000" and "f = 0x40 \<or> f = 0xC0"
  shows "ucast (ucast (l AND 0xFF) :: u8) OR push_bit 8 (ucast (ucast (drop_bit 8 l AND 0xFF) :: u8)) OR
     push_bit 16 (ucast ((f OR ucast (drop_bit 16 l AND 0x0F)) AND 0x0F :: u8)) = l" (is "?l = l")
proof (rule bit_eqI)
  have m: "(0xFF :: u32) = mask 8" "(0x0F :: u32) = mask 4" "(0x0F :: u8) = mask 4"
    by (simp_all add: mask_eq_exp_minus_1)
  have f: "f AND mask 4 = 0" using assms(2) by (auto simp: mask_eq_exp_minus_1)
  have hi: "\<not> bit l n" if "20 \<le> n" for n
  proof -
    have "take_bit 20 l = l" using assms(1) by (simp add: take_bit_eq_mod mod_word_less)
    then show ?thesis using that by (metis bit_take_bit_iff not_less)
  qed
  fix n assume "possible_bit TYPE(32 word) n"
  then show "bit ?l n = bit l n" unfolding m bit.conj_disj_distrib2 f
    using hi [of n] by (cases rule: bit32_cases) (auto simp: bit_simps)
qed

lemma granularity_bit:
  fixes x :: u32
  shows "\<not> bit (0x40 OR ucast (x AND 0x0F) :: u8) 7" "bit (0xC0 OR ucast (x AND 0x0F) :: u8) 7"
proof -
  have "(0x0F :: u32) = mask 4" by (simp add: mask_eq_exp_minus_1)
  then have "\<not> bit (ucast (x AND 0x0F) :: u8) 7" by (simp add: bit_simps)
  then show "\<not> bit (0x40 OR ucast (x AND 0x0F) :: u8) 7" "bit (0xC0 OR ucast (x AND 0x0F) :: u8) 7"
    by (simp_all add: bit_or_iff)
qed

lemma page_limit:
  fixes l :: u32
  assumes "l AND 0xFFF = 0xFFF"
  shows "push_bit 12 (drop_bit 12 l) OR 0xFFF = l"
proof -
  have "push_bit 12 (drop_bit 12 l) OR take_bit 12 l = l"
    by (rule bit_eqI) (auto simp: bit_simps)
  moreover have "take_bit 12 l = 0xFFF" using assms by (simp add: take_bit_eq_mask mask_eq_exp_minus_1)
  ultimately show ?thesis by simp
qed

lemma encode_small:
  assumes "\<not> gs_limit e > 65536"
  shows "\<exists>g. encodeGdtEntry e = Ret g \<and> length g = 8 \<and> descriptor_base g = gs_base e \<and>
    descriptor_limit g = gs_limit e \<and> descriptor_access g = gs_type e"
proof -
  have "gs_limit e < 0x100000" using assms by (simp add: word_less_nat_alt)
  note l = limit_pieces [OF this, of "0x40"]
  show ?thesis
    using assms l base_pieces [of "gs_base e"] granularity_bit(1) [of "drop_bit 16 (gs_limit e)"]
    by (simp add: encodeGdtEntry_def descriptor_base_def descriptor_limit_def descriptor_access_def Let_def)
qed

lemma encode_big:
  assumes "gs_limit e > 65536" and "gs_limit e AND 0xFFF = 0xFFF"
  shows "\<exists>g. encodeGdtEntry e = Ret g \<and> length g = 8 \<and> descriptor_base g = gs_base e \<and>
    descriptor_limit g = gs_limit e \<and> descriptor_access g = gs_type e"
proof -
  have "drop_bit 12 (gs_limit e) < 0x100000"
    using unat_less32 [of "gs_limit e"] by (simp add: word_less_nat_alt drop_bit_eq_div unat_div)
  note l = limit_pieces [OF this, of "0xC0"]
  show ?thesis
    using assms l base_pieces [of "gs_base e"] granularity_bit(2) [of "drop_bit 16 (drop_bit 12 (gs_limit e))"]
      page_limit [OF assms(2)]
    by (simp add: encodeGdtEntry_def descriptor_base_def descriptor_limit_def descriptor_access_def Let_def
        del: drop_bit_drop_bit)
qed

section \<open>Properties\<close>

text \<open>
  C35. Encoding of descriptors. An entry whose limit is above 65536 and does not end in 0xFFF makes the
  kernel panic; every other entry is encoded into eight bytes from which the processor reads back the
  same base, the same limit in bytes and the same access byte.
\<close>

theorem encodeGdtEntry_roundtrip:
  "if gs_limit e > 65536 \<and> gs_limit e AND 0xFFF \<noteq> 0xFFF
   then encodeGdtEntry e = Trap (Panic (''encodeGdtEntry: Invalid argument'' @ [CHR 0x0A]))
   else \<exists>g. encodeGdtEntry e = Ret g \<and> length g = 8 \<and> descriptor_base g = gs_base e \<and>
     descriptor_limit g = gs_limit e \<and> descriptor_access g = gs_type e"
proof (cases "gs_limit e > 65536 \<and> gs_limit e AND 0xFFF \<noteq> 0xFFF")
  case True
  then show ?thesis by (simp add: encodeGdtEntry_def)
next
  case False
  then show ?thesis using encode_small [of e] encode_big [of e] by (simp only: if_False) blast
qed

end
