(* ===== verification/Kernel_Main.thy ===== *)
theory Kernel_Main
  imports Syscalls Gdt
begin

text \<open>
  The start of the kernel, \<open>kernel_main\<close> of \<open>src/src/kernel.c\<close>: it sets up the terminal, the segment descriptors,
  the heap, the file system, the interrupts and paging, loads the two first programs and enters the first
  task. It does not return; the result is the registers the first task starts with.
\<close>

text \<open>\<open>tss.h\<close>\<close>

record tss =
  tss_link :: u32
  esp0 :: u32
  ss0 :: u32
  esp1 :: u32
  esp2 :: u32
  ss2 :: u32
  sr3 :: u32
  tss_eip :: u32
  tss_eflags :: u32
  tss_eax :: u32
  tss_ecx :: u32
  tss_edx :: u32
  tss_ebx :: u32
  tss_esp :: u32
  tss_ebp :: u32
  tss_esi :: u32
  tss_edi :: u32
  tss_es :: u32
  tss_cs :: u32
  tss_ss :: u32
  tss_ds :: u32
  tss_fs :: u32
  tss_gs :: u32
  tss_ldtr :: u32
  tss_iopb :: u32

definition zero_tss :: tss where
  "zero_tss = \<lparr>tss_link = 0, esp0 = 0, ss0 = 0, esp1 = 0, esp2 = 0, ss2 = 0, sr3 = 0, tss_eip = 0, tss_eflags = 0,
     tss_eax = 0, tss_ecx = 0, tss_edx = 0, tss_ebx = 0, tss_esp = 0, tss_ebp = 0, tss_esi = 0, tss_edi = 0,
     tss_es = 0, tss_cs = 0, tss_ss = 0, tss_ds = 0, tss_fs = 0, tss_gs = 0, tss_ldtr = 0, tss_iopb = 0\<rparr>"

text \<open>
  The globals of \<open>kernel.c\<close> and the registers that \<open>gdt_load\<close>, \<open>tss_load\<close> and \<open>enable_paging\<close> set: the
  descriptor table register, the task register and the paging bit of \<open>cr0\<close>.
\<close>

record 'd kernel_machine = "'d sys_machine" +
  gdt_real :: "u8 list list"
  gdtr_base :: u32
  gdtr_size :: u16
  kernel_tss :: tss
  task_register :: u16
  paging_enabled :: bool

text \<open>Addresses the linker chooses.\<close>

record kernel_symbols = symbols +
  sym_tss :: u32
  sym_gdt_real :: u32

definition c_string :: "string \<Rightarrow> u8 list" where
  "c_string s = map (of_nat \<circ> of_char) s @ [0]"

definition newline :: string where
  "newline = [CHR 0x0A]"

definition gdt_setup :: "u32 \<Rightarrow> u32 \<Rightarrow> ('d, 'a) kernel_machine_scheme \<Rightarrow> ('d, 'a) kernel_machine_scheme exec" where
  "gdt_setup tss_address gdt_address st =
     bindx (gdt_structured_to_gdt (gdt_structured_table tss_address)) (\<lambda>g.
       Ret (st\<lparr>gdt_real := g, gdtr_base := gdt_address, gdtr_size := 8 * MAEROS_TOTAL_GDT_SEGMENTS\<rparr>))"

text \<open>The local variable \<open>arguments\<close> is at \<open>local_buffer\<close>: 512 bytes of text and the next pointer.\<close>

definition set_argument :: "string \<Rightarrow> ('d, 'a) kernel_machine_scheme \<Rightarrow> ('d, 'a) kernel_machine_scheme" where
  "set_argument s st =
     st\<lparr>pmem := store32 (mem_write (pmem st) (local_buffer st) (c_string s)) (local_buffer st + 512) 0\<rparr>"

text \<open>One of the two programs: load it, print, and hand it its name as the argument.\<close>

definition load_program ::
  "'d ports \<Rightarrow> nat \<Rightarrow> string \<Rightarrow> string \<Rightarrow> ('d, 'a) kernel_machine_scheme \<Rightarrow> ('d, 'a) kernel_machine_scheme exec" where
  "load_program io fuel path name st =
     bindx (process_load_switch io fuel (c_string path) st) (\<lambda>(ret, process, st).
       if ret \<noteq> MAEROS_ALL_OK then Trap (Panic (''Failed to load process file '' @ newline))
       else bindx (print (c_string (''user program is loaded '' @ newline)) st) (\<lambda>st.
         let st = set_argument name st
         in bindx (process_inject_arguments fuel process (local_buffer st) st) (\<lambda>(_, st). Ret st)))"

definition kernel_main ::
  "'d ports \<Rightarrow> nat \<Rightarrow> kernel_symbols \<Rightarrow> ('d, 'a) kernel_machine_scheme \<Rightarrow> (registers \<times> ('d, 'a) kernel_machine_scheme) exec" where
  "kernel_main io fuel syms st =
     bindx (print (c_string (''Kernel Start'' @ newline)) (terminal_initialize st)) (\<lambda>st.
     bindx (gdt_setup (sym_tss syms) (sym_gdt_real syms) st) (\<lambda>st.
     bindx (print (c_string (''GDT Loaded '' @ newline)) st) (\<lambda>st.
       let (msg, st) = kheap_init st
       in bindx (if msg = '''' then Ret st else print (c_string (msg @ newline)) st) (\<lambda>st.
     bindx (print (c_string (''kernel heap initialized '' @ newline)) st) (\<lambda>st.
     bindx (fs_init st) (\<lambda>st.
     bindx (print (c_string (''file system init '' @ newline)) st) (\<lambda>st.
     bindx (disk_search_and_init io fuel st) (\<lambda>st.
     bindx (print (c_string (''disk search and init '' @ newline)) st) (\<lambda>st.
     bindx (print (c_string (''idt '' @ newline)) (idt_init (symbols.truncate syms) st)) (\<lambda>st.
       let st = st\<lparr>kernel_tss := zero_tss\<lparr>esp0 := 0x600000, ss0 := KERNEL_DATA_SELECTOR\<rparr>, task_register := 0x28\<rparr>
       in bindx (print (c_string (''TSSegment loaded '' @ newline)) st) (\<lambda>st.
       let (chunk, st) = paging_new_4gb (PAGING_IS_WRITEABLE OR PAGING_IS_PRESENT OR PAGING_ACCESS_FROM_ALL) st;
           st = paging_switch chunk (st\<lparr>kernel_chunk := chunk\<rparr>)
       in bindx (print (c_string (''Paging is set '' @ newline)) st) (\<lambda>st.
     bindx (print (c_string (''Enable paging '' @ newline)) (st\<lparr>paging_enabled := True\<rparr>)) (\<lambda>st.
     bindx (isr80h_register_commands st) (\<lambda>st.
     bindx (print (c_string (''Register kernel syscalls '' @ newline)) st) (\<lambda>st.
     bindx (keyboard_init io st) (\<lambda>st.
     bindx (print (c_string (''Initialize keyboard '' @ newline)) st) (\<lambda>st.
     bindx (load_program io fuel ''0:/blank.elf'' ''Blank'' st) (\<lambda>st.
     bindx (load_program io fuel ''0:/shell.elf'' ''Shell'' st) (\<lambda>st.
       task_run_first_ever_task st)))))))))))))))))))"

end
