(* ===== verification/Preemption.thy ===== *)
theory Preemption
  imports Syscalls
begin

text \<open>
  Interrupts from the point of view of the tasks: the timer interrupt as a step relation, and the contexts the
  tasks resume with.
\<close>

section \<open>The timer\<close>

text \<open>The registers an interrupt frame holds.\<close>

definition frame_registers :: "interrupt_frame \<Rightarrow> registers" where
  "frame_registers f = \<lparr>r_edi = i_edi f, r_esi = i_esi f, r_ebp = i_ebp f, r_ebx = i_ebx f, r_edx = i_edx f,
     r_ecx = i_ecx f, r_eax = i_eax f, r_ip = i_ip f, r_cs = i_cs f, r_flags = i_flags f, r_esp = i_esp f, r_ss = i_ss f\<rparr>"

text \<open>
  Runs from a state: each step is a timer interrupt that finds the current task with some frame, or an instruction
  that changes the flags of the processor. The trace has the interrupted tasks with their frames.
\<close>

inductive clocked ::
  "'d ports \<Rightarrow> ('d, 'a) sys_machine_scheme \<Rightarrow> (u32 \<times> interrupt_frame) list \<Rightarrow> ('d, 'a) sys_machine_scheme \<Rightarrow> bool"
  for io st0 where
  clocked_start: "clocked io st0 [] st0"
| clocked_tick: "clocked io st0 tr st \<Longrightarrow> interrupt_handler io 0x20 frame st = Ret (Enter r, st') \<Longrightarrow>
    clocked io st0 (tr @ [(current_task st, frame)]) st'"
| clocked_flags: "clocked io st0 tr st \<Longrightarrow> clocked io st0 tr (st\<lparr>kernel_flags := w\<rparr>)"

text \<open>The timer is registered, and the current task is one of a ring of tasks.\<close>

definition scheduled :: "('d, 'a) sys_machine_scheme \<Rightarrow> u32 list \<Rightarrow> bool" where
  "scheduled st ts \<longleftrightarrow> 0x20 < length (interrupt_callbacks st) \<and> interrupt_callbacks st ! 0x20 = Some Idt_clock \<and>
     task_ring st ts \<and> current_task st \<in> set ts"

text \<open>
  The context of a task after a trace: the registers it was interrupted with the last time, or the ones it had
  at the start.
\<close>

definition context_of :: "('d, 'a) sys_machine_scheme \<Rightarrow> (u32 \<times> interrupt_frame) list \<Rightarrow> u32 \<Rightarrow> registers" where
  "context_of st0 tr t =
     (let fs = filter (\<lambda>(u, f). u = t) tr
      in if fs = [] then t_registers (the (tasks st0 t)) else frame_registers (snd (last fs)))"

lemma context_of_Nil: "context_of st0 [] t = t_registers (the (tasks st0 t))"
  by (simp add: context_of_def)

lemma context_of_snoc: "context_of st0 (tr @ [(u, f)]) t = (if t = u then frame_registers f else context_of st0 tr t)"
  by (simp add: context_of_def)

text \<open>One timer interrupt.\<close>

lemma clock_run_at:
  assumes "scheduled st ts" and i: "i < length ts" "current_task st = ts ! i"
  defines "n \<equiv> ts ! ((i + 1) mod length ts)"
  shows "\<exists>x r st'. n \<in> set ts \<and> interrupt_handler io 0x20 frame st = Ret (Enter r, st') \<and> scheduled st' ts \<and>
    current_task st' = n \<and> tasks st (current_task st) = Some x \<and>
    tasks st' = (tasks st)(current_task st \<mapsto> x\<lparr>t_registers := frame_registers frame\<rparr>) \<and>
    (\<exists>y. tasks st' n = Some y \<and> r = (t_registers y)\<lparr>r_flags := kernel_flags st OR 0x200\<rparr>)"
proof -
  have S: "0x20 < length (interrupt_callbacks st)" "interrupt_callbacks st ! 0x20 = Some Idt_clock"
    "task_ring st ts" "current_task st \<in> set ts"
    using assms(1) by (simp_all add: scheduled_def)
  have f: "fwd (tasks st) (task_head st) ts 0" using S(3) by (simp add: task_ring_def)
  obtain x where x: "tasks st (current_task st) = Some x" "current_task st \<noteq> 0" using fwd_live [OF f S(4)] by auto
  define st1 where "st1 = outb io 0x20 0x20 ((kernel_page st)\<lparr>tasks := (tasks st)(current_task st \<mapsto> x\<lparr>t_registers := frame_registers frame\<rparr>)\<rparr>)"
  have "fwd (tasks st1) (task_head st) ts 0"
    by (rule fwd_cong [OF f]) (auto simp: st1_def outb_def kernel_page_def paging_switch_def x)
  then have ring: "task_ring st1 ts" by (simp add: task_ring_def st1_def outb_def kernel_page_def paging_switch_def)
  have cur: "current_task st1 = ts ! i" using i(2) by (simp add: st1_def outb_def kernel_page_def paging_switch_def)
  have "(i + 1) mod length ts < length ts" using i(1) by (intro mod_less_divisor) (cases ts; simp)
  then have nts: "n \<in> set ts" by (simp add: n_def)
  obtain t where t: "tasks st1 n = Some t" "task_next st1 = Ret ((t_registers t)\<lparr>r_flags := kernel_flags st1 OR 0x200\<rparr>, (paging_switch (t_page_directory t) (st1\<lparr>current_task := n\<rparr>))
      \<lparr>data_segments := ucast (r_ss (t_registers t))\<rparr>)"
    using task_next_run [OF ring i(1) cur] unfolding n_def by blast
  let ?st' = "(paging_switch (t_page_directory t) (st1\<lparr>current_task := n\<rparr>))\<lparr>data_segments := ucast (r_ss (t_registers t))\<rparr>"
  have cb: "interrupt_callbacks (kernel_page st) = interrupt_callbacks st" by (simp add: kernel_page_def paging_switch_def)
  have "task_current_save_state frame (kernel_page st) =
      Ret ((kernel_page st)\<lparr>tasks := (tasks st)(current_task st \<mapsto> x\<lparr>t_registers := frame_registers frame\<rparr>)\<rparr>)"
    using x by (simp add: task_current_save_state_def task_save_state_def derefx_def frame_registers_def kernel_page_def paging_switch_def)
  moreover have fl: "kernel_flags st1 = kernel_flags st" by (simp add: st1_def outb_def kernel_page_def paging_switch_def)
  ultimately have "interrupt_handler io 0x20 frame st = Ret (Enter ((t_registers t)\<lparr>r_flags := kernel_flags st OR 0x200\<rparr>), ?st')"
    using S(1,2) t(2) by (simp add: interrupt_handler_def cb call_interrupt_callback_def idt_clock_def enter_def st1_def [symmetric])
  moreover have "scheduled ?st' ts" "tasks ?st' = tasks st1"
    using S(1,2) ring nts by (simp_all add: scheduled_def task_ring_def st1_def outb_def kernel_page_def paging_switch_def)
  moreover have "tasks st1 = (tasks st)(current_task st \<mapsto> x\<lparr>t_registers := frame_registers frame\<rparr>)"
    by (simp add: st1_def outb_def)
  ultimately show ?thesis
    using nts x(1) t(1) by (intro exI [of _ x] exI [of _ "(t_registers t)\<lparr>r_flags := kernel_flags st OR 0x200\<rparr>"] exI [of _ ?st']) (simp add: paging_switch_def)
qed

lemma clock_run:
  assumes "scheduled st ts"
  shows "\<exists>n x r st'. n \<in> set ts \<and> interrupt_handler io 0x20 frame st = Ret (Enter r, st') \<and> scheduled st' ts \<and>
    current_task st' = n \<and> tasks st (current_task st) = Some x \<and>
    tasks st' = (tasks st)(current_task st \<mapsto> x\<lparr>t_registers := frame_registers frame\<rparr>) \<and>
    (\<exists>y. tasks st' n = Some y \<and> r = (t_registers y)\<lparr>r_flags := kernel_flags st OR 0x200\<rparr>)"
proof -
  obtain i where "i < length ts" "current_task st = ts ! i" using assms by (auto simp: scheduled_def in_set_conv_nth)
  from clock_run_at [OF assms this, of io frame] show ?thesis by blast
qed

text \<open>Every task of the ring has its context.\<close>

lemma clocked_contexts:
  assumes "clocked io st0 tr st" and "scheduled st0 ts"
  shows "scheduled st ts \<and> (\<forall>t \<in> set ts. \<exists>x. tasks st t = Some x \<and> t_registers x = context_of st0 tr t)"
  using assms(1)
proof induction
  case clocked_start
  have "\<exists>x. tasks st0 t = Some x" if "t \<in> set ts" for t
    using assms(2) that fwd_live [of "tasks st0" "task_head st0" ts 0 t] by (auto simp: scheduled_def task_ring_def)
  then show ?case using assms(2) by (fastforce simp: context_of_Nil)
next
  case (clocked_tick tr st frame r st')
  then obtain x where "scheduled st' ts" "tasks st (current_task st) = Some x"
    "tasks st' = (tasks st)(current_task st \<mapsto> x\<lparr>t_registers := frame_registers frame\<rparr>)"
    using clock_run [of st ts io frame] by auto
  with clocked_tick.IH show ?case by (auto simp: context_of_snoc)
next
  case (clocked_flags tr st w)
  then show ?case by (simp add: scheduled_def task_ring_def)
qed

section \<open>System calls\<close>

text \<open>What a system call that comes back leaves of the entry and the exit: the registers are saved, and the page directory and segments of the task are loaded.\<close>

definition resumed :: "interrupt_frame \<Rightarrow> task \<Rightarrow> ('d, 'a) sys_machine_scheme \<Rightarrow> ('d, 'a) sys_machine_scheme" where
  "resumed frame x st = (paging_switch (t_page_directory x) st)
     \<lparr>tasks := (tasks st)(current_task st \<mapsto> x\<lparr>t_registers := frame_registers frame\<rparr>), data_segments := 0x23\<rparr>"

text \<open>The state in which a command runs.\<close>

definition entered :: "interrupt_frame \<Rightarrow> task \<Rightarrow> ('d, 'a) sys_machine_scheme \<Rightarrow> ('d, 'a) sys_machine_scheme" where
  "entered frame x st = (kernel_page st)\<lparr>tasks := (tasks st)(current_task st \<mapsto> x\<lparr>t_registers := frame_registers frame\<rparr>)\<rparr>"

lemma handler_run:
  assumes "tasks st (current_task st) = Some x" and "current_task st \<noteq> 0"
  shows "isr80h_handler io fuel command frame st =
    bindx (isr80h_handle_command io fuel command (entered frame x st)) (\<lambda>(f, st).
      case f of Enter r \<Rightarrow> Ret (Enter r, st) | Resume res \<Rightarrow> bindx (task_page st) (\<lambda>st. Ret (Resume res, st)))"
proof -
  have "task_current_save_state frame (kernel_page st) = Ret (entered frame x st)"
    using assms by (simp add: task_current_save_state_def task_save_state_def derefx_def frame_registers_def kernel_page_def
        paging_switch_def entered_def)
  then show ?thesis by (simp add: isr80h_handler_def)
qed

lemma task_page_back_run:
  assumes "tasks st (current_task st) = Some x" and "current_task st \<noteq> 0"
  shows "task_page (entered frame x st) = Ret (resumed frame x st)"
  using assms by (simp add: task_page_def user_registers_def task_switch_def derefx_def entered_def kernel_page_def
      paging_switch_def resumed_def Let_def)

lemma strncpy_overflow:
  assumes "i \<le> length dest" and "length dest - i \<le> length (cstr src)" and "length dest - i \<le> n" and "terminated src"
  shows "strncpy_loop n dest i src = Trap Fault"
  using assms
proof (induction n arbitrary: dest i src)
  case 0
  then show ?case by (simp add: put_byte_def)
next
  case (Suc n)
  then obtain c cs where c: "src = c # cs" by (cases src) (auto simp: terminated_def)
  show ?case
  proof (cases "c = 0 \<or> i = length dest")
    case True
    then show ?thesis using Suc.prems c by (auto simp: put_byte_def)
  next
    case False
    then have "strncpy_loop n (dest[i := c]) (Suc i) cs = Trap Fault"
      using Suc.prems c by (intro Suc.IH) (auto simp: terminated_def)
    with False Suc.prems c show ?thesis by (auto simp: put_byte_def)
  qed
qed

lemma path_prefix_run: "\<exists>path. path_prefix = Ret path \<and> length path = 108"
  by (simp add: path_prefix_def strcpy_def put_byte_def)

section \<open>Properties\<close>

definition demo_clock :: "ata sys_machine" where
  "demo_clock = file_machine.extend
     (fat_machine.extend (demo_volume\<lparr>tasks := tasks demo_ring, task_head := 1, task_tail := 3, current_task := 1,
        interrupt_callbacks := (replicate 512 None)[0x20 := Some Idt_clock]\<rparr>)
      (file_machine.fields Map.empty [] Map.empty []))
     (sys_machine.fields 0)"

definition demo_frame :: "u32 \<Rightarrow> interrupt_frame" where
  "demo_frame ip = \<lparr>i_edi = 0, i_esi = 0, i_ebp = 0, i_reserved = 0, i_ebx = 0, i_edx = 0, i_ecx = 0, i_eax = 0, i_ip = ip,
     i_cs = 0x1b, i_flags = 0x202, i_esp = 0x3FF000, i_ss = 0x23\<rparr>"

text \<open>
  C7. Preemption. While the timer runs a ring of tasks, whatever frames the interrupts find, every further timer
  interrupt enters a task of the ring, and enters it with the general registers, the instruction and stack pointers and
  the segments that task had when it was interrupted the last time, or with its first ones if it never was: no task
  ever sees these registers of another. The flags are not restored: the task is entered with those the kernel happens
  to have and the interrupt bit. The invariant behind it is proved by induction over the runs.
\<close>

theorem preemption_restores:
  assumes "scheduled st0 ts" and "clocked io st0 tr st"
  shows "\<exists>r st'. interrupt_handler io 0x20 frame st = Ret (Enter r, st') \<and> current_task st' \<in> set ts \<and>
    r = (context_of st0 (tr @ [(current_task st, frame)]) (current_task st'))\<lparr>r_flags := kernel_flags st OR 0x200\<rparr>"
proof -
  have "scheduled st ts" using clocked_contexts [OF assms(2,1)] by blast
  then obtain r st' where st': "interrupt_handler io 0x20 frame st = Ret (Enter r, st')" "current_task st' \<in> set ts"
    "\<exists>y. tasks st' (current_task st') = Some y \<and> r = (t_registers y)\<lparr>r_flags := kernel_flags st OR 0x200\<rparr>"
    using clock_run [of st ts io frame] by metis
  then have "clocked io st0 (tr @ [(current_task st, frame)]) st'" using assms(2) by (intro clocked_tick)
  then show ?thesis using clocked_contexts [OF _ assms(1)] st' by fastforce
qed

lemma demo_scheduled: "scheduled demo_clock [1, 2, 3]"
  by (simp add: scheduled_def task_ring_def demo_clock_def demo_ring_def zero_task_def file_machine.extend_def
      fat_machine.extend_def file_machine.fields_def sys_machine.fields_def demo_volume_def disk_machine.extend_def
      fat_machine.fields_def demo_disk_def)

theorem preemption_restores_witness:
  "\<exists>r st'. interrupt_handler (sim_ports []) 0x20 (demo_frame 0x400010) demo_clock = Ret (Enter r, st') \<and> current_task st' \<in> {1, 2, 3}"
  using preemption_restores [OF demo_scheduled clocked_start, of "sim_ports []" "demo_frame 0x400010"] by auto

text \<open>
  Unknown system calls. A command number that is out of range or has no entry in the table changes nothing:
  the call returns zero to the task, in its own address space, with the registers of the frame saved and
  memory and every other part of the kernel as before.
\<close>

lemma isr80h_unknown_command:
  assumes "tasks st (current_task st) = Some x" and "current_task st \<noteq> 0"
    and "command < 0 \<or> 1024 \<le> command \<or> isr80h_commands st ! nat command = None"
  shows "isr80h_handler io fuel command frame st = Ret (Resume 0, resumed frame x st)"
proof -
  have "isr80h_commands (entered frame x st) = isr80h_commands st" by (simp add: entered_def kernel_page_def paging_switch_def)
  then have "isr80h_handle_command io fuel command (entered frame x st) = Ret (Resume 0, entered frame x st)"
    using assms(3) by (auto simp: isr80h_handle_command_def)
  then show ?thesis using handler_run [OF assms(1,2)] task_page_back_run [OF assms(1,2)] by simp
qed

text \<open>
  A task with one page, at 0x3000, for its first addresses; its stack has the words 0x10 and 7, and at 0x10 stands
  a name of 105 characters.
\<close>

definition demo_pages :: mem where
  "demo_pages = (\<lambda>a. if 0x3010 \<le> a \<and> a < 0x3079 then 0x61 else 0)
     (1 := 0x10, 0x1000 := 1, 0x1001 := 0x20, 0x2000 := 1, 0x2001 := 0x30, 0x3000 := 0x10, 0x3004 := 7)"

definition demo_user :: "ata sys_machine" where
  "demo_user = demo_clock\<lparr>pmem := demo_pages, data_segments := 0x10, cr3 := 0x1000, current_directory := 0x1000,
     isr80h_commands := [Some Isr80h_command0_sum]\<rparr>"

lemma demo_user_simps:
  "tasks demo_user 1 = Some (zero_task\<lparr>t_next := 2\<rparr>)" "current_task demo_user = 1" "pmem demo_user = demo_pages"
  "isr80h_commands demo_user = [Some Isr80h_command0_sum]" "kernel_chunk demo_user = 0"
  by (simp_all add: demo_user_def demo_clock_def demo_ring_def file_machine.extend_def
      fat_machine.extend_def file_machine.fields_def sys_machine.fields_def demo_volume_def disk_machine.extend_def
      fat_machine.fields_def demo_disk_def)

lemma demo_translate:
  assumes "cr3 st = 0x1000" and "pmem st = demo_pages" and "unat v < 4096"
  shows "translate st v = Ret (0x3000 + v)"
proof -
  have "dir_index v = 0" "tab_index v = 0" using assms(3) by (simp_all add: dir_index_def tab_index_def)
  moreover have "load32 demo_pages 0x1000 = 0x2001" "load32 demo_pages 0x2000 = 0x3001" by (simp_all add: load32_def demo_pages_def)
  moreover have "of_nat (unat v mod 4096) = v" using assms(3) by simp
  ultimately show ?thesis using assms(1,2) by (simp add: translate_def cell_def Let_def)
qed

lemma demo_user_page:
  "paging_switch 0 demo_user = demo_user"
  "kernel_page demo_user = demo_user" "task_page_task 1 demo_user = Ret (demo_user\<lparr>data_segments := 0x23\<rparr>)"
  "kernel_page (demo_user\<lparr>data_segments := 0x23\<rparr>) = demo_user"
proof -
  have d: "directory_entry demo_pages 0 = 0x1000" by (simp add: directory_entry_def load32_def demo_pages_def)
  have e: "cr3 demo_user = 0x1000" "current_directory demo_user = 0x1000" "data_segments demo_user = 0x10" by (simp_all add: demo_user_def)
  show *: "paging_switch 0 demo_user = demo_user"
    using d e demo_user_simps by (simp add: paging_switch_def)
  show "kernel_page demo_user = demo_user" "task_page_task 1 demo_user = Ret (demo_user\<lparr>data_segments := 0x23\<rparr>)"
    "kernel_page (demo_user\<lparr>data_segments := 0x23\<rparr>) = demo_user"
    using d e demo_user_simps by (simp_all add: kernel_page_def task_page_task_def user_registers_def derefx_def paging_switch_def zero_task_def)
qed

lemma demo_load:
  "vload32 (demo_user\<lparr>data_segments := x\<rparr>) 0 = Ret 0x10" "vload32 (paging_switch 0 demo_user) 0 = Ret 0x10"
  "vload32 (paging_switch 0 demo_user) 4 = Ret 7"
  using demo_user_simps demo_user_page
  by (simp_all add: vload32_def vload_def demo_translate demo_user_def demo_pages_def)

lemma demo_name: "mem_bytes demo_pages 0x3010 512 = replicate 105 0x61 @ 0 # replicate 406 0"
proof (rule nth_equalityI)
  fix i assume "i < length (mem_bytes demo_pages 0x3010 512)"
  then have i: "i < 512" by simp
  then have u: "unat (0x3010 + of_nat i :: u32) = 0x3010 + i" by (simp add: unat_word_ariths unat_of_nat)
  have "(0x3010 + of_nat i :: u32) < 0x3079 \<longleftrightarrow> i < 105" "(0x3010 :: u32) \<le> 0x3010 + of_nat i"
    using u by (simp_all add: word_less_nat_alt word_le_nat_alt)
  moreover have "(0x3010 + of_nat i :: u32) \<noteq> k" if "unat k \<le> 0x3004" for k using that u by auto
  ultimately have "demo_pages (0x3010 + of_nat i) = (if i < 105 then 0x61 else 0)"
    by (auto simp: demo_pages_def)
  then show "mem_bytes demo_pages 0x3010 512 ! i = (replicate 105 0x61 @ 0 # replicate 406 0) ! i"
    using i by (auto simp: mem_bytes_def nth_append nth_Cons')
qed simp

text \<open>
  A system call with arguments. Command 0 reads its two arguments through the page directory of the calling
  task from the stack the frame names, returns their sum modulo \<open>2 ^ 32\<close>, and leaves the task in its own
  address space with everything but its saved registers as before.
\<close>

lemma isr80h_sum_command:
  assumes "tasks st (current_task st) = Some x" and "current_task st \<noteq> 0"
    and "isr80h_commands st ! 0 = Some Isr80h_command0_sum"
    and "vload32 (paging_switch (t_page_directory x) st) (i_esp frame) = Ret v1"
    and "vload32 (paging_switch (t_page_directory x) st) (i_esp frame + 4) = Ret v2"
  shows "isr80h_handler io fuel 0 frame st = Ret (Resume (v1 + v2), resumed frame x st)"
proof -
  let ?e = "entered frame x st"
  have e: "isr80h_commands ?e = isr80h_commands st" "current_task ?e = current_task st"
    "tasks ?e (current_task st) = Some (x\<lparr>t_registers := frame_registers frame\<rparr>)"
    by (simp_all add: entered_def kernel_page_def paging_switch_def)
  have load: "vload32 (paging_switch (t_page_directory x) (user_registers ?e)) a = vload32 (paging_switch (t_page_directory x) st) a" for a
    by (simp add: vload32_def vload_def translate_def entered_def kernel_page_def paging_switch_def user_registers_def)
  have home: "kernel_page (paging_switch (t_page_directory x) (user_registers ?e)) = ?e"
    by (simp add: entered_def kernel_page_def paging_switch_def user_registers_def)
  have item: "task_get_stack_item (current_task st) k ?e =
      bindx (vload32 (paging_switch (t_page_directory x) st) (i_esp frame + 4 * word_of_int k)) (\<lambda>v. Ret (v, ?e))" for k
  proof -
    have "tasks (user_registers ?e) = tasks ?e" by (simp add: user_registers_def)
    then have "task_page_task (current_task st) ?e = Ret (paging_switch (t_page_directory x) (user_registers ?e))"
      using e(3) by (simp add: task_page_task_def derefx_def Let_def)
    then show ?thesis using e(3) by (simp add: task_get_stack_item_def derefx_def Let_def load home frame_registers_def)
  qed
  have "isr80h_handle_command io fuel 0 ?e = Ret (Resume (v1 + v2), ?e)"
    using e assms(3-5) item [of 0] item [of 1]
    by (simp add: isr80h_handle_command_def call_isr80h_command_def isr80h_command0_sum_def)
  then show ?thesis using handler_run [OF assms(1,2)] task_page_back_run [OF assms(1,2)] by simp
qed

text \<open>
  C38. Long program names. Command 7 copies the name of the program behind the prefix \<open>0:/\<close> with the size of the
  whole array as the bound, so a name of 105 or more characters is stored past the end of the array.
\<close>

theorem isr80h_invoke_overflows:
  assumes "task_get_stack_item (current_task st) 0 st = Ret (p, st1)"
    and "task_virtual_address_to_physical (current_task st1) p st1 = Ret a" and "a \<noteq> 0"
    and "terminated (mem_bytes (pmem st1) a 512)" and "105 \<le> length (cstr (mem_bytes (pmem st1) a 512))"
  shows "isr80h_command7_invoke_system_command io fuel st = Trap Fault"
proof -
  obtain path where path: "path_prefix = Ret path" "length path = 108" using path_prefix_run by blast
  have "strncpy_loop 107 path 3 (mem_bytes (pmem st1) a 512) = Trap Fault"
    using path(2) assms(4,5) by (intro strncpy_overflow) simp_all
  moreover have "cstr (mem_bytes (pmem st1) a 512) \<noteq> []" using assms(5) by auto
  ultimately show ?thesis
    using assms(1-4) by (simp add: isr80h_command7_invoke_system_command_def strlen_run Let_def path(1))
qed

theorem isr80h_invoke_overflows_witness:
  "isr80h_command7_invoke_system_command (sim_ports []) 1 demo_user = Trap Fault"
proof -
  have "task_virtual_address_to_physical 1 0x10 demo_user = Ret 0x3010"
    using demo_user_simps by (simp add: task_virtual_address_to_physical_def derefx_def paging_get_physical_address_def paging_get_def
        paging_align_to_lower_page_def paging_get_indexes_def paging_is_aligned_def directory_entry_def zero_task_def
        demo_pages_def load32_def Let_def)
  moreover have "task_get_stack_item 1 0 demo_user = Ret (0x10, demo_user)"
    using demo_user_simps demo_load(1) by (simp add: task_get_stack_item_def derefx_def demo_user_page zero_task_def zero_registers_def)
  ultimately show ?thesis
    using isr80h_invoke_overflows [of demo_user "0x10" demo_user "0x3010" "sim_ports []" 1] demo_user_simps demo_name
    by (simp add: cstr_append terminated_def)
qed

end
