(* ===== verification/File_Access.thy ===== *)
theory File_Access
  imports File
begin

text \<open>
  Files through the whole stack: from the text of a path through the parser, the file system and the descriptor
  table to the bytes on the disk, and back to the heap when the file is closed. Each step states what it does to
  the allocations and that it leaves the contents of all live allocations alone.
\<close>

section \<open>Live memory\<close>

text \<open>The bytes of the allocations of \<open>A\<close> are the same in both memories.\<close>

definition keeps_live :: "allocs \<Rightarrow> mem \<Rightarrow> mem \<Rightarrow> bool" where
  "keeps_live A m m' \<longleftrightarrow> (\<forall>b n a. A b = Some n \<longrightarrow> in_blocks b n a \<longrightarrow> m' a = m a)"

lemma keeps_live_refl [simp]: "keeps_live A m m"
  by (simp add: keeps_live_def)

lemma keeps_live_trans: "keeps_live A m m' \<Longrightarrow> keeps_live A' m' m'' \<Longrightarrow> A \<subseteq>\<^sub>m A' \<Longrightarrow> keeps_live A m m''"
  unfolding keeps_live_def map_le_def by (metis domI)

lemma keeps_live_le: "keeps_live A' m m' \<Longrightarrow> A \<subseteq>\<^sub>m A' \<Longrightarrow> keeps_live A m m'"
  using keeps_live_trans [of A m m A' m'] by simp

lemma map_le_fresh: "A f = None \<Longrightarrow> A \<subseteq>\<^sub>m A(f \<mapsto> n)"
  by (auto simp: map_le_def)

lemma map_le_grant: "(\<And>f. f \<in> F \<Longrightarrow> A f = None) \<Longrightarrow> A \<subseteq>\<^sub>m grant A F"
  by (auto simp: map_le_def grant_def)

lemma keeps_live_bytes:
  assumes "keeps_live A m m'" and "allocs_wf KBLOCKS A" and "A b = Some n" and "k + l \<le> n * 4096"
  shows "mem_bytes m' (kblock b + of_nat k) l = mem_bytes m (kblock b + of_nat k) l"
proof -
  have wf: "b + n \<le> KBLOCKS" using allocs_wfD(2) [OF assms(2,3)] .
  have "m' (kblock b + of_nat (k + i)) = m (kblock b + of_nat (k + i))" if "i < l" for i
  proof -
    have "unat (kblock b) + (k + i) < 2 ^ 32" "unat (kblock b) = 0x01000000 + b * 4096"
      using wf that assms(4) unat_kblock [of b] by simp_all
    then have "unat (kblock b + of_nat (k + i)) = 0x01000000 + b * 4096 + (k + i)"
      by (simp add: unat_word_ariths unat_of_nat del: of_nat_add)
    then have "in_blocks b n (kblock b + of_nat (k + i))" using that assms(4) by (simp add: in_blocks_def algebra_simps)
    then show ?thesis using assms(1,3) unfolding keeps_live_def by blast
  qed
  then show ?thesis by (simp add: mem_bytes_def add.assoc)
qed

lemma kzalloc_live:
  assumes "kheap_rel st A" and "0 < blocks_for sz" and "fits A KBLOCKS (blocks_for sz) s"
  shows "\<exists>f m. kzalloc sz st = (kblock f, st\<lparr>pmem := m\<rparr>) \<and> fits A KBLOCKS (blocks_for sz) f \<and> A f = None \<and> f < KBLOCKS \<and>
    kheap_rel (st\<lparr>pmem := m\<rparr>) (A(f \<mapsto> blocks_for sz)) \<and> keeps_live A (pmem st) m"
proof -
  obtain f m where F: "kzalloc sz st = (kblock f, st\<lparr>pmem := m\<rparr>)" "fits A KBLOCKS (blocks_for sz) f"
    "kheap_rel (st\<lparr>pmem := m\<rparr>) (A(f \<mapsto> blocks_for sz))"
    using kzalloc_run [OF assms] by blast
  have "keeps_live A (pmem st) m"
    using kz.alloc_keeps_live [OF assms] F(1) unfolding keeps_live_def by simp
  moreover have "f < KBLOCKS" using F(2) assms(2) by (simp add: fits_def)
  ultimately show ?thesis using F fits_fresh [OF kheap_rel_wf [OF assms(1)] F(2) assms(2)] by blast
qed

lemma kzalloc_live_one:
  assumes "kheap_rel st A" and "0 < unat sz" and "unat sz \<le> 4096" and "0 < free_blocks A"
  shows "\<exists>f m. kzalloc sz st = (kblock f, st\<lparr>pmem := m\<rparr>) \<and> A f = None \<and> f < KBLOCKS \<and>
    kheap_rel (st\<lparr>pmem := m\<rparr>) (A(f \<mapsto> 1)) \<and> free_blocks (A(f \<mapsto> 1)) = free_blocks A - 1 \<and> keeps_live A (pmem st) m"
proof -
  have one: "blocks_for sz = 1" using assms(2,3) by (rule blocks_for_one)
  obtain b where "fits A KBLOCKS (blocks_for sz) b" using free_blocks_fits [OF assms(4)] unfolding one ..
  then obtain f m where "kzalloc sz st = (kblock f, st\<lparr>pmem := m\<rparr>)" "fits A KBLOCKS 1 f" "A f = None" "f < KBLOCKS"
    "kheap_rel (st\<lparr>pmem := m\<rparr>) (A(f \<mapsto> 1))" "keeps_live A (pmem st) m"
    using kzalloc_live [OF assms(1), of sz b] one by auto
  then show ?thesis using free_blocks_one [OF kheap_rel_wf [OF assms(1)]] by blast
qed

lemma kfree_live:
  assumes "kheap_rel st A" and "A b = Some n"
  shows "kheap_rel (kfree (kblock b) st) (A(b := None))" "keeps_live A (pmem st) (pmem (kfree (kblock b) st))"
  using kfree_run [OF assms] in_blocks_data [OF allocs_wfD(2) [OF kheap_rel_wf [OF assms(1)]]]
  unfolding keeps_live_def by blast+

section \<open>A path with one component\<close>

lemma get_part_live:
  assumes "kheap_rel st A" and "0 < free_blocks A" and "terminated path" and "length w \<le> 108" and "w \<noteq> []"
    and w: "w = takeWhile (\<lambda>c. c \<noteq> 0x2F) (cstr path)"
  shows "\<exists>f m. pathparser_get_path_part path st =
      Ret (kblock f, rest_of path, st\<lparr>pmem := m, strings := (strings st)(kblock f \<mapsto> buffer w)\<rparr>) \<and>
    A f = None \<and> f < KBLOCKS \<and> kheap_rel (st\<lparr>pmem := m\<rparr>) (A(f \<mapsto> 1)) \<and>
    free_blocks (A(f \<mapsto> 1)) = free_blocks A - 1 \<and> keeps_live A (pmem st) m"
proof -
  obtain f m where F: "kzalloc 108 st = (kblock f, st\<lparr>pmem := m\<rparr>)" "A f = None" "f < KBLOCKS"
    "kheap_rel (st\<lparr>pmem := m\<rparr>) (A(f \<mapsto> 1))" "free_blocks (A(f \<mapsto> 1)) = free_blocks A - 1" "keeps_live A (pmem st) m"
    using kzalloc_live_one [OF assms(1), of 108] assms(2) by auto
  have "path_part_loop path 0 (replicate 108 0) = Ret (length w, buffer w, drop (length w) path)"
    using path_part_loop_run [OF assms(3), of 0 "replicate 108 0"] assms(4) by (simp add: w buffer_def Let_def)
  then show ?thesis
    using F assms(5) by (intro exI [of _ f] exI [of _ m]) (simp add: pathparser_get_path_part_def rest_of_def w)
qed

lemma get_part_empty_live:
  assumes "kheap_rel st A" and "0 < free_blocks A" and "terminated path"
    and "takeWhile (\<lambda>c. c \<noteq> 0x2F) (cstr path) = []"
  shows "\<exists>m. pathparser_get_path_part path st = Ret (0, rest_of path, st\<lparr>pmem := m\<rparr>) \<and> kheap_rel (st\<lparr>pmem := m\<rparr>) A \<and>
    keeps_live A (pmem st) m"
proof -
  obtain f m where F: "kzalloc 108 st = (kblock f, st\<lparr>pmem := m\<rparr>)" "A f = None" "f < KBLOCKS"
    "kheap_rel (st\<lparr>pmem := m\<rparr>) (A(f \<mapsto> 1))" "keeps_live A (pmem st) m"
    using kzalloc_live_one [OF assms(1), of 108] assms(2) by auto
  have A: "(A(f \<mapsto> 1))(f := None) = A" using F(2) by auto
  let ?s = "kfree (kblock f) (st\<lparr>pmem := m\<rparr>)"
  have "kheap_rel ?s A" "keeps_live (A(f \<mapsto> 1)) m (pmem ?s)" using kfree_live [OF F(4), of f 1] A by simp_all
  moreover from this(2) have "keeps_live A (pmem st) (pmem ?s)" using F(2,5) by (auto intro: keeps_live_trans map_le_fresh)
  moreover have "pathparser_get_path_part path st = Ret (0, rest_of path, ?s)"
    using F path_part_loop_run [OF assms(3), of 0 "replicate 108 0"] assms(4)
    by (simp add: pathparser_get_path_part_def rest_of_def)
  ultimately show ?thesis by (auto simp: kfree_def)
qed

text \<open>The state after parsing: the root in block \<open>r\<close>, its component in \<open>a\<close> and the text of the component in \<open>q\<close>.\<close>

definition parsed :: "mem \<Rightarrow> nat \<Rightarrow> nat \<Rightarrow> nat \<Rightarrow> int \<Rightarrow> u8 list \<Rightarrow> 'a path_machine_scheme \<Rightarrow> 'a path_machine_scheme" where
  "parsed m r a q drive w st = st\<lparr>pmem := m, strings := (strings st)(kblock q \<mapsto> buffer w),
     path_parts := (path_parts st)(kblock a \<mapsto> \<lparr>pp_part = kblock q, pp_next = 0\<rparr>),
     path_roots := (path_roots st)(kblock r \<mapsto> \<lparr>pr_drive_no = drive, pr_first = kblock a\<rparr>)\<rparr>"

lemma parse_single:
  assumes rel: "kheap_rel st A" and v: "valid_path path" and w: "components (drop 3 (cstr path)) = [w]" and free: "4 \<le> free_blocks A"
  shows "\<exists>r a q m. pathparser_parse path st = Ret (kblock r, parsed m r a q (uint (path ! 0) - 48) w st) \<and>
    distinct [r, a, q] \<and> {r, a, q} \<subseteq> {..<KBLOCKS} \<and> (\<forall>x \<in> {r, a, q}. A x = None) \<and>
    kheap_rel (st\<lparr>pmem := m\<rparr>) (grant A {r, a, q}) \<and> free_blocks (grant A {r, a, q}) = free_blocks A - 3 \<and>
    keeps_live A (pmem st) m"
proof -
  let ?d = "uint (path ! 0) - 48" and ?p = "drop 3 path"
  have t: "terminated path" "length (cstr path) \<le> 108" "isdigit (path ! 0)" using v by (simp_all add: valid_path_def)
  note p = valid_path_drop [OF v]
  have drive: "pathparser_get_drive_by_path path = Ret (?d, ?p)" "0 \<le> ?d"
    using v t isdigit_value [OF t(3)] by (simp_all add: pathparser_get_drive_by_path_def valid_format_run isdigit_iff)
  have W: "w = takeWhile (\<lambda>c. c \<noteq> 0x2F) (cstr ?p)" "w \<noteq> []" "components (drop (Suc (length w)) (cstr ?p)) = []"
    using w p(2) components.simps [of "cstr ?p"] by (auto simp: Let_def split: if_splits)
  have lw: "length w \<le> 108" using length_takeWhile_le [of _ "cstr ?p"] t(2) p(2) unfolding W(1) by (metis diff_le_self le_trans length_drop)
  have none: "takeWhile (\<lambda>c. c \<noteq> 0x2F) (cstr (rest_of ?p)) = []" "terminated (rest_of ?p)"
    using W(3) rest_of_cstr [OF p(1)] components.simps [of "drop (Suc (length w)) (cstr ?p)"]
    by (auto simp: Let_def W(1) [symmetric] split: if_splits)
  obtain r m1 where R: "kzalloc 8 st = (kblock r, st\<lparr>pmem := m1\<rparr>)" "A r = None" "r < KBLOCKS"
    "kheap_rel (st\<lparr>pmem := m1\<rparr>) (A(r \<mapsto> 1))" "free_blocks (A(r \<mapsto> 1)) = free_blocks A - 1" "keeps_live A (pmem st) m1"
    using kzalloc_live_one [OF rel, of 8] free by auto
  let ?s1 = "st\<lparr>pmem := m1, path_roots := (path_roots st)(kblock r \<mapsto> \<lparr>pr_drive_no = ?d, pr_first = 0\<rparr>)\<rparr>"
  obtain q m2 where Q: "pathparser_get_path_part ?p ?s1 =
      Ret (kblock q, rest_of ?p, ?s1\<lparr>pmem := m2, strings := (strings st)(kblock q \<mapsto> buffer w)\<rparr>)"
    "(A(r \<mapsto> 1)) q = None" "q < KBLOCKS" "kheap_rel (?s1\<lparr>pmem := m2\<rparr>) (A(r \<mapsto> 1, q \<mapsto> 1))"
    "free_blocks (A(r \<mapsto> 1, q \<mapsto> 1)) = free_blocks A - 2" "keeps_live (A(r \<mapsto> 1)) m1 m2"
    using get_part_live [of ?s1 "A(r \<mapsto> 1)" ?p w] R(4,5) free p(1) lw W(1,2) by (auto simp: kheap_rel_def)
  let ?s2 = "?s1\<lparr>pmem := m2, strings := (strings st)(kblock q \<mapsto> buffer w)\<rparr>"
  obtain a m3 where P: "kzalloc 8 ?s2 = (kblock a, ?s2\<lparr>pmem := m3\<rparr>)" "(A(r \<mapsto> 1, q \<mapsto> 1)) a = None" "a < KBLOCKS"
    "kheap_rel (?s2\<lparr>pmem := m3\<rparr>) (A(r \<mapsto> 1, q \<mapsto> 1, a \<mapsto> 1))" "free_blocks (A(r \<mapsto> 1, q \<mapsto> 1, a \<mapsto> 1)) = free_blocks A - 3"
    "keeps_live (A(r \<mapsto> 1, q \<mapsto> 1)) m2 m3"
    using kzalloc_live_one [of ?s2 "A(r \<mapsto> 1, q \<mapsto> 1)" 8] Q(4,5) free by (auto simp: kheap_rel_def)
  let ?s3 = "parsed m3 r a q ?d w st"
  have g: "A(r \<mapsto> 1, q \<mapsto> 1, a \<mapsto> 1) = grant A {r, a, q}" by (auto simp: grant_def)
  obtain m where M: "pathparser_get_path_part (rest_of ?p) ?s3 = Ret (0, rest_of (rest_of ?p), ?s3\<lparr>pmem := m\<rparr>)"
    "kheap_rel (?s3\<lparr>pmem := m\<rparr>) (grant A {r, a, q})" "keeps_live (grant A {r, a, q}) m3 m"
    using get_part_empty_live [of ?s3 "grant A {r, a, q}" "rest_of ?p"] P(4,5) free none unfolding g
    by (auto simp: kheap_rel_def parsed_def)
  have ne: "r \<noteq> q" "r \<noteq> a" "q \<noteq> a" "A q = None" "A a = None" using Q(2) P(2) R(2) by (auto split: if_splits)
  have "pathparser_parse_rest (kblock a) (rest_of ?p) ?s3 = Ret (?s3\<lparr>pmem := m\<rparr>)"
    by (subst pathparser_parse_rest.simps) (simp add: pathparser_parse_path_part_def M(1))
  moreover have "?s3\<lparr>pmem := m\<rparr> = parsed m r a q ?d w st" by (simp add: parsed_def)
  moreover have "?s3 = st\<lparr>strings := (strings st)(kblock q \<mapsto> buffer w), pmem := m3,
      path_parts := (path_parts st)(kblock a \<mapsto> \<lparr>pp_part = kblock q, pp_next = 0\<rparr>),
      path_roots := (path_roots st)(kblock r \<mapsto> \<lparr>pr_drive_no = ?d, pr_first = kblock a\<rparr>)\<rparr>" by (simp add: parsed_def)
  ultimately have "pathparser_parse path st = Ret (kblock r, parsed m r a q ?d w st)"
    using t drive R(1,3) Q(1,3) P(1,3)
    by (simp add: pathparser_parse_def strlen_run pathparser_create_root_def pathparser_parse_path_part_def derefx_def)
  moreover have "keeps_live A (pmem st) m"
  proof -
    have 1: "keeps_live A (pmem st) m2" using keeps_live_trans [OF R(6) Q(6) map_le_fresh [of A r]] R(2) by simp
    have "A \<subseteq>\<^sub>m A(r \<mapsto> 1, q \<mapsto> 1)" "A \<subseteq>\<^sub>m grant A {r, a, q}" using R(2) ne unfolding g [symmetric] by (auto simp: map_le_def)
    then show ?thesis using keeps_live_trans [OF keeps_live_trans [OF 1 P(6)] M(3)] by simp
  qed
  ultimately show ?thesis using R(2,3) Q(3) P(3,5) M(2) ne unfolding g
    by (intro exI [of _ r] exI [of _ a] exI [of _ q] exI [of _ m]) (auto simp: kheap_rel_def parsed_def)
qed

section \<open>An open file\<close>

text \<open>
  Entry \<open>i\<close> of the table is in use for the directory entry \<open>e\<close>: its descriptor is in block \<open>b\<close>, the descriptor of
  the file system in \<open>q\<close>, the item in \<open>f\<close> and the copy of the entry in \<open>c\<close>, all of them live.
\<close>

definition opened ::
  "('d, 'a) file_machine_scheme \<Rightarrow> allocs \<Rightarrow> nat \<Rightarrow> nat \<Rightarrow> nat \<Rightarrow> nat \<Rightarrow> nat \<Rightarrow> fat_directory_item \<Rightarrow> bool" where
  "opened st A i b q f c e \<longleftrightarrow> kheap_rel st A \<and> i < 511 \<and> length (file_descriptors st) = 512 \<and> file_descriptors st ! i = kblock b \<and>
     descriptor_objects st (kblock b) = Some \<lparr>fdesc_index = int i + 1, fdesc_filesystem = d_filesystem (the_disk st),
       fdesc_private = kblock q, fdesc_disk = disk_addr st\<rparr> \<and>
     fat_descriptors st (kblock q) = Some \<lparr>ff_item = kblock f, ff_pos = 0\<rparr> \<and>
     fat_items st (kblock f) = Some \<lparr>fi_ptr = kblock c, fi_type = FAT_ITEM_TYPE_FILE\<rparr> \<and> item_at (pmem st) (kblock c) = e \<and>
     distinct [b, q, f, c] \<and> (\<forall>x \<in> {b, q, f, c}. A x = Some 1)"

text \<open>The disk belongs to a file system.\<close>

definition served :: "('d, 'a) file_machine_scheme \<Rightarrow> bool" where
  "served st \<longleftrightarrow> disk_addr st \<noteq> 0 \<and> d_filesystem (the_disk st) \<noteq> 0 \<and> filesystem_objects st (d_filesystem (the_disk st)) \<noteq> None"

lemma live_bound: "kheap_rel st A \<Longrightarrow> A x = Some n \<Longrightarrow> 0 < n \<Longrightarrow> x < KBLOCKS"
  using allocs_wfD(2) [OF kheap_rel_wf] by fastforce

lemma opened_descriptor:
  assumes "opened st A i b q f c e"
  shows "file_get_descriptor (int i + 1) st = kblock b" "kblock b \<noteq> 0"
  using assms live_bound [of st A b 1] by (simp_all add: opened_def file_get_descriptor_def)

text \<open>A file stays open across a step that leaves the tables and the live memory alone.\<close>

lemma opened_live:
  assumes op: "opened st A i b q f c e" and rel: "kheap_rel st' A'" and le: "\<forall>x \<in> {b, q, f, c}. A' x = A x"
    and keep: "keeps_live (A |` {c}) (pmem st) (pmem st')"
    and same: "file_descriptors st' = file_descriptors st" "descriptor_objects st' = descriptor_objects st" "the_disk st' = the_disk st"
      "disk_addr st' = disk_addr st" "fat_descriptors st' = fat_descriptors st" "fat_items st' = fat_items st"
  shows "opened st' A' i b q f c e"
proof -
  have c: "(A |` {c}) c = Some 1" "allocs_wf KBLOCKS (A |` {c})"
    using op kheap_rel_wf [of st A] by (auto simp: opened_def allocs_wf_def restrict_map_def split: if_splits)
  have "mem_bytes (pmem st') (kblock c + of_nat 0) 32 = mem_bytes (pmem st) (kblock c + of_nat 0) 32"
    using keeps_live_bytes [OF keep c(2,1), of 0 32] by simp
  then have "item_at (pmem st') (kblock c) = item_at (pmem st) (kblock c)" by (simp add: item_at_def)
  then show ?thesis using op rel le same by (simp add: opened_def)
qed

lemma fstat_run:
  assumes "opened st A i b q f c e" and "served st"
  shows "fstat (int i + 1) st stat =
    Ret (0, \<lparr>fs_flags = (if fdi_attribute e AND FAT_FILE_READ_ONLY \<noteq> 0 then FILE_STAT_READ_ONLY else 0), fs_filesize = fdi_filesize e\<rparr>)"
  using opened_descriptor [OF assms(1)] assms
  by (auto simp: fstat_def opened_def served_def derefx_def call_stat_def fat16_stat_def Let_def split: fs_stat_function.split)

lemma fread_run:
  assumes conf: "ata_conforms io view img W" "W < fuel" "length img < 2 ^ 31"
    and op: "opened st A i b q f c e" and sv: "served st" and mnt: "fat_mounted st priv" and cl: "cl = sint (fat16_get_first_cluster e)"
    and n: "0 < n" "n \<le> nat (size_of_cluster_bytes priv (the_disk st))"
    and pos: "0 \<le> cl" "0 \<le> fat16_cluster_to_sector priv cl" "cluster_pos priv cl + n < 512 * (length img div 512)"
  shows "\<exists>d. fread io fuel out (of_nat n) 1 (int i + 1) st =
    Ret (1, st\<lparr>pmem := mem_write (pmem st) out (take n (drop (cluster_pos priv cl) img)), device := d,
      disk_streams := (disk_streams st)(fp_cluster_read_stream priv \<mapsto> \<lparr>ds_pos = int (cluster_pos priv cl + n), ds_disk = disk_addr st\<rparr>)\<rparr>)"
proof -
  have "512 * (length img div 512) \<le> length img" by simp
  then have small: "n < 2 ^ 31" using pos(3) conf(3) by linarith
  have h: "0 + n \<le> nat (size_of_cluster_bytes priv (the_disk st))" "0 < nat (size_of_cluster_bytes priv (the_disk st))"
    "cluster_pos priv cl + 0 + n < 512 * (length img div 512)" using n pos(3) by simp_all
  obtain d where R: "fat16_read_internal io fuel (disk_addr st) cl (int 0) (int n) out st =
      Ret (0, st\<lparr>pmem := mem_write (pmem st) out (take n (drop (cluster_pos priv cl + 0) img)), device := d,
        disk_streams := (disk_streams st)(fp_cluster_read_stream priv \<mapsto> \<lparr>ds_pos = int (cluster_pos priv cl + 0 + n), ds_disk = disk_addr st\<rparr>)\<rparr>)"
    using read_cluster_run [OF conf mnt h(1,2) pos(1,2) h(3), of out] by blast
  have O: "descriptor_objects st (kblock b) = Some \<lparr>fdesc_index = int i + 1, fdesc_filesystem = d_filesystem (the_disk st),
       fdesc_private = kblock q, fdesc_disk = disk_addr st\<rparr>" "fat_descriptors st (kblock q) = Some \<lparr>ff_item = kblock f, ff_pos = 0\<rparr>"
    "fat_items st (kblock f) = Some \<lparr>fi_ptr = kblock c, fi_type = FAT_ITEM_TYPE_FILE\<rparr>" "item_at (pmem st) (kblock c) = e"
    using op by (simp_all add: opened_def)
  obtain fs where fs: "filesystem_objects st (d_filesystem (the_disk st)) = Some fs" using sv by (auto simp: served_def)
  have "(of_nat n :: u32) \<noteq> 0" using small n(1) by (simp add: word_unat_eq_iff unat_of_nat)
  then have "fread io fuel out (of_nat n) 1 (int i + 1) st = fat16_read io fuel (disk_addr st) (kblock q) (of_nat n) 1 out st"
    using opened_descriptor [OF op] O(1) fs
    by (simp add: fread_def derefx_def call_read_def split: fs_read_function.split)
  moreover have "fat16_read io fuel (disk_addr st) (kblock q) (of_nat n) 1 out st =
    Ret (1, st\<lparr>pmem := mem_write (pmem st) out (take n (drop (cluster_pos priv cl) img)), device := d,
      disk_streams := (disk_streams st)(fp_cluster_read_stream priv \<mapsto> \<lparr>ds_pos = int (cluster_pos priv cl + n), ds_disk = disk_addr st\<rparr>)\<rparr>)"
    using R O(2-4) cl small by (simp add: fat16_read_def derefx_def sint_of_nat_small)
  ultimately show ?thesis by auto
qed

text \<open>Bytes that are written into a live allocation.\<close>

lemma write_live:
  assumes rel: "kheap_rel st A" and x: "A x = Some k" "length bs \<le> k * 4096"
  shows "kheap_rel (st\<lparr>pmem := mem_write (pmem st) (kblock x) bs\<rparr>) A"
    "keeps_live (A(x := None)) (pmem st) (mem_write (pmem st) (kblock x) bs)"
    "mem_bytes (mem_write (pmem st) (kblock x) bs) (kblock x) (length bs) = bs"
proof -
  have wf: "x + k \<le> KBLOCKS" using allocs_wfD(2) [OF kheap_rel_wf [OF rel] x(1)] .
  have len: "length bs \<le> 2 ^ 32" using wf x(2) by simp
  have off: "mem_write (pmem st) (kblock x) bs a = pmem st a" if "\<not> in_blocks x k a" for a
    using in_range_blocks [OF wf x(2)] that mem_write_apply [OF len] by metis
  show "kheap_rel (st\<lparr>pmem := mem_write (pmem st) (kblock x) bs\<rparr>) A"
    using in_blocks_data [OF wf] off by (intro kheap_rel_upd [OF rel]) blast
  show "keeps_live (A(x := None)) (pmem st) (mem_write (pmem st) (kblock x) bs)"
    unfolding keeps_live_def using off kz.live_disjoint [OF rel _ x(1)] by (metis fun_upd_apply option.distinct(1))
  show "mem_bytes (mem_write (pmem st) (kblock x) bs) (kblock x) (length bs) = bs" using len by (rule mem_bytes_write)
qed

text \<open>Closing releases the four blocks and the entry of the table.\<close>

lemma fclose_run:
  assumes op: "opened st A i b q f c e" and sv: "served st"
  shows "\<exists>m. fclose (int i + 1) st = Ret (0, st\<lparr>pmem := m, fat_items := (fat_items st)(kblock f := None),
      fat_descriptors := (fat_descriptors st)(kblock q := None), descriptor_objects := (descriptor_objects st)(kblock b := None),
      file_descriptors := (file_descriptors st)[i := 0]\<rparr>) \<and>
    kheap_rel (st\<lparr>pmem := m\<rparr>) (A(c := None, f := None, q := None, b := None)) \<and> (\<forall>a. in_data a \<longrightarrow> m a = pmem st a)"
proof -
  have O: "kheap_rel st A" "A b = Some 1" "A q = Some 1" "A f = Some 1" "A c = Some 1" "distinct [b, q, f, c]"
    "length (file_descriptors st) = 512" "i < 511"
    "descriptor_objects st (kblock b) = Some \<lparr>fdesc_index = int i + 1, fdesc_filesystem = d_filesystem (the_disk st),
       fdesc_private = kblock q, fdesc_disk = disk_addr st\<rparr>" "fat_descriptors st (kblock q) = Some \<lparr>ff_item = kblock f, ff_pos = 0\<rparr>"
    "fat_items st (kblock f) = Some \<lparr>fi_ptr = kblock c, fi_type = FAT_ITEM_TYPE_FILE\<rparr>"
    using op by (simp_all add: opened_def)
  obtain fs where fs: "filesystem_objects st (d_filesystem (the_disk st)) = Some fs" using sv by (auto simp: served_def)
  have ni: "nat (int i + 1) \<le> 512" using O(8) by simp
  define free where "free = (\<lambda>x m. pmem (kfree (kblock x) (st\<lparr>pmem := m\<rparr>)))"
  have kf: "kfree (kblock x) s = s\<lparr>pmem := free x (pmem s)\<rparr>" if "kernel_heap s = kernel_heap st" for x and s :: "('a, 'b) file_machine_scheme"
    using that by (simp add: kfree_def free_def)
  have step: "kheap_rel (st\<lparr>pmem := free x m\<rparr>) (B(x := None)) \<and> (\<forall>a. in_data a \<longrightarrow> free x m a = m a)"
    if "kheap_rel (st\<lparr>pmem := m\<rparr>) B" "B x = Some 1" for x m B
    using kfree_run [OF that] kf [of "st\<lparr>pmem := m\<rparr>" x] by simp
  define m1 where "m1 = free c (pmem st)"
  define m2 where "m2 = free f m1"
  define m3 where "m3 = free q m2"
  define m4 where "m4 = free b m3"
  have 1: "kheap_rel (st\<lparr>pmem := m1\<rparr>) (A(c := None))" "\<forall>a. in_data a \<longrightarrow> m1 a = pmem st a"
    using step [of "pmem st" A c] O(1,5) by (simp_all add: m1_def)
  have 2: "kheap_rel (st\<lparr>pmem := m2\<rparr>) (A(c := None, f := None))" "\<forall>a. in_data a \<longrightarrow> m2 a = m1 a"
    using step [OF 1(1), of f] O(4,6) by (simp_all add: m2_def)
  have 3: "kheap_rel (st\<lparr>pmem := m3\<rparr>) (A(c := None, f := None, q := None))" "\<forall>a. in_data a \<longrightarrow> m3 a = m2 a"
    using step [OF 2(1), of q] O(3,6) by (simp_all add: m3_def)
  have 4: "kheap_rel (st\<lparr>pmem := m4\<rparr>) (A(c := None, f := None, q := None, b := None))" "\<forall>a. in_data a \<longrightarrow> m4 a = m3 a"
    using step [OF 3(1), of b] O(2,6) by (simp_all add: m4_def)
  have "fclose (int i + 1) st = Ret (0, st\<lparr>pmem := m4, fat_items := (fat_items st)(kblock f := None),
      fat_descriptors := (fat_descriptors st)(kblock q := None), descriptor_objects := (descriptor_objects st)(kblock b := None),
      file_descriptors := (file_descriptors st)[i := 0]\<rparr>)"
    using opened_descriptor [OF op] O(7-11) fs ni
    by (simp add: fclose_def derefx_def call_close_def fat16_close_def fat16_free_file_descriptor_def fat16_fat_item_free_def kf
        file_free_descriptor_def m1_def [symmetric] m2_def [symmetric] m3_def [symmetric] m4_def [symmetric] split: fs_close_function.split)
  then show ?thesis using 1 2 3 4 by (intro exI [of _ m4]) simp
qed

section \<open>Opening by name\<close>

lemma dir_has_live:
  assumes has: "dir_has m A d name k" and wf: "allocs_wf KBLOCKS A" and le: "A \<subseteq>\<^sub>m A'" and keep: "keeps_live A m m'"
  shows "dir_has m' A' d name k" "dir_entry m' (fd_item d) k = dir_entry m (fd_item d) k"
proof -
  obtain b n where b: "fd_item d = kblock b" "A b = Some n" "32 * nat (fd_total d) \<le> n * 4096"
    using has unfolding dir_has_def by blast
  have b': "A' b = Some n" using b(2) le by (auto simp: map_le_def dom_def)
  have E: "dir_entry m' (fd_item d) i = dir_entry m (fd_item d) i" if "i < nat (fd_total d)" for i
    using keeps_live_bytes [OF keep wf b(2), of "32 * i" 32] b(3) that
    by (simp add: dir_entry_def item_at_def b(1) del: of_nat_mult)
  show "dir_has m' A' d name k" using has E b(1,3) b' unfolding dir_has_def by auto
  show "dir_entry m' (fd_item d) k = dir_entry m (fd_item d) k" using has by (intro E) (simp add: dir_has_def)
qed

text \<open>A frame that is stated for the data area keeps the live allocations.\<close>

lemma keeps_live_frame:
  assumes "kheap_rel st (grant A F)" and "\<And>x. x \<in> F \<Longrightarrow> A x = None"
    and "\<forall>a. in_data a \<longrightarrow> (\<forall>x \<in> F. \<not> in_block x a) \<longrightarrow> m' a = m a"
  shows "keeps_live A m m'"
  unfolding keeps_live_def
proof (intro allI impI)
  fix b n a
  assume b: "A b = Some n" and a: "in_blocks b n a"
  have b': "grant A F b = Some n" "b \<notin> F" using b assms(2) [of b] by (auto simp: grant_def)
  have "\<not> in_block x a" if "x \<in> F" for x
    using kz.live_disjoint [OF assms(1) b'(1) _ _ a, of x 1] that b'(2) by (auto simp: grant_def in_blocks_one)
  moreover have "in_data a" using in_blocks_data [OF allocs_wfD(2) [OF kheap_rel_wf [OF assms(1)] b'(1)] a] .
  ultimately show "m' a = m a" using assms(3) by blast
qed

lemma grant_None: "grant A F x = None \<longleftrightarrow> x \<notin> F \<and> A x = None"
  by (simp add: grant_def)

lemma grant_fresh:
  assumes "\<forall>x \<in> F. A x = None" and "\<forall>x \<in> G. grant A F x = None"
  shows "\<forall>x \<in> F \<union> G. A x = None" "F \<inter> G = {}"
  using assms by (auto simp: grant_None)

lemma free_blocks_granted:
  assumes "kheap_rel st (grant A F)" and "allocs_wf KBLOCKS A" and "finite F" and "\<And>x. x \<in> F \<Longrightarrow> A x = None"
  shows "free_blocks (grant A F) = free_blocks A - card F"
proof -
  have wf: "allocs_wf KBLOCKS (grant A F)" using kheap_rel_wf [OF assms(1)] .
  have o: "owns (grant A F) i \<longleftrightarrow> i \<in> F \<or> owns A i" for i
  proof
    show "i \<in> F \<or> owns A i" if "owns (grant A F) i" using that unfolding owns_def grant_def by (auto simp: less_Suc_eq split: if_splits)
    show "owns (grant A F) i" if "i \<in> F \<or> owns A i"
      using that
    proof
      assume "i \<in> F"
      then show ?thesis unfolding owns_def grant_def by (intro exI [of _ i] exI [of _ 1]) simp
    next
      assume "owns A i"
      then obtain s n where s: "A s = Some n" "s \<le> i" "i < s + n" unfolding owns_def by blast
      then have "s \<notin> F" using assms(4) by auto
      then show ?thesis using s unfolding owns_def grant_def by (intro exI [of _ s] exI [of _ n]) simp
    qed
  qed
  have "x < KBLOCKS \<and> \<not> owns A x" if x: "x \<in> F" for x
  proof
    have g: "grant A F x = Some 1" using x by (simp add: grant_def)
    show "x < KBLOCKS" using allocs_wfD(2) [OF wf g] by simp
    show "\<not> owns A x"
    proof
      assume "owns A x"
      then obtain s n where s: "A s = Some n" "s \<le> x" "x < s + n" unfolding owns_def by blast
      then have "grant A F s = Some n" "s < x" using assms(4) x by (auto simp: grant_def le_less)
      then show False using allocs_wfD(3) [OF wf _ g] s by fastforce
    qed
  qed
  then have "F \<subseteq> {i. i < KBLOCKS \<and> \<not> owns A i}" by blast
  moreover have "{i. i < KBLOCKS \<and> \<not> owns (grant A F) i} = {i. i < KBLOCKS \<and> \<not> owns A i} - F" using o by blast
  ultimately show ?thesis using assms(3) by (simp add: free_blocks_def card_Diff_subset)
qed

text \<open>The names of the fields that opening and closing a file change.\<close>

definition file_frame :: "('d, 'a) file_machine_scheme \<Rightarrow> ('d, 'a) file_machine_scheme \<Rightarrow> bool" where
  "file_frame st st' \<longleftrightarrow> st' = st\<lparr>pmem := pmem st', strings := strings st', path_parts := path_parts st', path_roots := path_roots st',
     device := device st', disk_streams := disk_streams st', fat_items := fat_items st', fat_descriptors := fat_descriptors st',
     descriptor_objects := descriptor_objects st', file_descriptors := file_descriptors st'\<rparr>"

lemma new_descriptor_live:
  assumes rel: "kheap_rel st A" "0 < free_blocks A" and slot: "first_slot 0 (file_descriptors st) = Some i"
  shows "\<exists>b m. file_new_descriptor st = Ret (0, kblock b, st\<lparr>pmem := m, file_descriptors := (file_descriptors st)[i := kblock b],
      descriptor_objects := (descriptor_objects st)(kblock b \<mapsto> \<lparr>fdesc_index = int i + 1, fdesc_filesystem = 0, fdesc_private = 0, fdesc_disk = 0\<rparr>)\<rparr>) \<and>
    A b = None \<and> b < KBLOCKS \<and> kheap_rel (st\<lparr>pmem := m\<rparr>) (A(b \<mapsto> 1)) \<and> keeps_live A (pmem st) m"
proof -
  obtain b m where B: "kzalloc 16 st = (kblock b, st\<lparr>pmem := m\<rparr>)" "A b = None" "b < KBLOCKS" "kheap_rel (st\<lparr>pmem := m\<rparr>) (A(b \<mapsto> 1))"
    "keeps_live A (pmem st) m"
    using kzalloc_live_one [OF rel(1), of 16] rel(2) by auto
  then show ?thesis using slot by (intro exI [of _ b] exI [of _ m]) (simp add: file_new_descriptor_def)
qed

lemma fopen_open_run:
  assumes "disk_addr s1 = D" and "d_filesystem (the_disk s1) \<noteq> 0" and "filesystem_objects s1 (d_filesystem (the_disk s1)) \<noteq> None"
    and op: "fat16_open io fuel D first FILE_MODE_READ s1 = Ret (p, s2)" "0 \<le> sint p"
    and new: "file_new_descriptor s2 = Ret (0, desc, s3)" "disk_addr s3 = D" "descriptor_objects s3 desc = Some d"
  shows "fopen_open io fuel D first [0x72, 0] s1 = Ret (fdesc_index d, s3\<lparr>descriptor_objects := (descriptor_objects s3)(desc \<mapsto>
    d\<lparr>fdesc_filesystem := d_filesystem (the_disk s3), fdesc_private := p, fdesc_disk := D\<rparr>)\<rparr>)"
proof -
  have "file_get_mode_by_string [0x72, 0] = Ret FILE_MODE_READ" by (simp add: file_get_mode_by_string_def strncmp_def)
  moreover obtain fs where "filesystem_objects s1 (d_filesystem (the_disk s1)) = Some fs" using assms(3) by blast
  moreover have "call_open io fuel (fsys_open fs) D first FILE_MODE_READ s1 = Ret (p, s2)"
    using op(1) by (cases "fsys_open fs") (simp add: call_open_def)
  ultimately show ?thesis using assms(1,2) op(2) new by (simp add: fopen_open_def deref_disk_def derefx_def)
qed

text \<open>
  Opening \<open>0:/w\<close>, where one file of the root directory has the name: the result is the number of the first free
  entry of the table. Seven blocks are taken, four for the open file and three, \<open>P\<close>, for the parsed path.
\<close>

lemma fopen_run:
  assumes rel: "kheap_rel st A" "7 \<le> free_blocks A" and mnt: "fat_mounted st priv" "served st" and fuel: "0 < fuel"
    and path: "valid_path path" "path ! 0 = 0x30" "components (drop 3 (cstr path)) = [w]"
    and has: "dir_has (pmem st) A (fp_root_directory priv) (buffer w) k" and e: "e = dir_entry (pmem st) (fd_item (fp_root_directory priv)) k"
    and slot: "first_slot 0 (file_descriptors st) = Some i" "i < 511" "length (file_descriptors st) = 512"
  shows "\<exists>P b q f c st'. fopen io fuel path [0x72, 0] st = Ret (int i + 1, st') \<and>
    opened st' (grant A (P \<union> {b, q, f, c})) i b q f c e \<and> file_frame st st' \<and> disk_streams st' = disk_streams st \<and>
    file_descriptors st' = (file_descriptors st)[i := kblock b] \<and> card P = 3 \<and> P \<inter> {b, q, f, c} = {} \<and>
    (\<forall>x \<in> P \<union> {b, q, f, c}. A x = None) \<and> keeps_live A (pmem st) (pmem st')"
proof -
  let ?d = "fp_root_directory priv" and ?D = "disk_addr st"
  have dr: "uint (path ! 0) - 48 = 0" using path(2) by simp
  obtain r a s m1 where P: "pathparser_parse path st = Ret (kblock r, parsed m1 r a s 0 w st)" "distinct [r, a, s]"
    "{r, a, s} \<subseteq> {..<KBLOCKS}" "\<forall>x \<in> {r, a, s}. A x = None" "kheap_rel (st\<lparr>pmem := m1\<rparr>) (grant A {r, a, s})"
    "free_blocks (grant A {r, a, s}) = free_blocks A - 3" "keeps_live A (pmem st) m1"
    using parse_single [OF rel(1) path(1,3)] rel(2) unfolding dr by fastforce
  let ?A1 = "grant A {r, a, s}" and ?s1 = "parsed m1 r a s 0 w st"
  have le1: "A \<subseteq>\<^sub>m ?A1" using P(4) by (intro map_le_grant) auto
  have S: "pmem ?s1 = m1" "path_parts ?s1 (kblock a) = Some \<lparr>pp_part = kblock s, pp_next = 0\<rparr>" "strings ?s1 (kblock s) = Some (buffer w)"
    "path_roots ?s1 (kblock r) = Some \<lparr>pr_drive_no = 0, pr_first = kblock a\<rparr>" "the_disk ?s1 = the_disk st" "disk_addr ?s1 = ?D"
    "filesystem_objects ?s1 = filesystem_objects st"
    by (simp_all add: parsed_def)
  note h1 = dir_has_live [OF has kheap_rel_wf [OF rel(1)] le1 P(7)]
  have r1: "kheap_rel ?s1 ?A1" using P(5) by (simp add: kheap_rel_def parsed_def)
  have m1: "fat_mounted ?s1 priv" using mnt(1) by (simp add: fat_mounted_def parsed_def)
  have fr1: "3 \<le> free_blocks ?A1" using P(6) rel(2) by simp
  have nx: "pp_next \<lparr>pp_part = kblock s, pp_next = 0\<rparr> = 0" "strings ?s1 (pp_part \<lparr>pp_part = kblock s, pp_next = 0\<rparr>) = Some (buffer w)"
    using S(3) by simp_all
  have h1': "dir_has (pmem ?s1) ?A1 ?d (buffer w) k" using h1(1) unfolding S(1) .
  have ent: "dir_entry m1 (fd_item ?d) k = e" using h1(2) e by simp
  obtain q f c m2 where O: "fat16_open io fuel ?D (kblock a) FILE_MODE_READ ?s1 = Ret (kblock q, ?s1\<lparr>pmem := m2,
        fat_items := (fat_items ?s1)(kblock f \<mapsto> \<lparr>fi_ptr = kblock c, fi_type = FAT_ITEM_TYPE_FILE\<rparr>),
        fat_descriptors := (fat_descriptors ?s1)(kblock q \<mapsto> \<lparr>ff_item = kblock f, ff_pos = 0\<rparr>)\<rparr>)"
    "distinct [q, f, c]" "{q, f, c} \<subseteq> {..<KBLOCKS}" "\<forall>x \<in> {q, f, c}. ?A1 x = None"
    "kheap_rel (?s1\<lparr>pmem := m2\<rparr>) (grant ?A1 {q, f, c})" "item_at m2 (kblock c) = e"
    "\<forall>a. in_data a \<longrightarrow> (\<forall>x \<in> {q, f, c}. \<not> in_block x a) \<longrightarrow> m2 a = m1 a"
    using open_run [OF r1 fr1 m1 fuel S(2) nx h1', of io, unfolded S(1,6) ent] by blast
  let ?A2 = "grant ?A1 {q, f, c}"
  let ?s2 = "?s1\<lparr>pmem := m2, fat_items := (fat_items ?s1)(kblock f \<mapsto> \<lparr>fi_ptr = kblock c, fi_type = FAT_ITEM_TYPE_FILE\<rparr>),
        fat_descriptors := (fat_descriptors ?s1)(kblock q \<mapsto> \<lparr>ff_item = kblock f, ff_pos = 0\<rparr>)\<rparr>"
  have r2: "kheap_rel ?s2 ?A2" using O(5) by (simp add: kheap_rel_def)
  have k2: "keeps_live ?A1 m1 m2" using O(4,5,7) by (intro keeps_live_frame [of "?s1\<lparr>pmem := m2\<rparr>" _ "{q, f, c}"]) auto
  have "free_blocks ?A2 = free_blocks ?A1 - card {q, f, c}"
    using O(4) kheap_rel_wf [OF r1] by (intro free_blocks_granted [OF r2]) auto
  then have fr2: "0 < free_blocks ?A2" using P(6) rel(2) O(2) by simp
  have sl: "first_slot 0 (file_descriptors ?s2) = Some i" using slot(1) by (simp add: parsed_def)
  obtain b m3 where B: "file_new_descriptor ?s2 = Ret (0, kblock b, ?s2\<lparr>pmem := m3, file_descriptors := (file_descriptors ?s2)[i := kblock b],
      descriptor_objects := (descriptor_objects ?s2)(kblock b \<mapsto> \<lparr>fdesc_index = int i + 1, fdesc_filesystem = 0, fdesc_private = 0, fdesc_disk = 0\<rparr>)\<rparr>)"
    "?A2 b = None" "b < KBLOCKS" "kheap_rel (?s2\<lparr>pmem := m3\<rparr>) (?A2(b \<mapsto> 1))" "keeps_live ?A2 (pmem ?s2) m3"
    using new_descriptor_live [OF r2 fr2 sl] by (elim exE conjE)
  let ?d = "\<lparr>fdesc_index = int i + 1, fdesc_filesystem = d_filesystem (the_disk st), fdesc_private = kblock q, fdesc_disk = ?D\<rparr>"
  let ?s3 = "?s2\<lparr>pmem := m3, file_descriptors := (file_descriptors st)[i := kblock b],
      descriptor_objects := (descriptor_objects st)(kblock b \<mapsto> ?d)\<rparr>"
  have A3: "?A2(b \<mapsto> 1) = grant A ({r, a, s} \<union> {b, q, f, c})" by (auto simp: grant_def)
  have new: "b \<notin> {q, f, c}" "?A1 b = None" using B(2) unfolding grant_None by simp_all
  then have "\<forall>x \<in> {b, q, f, c}. ?A1 x = None" using O(4) by (simp only: ball_simps simp_thms)
  note fresh = grant_fresh [OF P(4) this]
  have ds: "distinct [b, q, f, c]" using O(2) new(1) by simp
  have ne: "kblock b \<noteq> 0" "kblock r \<noteq> 0" "kblock a \<noteq> 0" "q < KBLOCKS" using B(3) P(3) O(3) by simp_all
  then have sq: "0 \<le> sint (kblock q)" using unat_kblock [of q] by (subst sint_small) simp_all
  obtain fs where fs: "filesystem_objects st (d_filesystem (the_disk st)) = Some fs" using mnt(2) by (auto simp: served_def)
  have D: "disk_get 0 ?s1 = ?D" "?D \<noteq> 0" "d_filesystem (the_disk st) \<noteq> 0" using mnt(2) by (simp_all add: disk_get_def served_def S(6))
  have T: "file_descriptors ?s2 = file_descriptors st" "descriptor_objects ?s2 = descriptor_objects st" "disk_addr ?s2 = ?D" "the_disk ?s2 = the_disk st"
    by (simp_all add: parsed_def)
  have "fopen_open io fuel ?D (kblock a) [0x72, 0] ?s1 = Ret (int i + 1, ?s3)"
    using fopen_open_run [OF S(6) _ _ O(1) _ B(1)] D(3) fs sq S T by simp
  then have F: "fopen io fuel path [0x72, 0] st = Ret (int i + 1, ?s3)"
    using P(1) ne(2,3) S(4) D(1,2) by (simp add: fopen_def derefx_def)
  let ?G = "{r, a, s} \<union> {b, q, f, c}"
  have le2: "?A1 \<subseteq>\<^sub>m ?A2" using O(4) by (intro map_le_grant) auto
  have "?A2 c = Some 1" by (simp add: grant_def)
  from keeps_live_bytes [OF B(5) kheap_rel_wf [OF r2] this, of 0 32] have "item_at m3 (kblock c) = e" using O(6) by (simp add: item_at_def)
  moreover have "kheap_rel ?s3 (grant A ?G)" using B(4) unfolding A3 by (simp add: kheap_rel_def)
  ultimately have "opened ?s3 (grant A ?G) i b q f c e" using slot(2,3) ds S(5,6) by (simp add: opened_def grant_def)
  moreover have "file_frame st ?s3" by (simp add: file_frame_def parsed_def)
  moreover have k3: "keeps_live ?A2 m2 m3" using B(5) by simp
  moreover have "keeps_live A (pmem st) m3"
    using keeps_live_trans [OF keeps_live_trans [OF P(7) k2 le1] k3 map_le_trans [OF le1 le2]] by simp
  ultimately show ?thesis
    using F fresh P(2) T(1) by (intro exI [of _ "{r, a, s}"] exI [of _ b] exI [of _ q] exI [of _ f] exI [of _ c] exI [of _ ?s3]) (simp add: parsed_def)
qed

end
