(* ===== verification/Load_Program.thy ===== *)
theory Load_Program
  imports Loader File_Access
begin

text \<open>
  Loading a program: the functions of \<open>process.c\<close> and \<open>elfloader.c\<close> that turn the name of a file into a process,
  from the parser and the file system over the heap to the page tables. The file is one of the root directory whose
  contents fit into one cluster.
\<close>

section \<open>Room in the heap\<close>

text \<open>
  How many of the \<open>K\<close> blocks from block \<open>L\<close> on are in use. As long as there are more windows of \<open>n\<close> blocks than
  blocks in use, one of the windows is free; this bound is kept through any sequence of allocations.
\<close>

definition used :: "nat \<Rightarrow> nat \<Rightarrow> allocs \<Rightarrow> nat" where
  "used L K A = card {i. L \<le> i \<and> i < L + K \<and> owns A i}"

lemma used_mono:
  assumes "\<And>i. owns B i \<Longrightarrow> owns A i \<or> i \<in> S" and "finite S"
  shows "used L K B \<le> used L K A + card S"
proof -
  have "{i. L \<le> i \<and> i < L + K \<and> owns B i} \<subseteq> {i. L \<le> i \<and> i < L + K \<and> owns A i} \<union> S" using assms(1) by blast
  then have "used L K B \<le> card ({i. L \<le> i \<and> i < L + K \<and> owns A i} \<union> S)"
    unfolding used_def using assms(2) by (intro card_mono) simp_all
  also have "\<dots> \<le> used L K A + card S" unfolding used_def by (rule card_Un_le)
  finally show ?thesis .
qed

lemma used_upd: "used L K (A(f \<mapsto> n)) \<le> used L K A + n"
proof -
  have "used L K (A(f \<mapsto> n)) \<le> used L K A + card {f..<f + n}"
    by (rule used_mono) (auto simp: owns_def split: if_splits)
  then show ?thesis by simp
qed

lemma used_grant: "finite F \<Longrightarrow> used L K (grant A F) \<le> used L K A + card F"
  by (rule used_mono) (auto simp: owns_def grant_def less_Suc_eq split: if_splits)

lemma used_empty: "(\<And>b n. A b = Some n \<Longrightarrow> b + n \<le> L) \<Longrightarrow> used L K A = 0"
  by (fastforce simp: used_def owns_def)

lemma used_free:
  assumes "L + K \<le> KBLOCKS"
  shows "K - used L K A \<le> free_blocks A"
proof -
  let ?U = "{i. L \<le> i \<and> i < L + K \<and> owns A i}"
  have "card {L..<L + K} - card ?U \<le> card ({L..<L + K} - ?U)" by (rule diff_card_le_card_Diff) simp
  also have "\<dots> \<le> free_blocks A" unfolding free_blocks_def using assms by (intro card_mono) auto
  finally show ?thesis by (simp add: used_def)
qed

lemma used_avail:
  assumes "L + K \<le> KBLOCKS" and "used L K A + j \<le> K"
  shows "j \<le> free_blocks A"
proof -
  have "j \<le> K - used L K A" using assms(2) by simp
  then show ?thesis using used_free [OF assms(1)] by (rule le_trans)
qed

lemma used_fits:
  assumes "(used L K A + 1) * n \<le> K" and "L + K \<le> KBLOCKS" and "0 < n"
  shows "\<exists>s. fits A KBLOCKS n s"
proof (rule ccontr)
  assume none: "\<nexists>s. fits A KBLOCKS n s"
  let ?U = "{i. L \<le> i \<and> i < L + K \<and> owns A i}" and ?w = "\<lambda>j. L + j * n"
  have "\<exists>i \<in> ?U. (i - L) div n = j" if "j < used L K A + 1" for j
  proof -
    have "Suc j * n \<le> (used L K A + 1) * n" using that by (intro mult_le_mono1) simp
    then have "Suc j * n \<le> K" using assms(1) by (rule le_trans)
    then have b: "?w j + n \<le> L + K" by simp
    obtain i where i: "?w j \<le> i" "i < ?w j + n" "owns A i"
      using none b assms(2) unfolding fits_def by (meson le_trans)
    have "j * n \<le> i - L" "i - L < Suc j * n" using i(1,2) by auto
    then have "(i - L) div n = j" using assms(3) by (intro div_nat_eqI) (simp_all add: mult.commute)
    then show ?thesis using i b by (intro bexI [of _ i]) auto
  qed
  then have "{..<used L K A + 1} \<subseteq> (\<lambda>i. (i - L) div n) ` ?U" by force
  then have "used L K A + 1 \<le> card ((\<lambda>i. (i - L) div n) ` ?U)"
    using card_mono [of "(\<lambda>i. (i - L) div n) ` ?U" "{..<used L K A + 1}"] by simp
  also have "\<dots> \<le> used L K A" unfolding used_def by (rule card_image_le) simp
  finally show False by simp
qed

section \<open>Files that hold programs\<close>

text \<open>The first cluster of a directory entry.\<close>

abbreviation entry_cluster :: "fat_directory_item \<Rightarrow> int" where
  "entry_cluster e \<equiv> sint (fat16_get_first_cluster e)"

text \<open>
  The path names the file \<open>e\<close> of the root directory of the mounted volume, and the file lies within the first
  cluster of \<open>e\<close>, on the disk with the contents \<open>img\<close>.
\<close>

definition program_file ::
  "u8 list \<Rightarrow> ('d, 'a) file_machine_scheme \<Rightarrow> allocs \<Rightarrow> fat_private \<Rightarrow> u8 list \<Rightarrow> fat_directory_item \<Rightarrow> bool" where
  "program_file img st A priv path e \<longleftrightarrow> fat_mounted st priv \<and> served st \<and> valid_path path \<and> path ! 0 = 0x30 \<and>
     (\<exists>w k. components (drop 3 (cstr path)) = [w] \<and> dir_has (pmem st) A (fp_root_directory priv) (buffer w) k \<and>
        e = dir_entry (pmem st) (fd_item (fp_root_directory priv)) k) \<and>
     0 < unat (fdi_filesize e) \<and> unat (fdi_filesize e) \<le> nat (size_of_cluster_bytes priv (the_disk st)) \<and>
     0 \<le> entry_cluster e \<and> 0 \<le> fat16_cluster_to_sector priv (entry_cluster e) \<and>
     cluster_pos priv (entry_cluster e) + unat (fdi_filesize e) < 512 * (length img div 512)"

text \<open>The bytes of the file.\<close>

definition file_bytes :: "u8 list \<Rightarrow> fat_private \<Rightarrow> fat_directory_item \<Rightarrow> u8 list" where
  "file_bytes img priv e = take (unat (fdi_filesize e)) (drop (cluster_pos priv (entry_cluster e)) img)"

text \<open>Entry \<open>i\<close> of the descriptor table is the first free one, and it is not the last of all.\<close>

definition free_entry :: "('d, 'a) file_machine_scheme \<Rightarrow> nat \<Rightarrow> bool" where
  "free_entry st i \<longleftrightarrow> length (file_descriptors st) = 512 \<and> first_slot 0 (file_descriptors st) = Some i \<and> i < 511"

lemma file_bytes_length:
  assumes "program_file img st A priv path e"
  shows "length (file_bytes img priv e) = unat (fdi_filesize e)"
proof -
  have "512 * (length img div 512) \<le> length img" by simp
  moreover have "cluster_pos priv (entry_cluster e) + unat (fdi_filesize e) < 512 * (length img div 512)"
    using assms by (simp add: program_file_def)
  ultimately show ?thesis by (simp add: file_bytes_def)
qed

lemma program_file_live:
  assumes "program_file img st A priv path e" and "allocs_wf KBLOCKS A" and "A \<subseteq>\<^sub>m A'" and "keeps_live A (pmem st) (pmem st')"
    and "fat_mounted st' priv" and "served st'" and "the_disk st' = the_disk st"
  shows "program_file img st' A' priv path e"
  using assms dir_has_live [OF _ assms(2-4)] unfolding program_file_def by metis

section \<open>Reading a program into memory\<close>

text \<open>Opening the file: four blocks for the open file, three that stay with the parsed path.\<close>

lemma open_program:
  assumes rel: "kheap_rel st A" "7 \<le> free_blocks A" and prog: "program_file img st A priv path e" and fuel: "0 < fuel"
    and slot: "free_entry st i"
  shows "\<exists>P b q f c st'. fopen io fuel path [0x72, 0] st = Ret (int i + 1, st') \<and>
    opened st' (grant A (P \<union> {b, q, f, c})) i b q f c e \<and> file_frame st st' \<and> disk_streams st' = disk_streams st \<and>
    file_descriptors st' = (file_descriptors st)[i := kblock b] \<and> card P = 3 \<and> P \<inter> {b, q, f, c} = {} \<and>
    (\<forall>x \<in> P \<union> {b, q, f, c}. A x = None) \<and> keeps_live A (pmem st) (pmem st')"
proof -
  obtain w k where w: "components (drop 3 (cstr path)) = [w]" "dir_has (pmem st) A (fp_root_directory priv) (buffer w) k"
    "e = dir_entry (pmem st) (fd_item (fp_root_directory priv)) k" "fat_mounted st priv" "served st" "valid_path path" "path ! 0 = 0x30"
    using prog by (auto simp: program_file_def)
  show ?thesis
    using fopen_run [OF rel w(4,5) fuel w(6,7,1,2,3)] slot by (simp add: free_entry_def)
qed

text \<open>The fields outside the file layer are untouched.\<close>

lemma file_frame_fields:
  assumes "file_frame st st'"
  shows "procs st' = procs st" "the_disk st' = the_disk st" "disk_addr st' = disk_addr st" "filesystem_objects st' = filesystem_objects st"
    "fat_privates st' = fat_privates st" "elf_files st' = elf_files st" "processes st' = processes st" "kernel_heap st' = kernel_heap st"
    "tasks st' = tasks st" "task_head st' = task_head st" "task_tail st' = task_tail st" "current_task st' = current_task st"
    "current_process st' = current_process st"
  by (subst assms [unfolded file_frame_def], simp)+

lemma file_frame_served: "file_frame st st' \<Longrightarrow> served st' = served st"
  by (simp add: served_def file_frame_fields)

lemma file_frame_mounted: "file_frame st st' \<Longrightarrow> disk_streams st' = disk_streams st \<Longrightarrow> fat_mounted st' priv = fat_mounted st priv"
  by (simp add: fat_mounted_def file_frame_fields)

lemma file_frame_trans:
  assumes "file_frame st st'" and "file_frame st' st''"
  shows "file_frame st st''"
  unfolding file_frame_def by (subst assms(2) [unfolded file_frame_def], subst assms(1) [unfolded file_frame_def]) simp

lemma file_frame_procs:
  assumes "file_frame st st'"
  shows "file_frame (st\<lparr>procs := ps\<rparr>) (st'\<lparr>procs := ps\<rparr>)"
  using arg_cong [OF assms [unfolded file_frame_def], of "procs_update (\<lambda>_. ps)"] by (simp add: file_frame_def)

lemma file_frame_elf_files:
  assumes "file_frame st st'"
  shows "file_frame (st\<lparr>elf_files := es\<rparr>) (st'\<lparr>elf_files := es\<rparr>)"
  using arg_cong [OF assms [unfolded file_frame_def], of "elf_files_update (\<lambda>_. es)"] by (simp add: file_frame_def)

text \<open>Reading all of the file into a live allocation \<open>x\<close>.\<close>

lemma read_program:
  assumes conf: "ata_conforms io view img W" "W < fuel" "length img < 2 ^ 31"
    and op: "opened st A i b q f c e" and mnt: "fat_mounted st priv" "served st"
    and prog: "program_file img s0 A0 priv path e" "the_disk st = the_disk s0"
    and x: "A x = Some nb" "unat (fdi_filesize e) \<le> nb * 4096" "x \<notin> {b, q, f, c}"
  shows "\<exists>st'. fread io fuel (kblock x) (fdi_filesize e) 1 (int i + 1) st = Ret (1, st') \<and> opened st' A i b q f c e \<and>
    file_frame st st' \<and> fat_mounted st' priv \<and> served st' \<and> file_descriptors st' = file_descriptors st \<and>
    mem_bytes (pmem st') (kblock x) (unat (fdi_filesize e)) = file_bytes img priv e \<and> keeps_live (A(x := None)) (pmem st) (pmem st')"
proof -
  let ?n = "unat (fdi_filesize e)" and ?cl = "entry_cluster e" and ?bs = "file_bytes img priv e"
  have F: "0 < ?n" "?n \<le> nat (size_of_cluster_bytes priv (the_disk st))" "0 \<le> ?cl" "0 \<le> fat16_cluster_to_sector priv ?cl"
    "cluster_pos priv ?cl + ?n < 512 * (length img div 512)"
    using prog by (simp_all add: program_file_def)
  obtain d where R: "fread io fuel (kblock x) (of_nat ?n) 1 (int i + 1) st = Ret (1, st\<lparr>pmem := mem_write (pmem st) (kblock x) ?bs,
      device := d, disk_streams := (disk_streams st)(fp_cluster_read_stream priv \<mapsto> \<lparr>ds_pos = int (cluster_pos priv ?cl + ?n), ds_disk = disk_addr st\<rparr>)\<rparr>)"
    using fread_run [OF conf op mnt(2,1) refl F, of "kblock x"] unfolding file_bytes_def by blast
  let ?st = "st\<lparr>pmem := mem_write (pmem st) (kblock x) ?bs, device := d,
      disk_streams := (disk_streams st)(fp_cluster_read_stream priv \<mapsto> \<lparr>ds_pos = int (cluster_pos priv ?cl + ?n), ds_disk = disk_addr st\<rparr>)\<rparr>"
  have len: "length ?bs = ?n" using file_bytes_length [OF prog(1)] .
  have rel: "kheap_rel st A" using op by (simp add: opened_def)
  have "length ?bs \<le> nb * 4096" using x(2) len by simp
  note w = write_live [OF rel x(1) this]
  have "kheap_rel ?st A" using w(1) by (simp add: kheap_rel_def)
  moreover have "A |` {c} \<subseteq>\<^sub>m A(x := None)" using x(3) by (auto simp: map_le_def)
  then have "keeps_live (A |` {c}) (pmem st) (pmem ?st)" using keeps_live_le [OF w(2)] by simp
  ultimately have "opened ?st A i b q f c e" by (intro opened_live [OF op]) simp_all
  moreover have "file_frame st ?st" by (simp add: file_frame_def)
  moreover have "fat_mounted ?st priv" "served ?st" using mnt by (simp_all add: fat_mounted_def served_def)
  ultimately show ?thesis using R w(2,3) len by (intro exI [of _ ?st]) simp
qed

lemma close_program:
  assumes op: "opened st A i b q f c e" and sv: "served st"
  shows "\<exists>st'. fclose (int i + 1) st = Ret (0, st') \<and> kheap_rel st' (A(c := None, f := None, q := None, b := None)) \<and>
    file_frame st st' \<and> disk_streams st' = disk_streams st \<and> file_descriptors st' = (file_descriptors st)[i := 0] \<and>
    (\<forall>a. in_data a \<longrightarrow> pmem st' a = pmem st a)"
proof -
  obtain m where M: "fclose (int i + 1) st = Ret (0, st\<lparr>pmem := m, fat_items := (fat_items st)(kblock f := None),
      fat_descriptors := (fat_descriptors st)(kblock q := None), descriptor_objects := (descriptor_objects st)(kblock b := None),
      file_descriptors := (file_descriptors st)[i := 0]\<rparr>)"
    "kheap_rel (st\<lparr>pmem := m\<rparr>) (A(c := None, f := None, q := None, b := None))" "\<forall>a. in_data a \<longrightarrow> m a = pmem st a"
    using fclose_run [OF assms] by blast
  let ?st = "st\<lparr>pmem := m, fat_items := (fat_items st)(kblock f := None),
      fat_descriptors := (fat_descriptors st)(kblock q := None), descriptor_objects := (descriptor_objects st)(kblock b := None),
      file_descriptors := (file_descriptors st)[i := 0]\<rparr>"
  have "kheap_rel ?st (A(c := None, f := None, q := None, b := None))" using M(2) by (simp add: kheap_rel_def)
  moreover have "file_frame st ?st" by (simp add: file_frame_def)
  ultimately show ?thesis using M(1,3) by (intro exI [of _ ?st]) simp
qed

text \<open>The allocations that are left when the open file is closed.\<close>

lemma closed_allocs:
  assumes "\<forall>y \<in> P \<union> {b, q, f, c}. A y = None" and "P \<inter> {b, q, f, c} = {}" and "\<forall>y \<in> {b, q, f, c}. B y = None"
  shows "(grant A (P \<union> {b, q, f, c}) ++ B)(c := None, f := None, q := None, b := None) = grant A P ++ B"
proof
  fix y
  show "((grant A (P \<union> {b, q, f, c}) ++ B)(c := None, f := None, q := None, b := None)) y = (grant A P ++ B) y"
  proof (cases "y \<in> {b, q, f, c}")
    case True
    then have "y \<notin> P" "A y = None" "B y = None" using assms by auto
    then have "(grant A P ++ B) y = None" by (simp add: grant_def map_add_def)
    moreover have "((grant A (P \<union> {b, q, f, c}) ++ B)(c := None, f := None, q := None, b := None)) y = None" using True by auto
    ultimately show ?thesis by (simp only:)
  next
    case False
    then show ?thesis by (simp add: grant_def map_add_def)
  qed
qed

lemma keeps_data: "allocs_wf KBLOCKS A \<Longrightarrow> \<forall>a. in_data a \<longrightarrow> m' a = m a \<Longrightarrow> keeps_live A m m'"
  unfolding keeps_live_def using in_blocks_data allocs_wfD(2) by blast

text \<open>What \<open>process_load_binary\<close> and \<open>elf_load\<close> have in common: open the file and allocate memory for all of it.\<close>

lemma open_alloc_run:
  assumes rel: "kheap_rel st A" and prog: "program_file img st A priv path e" and slot: "free_entry st i" and fuel: "0 < fuel"
    and room: "(used L K A + 8) * nb \<le> K" "L + K \<le> KBLOCKS" and nb: "nb = blocks_for (fdi_filesize e)" "0 < nb"
  shows "\<exists>P b q f c x s1 s2. fopen io fuel path [0x72, 0] st = Ret (int i + 1, s1) \<and>
    fstat (int i + 1) s1 stat = Ret (0, \<lparr>fs_flags = (if fdi_attribute e AND FAT_FILE_READ_ONLY \<noteq> 0 then FILE_STAT_READ_ONLY else 0), fs_filesize = fdi_filesize e\<rparr>) \<and>
    kzalloc (fdi_filesize e) s1 = (kblock x, s2) \<and> x < KBLOCKS \<and> A x = None \<and> x \<notin> P \<union> {b, q, f, c} \<and>
    opened s2 (grant A (P \<union> {b, q, f, c}) ++ [x \<mapsto> nb]) i b q f c e \<and> file_frame st s2 \<and> disk_streams s2 = disk_streams st \<and>
    file_descriptors s2 = (file_descriptors st)[i := kblock b] \<and> card P = 3 \<and> P \<inter> {b, q, f, c} = {} \<and>
    (\<forall>y \<in> P \<union> {b, q, f, c}. A y = None) \<and> keeps_live A (pmem st) (pmem s2)"
proof -
  have "used L K A + 8 \<le> (used L K A + 8) * nb" using nb(2) by simp
  then have "used L K A + 7 \<le> K" using room(1) by linarith
  then have "7 \<le> free_blocks A" by (rule used_avail [OF room(2)])
  from open_program [OF rel this prog fuel slot] obtain P b q f c s1 where F: "fopen io fuel path [0x72, 0] st = Ret (int i + 1, s1)"
    "opened s1 (grant A (P \<union> {b, q, f, c})) i b q f c e" "file_frame st s1" "disk_streams s1 = disk_streams st"
    "file_descriptors s1 = (file_descriptors st)[i := kblock b]" "card P = 3" "P \<inter> {b, q, f, c} = {}"
    "\<forall>x \<in> P \<union> {b, q, f, c}. A x = None" "keeps_live A (pmem st) (pmem s1)" by blast
  let ?A1 = "grant A (P \<union> {b, q, f, c})"
  have rel1: "kheap_rel s1 ?A1" and ds: "distinct [b, q, f, c]" using F(2) by (simp_all add: opened_def)
  have fin: "finite P" using F(6) by (simp add: card_ge_0_finite)
  then have "card (P \<union> {b, q, f, c}) = 7" using F(6,7) ds by (simp add: card_Un_disjoint)
  then have "used L K ?A1 \<le> used L K A + 7" using used_grant [of "P \<union> {b, q, f, c}" L K A] fin by simp
  then have "(used L K ?A1 + 1) * nb \<le> (used L K A + 8) * nb" by (intro mult_le_mono1) simp
  then have "(used L K ?A1 + 1) * nb \<le> K" using room(1) by (rule le_trans)
  then obtain s where s: "fits ?A1 KBLOCKS nb s" using used_fits [OF _ room(2) nb(2)] by blast
  obtain x m where X: "kzalloc (fdi_filesize e) s1 = (kblock x, s1\<lparr>pmem := m\<rparr>)" "?A1 x = None" "x < KBLOCKS"
    "kheap_rel (s1\<lparr>pmem := m\<rparr>) (?A1(x \<mapsto> nb))" "keeps_live ?A1 (pmem s1) m"
    using kzalloc_live [OF rel1, of "fdi_filesize e" s, folded nb(1), OF nb(2) s] by blast
  have "served s1" using prog F(3) by (simp add: file_frame_served program_file_def)
  note stat = fstat_run [OF F(2) this, of stat]
  have x: "x \<notin> P \<union> {b, q, f, c}" "A x = None" using X(2) unfolding grant_None by simp_all
  have le: "A \<subseteq>\<^sub>m ?A1" by (rule map_le_grant) (rule bspec [OF F(8)])
  have "opened (s1\<lparr>pmem := m\<rparr>) (?A1(x \<mapsto> nb)) i b q f c e"
    using X(4) x(1) keeps_live_le [OF X(5), of "?A1 |` {c}"] by (intro opened_live [OF F(2)]) (auto simp: map_le_def)
  moreover have "file_frame st (s1\<lparr>pmem := m\<rparr>)" using F(3) by (rule file_frame_trans) (simp add: file_frame_def)
  moreover have "keeps_live A (pmem st) m" using keeps_live_trans [OF F(9) X(5) le] .
  ultimately show ?thesis
    using F(1,4-8) X(1,3) x stat
    by (intro exI [of _ P] exI [of _ b] exI [of _ q] exI [of _ f] exI [of _ c] exI [of _ x] exI [of _ s1] exI [of _ "s1\<lparr>pmem := m\<rparr>"]) simp
qed

text \<open>Closing afterwards, in a state in which only structures of the caller have changed.\<close>

lemma close_rest:
  assumes op: "opened s (grant A (P \<union> {b, q, f, c}) ++ B) i b q f c e" and sv: "served s"
    and fresh: "\<forall>y \<in> P \<union> {b, q, f, c}. A y = None" "P \<inter> {b, q, f, c} = {}" "\<forall>y \<in> {b, q, f, c}. B y = None"
    and fd: "file_descriptors s = (file_descriptors st)[i := kblock b]" "free_entry st i"
  shows "\<exists>s'. fclose (int i + 1) s = Ret (0, s') \<and> kheap_rel s' (grant A P ++ B) \<and> file_frame s s' \<and> disk_streams s' = disk_streams s \<and>
    file_descriptors s' = file_descriptors st \<and> keeps_live (grant A P ++ B) (pmem s) (pmem s')"
proof -
  obtain s' where S: "fclose (int i + 1) s = Ret (0, s')"
    "kheap_rel s' ((grant A (P \<union> {b, q, f, c}) ++ B)(c := None, f := None, q := None, b := None))"
    "file_frame s s'" "disk_streams s' = disk_streams s" "file_descriptors s' = (file_descriptors s)[i := 0]"
    "\<forall>a. in_data a \<longrightarrow> pmem s' a = pmem s a"
    using close_program [OF op sv] by blast
  have rel: "kheap_rel s' (grant A P ++ B)" using S(2) unfolding closed_allocs [OF fresh] .
  moreover have "file_descriptors s' = file_descriptors st"
    using S(5) fd first_slot_Some [of 0 "file_descriptors st" i] by (simp add: free_entry_def list_update_same_conv)
  moreover have "keeps_live (grant A P ++ B) (pmem s) (pmem s')" using kheap_rel_wf [OF rel] S(6) by (rule keeps_data)
  ultimately show ?thesis using S(1,3,4) by blast
qed

lemma map_le_loaded:
  assumes "\<forall>y \<in> F. A y = None" and "A x = None"
  shows "A \<subseteq>\<^sub>m grant A F ++ [x \<mapsto> n]" "A \<subseteq>\<^sub>m (grant A F ++ [x \<mapsto> n])(x := None)"
  using assms by (auto simp: map_le_def grant_def)

text \<open>
  Reading the file into block \<open>x\<close> and closing it, whatever the caller stores into the structures of the process
  and of the program in between.
\<close>

lemma read_close_run:
  fixes s :: "('d, 'a) file_machine_scheme"
  assumes conf: "ata_conforms io view img W" "W < fuel" "length img < 2 ^ 31"
    and op: "opened s (grant A (P \<union> {b, q, f, c}) ++ [x \<mapsto> nb]) i b q f c e" and mnt: "fat_mounted s priv" "served s"
    and prog: "program_file img st A1 priv path e" "the_disk s = the_disk st" and nb: "nb = blocks_for (fdi_filesize e)" "0 < nb"
    and fresh: "\<forall>y \<in> P \<union> {b, q, f, c}. A y = None" "P \<inter> {b, q, f, c} = {}" "x \<notin> P \<union> {b, q, f, c}" "A x = None"
    and fd: "file_descriptors s = (file_descriptors st)[i := kblock b]" "free_entry st i"
  shows "\<exists>s'. fread io fuel (kblock x) (fdi_filesize e) 1 (int i + 1) s = Ret (1, s') \<and> file_frame s s' \<and>
    mem_bytes (pmem s') (kblock x) (unat (fdi_filesize e)) = file_bytes img priv e \<and> keeps_live A (pmem s) (pmem s') \<and>
    (\<forall>ps es. \<exists>s''. fclose (int i + 1) (s'\<lparr>elf_files := es, procs := ps\<rparr>) = Ret (0, s'') \<and> kheap_rel s'' (grant A P ++ [x \<mapsto> nb]) \<and>
       file_frame (s'\<lparr>elf_files := es, procs := ps\<rparr>) s'' \<and> fat_mounted s'' priv \<and> file_descriptors s'' = file_descriptors st \<and>
       keeps_live (grant A P ++ [x \<mapsto> nb]) (pmem s') (pmem s''))"
proof -
  let ?A = "grant A (P \<union> {b, q, f, c}) ++ [x \<mapsto> nb]" and ?n = "unat (fdi_filesize e)"
  have x: "?A x = Some nb" "?n \<le> nb * 4096" "x \<notin> {b, q, f, c}" using fresh(3) blocks_for_bytes nb by simp_all
  obtain s' where R: "fread io fuel (kblock x) (fdi_filesize e) 1 (int i + 1) s = Ret (1, s')" "opened s' ?A i b q f c e"
    "file_frame s s'" "fat_mounted s' priv" "served s'" "file_descriptors s' = file_descriptors s"
    "mem_bytes (pmem s') (kblock x) ?n = file_bytes img priv e" "keeps_live (?A(x := None)) (pmem s) (pmem s')"
    using read_program [OF conf op mnt prog x] by blast
  have "keeps_live A (pmem s) (pmem s')" using R(8) map_le_loaded(2) [OF fresh(1,4)] by (rule keeps_live_le)
  moreover have "\<exists>s''. fclose (int i + 1) (s'\<lparr>elf_files := es, procs := ps\<rparr>) = Ret (0, s'') \<and> kheap_rel s'' (grant A P ++ [x \<mapsto> nb]) \<and>
       file_frame (s'\<lparr>elf_files := es, procs := ps\<rparr>) s'' \<and> fat_mounted s'' priv \<and> file_descriptors s'' = file_descriptors st \<and>
       keeps_live (grant A P ++ [x \<mapsto> nb]) (pmem s') (pmem s'')" for ps es
  proof -
    let ?u = "s'\<lparr>elf_files := es, procs := ps\<rparr>"
    have u: "opened ?u ?A i b q f c e" "served ?u" "fat_mounted ?u priv" using R(2,4,5) by (simp_all add: opened_def served_def kheap_rel_def fat_mounted_def)
    have xB: "\<forall>y \<in> {b, q, f, c}. [x \<mapsto> nb] y = None" using fresh(3) by auto
    have "file_descriptors ?u = (file_descriptors st)[i := kblock b]" using R(6) fd(1) by simp
    from close_rest [OF u(1,2) fresh(1,2) xB this fd(2)] obtain s'' where C: "fclose (int i + 1) ?u = Ret (0, s'')"
      "kheap_rel s'' (grant A P ++ [x \<mapsto> nb])" "file_frame ?u s''" "disk_streams s'' = disk_streams ?u"
      "file_descriptors s'' = file_descriptors st" "keeps_live (grant A P ++ [x \<mapsto> nb]) (pmem ?u) (pmem s'')" by blast
    then show ?thesis using file_frame_mounted [OF C(3,4)] u(3) by (intro exI [of _ s'']) simp
  qed
  ultimately show ?thesis using R(1,3,7) by blast
qed

lemma load_binary_run:
  assumes conf: "ata_conforms io view img W" "W < fuel" "length img < 2 ^ 31"
    and rel: "kheap_rel st A" and prog: "program_file img st A priv path e" and slot: "free_entry st i"
    and room: "(used L K A + 8) * nb \<le> K" "L + K \<le> KBLOCKS" and nb: "nb = blocks_for (fdi_filesize e)" "0 < nb"
    and p: "procs st process = Some p"
  shows "\<exists>P x st'. process_load_binary io fuel path process st = Ret (0, st') \<and> card P = 3 \<and> x \<notin> P \<and> x < KBLOCKS \<and>
    (\<forall>y \<in> insert x P. A y = None) \<and> kheap_rel st' (grant A P ++ [x \<mapsto> nb]) \<and> keeps_live A (pmem st) (pmem st') \<and>
    mem_bytes (pmem st') (kblock x) (unat (fdi_filesize e)) = file_bytes img priv e \<and>
    fat_mounted st' priv \<and> file_descriptors st' = file_descriptors st \<and>
    file_frame (st\<lparr>procs := (procs st)(process \<mapsto> p\<lparr>p_filetype := PROCESS_FILETYPE_BINARY, p_ptr := kblock x, p_size := fdi_filesize e\<rparr>)\<rparr>) st'"
proof -
  let ?n = "unat (fdi_filesize e)"
  have fuel: "0 < fuel" using conf(2) by simp
  obtain P b q f c x s1 s2 where O: "fopen io fuel path [0x72, 0] st = Ret (int i + 1, s1)"
    "fstat (int i + 1) s1 \<lparr>fs_flags = 0, fs_filesize = 0\<rparr> = Ret (0, \<lparr>fs_flags = (if fdi_attribute e AND FAT_FILE_READ_ONLY \<noteq> 0 then FILE_STAT_READ_ONLY else 0), fs_filesize = fdi_filesize e\<rparr>)"
    "kzalloc (fdi_filesize e) s1 = (kblock x, s2)" "x < KBLOCKS" "A x = None" "x \<notin> P \<union> {b, q, f, c}"
    "opened s2 (grant A (P \<union> {b, q, f, c}) ++ [x \<mapsto> nb]) i b q f c e" "file_frame st s2" "disk_streams s2 = disk_streams st"
    "file_descriptors s2 = (file_descriptors st)[i := kblock b]" "card P = 3" "P \<inter> {b, q, f, c} = {}"
    "\<forall>y \<in> P \<union> {b, q, f, c}. A y = None" "keeps_live A (pmem st) (pmem s2)"
    using open_alloc_run [OF rel prog slot fuel room nb, of io "\<lparr>fs_flags = 0, fs_filesize = 0\<rparr>"] by blast
  have mnt: "fat_mounted s2 priv" "served s2" "the_disk s2 = the_disk st"
    using prog O(8,9) by (simp_all add: file_frame_mounted file_frame_served file_frame_fields program_file_def)
  let ?p = "p\<lparr>p_filetype := PROCESS_FILETYPE_BINARY, p_ptr := kblock x, p_size := fdi_filesize e\<rparr>"
  let ?ps = "(procs st)(process \<mapsto> ?p)"
  obtain s3 s5 where R: "fread io fuel (kblock x) (fdi_filesize e) 1 (int i + 1) s2 = Ret (1, s3)" "file_frame s2 s3"
    "mem_bytes (pmem s3) (kblock x) ?n = file_bytes img priv e" "keeps_live A (pmem s2) (pmem s3)"
    and C: "fclose (int i + 1) (s3\<lparr>elf_files := elf_files s3, procs := ?ps\<rparr>) = Ret (0, s5)" "kheap_rel s5 (grant A P ++ [x \<mapsto> nb])"
    "file_frame (s3\<lparr>elf_files := elf_files s3, procs := ?ps\<rparr>) s5" "fat_mounted s5 priv" "file_descriptors s5 = file_descriptors st"
    "keeps_live (grant A P ++ [x \<mapsto> nb]) (pmem s3) (pmem s5)"
    using read_close_run [OF conf O(7) mnt(1,2) prog mnt(3) nb O(13,12,6,5,10) slot] by blast
  have ps: "procs s3 = procs st" using file_frame_fields(1) [OF O(8)] file_frame_fields(1) [OF R(2)] by simp
  have run: "process_load_binary io fuel path process st = Ret (0, s5)"
    using O(1-4) R(1) C(1) p ps by (simp add: process_load_binary_def derefx_def)
  have fresh: "\<forall>y \<in> insert x P. A y = None" "x \<notin> P" using O(5,6,13) by auto
  have "keeps_live A (pmem st) (pmem s5)"
    using keeps_live_trans [OF keeps_live_trans [OF O(14) R(4) map_le_refl] C(6)] map_le_loaded(1) [of P A x nb] fresh by simp
  moreover have "mem_bytes (pmem s5) (kblock x) ?n = file_bytes img priv e"
    using keeps_live_bytes [OF C(6) kheap_rel_wf [OF C(2)], of x nb 0 ?n] blocks_for_bytes nb R(3) by simp
  moreover have "file_frame (st\<lparr>procs := ?ps\<rparr>) s5"
    using file_frame_trans [OF file_frame_procs [OF file_frame_trans [OF O(8) R(2)], of ?ps]] C(3) by simp
  ultimately show ?thesis using run O(4,11) fresh C(2,4,5) by blast
qed

text \<open>
  \<open>elf_load\<close> on a file that can be read: the result is that of \<open>elf_process_loaded\<close> on the bytes of the file. The
  structure in block \<open>y\<close> and the bytes in block \<open>x\<close> stay allocated, whatever the result is.
\<close>

lemma elf_load_run:
  assumes conf: "ata_conforms io view img W" "W < fuel" "length img < 2 ^ 31"
    and rel: "kheap_rel st A" and prog: "program_file img st A priv path e" and slot: "free_entry st i"
    and room: "(used L K A + 9) * nb \<le> K" "L + K \<le> KBLOCKS" and nb: "nb = blocks_for (fdi_filesize e)" "0 < nb"
  shows "\<exists>P x y m f' res st'. elf_load io fuel path st = Ret (res, if res < 0 then 0 else kblock y, st') \<and>
    elf_process_loaded m (zero_elf_file\<lparr>ef_elf_memory := kblock x\<rparr>) = (res, f') \<and>
    mem_bytes m (kblock x) (unat (fdi_filesize e)) = file_bytes img priv e \<and>
    card P = 3 \<and> y \<notin> P \<and> x \<notin> insert y P \<and> x < KBLOCKS \<and> y < KBLOCKS \<and>
    (\<forall>z \<in> insert x (insert y P). A z = None) \<and> kheap_rel st' (grant A (insert y P) ++ [x \<mapsto> nb]) \<and> keeps_live A (pmem st) (pmem st') \<and>
    keeps_live (grant A (insert y P) ++ [x \<mapsto> nb]) m (pmem st') \<and>
    fat_mounted st' priv \<and> file_descriptors st' = file_descriptors st \<and>
    file_frame (st\<lparr>elf_files := (elf_files st)(kblock y \<mapsto> f')\<rparr>) st'"
proof -
  let ?n = "unat (fdi_filesize e)"
  have fuel: "0 < fuel" using conf(2) by simp
  have "used L K A + 9 \<le> (used L K A + 9) * nb" using nb(2) by simp
  then have "used L K A + 1 \<le> K" using room(1) by linarith
  then have "1 \<le> free_blocks A" by (rule used_avail [OF room(2)])
  then have "0 < free_blocks A" by simp
  then obtain y m0 where Y: "kzalloc 132 st = (kblock y, st\<lparr>pmem := m0\<rparr>)" "A y = None" "y < KBLOCKS"
    "kheap_rel (st\<lparr>pmem := m0\<rparr>) (A(y \<mapsto> 1))" "keeps_live A (pmem st) m0"
    using kzalloc_live_one [OF rel, of 132] by auto
  let ?Ay = "A(y \<mapsto> 1)" and ?sy = "st\<lparr>pmem := m0, elf_files := (elf_files st)(kblock y \<mapsto> zero_elf_file)\<rparr>"
  have "fat_mounted ?sy priv" "served ?sy" using prog by (simp_all add: fat_mounted_def served_def program_file_def)
  then have progy: "program_file img ?sy ?Ay priv path e"
    using program_file_live [OF prog kheap_rel_wf [OF rel] map_le_fresh [of A y 1], of ?sy] Y(2,5) by simp
  have rely: "kheap_rel ?sy ?Ay" and sloty: "free_entry ?sy i" using Y(4) slot by (simp_all add: kheap_rel_def free_entry_def)
  have "(used L K ?Ay + 8) * nb \<le> (used L K A + 9) * nb" using used_upd [of L K A y 1] by (intro mult_le_mono1) simp
  then have roomy: "(used L K ?Ay + 8) * nb \<le> K" using room(1) by (rule le_trans)
  obtain P b q f c x s1 s2 where O: "fopen io fuel path [0x72, 0] ?sy = Ret (int i + 1, s1)"
    "fstat (int i + 1) s1 \<lparr>fs_flags = 0, fs_filesize = 0\<rparr> = Ret (0, \<lparr>fs_flags = (if fdi_attribute e AND FAT_FILE_READ_ONLY \<noteq> 0 then FILE_STAT_READ_ONLY else 0), fs_filesize = fdi_filesize e\<rparr>)"
    "kzalloc (fdi_filesize e) s1 = (kblock x, s2)" "x < KBLOCKS" "?Ay x = None" "x \<notin> P \<union> {b, q, f, c}"
    "opened s2 (grant ?Ay (P \<union> {b, q, f, c}) ++ [x \<mapsto> nb]) i b q f c e" "file_frame ?sy s2" "disk_streams s2 = disk_streams ?sy"
    "file_descriptors s2 = (file_descriptors ?sy)[i := kblock b]" "card P = 3" "P \<inter> {b, q, f, c} = {}"
    "\<forall>y' \<in> P \<union> {b, q, f, c}. ?Ay y' = None" "keeps_live ?Ay (pmem ?sy) (pmem s2)"
    using open_alloc_run [OF rely progy sloty fuel roomy room(2) nb, of io "\<lparr>fs_flags = 0, fs_filesize = 0\<rparr>"] by blast
  let ?F = "zero_elf_file\<lparr>ef_elf_memory := kblock x\<rparr>"
  let ?s2 = "s2\<lparr>elf_files := (elf_files s2)(kblock y \<mapsto> ?F)\<rparr>"
  have ef2: "elf_files s2 = (elf_files st)(kblock y \<mapsto> zero_elf_file)" using file_frame_fields(6) [OF O(8)] by simp
  have op2: "opened ?s2 (grant ?Ay (P \<union> {b, q, f, c}) ++ [x \<mapsto> nb]) i b q f c e" using O(7) by (simp add: opened_def kheap_rel_def)
  have "fat_mounted s2 priv" "served s2" "the_disk s2 = the_disk ?sy"
    using progy O(8,9) by (simp_all add: file_frame_mounted file_frame_served file_frame_fields program_file_def)
  then have mnt: "fat_mounted ?s2 priv" "served ?s2" "the_disk ?s2 = the_disk ?sy" by (simp_all add: fat_mounted_def served_def)
  have fd2: "file_descriptors ?s2 = (file_descriptors ?sy)[i := kblock b]" using O(10) by simp
  obtain s3 where R: "fread io fuel (kblock x) (fdi_filesize e) 1 (int i + 1) ?s2 = Ret (1, s3)" "file_frame ?s2 s3"
    "mem_bytes (pmem s3) (kblock x) ?n = file_bytes img priv e" "keeps_live ?Ay (pmem ?s2) (pmem s3)"
    and K: "\<forall>ps es. \<exists>s5. fclose (int i + 1) (s3\<lparr>elf_files := es, procs := ps\<rparr>) = Ret (0, s5) \<and> kheap_rel s5 (grant ?Ay P ++ [x \<mapsto> nb]) \<and>
       file_frame (s3\<lparr>elf_files := es, procs := ps\<rparr>) s5 \<and> fat_mounted s5 priv \<and> file_descriptors s5 = file_descriptors ?sy \<and>
       keeps_live (grant ?Ay P ++ [x \<mapsto> nb]) (pmem s3) (pmem s5)"
    using read_close_run [OF conf op2 mnt(1,2) progy mnt(3) nb O(13,12,6,5) fd2 sloty] by blast
  obtain res f' where E: "elf_process_loaded (pmem s3) ?F = (res, f')" by fastforce
  let ?E = "(elf_files st)(kblock y \<mapsto> f')"
  obtain s5 where C: "fclose (int i + 1) (s3\<lparr>elf_files := ?E, procs := procs s3\<rparr>) = Ret (0, s5)" "kheap_rel s5 (grant ?Ay P ++ [x \<mapsto> nb])"
    "file_frame (s3\<lparr>elf_files := ?E, procs := procs s3\<rparr>) s5" "fat_mounted s5 priv" "file_descriptors s5 = file_descriptors ?sy"
    "keeps_live (grant ?Ay P ++ [x \<mapsto> nb]) (pmem s3) (pmem s5)"
    using K by blast
  have ef3: "elf_files s3 = (elf_files st)(kblock y \<mapsto> ?F)" using file_frame_fields(6) [OF R(2)] ef2 by simp
  have A': "grant ?Ay P ++ [x \<mapsto> nb] = grant A (insert y P) ++ [x \<mapsto> nb]" by (auto simp: grant_def fun_eq_iff map_add_def)
  have y: "y \<notin> P" "x \<notin> insert y P" using O(5,6,13) by (auto split: if_splits)
  have fresh: "\<forall>z \<in> insert x (insert y P). A z = None" using O(5,13) Y(2) by (auto split: if_splits)
  have run: "elf_load io fuel path st = Ret (res, if res < 0 then 0 else kblock y, s5)"
    using Y(1,3) O(1-4) R(1) C(1) E ef2 ef3 by (simp add: elf_load_def elf_load_open_def derefx_def)
  have le: "A \<subseteq>\<^sub>m ?Ay" using Y(2) by (rule_tac map_le_fresh)
  have "keeps_live A (pmem st) (pmem s2)" using keeps_live_trans [OF Y(5) _ le] O(14) by simp
  moreover have "keeps_live A (pmem s2) (pmem s3)" using keeps_live_le [OF R(4) le] by simp
  moreover have "A \<subseteq>\<^sub>m grant A (insert y P) ++ [x \<mapsto> nb]" using fresh by (intro map_le_loaded) simp_all
  ultimately have "keeps_live A (pmem st) (pmem s5)" using C(6) unfolding A' by (meson keeps_live_trans map_le_refl)
  moreover have "file_frame (st\<lparr>elf_files := ?E\<rparr>) s5"
  proof -
    have "file_frame (?sy\<lparr>elf_files := ?E\<rparr>) (s2\<lparr>elf_files := ?E\<rparr>)" "file_frame (?s2\<lparr>elf_files := ?E\<rparr>) (s3\<lparr>elf_files := ?E\<rparr>)"
      by (rule file_frame_elf_files [OF O(8)], rule file_frame_elf_files [OF R(2)])
    then have "file_frame (?sy\<lparr>elf_files := ?E\<rparr>) s5" using C(3) by (simp add: file_frame_trans)
    then show ?thesis by (simp add: file_frame_def)
  qed
  moreover have "file_descriptors s5 = file_descriptors st" using C(5) by simp
  ultimately show ?thesis using run E R(3) y fresh O(4,11) Y(3) C(2,4,6) unfolding A' by blast
qed

end
