(* ===== verification/Load_Process.thy ===== *)
theory Load_Process
  imports Load_Program
begin

text \<open>
  From the name of a program to a process that can be scheduled: \<open>process_load\<close> of \<open>src/src/task/process.c\<close> on a raw
  binary. The process gets a slot, a structure, the bytes of the program, a stack and a task with a page directory in
  which the program and the stack are mapped for user mode.
\<close>

section \<open>Loading the data\<close>

lemma validate_raw:
  assumes "m h \<noteq> 0x7F"
  shows "elf_validate_loaded m h = - EINFORMAT"
  using assms by (simp add: validate_loaded_char)

lemma elf_process_raw:
  assumes "m (ef_elf_memory f) \<noteq> 0x7F"
  shows "elf_process_loaded m f = (- EINFORMAT, f)"
  using validate_raw [of m "ef_elf_memory f"] assms by (simp add: elf_process_loaded_def elf_header_of_def)

text \<open>
  A raw binary, whose first byte is not that of an ELF file, is read twice: by \<open>elf_load\<close>, which refuses it, and
  then by \<open>process_load_binary\<close>. What the first attempt allocated is never released.
\<close>

lemma load_data_run:
  assumes conf: "ata_conforms io view img W" "W < fuel" "length img < 2 ^ 31"
    and rel: "kheap_rel st A" and prog: "program_file img st A priv path e" and slot: "free_entry st i"
    and room: "(used L K A + nb + 12) * nb \<le> K" "L + K \<le> KBLOCKS" and nb: "nb = blocks_for (fdi_filesize e)" "0 < nb"
    and raw: "file_bytes img priv e ! 0 \<noteq> 0x7F" and p: "procs st process = Some p"
  shows "\<exists>A' x es st'. process_load_data io fuel path process st = Ret (0, st') \<and> kheap_rel st' A' \<and> A \<subseteq>\<^sub>m A' \<and>
    A' x = Some nb \<and> A x = None \<and> x < KBLOCKS \<and> used L K A' \<le> used L K A + 2 * nb + 7 \<and> keeps_live A (pmem st) (pmem st') \<and>
    mem_bytes (pmem st') (kblock x) (unat (fdi_filesize e)) = file_bytes img priv e \<and>
    fat_mounted st' priv \<and> file_descriptors st' = file_descriptors st \<and>
    file_frame (st\<lparr>elf_files := es, procs := (procs st)(process \<mapsto>
      p\<lparr>p_filetype := PROCESS_FILETYPE_BINARY, p_ptr := kblock x, p_size := fdi_filesize e\<rparr>)\<rparr>) st'"
proof -
  let ?n = "unat (fdi_filesize e)"
  have "(used L K A + 9) * nb \<le> (used L K A + nb + 12) * nb" by (rule mult_le_mono1) simp
  then have room1: "(used L K A + 9) * nb \<le> K" using room(1) by (rule le_trans)
  obtain P x y m f' res s1 where E: "elf_load io fuel path st = Ret (res, if res < 0 then 0 else kblock y, s1)"
    "elf_process_loaded m (zero_elf_file\<lparr>ef_elf_memory := kblock x\<rparr>) = (res, f')" "mem_bytes m (kblock x) ?n = file_bytes img priv e"
    "card P = 3" "y \<notin> P" "x \<notin> insert y P" "\<forall>z \<in> insert x (insert y P). A z = None"
    "kheap_rel s1 (grant A (insert y P) ++ [x \<mapsto> nb])" "keeps_live A (pmem st) (pmem s1)" "fat_mounted s1 priv"
    "file_descriptors s1 = file_descriptors st" "file_frame (st\<lparr>elf_files := (elf_files st)(kblock y \<mapsto> f')\<rparr>) s1"
    using elf_load_run [OF conf rel prog slot room1 room(2) nb] by blast
  let ?B = "grant A (insert y P) ++ [x \<mapsto> nb]" and ?e = "(elf_files st)(kblock y \<mapsto> f')"
  have n0: "0 < ?n" using prog by (simp add: program_file_def)
  then have "m (kblock x) \<noteq> 0x7F" using raw mem_bytes_nth [of 0 ?n m "kblock x"] E(3) by simp
  then have res: "res = - EINFORMAT" using E(2) elf_process_raw [of m "zero_elf_file\<lparr>ef_elf_memory := kblock x\<rparr>"] by simp
  have le: "A \<subseteq>\<^sub>m ?B" using E(7) by (intro map_le_loaded) simp_all
  have sv: "served s1" "the_disk s1 = the_disk st" "procs s1 = procs st"
    using prog file_frame_served [OF E(12)] file_frame_fields [OF E(12)] by (simp_all add: program_file_def served_def)
  have prog1: "program_file img s1 ?B priv path e" using program_file_live [OF prog kheap_rel_wf [OF rel] le E(9,10) sv(1,2)] .
  have slot1: "free_entry s1 i" using slot E(11) by (simp add: free_entry_def)
  have fin: "finite P" using E(4) by (simp add: card_ge_0_finite)
  have u1: "used L K ?B \<le> used L K A + nb + 4"
    using used_grant [of "insert y P" L K A] used_upd [of L K "grant A (insert y P)" x nb] fin E(4,5) by simp
  then have "(used L K ?B + 8) * nb \<le> (used L K A + nb + 12) * nb" by (intro mult_le_mono1) simp
  then have room2: "(used L K ?B + 8) * nb \<le> K" using room(1) by (rule le_trans)
  have p1: "procs s1 process = Some p" using p sv(3) by simp
  obtain Q z s2 where Z: "process_load_binary io fuel path process s1 = Ret (0, s2)" "card Q = 3" "z \<notin> Q" "z < KBLOCKS"
    "\<forall>y \<in> insert z Q. ?B y = None" "kheap_rel s2 (grant ?B Q ++ [z \<mapsto> nb])" "keeps_live ?B (pmem s1) (pmem s2)"
    "mem_bytes (pmem s2) (kblock z) ?n = file_bytes img priv e" "fat_mounted s2 priv" "file_descriptors s2 = file_descriptors s1"
    "file_frame (s1\<lparr>procs := (procs s1)(process \<mapsto> p\<lparr>p_filetype := PROCESS_FILETYPE_BINARY, p_ptr := kblock z, p_size := fdi_filesize e\<rparr>)\<rparr>) s2"
    using load_binary_run [OF conf E(8) prog1 slot1 room2 room(2) nb p1] by blast
  let ?C = "grant ?B Q ++ [z \<mapsto> nb]"
    and ?ps = "(procs st)(process \<mapsto> p\<lparr>p_filetype := PROCESS_FILETYPE_BINARY, p_ptr := kblock z, p_size := fdi_filesize e\<rparr>)"
  have "process_load_data io fuel path process st = Ret (0, s2)"
    using E(1) Z(1) res by (simp add: process_load_data_def process_load_elf_def)
  moreover have leC: "?B \<subseteq>\<^sub>m ?C" using Z(5) by (intro map_le_loaded) simp_all
  moreover have "finite Q" using Z(2) by (simp add: card_ge_0_finite)
  then have "used L K ?C \<le> used L K A + 2 * nb + 7"
    using used_grant [of Q L K ?B] used_upd [of L K "grant ?B Q" z nb] u1 Z(2) by simp
  moreover have "A z = None" using Z(5) le by (metis domIff insertI1 map_le_def)
  moreover have "keeps_live A (pmem st) (pmem s2)" using keeps_live_trans [OF E(9) Z(7) le] .
  moreover have "file_frame (st\<lparr>elf_files := ?e, procs := ?ps\<rparr>) s2"
    using file_frame_trans [OF file_frame_procs [OF E(12), of ?ps]] Z(11) sv(3) by simp
  ultimately show ?thesis
    using Z(4,6,8,9,10) E(11) map_le_trans [OF le leC]
    by (intro exI [of _ ?C] exI [of _ z] exI [of _ ?e] exI [of _ s2]) simp
qed

lemma blocks_for_cluster:
  assumes "program_file img st A priv path e"
  shows "0 < blocks_for (fdi_filesize e)" "blocks_for (fdi_filesize e) \<le> 32"
proof -
  have "nat (size_of_cluster_bytes priv (the_disk st)) = unat (sectors_per_cluster (primary_header priv)) * 512"
    using assms by (simp add: program_file_def fat_mounted_def size_of_cluster_bytes_def nat_mult_distrib)
  moreover have "unat (sectors_per_cluster (primary_header priv)) < 256" using unsigned_less [of "sectors_per_cluster (primary_header priv)"] by simp
  moreover have "0 < unat (fdi_filesize e)" "unat (fdi_filesize e) \<le> nat (size_of_cluster_bytes priv (the_disk st))"
    using assms unfolding program_file_def by blast+
  ultimately have n: "0 < unat (fdi_filesize e)" "unat (fdi_filesize e) \<le> 131072" by simp_all
  then have "blocks_for (fdi_filesize e) = (unat (fdi_filesize e) + 4095) div 4096" by (intro blocks_for_ceil) simp
  then show "0 < blocks_for (fdi_filesize e)" "blocks_for (fdi_filesize e) \<le> 32" using n by simp_all
qed

section \<open>Mapping\<close>

lemma map_pages_run:
  assumes own: "owns_chunk m A c d us" and b: "x + n \<le> KBLOCKS" and v: "page_aligned v" "unat v + n * 4096 \<le> 2 ^ 32"
  shows "\<exists>m'. paging_map_to (kblock c) v (kblock x) (kblock (x + n)) 7 m = (0, m') \<and> owns_chunk m' A c d us \<and> same_but (set us) m m' \<and>
    (\<forall>k < n * 4096. paging_get_physical_address (kblock d) (v + of_nat k) m' = kblock x + of_nat k \<and>
       paging_get (kblock d) ((v + of_nat k) AND 0xfffff000) m' = ((kblock x + of_nat k) AND 0xfffff000) OR 7) \<and>
    (\<forall>w. page_aligned w \<longrightarrow> \<not> (unat v \<le> unat w \<and> unat w < unat v + n * 4096) \<longrightarrow>
       paging_get (kblock d) w m' = paging_get (kblock d) w m)"
proof -
  note u = unat_kblock_diff [OF b]
  have al: "page_aligned (kblock x)" "page_aligned (kblock (x + n))"
    using b unat_kblock [of x] unat_kblock [of "x + n"] by (simp_all add: page_aligned_def)
  have dir: "directory_entry m (kblock c) = kblock d" using own by (simp add: owns_chunk_def)
  obtain m' where M: "paging_map_to (kblock c) v (kblock x) (kblock (x + n)) 7 m = (0, m')"
    "\<forall>k < n * 4096. paging_get_physical_address (directory_entry m' (kblock c)) (v + of_nat k) m' = kblock x + of_nat k \<and>
       paging_get (directory_entry m' (kblock c)) ((v + of_nat k) AND 0xfffff000) m' = ((kblock x + of_nat k) AND 0xfffff000) OR 7"
    "\<forall>w. page_aligned w \<longrightarrow> \<not> (unat v \<le> unat w \<and> unat w < unat v + n * 4096) \<longrightarrow>
       paging_get (directory_entry m' (kblock c)) w m' = paging_get (kblock d) w m"
    using map_to_run [OF owns_chunk_wf [OF own] v(1) al, of 7] u v(2) dir by auto
  have O: "owns_chunk m' A c d us" "same_but (set us) m m'"
    using map_to_owned [OF own, of v "kblock x" "kblock (x + n)" 7] M(1) by simp_all
  then have "directory_entry m' (kblock c) = kblock d" by (simp add: owns_chunk_def)
  with M O show ?thesis by auto
qed

lemma physical_get:
  "paging_get_physical_address dir v m = (paging_get dir (v AND 0xfffff000) m AND 0xfffff000) + (v - (v AND 0xfffff000))"
  by (simp add: get_physical_run paging_get_run)

text \<open>The \<open>n\<close> pages from \<open>v\<close> on are the blocks from \<open>x\<close> on, writable and accessible from user mode.\<close>

definition mapped_at :: "mem \<Rightarrow> nat \<Rightarrow> u32 \<Rightarrow> nat \<Rightarrow> nat \<Rightarrow> bool" where
  "mapped_at m d v n x \<longleftrightarrow> (\<forall>k < n * 4096. paging_get_physical_address (kblock d) (v + of_nat k) m = kblock x + of_nat k \<and>
     paging_get (kblock d) ((v + of_nat k) AND 0xfffff000) m = ((kblock x + of_nat k) AND 0xfffff000) OR 7)"

text \<open>Mapping a program of \<open>n\<close> blocks and the stack. The binary is mapped twice, to the same effect.\<close>

lemma map_memory_run:
  assumes t: "tasks st (p_task p) = Some t" "t_page_directory t = kblock c" and own: "owns_chunk (pmem st) A c d us"
    and p: "p_filetype p = PROCESS_FILETYPE_BINARY" "p_ptr p = kblock x" "p_stack p = kblock w"
    and n: "n = blocks_for (p_size p)" "0 < n" "x + n \<le> KBLOCKS" "w + 4 \<le> KBLOCKS"
  shows "\<exists>m. process_map_memory p st = Ret (0, st\<lparr>pmem := m\<rparr>) \<and> owns_chunk m A c d us \<and> same_but (set us) (pmem st) m \<and>
    mapped_at m d 0x400000 n x \<and> mapped_at m d 0x3FB000 4 w"
proof -
  have al: "paging_align_address (kblock x + p_size p) = kblock (x + n)" "paging_align_address (kblock w + 16384) = kblock (w + 4)"
    using align_address_block [of x "p_size p"] align_address_block [of w 16384] n by (simp_all add: blocks_for_ceil)
  have v: "page_aligned 0x400000" "unat (0x400000 :: u32) + n * 4096 \<le> 2 ^ 32"
    "page_aligned 0x3FB000" "unat (0x3FB000 :: u32) + 4 * 4096 \<le> 2 ^ 32" using n(3) by (simp_all add: page_aligned_def)
  obtain m1 where M1: "paging_map_to (kblock c) 0x400000 (kblock x) (kblock (x + n)) 7 (pmem st) = (0, m1)" "owns_chunk m1 A c d us"
    "same_but (set us) (pmem st) m1" using map_pages_run [OF own n(3) v(1,2)] by blast
  obtain m2 where M2: "paging_map_to (kblock c) 0x400000 (kblock x) (kblock (x + n)) 7 m1 = (0, m2)" "owns_chunk m2 A c d us"
    "same_but (set us) m1 m2" "mapped_at m2 d 0x400000 n x" using map_pages_run [OF M1(2) n(3) v(1,2)] unfolding mapped_at_def by blast
  obtain m3 where M3: "paging_map_to (kblock c) 0x3FB000 (kblock w) (kblock (w + 4)) 7 m2 = (0, m3)" "owns_chunk m3 A c d us"
    "same_but (set us) m2 m3" "mapped_at m3 d 0x3FB000 4 w"
    "\<forall>z. page_aligned z \<longrightarrow> \<not> (unat (0x3FB000 :: u32) \<le> unat z \<and> unat z < unat (0x3FB000 :: u32) + 4 * 4096) \<longrightarrow>
       paging_get (kblock d) z m3 = paging_get (kblock d) z m2"
    using map_pages_run [OF M2(2) n(4) v(3,4)] unfolding mapped_at_def by blast
  have keep: "paging_get (kblock d) ((0x400000 + of_nat k) AND 0xfffff000) m3 = paging_get (kblock d) ((0x400000 + of_nat k) AND 0xfffff000) m2"
    if "k < n * 4096" for k
  proof -
    have "unat ((0x400000 + of_nat k :: u32) AND 0xfffff000) = unat (0x400000 :: u32) + k div 4096 * 4096"
      using that v(1,2) by (intro page_run_unat) linarith+
    then show ?thesis using M3(5) by simp
  qed
  have "mapped_at m3 d 0x400000 n x"
    unfolding mapped_at_def
  proof (intro allI impI)
    fix k assume k: "k < n * 4096"
    show "paging_get_physical_address (kblock d) (0x400000 + of_nat k) m3 = kblock x + of_nat k \<and>
        paging_get (kblock d) ((0x400000 + of_nat k) AND 0xfffff000) m3 = ((kblock x + of_nat k) AND 0xfffff000) OR 7"
      using M2(4) k unfolding mapped_at_def physical_get keep [OF k] by blast
  qed
  moreover have "process_map_memory p st = Ret (0, st\<lparr>pmem := m3\<rparr>)"
    using t p al M1(1) M2(1) M3(1) by (simp add: process_map_memory_def process_map_binary_def derefx_def)
  ultimately show ?thesis using M1(3) M2(3) M3(2-4) same_but_trans by blast
qed

section \<open>The parts of a process\<close>

lemma keeps_live_but:
  assumes "kheap_rel st (grant A F)" and "\<And>x. x \<in> F \<Longrightarrow> A x = None" and "same_but S m m'" and "S \<subseteq> F"
  shows "keeps_live A m m'"
  using assms by (intro keeps_live_frame [OF assms(1,2)]) (auto simp: same_but_def)

text \<open>
  What \<open>process_map_memory\<close> has to achieve for a process whose program has been loaded into the state \<open>s0\<close>: whatever
  task and stack at block \<open>w\<close> it then gets, with the contents of live memory kept, mapping succeeds, touches only the
  page tables of the task, and afterwards \<open>Q\<close> holds of its directory, the stack and the memory.
\<close>

definition maps_program ::
  "allocs \<Rightarrow> 'a process_machine_scheme \<Rightarrow> process \<Rightarrow> (nat \<Rightarrow> nat \<Rightarrow> mem \<Rightarrow> bool) \<Rightarrow> bool" where
  "maps_program A s0 p Q \<longleftrightarrow> (\<forall>(s :: 'a process_machine_scheme) B c d us w q t. kheap_rel s B \<and> A \<subseteq>\<^sub>m B \<and>
     tasks s (p_task q) = Some t \<and> t_page_directory t = kblock c \<and> owns_chunk (pmem s) B c d us \<and> (\<forall>b \<in> set us. A b = None) \<and>
     keeps_live A (pmem s0) (pmem s) \<and> elf_files s = elf_files s0 \<and> p_filetype q = p_filetype p \<and> p_ptr q = p_ptr p \<and>
     p_size q = p_size p \<and> p_stack q = kblock w \<and> w + 4 \<le> KBLOCKS \<longrightarrow>
     (\<exists>m. process_map_memory q s = Ret (0, s\<lparr>pmem := m\<rparr>) \<and> owns_chunk m B c d us \<and> same_but (set us) (pmem s) m \<and> Q d w m))"

lemma maps_programD:
  fixes s s0 :: "'a process_machine_scheme"
  assumes "maps_program A s0 p Q" and "kheap_rel s B" "A \<subseteq>\<^sub>m B" "tasks s (p_task q) = Some t" "t_page_directory t = kblock c"
    and "owns_chunk (pmem s) B c d us" "\<forall>b \<in> set us. A b = None" "keeps_live A (pmem s0) (pmem s)" "elf_files s = elf_files s0"
    and "p_filetype q = p_filetype p" "p_ptr q = p_ptr p" "p_size q = p_size p" "p_stack q = kblock w" "w + 4 \<le> KBLOCKS"
  shows "\<exists>m. process_map_memory q s = Ret (0, s\<lparr>pmem := m\<rparr>) \<and> owns_chunk m B c d us \<and> same_but (set us) (pmem s) m \<and> Q d w m"
  using assms unfolding maps_program_def by blast

lemma maps_binary:
  assumes "p_filetype p = PROCESS_FILETYPE_BINARY" "p_ptr p = kblock x" "n = blocks_for (p_size p)" "0 < n" "x + n \<le> KBLOCKS"
  shows "maps_program A s0 p (\<lambda>d w m. mapped_at m d 0x400000 n x \<and> mapped_at m d 0x3FB000 4 w)"
  unfolding maps_program_def
proof (intro allI impI, elim conjE)
  fix s :: "'a process_machine_scheme" and B c d us w t and q :: process
  assume *: "tasks s (p_task q) = Some t" "t_page_directory t = kblock c" "owns_chunk (pmem s) B c d us"
    "p_filetype q = p_filetype p" "p_ptr q = p_ptr p" "p_size q = p_size p" "p_stack q = kblock w" "w + 4 \<le> KBLOCKS"
  show "\<exists>m. process_map_memory q s = Ret (0, s\<lparr>pmem := m\<rparr>) \<and> owns_chunk m B c d us \<and> same_but (set us) (pmem s) m \<and>
      mapped_at m d 0x400000 n x \<and> mapped_at m d 0x3FB000 4 w"
    using map_memory_run [OF *(1-3), of x w n] * assms by simp
qed

text \<open>Every entry of the directory at block \<open>d\<close> is present, writable and open to user mode.\<close>

definition dir_open :: "mem \<Rightarrow> nat \<Rightarrow> bool" where
  "dir_open m d \<longleftrightarrow> (\<forall>i < 1024. load32 m (cell (kblock d) i) AND 7 = 7)"

lemma tables_built_open: "tables_built m d us 5 \<Longrightarrow> length us = 1024 \<Longrightarrow> dir_open m d"
  by (simp add: tables_built_def dir_open_def or.assoc bit.conj_disj_distrib2)

lemma dir_open_same:
  assumes "dir_open m d" and "same_but (set us) m m'" and "owns_chunk m' A c d us"
  shows "dir_open m' d"
proof -
  have d: "d < KBLOCKS" "\<And>b. b \<in> set us \<Longrightarrow> b < KBLOCKS \<and> b \<noteq> d" using assms(3) by (auto simp: owns_chunk_def)
  have "m' a = m a" if "in_block d a" for a using assms(2) d that blocks_one_disjoint unfolding same_but_def by blast
  then show ?thesis using assms(1) load_block_cong [OF d(1), of _ m' m] by (simp add: dir_open_def)
qed

text \<open>The task of a process whose program and stack are there, and its mappings.\<close>

lemma start_run:
  fixes st s0 :: "'a process_machine_scheme"
  assumes rel: "kheap_rel st A" and p: "procs st process = Some p" "p_ptr p = kblock x"
      "p_allocations p = replicate 1024 \<lparr>pa_ptr = 0, pa_size = 0\<rparr>"
    and w: "p_stack p = kblock w" "A w = Some 4" "x \<noteq> w" "A x \<noteq> None"
    and elf: "p_filetype p = PROCESS_FILETYPE_ELF \<Longrightarrow> elf_files st (p_ptr p) \<noteq> None"
    and base: "A0 \<subseteq>\<^sub>m A" "keeps_live A0 (pmem s0) (pmem st)" "elf_files st = elf_files s0" and maps: "maps_program A0 s0 p Q"
    and free: "1027 \<le> free_blocks A" and tl: "task_list st ts" "tasks_live A ts"
  shows "\<exists>b c d us t m st'. task_new process st = Ret (kblock b, st') \<and>
    process_map_memory (p\<lparr>p_task := kblock b\<rparr>) (st'\<lparr>procs := (procs st')(process \<mapsto> p\<lparr>p_task := kblock b\<rparr>)\<rparr>) =
      Ret (0, st'\<lparr>procs := (procs st')(process \<mapsto> p\<lparr>p_task := kblock b\<rparr>), pmem := m\<rparr>) \<and>
    running (st'\<lparr>procs := (procs st')(process \<mapsto> p\<lparr>p_task := kblock b\<rparr>), pmem := m\<rparr>) (grant A (set (b # c # d # us)))
      process (p\<lparr>p_task := kblock b\<rparr>) t c d us ts b x w \<and>
    t_process t = process \<and> t_registers t = start_registers (start_ip st' p) \<and> Q d w m \<and> dir_open m d \<and>
    keeps_live A (pmem st) (pmem st') \<and> keeps_live A (pmem st) m \<and> (\<forall>y \<in> set (b # c # d # us). A y = None) \<and>
    tasks_kept (kblock b) (tasks st) (tasks st') \<and> current_task st' = (if ts = [] then kblock b else current_task st) \<and>
    st' = st\<lparr>pmem := pmem st', tasks := tasks st', task_head := task_head st', task_tail := task_tail st', current_task := current_task st'\<rparr>"
proof -
  obtain b c d us t st' where T: "task_new process st = Ret (kblock b, st')" "b \<notin> set (c # d # us)" "b < KBLOCKS"
    "task_list st' (ts @ [kblock b])" "tasks st' (kblock b) = Some t" "t_page_directory t = kblock c" "t_process t = process"
    "t_registers t = start_registers (start_ip st' p)" "kheap_rel st' (grant A (set (b # c # d # us)))"
    "\<forall>e \<in> set (b # c # d # us). A e = None" "owns_chunk (pmem st') (grant A (set (b # c # d # us))) c d us"
    "tables_built (pmem st') d us 5" "same_outside (set (b # c # d # us)) (pmem st) (pmem st')"
    "st' = st\<lparr>pmem := pmem st', tasks := tasks st', task_head := task_head st', task_tail := task_tail st', current_task := current_task st'\<rparr>"
    "tasks_kept (kblock b) (tasks st) (tasks st')" "current_task st' = (if ts = [] then kblock b else current_task st)"
    using task_new_run [OF rel free p(1) elf tl] by blast
  let ?F = "set (b # c # d # us)" and ?p = "p\<lparr>p_task := kblock b\<rparr>"
  let ?B = "grant A ?F" and ?s = "st'\<lparr>procs := (procs st')(process \<mapsto> ?p)\<rparr>"
  have same: "elf_files st' = elf_files st" by (subst T(14)) simp
  have bound: "w + 4 \<le> KBLOCKS" using allocs_wfD(2) [OF kheap_rel_wf [OF rel]] w(2) by blast
  have fresh: "\<And>e. e \<in> ?F \<Longrightarrow> A e = None" using T(10) by (rule bspec)
  have kept: "keeps_live A (pmem st) (pmem st')" using T(13) by (intro keeps_live_frame [OF T(9) fresh]) (simp_all add: same_outside_def)
  have le: "A0 \<subseteq>\<^sub>m ?B" using map_le_trans [OF base(1) map_le_grant] fresh by blast
  have "kheap_rel ?s ?B" "tasks ?s (p_task ?p) = Some t" "owns_chunk (pmem ?s) ?B c d us" "elf_files ?s = elf_files s0"
    using T(5,9,11) same base(3) by (simp_all add: kheap_rel_def)
  moreover have "\<forall>e \<in> set us. A0 e = None" using fresh base(1) by (metis domIff list.set_intros(2) map_le_def)
  moreover have "keeps_live A0 (pmem s0) (pmem ?s)" using keeps_live_trans [OF base(2) kept base(1)] by simp
  ultimately obtain m where M: "process_map_memory ?p ?s = Ret (0, ?s\<lparr>pmem := m\<rparr>)"
    "owns_chunk m ?B c d us" "same_but (set us) (pmem ?s) m" "Q d w m"
    using maps_programD [OF maps, of ?s ?B ?p t c d us w] T(6) le w(1) bound by auto
  have us: "set us \<subseteq> {..<KBLOCKS}" "length us = 1024" "distinct (c # d # us)"
    and blk: "\<And>e. e \<in> set (c # d # us) \<Longrightarrow> e < KBLOCKS" using M(2) by (auto simp: owns_chunk_def)
  have "kheap_rel (st'\<lparr>pmem := m\<rparr>) ?B" using same_but_rel [OF T(9) _ us(1), of m] M(3) by simp
  then have rel5: "kheap_rel (?s\<lparr>pmem := m\<rparr>) ?B" by (simp add: kheap_rel_def)
  have "keeps_live A (pmem st') m" by (rule keeps_live_but [OF T(9) fresh, of "set us"]) (use M(3) in auto)
  with kept have keep: "keeps_live A (pmem st) m" by (meson keeps_live_trans map_le_refl)
  have "allocs_ok ?B (p_allocations ?p)" by (simp add: p(3) allocs_ok_def)
  moreover have "\<forall>a \<in> set (p_allocations ?p). \<forall>e \<in> set (c # d # us). pa_ptr a \<noteq> kblock e" using blk kblock_nonzero p(3) by auto
  ultimately have "proc_ok (?s\<lparr>pmem := m\<rparr>) ?B process ?p t c d us" using T(5,6) rel5 M(2) by (simp add: proc_ok_def)
  moreover have "task_list (?s\<lparr>pmem := m\<rparr>) (ts @ [kblock b])" using T(4) by (simp add: task_list_def)
  moreover have "held ?p = {}" using kblock_nonzero by (auto simp: held_def p(3))
  moreover have xw: "x \<notin> ?F" "w \<notin> ?F" using fresh w(2,4) by fastforce+
  ultimately have "running (?s\<lparr>pmem := m\<rparr>) ?B process ?p t c d us ts b x w"
    using T(2,3) us w p(2) by (auto simp: running_def grant_def)
  moreover have "dir_open m d" using dir_open_same [OF tables_built_open [OF T(12) us(2)] _ M(2)] M(3) by simp
  ultimately show ?thesis using T(1,7,8,10) M(1,4) keep kept T(14-16)
    by (intro exI [of _ b] exI [of _ c] exI [of _ d] exI [of _ us] exI [of _ t] exI [of _ m] exI [of _ st']) blast
qed

text \<open>
  What a process looks like that has been set up for the program at block \<open>x\<close>: it starts at \<open>ip\<close>, and \<open>Q\<close> holds of its
  page directory, its stack and the memory.
\<close>

definition started ::
  "u8 \<Rightarrow> u32 \<Rightarrow> u8 list \<Rightarrow> u32 list \<Rightarrow> nat \<Rightarrow> u32 \<Rightarrow> nat \<Rightarrow> (nat \<Rightarrow> nat \<Rightarrow> mem \<Rightarrow> bool) \<Rightarrow> 'a process_machine_scheme \<Rightarrow> allocs \<Rightarrow> bool" where
  "started ft ip path ts slot process x Q st A \<longleftrightarrow> (\<exists>p t c d us b w. running st A process p t c d us ts b x w \<and>
     p_filetype p = ft \<and> p_id p = of_nat slot \<and> cstr (p_filename p) = take 107 (cstr path) \<and>
     t_process t = process \<and> t_registers t = start_registers ip \<and> dir_open (pmem st) d \<and> Q d w (pmem st))"

lemma tasks_live_le: "tasks_live A ts \<Longrightarrow> A \<subseteq>\<^sub>m A' \<Longrightarrow> tasks_live A' ts"
  unfolding tasks_live_def map_le_def by (metis domIff)

text \<open>What loading leaves alone of the rest of the kernel.\<close>

definition kernel_kept :: "('d, 'a) file_machine_scheme \<Rightarrow> ('d, 'a) file_machine_scheme \<Rightarrow> bool" where
  "kernel_kept st st' \<longleftrightarrow> kernel_chunk st' = kernel_chunk st \<and> video_mem st' = video_mem st \<and> idt_descriptors st' = idt_descriptors st \<and>
     interrupt_callbacks st' = interrupt_callbacks st \<and> isr80h_commands st' = isr80h_commands st \<and> the_disk st' = the_disk st \<and>
     disk_addr st' = disk_addr st \<and> fat_privates st' = fat_privates st \<and> filesystem_objects st' = filesystem_objects st \<and>
     file_machine.more st' = file_machine.more st"

lemma kernel_kept_trans: "kernel_kept a b \<Longrightarrow> kernel_kept b c \<Longrightarrow> kernel_kept a c"
  by (simp add: kernel_kept_def)

lemma file_frame_kept: "file_frame st st' \<Longrightarrow> kernel_kept st st'"
  unfolding kernel_kept_def by (intro conjI; subst file_frame_def [THEN iffD1]) simp_all

text \<open>
  A new process beside those that were there: at most \<open>k\<close> more blocks are in use, the contents of live memory and the
  other structures stay, apart from the link of the last task to the new one.
\<close>

definition beside ::
  "nat \<Rightarrow> nat \<Rightarrow> nat \<Rightarrow> allocs \<Rightarrow> ('d, 'a) file_machine_scheme \<Rightarrow> u32 list \<Rightarrow> u32 \<Rightarrow> ('d, 'a) file_machine_scheme \<Rightarrow> allocs \<Rightarrow> bool" where
  "beside L K k A st ts process st' A' \<longleftrightarrow> A \<subseteq>\<^sub>m A' \<and> used L K A' \<le> used L K A + k \<and> keeps_live A (pmem st) (pmem st') \<and>
     kernel_kept st st' \<and> file_descriptors st' = file_descriptors st \<and> current_process st' = current_process st \<and>
     (\<forall>q. q \<noteq> process \<longrightarrow> procs st' q = procs st q) \<and>
     (\<forall>a \<in> set ts. \<forall>t. tasks st a = Some t \<longrightarrow> (\<exists>n. tasks st' a = Some (t\<lparr>t_next := n\<rparr>))) \<and>
     (if ts = [] then current_task st' \<noteq> 0 else current_task st' = current_task st)"

text \<open>The rest of \<open>process_load_parts\<close>, once the program has been read into memory.\<close>

lemma parts_run:
  fixes st s1 :: "('d, 'a) file_machine_scheme"
  assumes data: "process_load_data io fuel path process st = Ret (0, s1)" "kheap_rel s1 A1" "A \<subseteq>\<^sub>m A1" "A1 x \<noteq> None"
      "used L K A1 \<le> used L K A + k" "file_descriptors s1 = file_descriptors st" "fat_mounted s1 priv"
      "keeps_live A (pmem st) (pmem s1)" "file_frame (st\<lparr>elf_files := es, procs := (procs st)(process \<mapsto> p)\<rparr>) s1"
    and p: "p_ptr p = kblock x" "p_filename p = replicate 108 0" "p_allocations p = replicate 1024 \<lparr>pa_ptr = 0, pa_size = 0\<rparr>"
      "p_filetype p = PROCESS_FILETYPE_ELF \<Longrightarrow> es (p_ptr p) \<noteq> None"
    and maps: "maps_program A1 s1 p Q"
    and ip: "\<And>s :: ('d, 'a) file_machine_scheme. keeps_live A1 (pmem s1) (pmem s) \<Longrightarrow> elf_files s = es \<Longrightarrow> start_ip s p = ip"
    and room: "(used L K A1 + 1) * 4 \<le> K" "used L K A1 + 1031 \<le> K" "L + K \<le> KBLOCKS"
    and path: "terminated path" and tl: "task_list st ts" "tasks_live A ts"
  shows "\<exists>A' st'. process_load_parts io fuel path process slot st = Ret (0, process, st') \<and>
    started (p_filetype p) ip path ts slot process x Q st' A' \<and> beside L K (k + 1031) A st ts process st' A' \<and> fat_mounted st' priv \<and>
    keeps_live A1 (pmem s1) (pmem st') \<and> processes st' = (processes st)[slot := process]"
proof -
  note F = file_frame_fields [OF data(9), simplified]
  have four: "blocks_for 16384 = 4" by (simp add: blocks_for_ceil)
  obtain s where "fits A1 KBLOCKS (blocks_for 16384) s" using used_fits [OF room(1,3)] four by auto
  then obtain w m where W: "kzalloc 16384 s1 = (kblock w, s1\<lparr>pmem := m\<rparr>)" "A1 w = None" "w < KBLOCKS"
    "kheap_rel (s1\<lparr>pmem := m\<rparr>) (A1(w \<mapsto> 4))" "keeps_live A1 (pmem s1) m"
    using kzalloc_live [OF data(2), of 16384 s] four by auto
  obtain name where N: "strncpy (replicate 108 0) path 108 = Ret name" "cstr name = take 107 (cstr path)"
    using strncpy_bounded [of 108 "replicate 108 0" path] path by auto
  let ?p = "p\<lparr>p_filename := name, p_stack := kblock w, p_id := of_nat slot\<rparr>"
  let ?s = "s1\<lparr>pmem := m, procs := (procs s1)(process \<mapsto> ?p)\<rparr>" and ?A = "A1(w \<mapsto> 4)"
  have "used L K ?A + 1027 \<le> K" using used_upd [of L K A1 w 4] room(2) by simp
  then have free: "1027 \<le> free_blocks ?A" by (rule used_avail [OF room(3)])
  have le: "A1 \<subseteq>\<^sub>m ?A" using W(2) by (rule_tac map_le_fresh)
  have live: "tasks_live ?A ts" using tl(2) map_le_trans [OF data(3) le] by (rule tasks_live_le)
  have S: "kheap_rel ?s ?A" "task_list ?s ts" "x \<noteq> w" "?A x \<noteq> None"
    using W(2,4) tl(1) F data(4) by (auto simp: kheap_rel_def task_list_def)
  have maps': "maps_program A1 s1 ?p Q" using maps by (simp add: maps_program_def)
  have elf: "elf_files ?s (p_ptr ?p) \<noteq> None" if "p_filetype ?p = PROCESS_FILETYPE_ELF" using that p(4) F(6) by simp
  obtain b c d us t m' st' where T: "task_new process ?s = Ret (kblock b, st')"
    "process_map_memory (?p\<lparr>p_task := kblock b\<rparr>) (st'\<lparr>procs := (procs st')(process \<mapsto> ?p\<lparr>p_task := kblock b\<rparr>)\<rparr>) =
      Ret (0, st'\<lparr>procs := (procs st')(process \<mapsto> ?p\<lparr>p_task := kblock b\<rparr>), pmem := m'\<rparr>)"
    "running (st'\<lparr>procs := (procs st')(process \<mapsto> ?p\<lparr>p_task := kblock b\<rparr>), pmem := m'\<rparr>) (grant ?A (set (b # c # d # us)))
      process (?p\<lparr>p_task := kblock b\<rparr>) t c d us ts b x w"
    "t_process t = process" "t_registers t = start_registers (start_ip st' ?p)" "Q d w m'" "dir_open m' d"
    "keeps_live ?A (pmem ?s) (pmem st')" "keeps_live ?A (pmem ?s) m'" "\<forall>y \<in> set (b # c # d # us). ?A y = None"
    "tasks_kept (kblock b) (tasks ?s) (tasks st')" "current_task st' = (if ts = [] then kblock b else current_task ?s)"
    "st' = ?s\<lparr>pmem := pmem st', tasks := tasks st', task_head := task_head st', task_tail := task_tail st', current_task := current_task st'\<rparr>"
    using start_run [OF S(1) _ _ _ _ _ S(3,4) elf le _ _ maps' free S(2) live, of process] p W(5) by auto
  have G: "procs st' = procs ?s" "processes st' = processes ?s" "current_process st' = current_process ?s" "elf_files st' = elf_files ?s"
    "disk_streams st' = disk_streams s1" "file_descriptors st' = file_descriptors s1" "kernel_kept s1 st'"
    unfolding kernel_kept_def by (subst T(13), simp)+
  let ?q = "?p\<lparr>p_task := kblock b\<rparr>"
  let ?s' = "st'\<lparr>procs := (procs st')(process \<mapsto> ?q), pmem := m', processes := (processes st)[slot := process]\<rparr>" and ?B = "grant ?A (set (b # c # d # us))"
  have bk: "b < KBLOCKS" using T(3) by (simp add: running_def)
  then have b0: "sint (kblock b) \<noteq> 0" using unat_kblock [of b] by (subst sint_small) simp_all
  have run: "process_load_parts io fuel path process slot st = Ret (0, process, ?s')"
    using data(1) W(1,3) F(1) p(2) N(1) T(1,2) G(1,2) b0 F(7) by (simp add: process_load_parts_def derefx_def)
  have k: "keeps_live A1 (pmem s1) (pmem st')" "keeps_live A1 (pmem s1) m'" using keeps_live_trans [OF W(5) _ le] T(8,9) by simp_all
  have "start_ip st' ?p = start_ip st' p" by (simp add: start_ip_def)
  also have "\<dots> = ip" using ip [OF k(1)] G(4) F(6) by simp
  finally have "start_ip st' ?p = ip" .
  moreover have "running ?s' ?B process ?q t c d us ts b x w"
    using T(3) by (simp add: running_def proc_ok_def kheap_rel_def task_list_def)
  ultimately have "started (p_filetype p) ip path ts slot process x Q ?s' ?B"
    using T(4-7) N(2) unfolding started_def
    by (intro exI [of _ ?q] exI [of _ t] exI [of _ c] exI [of _ d] exI [of _ us] exI [of _ b] exI [of _ w]) simp
  moreover have "beside L K (k + 1031) A st ts process ?s' ?B"
    unfolding beside_def
  proof (intro conjI allI ballI impI)
    show "A \<subseteq>\<^sub>m ?B" using map_le_trans [OF map_le_trans [OF data(3) le] map_le_grant] T(10) by blast
    have "card (set (b # c # d # us)) \<le> 1027" using T(3) card_length [of "b # c # d # us"] by (simp add: running_def proc_ok_def owns_chunk_def)
    then show "used L K ?B \<le> used L K A + (k + 1031)"
      using used_grant [of "set (b # c # d # us)" L K ?A] used_upd [of L K A1 w 4] data(5) by simp
    show "keeps_live A (pmem st) (pmem ?s')" using keeps_live_trans [OF data(8) k(2) data(3)] by simp
    have "kernel_kept st s1" using file_frame_kept [OF data(9)] by (simp add: kernel_kept_def)
    then show "kernel_kept st ?s'" using G(7) by (simp add: kernel_kept_def)
    show "file_descriptors ?s' = file_descriptors st" "current_process ?s' = current_process st" using G(3,6) data(6) F(13) by simp_all
    show "procs ?s' q = procs st q" if "q \<noteq> process" for q using that G(1) F(1) by simp
    show "\<exists>n. tasks ?s' a = Some (u\<lparr>t_next := n\<rparr>)" if a: "a \<in> set ts" "tasks st a = Some u" for a u
    proof -
      obtain e where "a = kblock e" "?A e \<noteq> None" "e < KBLOCKS" using live a(1) unfolding tasks_live_def by blast
      then have "a \<noteq> kblock b" using T(10) bk by (auto simp: kblock_inj)
      then show ?thesis using T(11) a(2) F(9) by (simp add: tasks_kept_def)
    qed
    show "if ts = [] then current_task ?s' \<noteq> 0 else current_task ?s' = current_task st" using T(12) F(12) bk by simp
  qed
  moreover have "fat_mounted ?s' priv" using data(7) G(5,7) by (simp add: fat_mounted_def kernel_kept_def)
  ultimately show ?thesis using run k(2) by (intro exI [of _ ?B] exI [of _ ?s']) simp
qed

text \<open>What a process that has been loaded from the raw binary \<open>e\<close> looks like.\<close>

definition loaded ::
  "u8 list \<Rightarrow> fat_private \<Rightarrow> u8 list \<Rightarrow> fat_directory_item \<Rightarrow> u32 list \<Rightarrow> nat \<Rightarrow> u32 \<Rightarrow> 'a process_machine_scheme \<Rightarrow> allocs \<Rightarrow> bool" where
  "loaded img priv path e ts slot process st A \<longleftrightarrow> (\<exists>x. started PROCESS_FILETYPE_BINARY 0x400000 path ts slot process x
     (\<lambda>d w m. mapped_at m d 0x400000 (blocks_for (fdi_filesize e)) x \<and> mapped_at m d 0x3FB000 4 w) st A \<and>
     mem_bytes (pmem st) (kblock x) (unat (fdi_filesize e)) = file_bytes img priv e)"

lemma load_parts_run:
  assumes conf: "ata_conforms io view img W" "W < fuel" "length img < 2 ^ 31"
    and rel: "kheap_rel st A" and prog: "program_file img st A priv path e" and slot: "free_entry st i"
    and room: "(used L K A + nb + 12) * max nb 4 + 1100 \<le> K" "L + K \<le> KBLOCKS" and nb: "nb = blocks_for (fdi_filesize e)" "0 < nb"
    and raw: "file_bytes img priv e ! 0 \<noteq> 0x7F" and p: "procs st process = Some zero_process"
    and tl: "task_list st ts" "tasks_live A ts"
  shows "\<exists>A' st'. process_load_parts io fuel path process slot st = Ret (0, process, st') \<and>
    loaded img priv path e ts slot process st' A' \<and> beside L K (2 * nb + 7 + 1031) A st ts process st' A' \<and> fat_mounted st' priv \<and>
    processes st' = (processes st)[slot := process]"
proof -
  let ?n = "unat (fdi_filesize e)"
  have "(used L K A + nb + 12) * nb \<le> (used L K A + nb + 12) * max nb 4" "(used L K A + nb + 12) * 4 \<le> (used L K A + nb + 12) * max nb 4"
    by (rule mult_le_mono2, simp)+
  then have room1: "(used L K A + nb + 12) * nb \<le> K" and big: "(used L K A + nb + 12) * 4 + 1100 \<le> K" using room(1) by linarith+
  obtain A1 x es s1 where D: "process_load_data io fuel path process st = Ret (0, s1)" "kheap_rel s1 A1" "A \<subseteq>\<^sub>m A1" "A1 x = Some nb"
    "used L K A1 \<le> used L K A + 2 * nb + 7" "keeps_live A (pmem st) (pmem s1)" "mem_bytes (pmem s1) (kblock x) ?n = file_bytes img priv e"
    "file_frame (st\<lparr>elf_files := es, procs := (procs st)(process \<mapsto>
      zero_process\<lparr>p_filetype := PROCESS_FILETYPE_BINARY, p_ptr := kblock x, p_size := fdi_filesize e\<rparr>)\<rparr>) s1"
    "file_descriptors s1 = file_descriptors st" "fat_mounted s1 priv"
    using load_data_run [OF conf rel prog slot room1 room(2) nb raw p] by blast
  let ?p = "zero_process\<lparr>p_filetype := PROCESS_FILETYPE_BINARY, p_ptr := kblock x, p_size := fdi_filesize e\<rparr>"
  let ?Q = "\<lambda>d w m. mapped_at m d 0x400000 nb x \<and> mapped_at m d 0x3FB000 4 w"
  note wf = kheap_rel_wf [OF D(2)]
  have maps: "maps_program A1 s1 ?p ?Q" using allocs_wfD(2) [OF wf D(4)] nb by (intro maps_binary) simp_all
  have "nb \<le> 32" using blocks_for_cluster(2) [OF prog] nb(1) by simp
  then have used: "(used L K A1 + 1) * 4 \<le> K" "used L K A1 + 1031 \<le> K" using D(5) big by simp_all
  have path: "terminated path" using prog by (simp add: program_file_def valid_path_def)
  have x: "A1 x \<noteq> None" using D(4) by simp
  have pf: "p_ptr ?p = kblock x" "p_filename ?p = replicate 108 0" "p_allocations ?p = replicate 1024 \<lparr>pa_ptr = 0, pa_size = 0\<rparr>"
    "p_filetype ?p = PROCESS_FILETYPE_ELF \<Longrightarrow> es (p_ptr ?p) \<noteq> None" by (simp_all add: zero_process_def)
  have ip: "start_ip s ?p = 0x400000" for s :: "('a, 'b) file_machine_scheme" by (simp add: start_ip_def)
  obtain A' st' where R: "process_load_parts io fuel path process slot st = Ret (0, process, st')"
    "started (p_filetype ?p) 0x400000 path ts slot process x ?Q st' A'" "beside L K (2 * nb + 7 + 1031) A st ts process st' A'" "fat_mounted st' priv"
    "keeps_live A1 (pmem s1) (pmem st')" "processes st' = (processes st)[slot := process]"
    using parts_run [OF D(1-3) x _ D(9,10,6,8) pf maps ip used room(2) path tl, of "2 * nb + 7" slot] D(5) by auto
  have "?n \<le> nb * 4096" using blocks_for_bytes nb by simp
  then have "mem_bytes (pmem st') (kblock x) ?n = file_bytes img priv e"
    using keeps_live_bytes [OF R(5) wf D(4), of 0 ?n] D(7) by simp
  with R(2) have "loaded img priv path e ts slot process st' A'" unfolding loaded_def nb(1) by auto
  with R show ?thesis by blast
qed

section \<open>Loading\<close>

text \<open>The slot and the structure of a process, for any way in which \<open>process_load_parts\<close> can be known to succeed.\<close>

lemma slot_run:
  fixes st :: "('d, 'a) file_machine_scheme"
  assumes rel: "kheap_rel st A" and prog: "program_file img st A priv path e" and slot: "free_entry st i"
    and room: "(used L K A + 1) * 3 \<le> K" "L + K \<le> KBLOCKS" and j: "first_slot 0 (take 12 (processes st)) = Some j"
    and tl: "task_list st ts" "tasks_live A ts"
    and parts: "\<And>z (s :: ('d, 'a) file_machine_scheme). A z = None \<Longrightarrow> kheap_rel s (A(z \<mapsto> 3)) \<Longrightarrow> program_file img s (A(z \<mapsto> 3)) priv path e \<Longrightarrow>
      free_entry s i \<Longrightarrow> procs s (kblock z) = Some zero_process \<Longrightarrow> task_list s ts \<Longrightarrow> tasks_live (A(z \<mapsto> 3)) ts \<Longrightarrow>
      \<exists>A' st'. process_load_parts io fuel path (kblock z) j s = Ret (0, kblock z, st') \<and> R (kblock z) st' A' \<and>
        beside L K k (A(z \<mapsto> 3)) s ts (kblock z) st' A' \<and> fat_mounted st' priv \<and> processes st' = (processes s)[j := kblock z]"
  shows "\<exists>z A' st'. process_load io fuel path st = Ret (0, kblock z, st') \<and> R (kblock z) st' A' \<and>
    A z = None \<and> z < KBLOCKS \<and> A' z = Some 3 \<and> beside L K (k + 3) A st ts (kblock z) st' A' \<and> fat_mounted st' priv \<and>
    processes st' = (processes st)[j := kblock z]"
proof -
  have three: "blocks_for 9364 = 3" by (simp add: blocks_for_ceil)
  then obtain s where "fits A KBLOCKS (blocks_for 9364) s" using used_fits [of L K A 3] room by auto
  then obtain z m where Z: "kzalloc 9364 st = (kblock z, st\<lparr>pmem := m\<rparr>)" "A z = None" "z < KBLOCKS"
    "kheap_rel (st\<lparr>pmem := m\<rparr>) (A(z \<mapsto> 3))" "keeps_live A (pmem st) m"
    using kzalloc_live [OF rel, of 9364 s] three by auto
  let ?A = "A(z \<mapsto> 3)" and ?s = "st\<lparr>pmem := m, procs := (procs st)(kblock z \<mapsto> zero_process)\<rparr>"
  have le: "A \<subseteq>\<^sub>m ?A" using Z(2) by (rule_tac map_le_fresh)
  have "fat_mounted ?s priv" "served ?s" using prog by (simp_all add: program_file_def fat_mounted_def served_def)
  then have prog': "program_file img ?s ?A priv path e"
    using program_file_live [OF prog kheap_rel_wf [OF rel] le, of ?s] Z(5) by simp
  have "kheap_rel ?s ?A" "free_entry ?s i" "procs ?s (kblock z) = Some zero_process" "task_list ?s ts" "tasks_live ?A ts"
    using Z(4) slot tl tasks_live_le [OF tl(2) le] by (simp_all add: kheap_rel_def free_entry_def task_list_def)
  from parts [OF Z(2) this(1) prog' this(2-5)] obtain A' st' where
    P: "process_load_parts io fuel path (kblock z) j ?s = Ret (0, kblock z, st')" "R (kblock z) st' A'"
    "beside L K k ?A ?s ts (kblock z) st' A'" "fat_mounted st' priv" "processes st' = (processes ?s)[j := kblock z]"
    by blast
  have j': "j < 12" "processes st ! j = 0" using first_slot_Some [OF j] by auto
  have "process_load io fuel path st = Ret (0, kblock z, st')"
    using j j' Z(1,3) P(1)
    by (simp add: process_load_def process_get_free_slot_def process_load_for_slot_def process_get_def process_init_def)
  moreover have B: "?A \<subseteq>\<^sub>m A'" "keeps_live ?A m (pmem st')" using P(3) by (simp_all add: beside_def)
  then have "A' z = Some 3" by (auto simp: map_le_def)
  moreover have "beside L K (k + 3) A st ts (kblock z) st' A'"
    using P(3) map_le_trans [OF le B(1)] keeps_live_trans [OF Z(5) B(2) le] used_upd [of L K A z 3]
    by (simp add: beside_def kernel_kept_def)
  ultimately show ?thesis using P(2,4,5) Z(2,3) by auto
qed

lemma room_slot:
  assumes "(used L K A + nb + 15) * max nb 4 + 1100 \<le> K" and "0 < nb"
  shows "(used L K A + 1) * 3 \<le> K" "(used L K (A(z \<mapsto> 3)) + nb + 12) * max nb 4 + 1100 \<le> K"
proof -
  have "(used L K A + 1) * 3 \<le> (used L K A + nb + 15) * max nb 4" by (rule mult_le_mono) simp_all
  then show "(used L K A + 1) * 3 \<le> K" using assms(1) by linarith
  have "used L K (A(z \<mapsto> 3)) + nb + 12 \<le> used L K A + nb + 15" using used_upd [of L K A z 3] by simp
  then have "(used L K (A(z \<mapsto> 3)) + nb + 12) * max nb 4 \<le> (used L K A + nb + 15) * max nb 4" by (rule mult_le_mono1)
  then show "(used L K (A(z \<mapsto> 3)) + nb + 12) * max nb 4 + 1100 \<le> K" using assms(1) by linarith
qed

lemma process_load_run:
  assumes conf: "ata_conforms io view img W" "W < fuel" "length img < 2 ^ 31"
    and rel: "kheap_rel st A" and prog: "program_file img st A priv path e" and slot: "free_entry st i"
    and nb: "nb = blocks_for (fdi_filesize e)" and room: "(used L K A + nb + 15) * max nb 4 + 1100 \<le> K" "L + K \<le> KBLOCKS"
    and raw: "file_bytes img priv e ! 0 \<noteq> 0x7F" and j: "first_slot 0 (take 12 (processes st)) = Some j"
    and tl: "task_list st ts" "tasks_live A ts"
  shows "\<exists>z A' st'. process_load io fuel path st = Ret (0, kblock z, st') \<and> loaded img priv path e ts j (kblock z) st' A' \<and>
    A z = None \<and> z < KBLOCKS \<and> A' z = Some 3 \<and> beside L K (2 * nb + 7 + 1031 + 3) A st ts (kblock z) st' A' \<and> fat_mounted st' priv \<and>
    processes st' = (processes st)[j := kblock z]"
proof -
  have nb0: "0 < nb" using blocks_for_cluster [OF prog] by (simp add: nb)
  show ?thesis
    using slot_run [OF rel prog slot room_slot(1) [OF room(1) nb0] room(2) j tl, of io fuel "loaded img priv path e ts j" "2 * nb + 7 + 1031"]
      load_parts_run [OF conf _ _ _ room_slot(2) [OF room(1) nb0] room(2) nb nb0 raw, where slot = j] by blast
qed

section \<open>Properties\<close>

text \<open>
  A byte as the task \<open>t\<close> sees it at the virtual address \<open>v\<close>, whether both entries the processor consults for \<open>v\<close>, that of
  the directory and that of the table, have the bits \<open>f\<close>, and whether user mode may write the page of \<open>v\<close>.
\<close>

definition user_byte :: "'a task_machine_scheme \<Rightarrow> task \<Rightarrow> u32 \<Rightarrow> u8" where
  "user_byte st t v = pmem st (paging_get_physical_address (directory_entry (pmem st) (t_page_directory t)) v (pmem st))"

definition page_allows :: "u32 \<Rightarrow> 'a task_machine_scheme \<Rightarrow> task \<Rightarrow> u32 \<Rightarrow> bool" where
  "page_allows f st t v \<longleftrightarrow> (let d = directory_entry (pmem st) (t_page_directory t) in
     load32 (pmem st) (cell d (unat v div 0x400000)) AND f = f \<and> paging_get d (v AND 0xfffff000) (pmem st) AND f = f)"

definition user_writable :: "'a task_machine_scheme \<Rightarrow> task \<Rightarrow> u32 \<Rightarrow> bool" where
  "user_writable st t v \<longleftrightarrow> page_allows 7 st t v"

lemma dir_open_entry:
  fixes v :: u32
  assumes "dir_open m d"
  shows "load32 m (cell (kblock d) (unat v div 0x400000)) AND 7 = 7" "load32 m (cell (kblock d) (unat v div 0x400000)) AND 5 = 5"
proof -
  let ?e = "load32 m (cell (kblock d) (unat v div 0x400000))"
  have "unat v div 0x400000 < 1024" using unsigned_less [of v] by (simp add: div_less_iff_less_mult)
  then show *: "?e AND 7 = 7" using assms by (simp add: dir_open_def)
  have "?e AND 5 = (?e AND 7) AND 5" by (simp add: and.assoc)
  then show "?e AND 5 = 5" unfolding * by simp
qed

lemma mapped_at_user:
  assumes "mapped_at (pmem st) d v n x" and "directory_entry (pmem st) (t_page_directory t) = kblock d" and "k < n * 4096"
    and "dir_open (pmem st) d"
  shows "user_byte st t (v + of_nat k) = pmem st (kblock x + of_nat k)" "user_writable st t (v + of_nat k)"
proof -
  have "(e OR 7) AND 7 = (7 :: u32)" for e by (simp add: bit.conj_disj_distrib2)
  then show "user_byte st t (v + of_nat k) = pmem st (kblock x + of_nat k)" "user_writable st t (v + of_nat k)"
    using assms dir_open_entry [OF assms(4)] unfolding mapped_at_def user_byte_def user_writable_def page_allows_def by simp_all
qed

lemma loaded_user:
  assumes "loaded img priv path e ts j process st' A'" and "0 < blocks_for (fdi_filesize e)"
  shows "\<exists>p t. procs st' process = Some p \<and> p_id p = of_nat j \<and>
    cstr (p_filename p) = take 107 (cstr path) \<and> tasks st' (p_task p) = Some t \<and> t_process t = process \<and>
    task_list st' (ts @ [p_task p]) \<and> t_registers t = start_registers MAEROS_PROGRAM_VIRTUAL_ADDRESS \<and>
    (\<forall>k < unat (fdi_filesize e). user_byte st' t (MAEROS_PROGRAM_VIRTUAL_ADDRESS + of_nat k) = file_bytes img priv e ! k \<and>
       user_writable st' t (MAEROS_PROGRAM_VIRTUAL_ADDRESS + of_nat k)) \<and>
    (\<forall>k < MAEROS_USER_PROGRAM_STACK_SIZE. user_writable st' t (MAEROS_PROGRAM_VIRTUAL_STACK_ADDRESS_END + of_nat k))"
proof -
  from assms(1) obtain p t c d us b x w where P: "running st' A' process p t c d us ts b x w" "p_id p = of_nat j"
    "cstr (p_filename p) = take 107 (cstr path)" "t_process t = process" "t_registers t = start_registers 0x400000" "dir_open (pmem st') d"
    "mem_bytes (pmem st') (kblock x) (unat (fdi_filesize e)) = file_bytes img priv e"
    "mapped_at (pmem st') d 0x400000 (blocks_for (fdi_filesize e)) x" "mapped_at (pmem st') d 0x3FB000 4 w"
    unfolding loaded_def started_def by blast
  have Q: "procs st' process = Some p" "tasks st' (p_task p) = Some t" "task_list st' (ts @ [p_task p])"
    "directory_entry (pmem st') (t_page_directory t) = kblock d"
    using P(1) unfolding running_def proc_ok_def owns_chunk_def by auto
  have sz: "unat (fdi_filesize e) \<le> blocks_for (fdi_filesize e) * 4096" using assms(2) by (rule blocks_for_bytes)
  have "user_byte st' t (0x400000 + of_nat k) = file_bytes img priv e ! k \<and> user_writable st' t (0x400000 + of_nat k)"
    if "k < unat (fdi_filesize e)" for k
    using mapped_at_user [OF P(8) Q(4) _ P(6), of k] that sz P(7) mem_bytes_nth [OF that, of "pmem st'" "kblock x"] by simp
  moreover have "user_writable st' t (0x3FB000 + of_nat k)" if "k < 16384" for k
    using mapped_at_user(2) [OF P(9) Q(4) _ P(6), of k] that by simp
  ultimately show ?thesis using P(2-5) Q(1-3) by auto
qed

text \<open>
  C2. Loading a program. For a path that names a raw binary of at most one cluster in the root directory of the
  mounted volume, with a free slot in the process table, a free descriptor and enough memory, \<open>process_load\<close>
  returns zero and a new process: it is in the first free slot under its number and file name; its task is the last
  of the task list and starts at the base of the program in user mode with the stack below it; at that base user
  mode reads the bytes of the file from the disk and may write them; the 16 kilobytes of the stack are writable; and
  the contents of all memory that was allocated before are unchanged.
\<close>

theorem process_load_program:
  assumes "ata_conforms io view img W" and "W < fuel" and "length img < 2 ^ 31"
    and "kheap_rel st A" and "program_file img st A priv path e" and "free_entry st i"
    and "\<And>b n. A b = Some n \<Longrightarrow> b + n \<le> L" and "L + 3000 \<le> KBLOCKS"
    and "file_bytes img priv e ! 0 \<noteq> 0x7F" and "first_slot 0 (take MAEROS_MAX_PROCESSES (processes st)) = Some j"
    and "task_list st ts" and "tasks_live A ts"
  shows "\<exists>process p t st'. process_load io fuel path st = Ret (0, process, st') \<and>
    processes st' = (processes st)[j := process] \<and> procs st' process = Some p \<and> p_id p = of_nat j \<and>
    cstr (p_filename p) = take 107 (cstr path) \<and> tasks st' (p_task p) = Some t \<and> t_process t = process \<and>
    task_list st' (ts @ [p_task p]) \<and> t_registers t = start_registers MAEROS_PROGRAM_VIRTUAL_ADDRESS \<and>
    (\<forall>k < unat (fdi_filesize e). user_byte st' t (MAEROS_PROGRAM_VIRTUAL_ADDRESS + of_nat k) = file_bytes img priv e ! k \<and>
       user_writable st' t (MAEROS_PROGRAM_VIRTUAL_ADDRESS + of_nat k)) \<and>
    (\<forall>k < MAEROS_USER_PROGRAM_STACK_SIZE. user_writable st' t (MAEROS_PROGRAM_VIRTUAL_STACK_ADDRESS_END + of_nat k)) \<and>
    keeps_live A (pmem st) (pmem st')"
proof -
  let ?nb = "blocks_for (fdi_filesize e)"
  have "used L 3000 A = 0" using assms(7) by (rule used_empty)
  then have "(used L 3000 A + ?nb + 15) * max ?nb 4 \<le> 47 * 32" using blocks_for_cluster(2) [OF assms(5)] by (intro mult_le_mono) simp_all
  then have room: "(used L 3000 A + ?nb + 15) * max ?nb 4 + 1100 \<le> 3000" by simp
  obtain z A' st' where R: "process_load io fuel path st = Ret (0, kblock z, st')" "loaded img priv path e ts j (kblock z) st' A'"
    "keeps_live A (pmem st) (pmem st')" "processes st' = (processes st)[j := kblock z]"
    using process_load_run [OF assms(1-6) refl room assms(8-12)] by (auto simp: beside_def)
  show ?thesis using R(1,3,4) loaded_user [OF R(2) blocks_for_cluster(1) [OF assms(5)]] by auto
qed

text \<open>The volume with the file of three bytes, mounted, with all tables empty.\<close>

definition demo_program :: "ata file_machine" where
  "demo_program = fat_machine.extend (demo_dir\<lparr>the_disk := (the_disk demo_dir)\<lparr>d_filesystem := 0xB00\<rparr>\<rparr>)
     (file_machine.fields [0xB00 \<mapsto> fat16_fs_value] [0xB00] Map.empty (replicate 512 0))"

lemma demo_program_simps:
  "disk_addr demo_program = 0x800" "pmem demo_program = demo_dir_mem" "fat_privates demo_program = [0xA00 \<mapsto> demo_root]"
  "the_disk demo_program = (the_disk demo_dir)\<lparr>d_filesystem := 0xB00\<rparr>" "disk_streams demo_program = disk_streams demo_volume"
  "filesystem_objects demo_program = [0xB00 \<mapsto> fat16_fs_value]" "file_descriptors demo_program = replicate 512 0"
  "processes demo_program = replicate 12 0" "task_head demo_program = 0" "task_tail demo_program = 0" "kernel_heap demo_program = kernel_heap_value"
  by (simp_all add: demo_program_def fat_machine.extend_def file_machine.fields_def demo_dir_def demo_volume_def
      disk_machine.extend_def fat_machine.fields_def demo_disk_def)

lemma demo_program_file:
  assumes "img = replicate 1536 0 @ [10, 20, 30] @ replicate 1021 0"
  shows "program_file img demo_program [0 \<mapsto> 1] demo_root [0x30, 0x3A, 0x2F, 0x61, 0x2E, 0x74, 0x78, 0x74, 0] (item_of demo_entry)"
proof -
  let ?w = "[0x61, 0x2E, 0x74, 0x78, 0x74] :: u8 list" and ?path = "[0x30, 0x3A, 0x2F, 0x61, 0x2E, 0x74, 0x78, 0x74, 0] :: u8 list"
  have "fat_mounted demo_program demo_root"
    using demo_mounted by (simp add: fat_mounted_def demo_program_simps demo_dir_simps demo_volume_simps demo_root_simps)
  moreover have "served demo_program" by (simp add: served_def demo_program_simps)
  moreover have "valid_path ?path" by (simp add: valid_path_def isdigit_def)
  moreover have "components (drop 3 (cstr ?path)) = [?w]" by (simp add: components.simps Let_def)
  moreover have "dir_has (pmem demo_program) [0 \<mapsto> 1] (fp_root_directory demo_root) (buffer ?w) 0"
    unfolding demo_program_simps by (rule demo_dir_has) (simp_all add: buffer_def terminated_def cstr_def)
  moreover have "item_of demo_entry = dir_entry (pmem demo_program) (fd_item (fp_root_directory demo_root)) 0"
    by (simp add: demo_program_simps demo_root_simps demo_dir_entry)
  moreover have "size_of_cluster_bytes demo_root (the_disk demo_program) = size_of_cluster_bytes demo_root (the_disk demo_volume)"
    by (simp add: size_of_cluster_bytes_def demo_program_simps demo_dir_simps)
  moreover have "0 < unat (fdi_filesize (item_of demo_entry))"
    "unat (fdi_filesize (item_of demo_entry)) \<le> nat (size_of_cluster_bytes demo_root (the_disk demo_volume))"
    "0 \<le> entry_cluster (item_of demo_entry)" "0 \<le> fat16_cluster_to_sector demo_root (entry_cluster (item_of demo_entry))"
    "cluster_pos demo_root (entry_cluster (item_of demo_entry)) + unat (fdi_filesize (item_of demo_entry)) < 512 * (length img div 512)"
    by (simp_all add: demo_cluster demo_entry_simps assms)
  ultimately show ?thesis unfolding program_file_def by (simp only: nth_Cons_0) blast
qed

theorem process_load_program_witness:
  "\<exists>process p t st'. process_load (sim_ports (replicate 1536 0 @ [10, 20, 30] @ replicate 1021 0)) 2
       [0x30, 0x3A, 0x2F, 0x61, 0x2E, 0x74, 0x78, 0x74, 0] demo_program = Ret (0, process, st') \<and>
     procs st' process = Some p \<and> tasks st' (p_task p) = Some t \<and> task_list st' [p_task p] \<and> r_ip (t_registers t) = 0x400000 \<and>
     map (\<lambda>k. user_byte st' t (0x400000 + of_nat k)) [0, 1, 2] = [10, 20, 30]"
proof -
  let ?img = "replicate 1536 0 @ [10, 20, 30] @ replicate 1021 (0 :: u8)"
  have bytes: "file_bytes ?img demo_root (item_of demo_entry) = [10, 20, 30]"
    by (simp add: file_bytes_def demo_cluster demo_entry_simps take_Cons')
  have rel: "kheap_rel demo_program [0 \<mapsto> 1]"
    using demo_dir_heap(1) by (simp add: kheap_rel_def demo_program_simps demo_dir_simps)
  have fe: "free_entry demo_program 0" and ps: "first_slot 0 (take 12 (processes demo_program)) = Some 0"
    using replicate_Suc [of 511 "0 :: u32"] replicate_Suc [of 11 "0 :: u32"] by (simp_all add: free_entry_def demo_program_simps)
  have tl: "task_list demo_program []" "tasks_live [0 \<mapsto> 1] []"
    by (simp_all add: task_list_def last0_def tasks_live_def demo_program_simps)
  have room: "b + n \<le> 1" if "[0 \<mapsto> 1] b = Some n" for b n :: nat using that by (auto split: if_splits)
  have raw: "file_bytes ?img demo_root (item_of demo_entry) ! 0 \<noteq> 0x7F" and size: "unat (fdi_filesize (item_of demo_entry)) = 3"
    unfolding bytes by (simp_all add: demo_entry_simps)
  have W: "0 < (2 :: nat)" "length ?img < 2 ^ 31" "1 + 3000 \<le> KBLOCKS" by simp_all
  obtain process p t st' where U: "process_load (sim_ports ?img) 2 [0x30, 0x3A, 0x2F, 0x61, 0x2E, 0x74, 0x78, 0x74, 0] demo_program =
      Ret (0, process, st')" "procs st' process = Some p" "tasks st' (p_task p) = Some t" "task_list st' [p_task p]"
    "t_registers t = start_registers 0x400000" "\<forall>k < 3. user_byte st' t (0x400000 + of_nat k) = [10, 20, 30] ! k"
    using process_load_program [OF sim_conforms [of ?img] _ W(2) rel demo_program_file [OF refl] fe room W(3) raw ps tl, of 2, unfolded bytes size]
    by auto
  then have "map (\<lambda>k. user_byte st' t (0x400000 + of_nat k)) [0, 1, 2] = [10, 20, 30]"
    using U(6) [rule_format, of 0] U(6) [rule_format, of 1] U(6) [rule_format, of 2] by simp
  with U(1-5) show ?thesis by (auto simp: start_registers_def)
qed

end
