(* ===== verification/Load_Missing.thy ===== *)
theory Load_Missing
  imports Load_Process
begin

text \<open>The error path of loading: a file that is not there, from the search in the directory to the caller.\<close>

section \<open>A name that is not there\<close>

text \<open>A directory in a live allocation none of whose entries has the name.\<close>

definition dir_lacks :: "mem \<Rightarrow> allocs \<Rightarrow> fat_directory \<Rightarrow> u8 list \<Rightarrow> bool" where
  "dir_lacks m A d name \<longleftrightarrow> terminated name \<and>
     (\<exists>b n. fd_item d = kblock b \<and> A b = Some n \<and> 32 * nat (fd_total d) \<le> n * 4096) \<and>
     (\<forall>i < nat (fd_total d). \<not> named (dir_entry m (fd_item d) i) name)"

lemma dir_lacks_live:
  assumes lacks: "dir_lacks m A d name" and wf: "allocs_wf KBLOCKS A" and le: "A \<subseteq>\<^sub>m A'" and keep: "keeps_live A m m'"
  shows "dir_lacks m' A' d name"
proof -
  obtain b n where b: "fd_item d = kblock b" "A b = Some n" "32 * nat (fd_total d) \<le> n * 4096"
    using lacks unfolding dir_lacks_def by blast
  have "A' b = Some n" using b(2) le by (auto simp: map_le_def dom_def)
  moreover have "dir_entry m' (fd_item d) i = dir_entry m (fd_item d) i" if "i < nat (fd_total d)" for i
    using keeps_live_bytes [OF keep wf b(2), of "32 * i" 32] b(3) that
    by (simp add: dir_entry_def item_at_def b(1) del: of_nat_mult)
  ultimately show ?thesis using lacks b(1,3) unfolding dir_lacks_def by auto
qed

lemma open_missing_run:
  assumes rel: "kheap_rel st A" and free: "0 < free_blocks A" and mnt: "fat_mounted st priv"
    and part: "path_parts st path = Some part" "strings st (pp_part part) = Some name"
    and lacks: "dir_lacks (pmem st) A (fp_root_directory priv) name"
  shows "\<exists>m. fat16_open io fuel (disk_addr st) path FILE_MODE_READ st = Ret (word_of_int (- EIO), st\<lparr>pmem := m\<rparr>) \<and>
    kheap_rel (st\<lparr>pmem := m\<rparr>) A \<and> keeps_live A (pmem st) m"
proof -
  obtain q m1 where Q: "kzalloc 8 st = (kblock q, st\<lparr>pmem := m1\<rparr>)" "A q = None" "q < KBLOCKS"
    "kheap_rel (st\<lparr>pmem := m1\<rparr>) (A(q \<mapsto> 1))" "keeps_live A (pmem st) m1"
    using kzalloc_live_one [OF rel, of 8] free by auto
  let ?s = "st\<lparr>pmem := m1\<rparr>"
  have le: "A \<subseteq>\<^sub>m A(q \<mapsto> 1)" using Q(2) by (rule_tac map_le_fresh)
  have "dir_lacks m1 A (fp_root_directory priv) name"
    using dir_lacks_live [OF lacks kheap_rel_wf [OF rel] map_le_refl Q(5)] .
  then have "fat16_find_item_in_directory io fuel (disk_addr st) (fp_root_directory priv) name ?s = Ret (0, ?s)"
    unfolding fat16_find_item_in_directory_def by (intro scan_none) (simp_all add: dir_lacks_def)
  then have entry: "fat16_get_directory_entry io fuel (disk_addr st) path ?s = Ret (0, ?s)"
    using mnt part by (simp add: fat16_get_directory_entry_def fat_mounted_def deref_disk_def derefx_def)
  have A: "(A(q \<mapsto> 1))(q := None) = A" using Q(2) by auto
  note K = kfree_live [OF Q(4), of q 1, unfolded A, simplified]
  have "fat16_open io fuel (disk_addr st) path FILE_MODE_READ st = Ret (word_of_int (- EIO), kfree (kblock q) ?s)"
    using Q(1,3) entry by (simp add: fat16_open_def)
  moreover have "keeps_live A (pmem st) (pmem (kfree (kblock q) ?s))" using keeps_live_trans [OF Q(5) _ le] K(2) by simp
  ultimately show ?thesis using K(1) by (intro exI [of _ "pmem (kfree (kblock q) ?s)"]) (simp add: kfree_def)
qed

text \<open>\<open>fopen\<close> reports the error as zero; the three blocks of the parsed path stay allocated.\<close>

lemma fopen_missing_run:
  assumes rel: "kheap_rel st A" "4 \<le> free_blocks A" and mnt: "fat_mounted st priv" "served st"
    and path: "valid_path path" "path ! 0 = 0x30" "components (drop 3 (cstr path)) = [w]"
    and lacks: "dir_lacks (pmem st) A (fp_root_directory priv) (buffer w)"
  shows "\<exists>P st'. fopen io fuel path [0x72, 0] st = Ret (0, st') \<and> kheap_rel st' (grant A P) \<and> card P = 3 \<and> (\<forall>x \<in> P. A x = None) \<and>
    keeps_live A (pmem st) (pmem st') \<and> file_frame st st' \<and> file_descriptors st' = file_descriptors st"
proof -
  have dr: "uint (path ! 0) - 48 = 0" using path(2) by simp
  obtain r a s m1 where P: "pathparser_parse path st = Ret (kblock r, parsed m1 r a s 0 w st)" "distinct [r, a, s]"
    "{r, a, s} \<subseteq> {..<KBLOCKS}" "\<forall>x \<in> {r, a, s}. A x = None" "kheap_rel (st\<lparr>pmem := m1\<rparr>) (grant A {r, a, s})"
    "free_blocks (grant A {r, a, s}) = free_blocks A - 3" "keeps_live A (pmem st) m1"
    using parse_single [OF rel(1) path(1,3)] rel(2) unfolding dr by fastforce
  let ?A = "grant A {r, a, s}" and ?s = "parsed m1 r a s 0 w st"
  have le: "A \<subseteq>\<^sub>m ?A" by (rule map_le_grant) (rule bspec [OF P(4)])
  have S: "path_parts ?s (kblock a) = Some \<lparr>pp_part = kblock s, pp_next = 0\<rparr>" "strings ?s (pp_part \<lparr>pp_part = kblock s, pp_next = 0\<rparr>) = Some (buffer w)"
    "path_roots ?s (kblock r) = Some \<lparr>pr_drive_no = 0, pr_first = kblock a\<rparr>" "disk_addr ?s = disk_addr st" "the_disk ?s = the_disk st"
    "filesystem_objects ?s = filesystem_objects st" "fat_mounted ?s priv" "kheap_rel ?s ?A" "0 < free_blocks ?A"
    using mnt(1) P(5,6) rel(2) by (simp_all add: parsed_def fat_mounted_def kheap_rel_def)
  have "dir_lacks (pmem ?s) ?A (fp_root_directory priv) (buffer w)"
    using dir_lacks_live [OF lacks kheap_rel_wf [OF rel(1)] le P(7)] by (simp add: parsed_def)
  from open_missing_run [OF S(8,9,7,1,2) this] obtain m where M: "fat16_open io fuel (disk_addr st) (kblock a) FILE_MODE_READ ?s =
      Ret (word_of_int (- EIO), ?s\<lparr>pmem := m\<rparr>)" "kheap_rel (?s\<lparr>pmem := m\<rparr>) ?A" "keeps_live ?A (pmem ?s) m"
    unfolding S(4) by blast
  have "file_get_mode_by_string [0x72, 0] = Ret FILE_MODE_READ" by (simp add: file_get_mode_by_string_def strncmp_def)
  moreover obtain fs where "filesystem_objects ?s (d_filesystem (the_disk ?s)) = Some fs" "d_filesystem (the_disk ?s) \<noteq> 0" "disk_get 0 ?s \<noteq> 0"
    using mnt(2) S(4-6) by (auto simp: served_def disk_get_def)
  moreover have "call_open io fuel (fsys_open fs) (disk_addr st) (kblock a) FILE_MODE_READ ?s = Ret (word_of_int (- EIO), ?s\<lparr>pmem := m\<rparr>)"
    using M(1) by (cases "fsys_open fs") (simp add: call_open_def)
  ultimately have "fopen_open io fuel (disk_addr st) (kblock a) [0x72, 0] ?s = Ret (- EIO, ?s\<lparr>pmem := m\<rparr>)"
    using S(4) by (simp add: fopen_open_def deref_disk_def derefx_def)
  moreover have "kblock r \<noteq> 0" "kblock a \<noteq> 0" "disk_get 0 ?s = disk_addr st" "disk_addr st \<noteq> 0"
    using P(3) mnt(2) S(4) by (simp_all add: disk_get_def served_def)
  ultimately have "fopen io fuel path [0x72, 0] st = Ret (0, ?s\<lparr>pmem := m\<rparr>)"
    using P(1) S(3) by (simp add: fopen_def derefx_def)
  moreover have "keeps_live A (pmem st) m" using keeps_live_trans [OF P(7) _ le] M(3) by (simp add: parsed_def)
  moreover have "file_frame st (?s\<lparr>pmem := m\<rparr>)" by (simp add: file_frame_def parsed_def)
  moreover have "card {r, a, s} = 3" using P(2) by simp
  ultimately show ?thesis using M(2) P(4)
    by (intro exI [of _ "{r, a, s}"] exI [of _ "?s\<lparr>pmem := m\<rparr>"]) (simp add: parsed_def)
qed

lemma elf_load_missing_run:
  assumes rel: "kheap_rel st A" "5 \<le> free_blocks A" and mnt: "fat_mounted st priv" "served st"
    and path: "valid_path path" "path ! 0 = 0x30" "components (drop 3 (cstr path)) = [w]"
    and lacks: "dir_lacks (pmem st) A (fp_root_directory priv) (buffer w)"
  shows "\<exists>F es st'. elf_load io fuel path st = Ret (- EIO, 0, st') \<and> kheap_rel st' (grant A F) \<and> card F = 4 \<and> (\<forall>x \<in> F. A x = None) \<and>
    keeps_live A (pmem st) (pmem st') \<and> file_frame (st\<lparr>elf_files := es\<rparr>) st' \<and> file_descriptors st' = file_descriptors st"
proof -
  obtain y m where Y: "kzalloc 132 st = (kblock y, st\<lparr>pmem := m\<rparr>)" "A y = None" "y < KBLOCKS" "kheap_rel (st\<lparr>pmem := m\<rparr>) (A(y \<mapsto> 1))"
    "free_blocks (A(y \<mapsto> 1)) = free_blocks A - 1" "keeps_live A (pmem st) m"
    using kzalloc_live_one [OF rel(1), of 132] rel(2) by auto
  let ?e = "(elf_files st)(kblock y \<mapsto> zero_elf_file)" and ?A = "A(y \<mapsto> 1)"
  let ?s = "st\<lparr>pmem := m, elf_files := ?e\<rparr>"
  have le: "A \<subseteq>\<^sub>m ?A" using Y(2) by (rule_tac map_le_fresh)
  have S: "kheap_rel ?s ?A" "4 \<le> free_blocks ?A" "fat_mounted ?s priv" "served ?s"
    using Y(4,5) rel(2) mnt by (simp_all add: kheap_rel_def fat_mounted_def served_def)
  have "dir_lacks (pmem ?s) ?A (fp_root_directory priv) (buffer w)"
    using dir_lacks_live [OF lacks kheap_rel_wf [OF rel(1)] le Y(6)] by simp
  from fopen_missing_run [OF S path this] obtain P st' where P: "fopen io fuel path [0x72, 0] ?s = Ret (0, st')" "kheap_rel st' (grant ?A P)"
    "card P = 3" "\<forall>x \<in> P. ?A x = None" "keeps_live ?A (pmem ?s) (pmem st')" "file_frame ?s st'" "file_descriptors st' = file_descriptors ?s"
    by blast
  have "elf_load io fuel path st = Ret (- EIO, 0, st')"
    using Y(1,3) P(1) by (simp add: elf_load_def fclose_def file_get_descriptor_def)
  moreover have "grant ?A P = grant A (insert y P)" by (auto simp: grant_def)
  moreover have y: "y \<notin> P" using P(4) by auto
  then have "card (insert y P) = 4" using P(3) by (simp add: card_ge_0_finite)
  moreover have "\<forall>x \<in> insert y P. A x = None" using P(4) y Y(2) by (auto split: if_splits)
  moreover have "keeps_live A (pmem st) (pmem st')" using keeps_live_trans [OF Y(6) _ le] P(5) by simp
  moreover have "file_frame (st\<lparr>elf_files := ?e\<rparr>) st'" using P(6) by (simp add: file_frame_def)
  ultimately show ?thesis using P(2,7) by (intro exI [of _ "insert y P"] exI [of _ ?e] exI [of _ st']) simp
qed

section \<open>Properties\<close>

text \<open>
  C18. Loading a file that is not there. \<open>process_load\<close> of a path whose name no entry of the root directory has returns
  \<open>-EIO\<close> and no process. The tables of processes, tasks and descriptors are as before and no memory in use has
  changed, but seven blocks have become unusable: the three of the process structure, the structure of the ELF loader
  and the parsed path.
\<close>

theorem process_load_missing:
  assumes rel: "kheap_rel st A" and mnt: "fat_mounted st priv" "served st"
    and path: "valid_path path" "path ! 0 = 0x30" "components (drop 3 (cstr path)) = [w]"
    and lacks: "dir_lacks (pmem st) A (fp_root_directory priv) (buffer w)"
    and room: "\<And>b n. A b = Some n \<Longrightarrow> b + n \<le> L" "L + 100 \<le> KBLOCKS"
    and j: "first_slot 0 (take MAEROS_MAX_PROCESSES (processes st)) = Some j"
  shows "\<exists>z F st'. process_load io fuel path st = Ret (- EIO, 0, st') \<and>
    processes st' = processes st \<and> tasks st' = tasks st \<and> task_head st' = task_head st \<and> task_tail st' = task_tail st \<and>
    file_descriptors st' = file_descriptors st \<and> keeps_live A (pmem st) (pmem st') \<and>
    kheap_rel st' (grant A F ++ [z \<mapsto> 3]) \<and> card F = 4 \<and> z \<notin> F \<and> (\<forall>x \<in> insert z F. A x = None)"
proof -
  have three: "blocks_for 9364 = 3" by (simp add: blocks_for_ceil)
  have u: "used L 100 A = 0" using room(1) by (rule used_empty)
  obtain s where "fits A KBLOCKS (blocks_for 9364) s" using used_fits [of L 100 A 3] u room(2) three by auto
  then obtain z m where Z: "kzalloc 9364 st = (kblock z, st\<lparr>pmem := m\<rparr>)" "A z = None" "z < KBLOCKS"
    "kheap_rel (st\<lparr>pmem := m\<rparr>) (A(z \<mapsto> 3))" "keeps_live A (pmem st) m"
    using kzalloc_live [OF rel, of 9364 s] three by auto
  let ?A = "A(z \<mapsto> 3)" and ?s = "st\<lparr>pmem := m, procs := (procs st)(kblock z \<mapsto> zero_process)\<rparr>"
  have le: "A \<subseteq>\<^sub>m ?A" using Z(2) by (rule_tac map_le_fresh)
  have "used L 100 ?A + 5 \<le> 100" using used_upd [of L 100 A z 3] u by simp
  then have S: "kheap_rel ?s ?A" "5 \<le> free_blocks ?A" "fat_mounted ?s priv" "served ?s"
    using Z(4) mnt used_avail [OF room(2)] by (simp_all add: kheap_rel_def fat_mounted_def served_def)
  have "dir_lacks (pmem ?s) ?A (fp_root_directory priv) (buffer w)"
    using dir_lacks_live [OF lacks kheap_rel_wf [OF rel] le Z(5)] by simp
  from elf_load_missing_run [OF S path this] obtain F es st' where E: "elf_load io fuel path ?s = Ret (- EIO, 0, st')"
    "kheap_rel st' (grant ?A F)" "card F = 4" "\<forall>x \<in> F. ?A x = None" "keeps_live ?A (pmem ?s) (pmem st')"
    "file_frame (?s\<lparr>elf_files := es\<rparr>) st'" "file_descriptors st' = file_descriptors ?s" by blast
  note same = file_frame_fields [OF E(6), simplified]
  have j': "j < 12" "processes st ! j = 0" using first_slot_Some [OF j] by auto
  have "process_load_parts io fuel path (kblock z) j ?s = Ret (- EIO, 0, st')"
    using E(1) by (simp add: process_load_parts_def process_load_data_def process_load_elf_def)
  then have "process_load io fuel path st = Ret (- EIO, 0, st')"
    using j j' Z(1,3) same(1) by (simp add: process_load_def process_get_free_slot_def process_load_for_slot_def process_get_def
        process_init_def derefx_def zero_process_def)
  moreover have z: "z \<notin> F" "\<forall>x \<in> insert z F. A x = None" using E(4) Z(2) by (auto split: if_splits)
  moreover have "grant ?A F = grant A F ++ [z \<mapsto> 3]" using z(1) by (auto simp: grant_def)
  moreover have "keeps_live A (pmem st) (pmem st')" using keeps_live_trans [OF Z(5) _ le] E(5) by simp
  ultimately show ?thesis using E(2,3,7) same by (intro exI [of _ z] exI [of _ F] exI [of _ st']) simp
qed

theorem process_load_missing_witness:
  "\<exists>st'. process_load (sim_ports []) 2 [0x30, 0x3A, 0x2F, 0x62, 0] demo_program = Ret (- EIO, 0, st') \<and>
     processes st' = replicate 12 0"
proof -
  let ?path = "[0x30, 0x3A, 0x2F, 0x62, 0] :: u8 list"
  have rel: "kheap_rel demo_program [0 \<mapsto> 1]" "fat_mounted demo_program demo_root" "served demo_program"
    using demo_dir_heap(1) demo_mounted
    by (simp_all add: kheap_rel_def demo_program_simps demo_dir_simps fat_mounted_def demo_volume_simps demo_root_simps served_def)
  have path: "valid_path ?path" "?path ! 0 = 0x30" "components (drop 3 (cstr ?path)) = [[0x62]]"
    by (simp_all add: valid_path_def isdigit_def components.simps Let_def)
  have "full_name (item_of demo_entry) = [0x41, 0x2E, 0x54, 0x58, 0x54]" by (simp add: full_name_def demo_entry_simps trim_def)
  then have "\<not> named (item_of demo_entry) (buffer [0x62])" by (simp add: named_def buffer_def cstr_def tolower_def)
  moreover have "kblock 0 = 0x01000000" by (simp add: kblock_def)
  ultimately have lacks: "dir_lacks (pmem demo_program) [0 \<mapsto> 1] (fp_root_directory demo_root) (buffer [0x62])"
    unfolding dir_lacks_def demo_program_simps demo_root_simps using demo_dir_entry
    by (auto simp: buffer_def terminated_def intro!: exI [of _ 0] exI [of _ 1])
  have room: "b + n \<le> 1" if "[0 \<mapsto> 1] b = Some n" for b n :: nat using that by (auto split: if_splits)
  have "first_slot 0 (take 12 (processes demo_program)) = Some 0" using replicate_Suc [of 11 "0 :: u32"] by (simp add: demo_program_simps)
  from process_load_missing [OF rel path lacks room _ this, of "sim_ports []" 2] show ?thesis by (auto simp: demo_program_simps)
qed

end
