(* ===== verification/Mount.thy ===== *)
theory Mount
  imports Load_Process
begin

text \<open>
  Mounting: \<open>disk_search_and_init\<close> finds the FAT16 volume on the disk. The layout of the volume is stated for the bytes
  of the disk; mounting copies the root directory into the heap and prepares the streams, so that the hypotheses the
  theorems on files make about the state hold afterwards.
\<close>

section \<open>Volumes\<close>

text \<open>The header of the volume, its first 62 bytes, decoded as the driver does.\<close>

definition volume :: "u8 list \<Rightarrow> fat_private" where
  "volume img = zero_fat_private\<lparr>fp_header := take 62 img\<rparr>"

definition root_sector :: "u8 list \<Rightarrow> nat" where
  "root_sector img = (let h = primary_header (volume img)
     in unat (fat_copies h) * unat (sectors_per_fat h) + unat (reserved_sectors h))"

definition root_size :: "u8 list \<Rightarrow> nat" where
  "root_size img = unat (root_dir_entries (primary_header (volume img))) * 32"

text \<open>
  A volume whose root directory has \<open>t\<close> entries, none of them deleted, followed by an end marker, and lies before the
  last sector of the disk.
\<close>

definition fat_volume :: "u8 list \<Rightarrow> nat \<Rightarrow> bool" where
  "fat_volume img t \<longleftrightarrow> 62 < 512 * (length img div 512) \<and> length img < 2 ^ 31 \<and> signature (extended_header (volume img)) = 0x29 \<and>
     0 < unat (sectors_per_cluster (primary_header (volume img))) \<and>
     root_sector img * 512 + root_size img < 512 * (length img div 512) \<and> 32 * t + 32 \<le> root_size img \<and>
     (\<forall>i < t. img ! (root_sector img * 512 + 32 * i) \<notin> {0x00, 0xE5}) \<and> img ! (root_sector img * 512 + 32 * t) = 0x00"

lemma root_size_word:
  assumes "fat_volume img t"
  shows "root_size img < 2 ^ 31" "unat (of_nat (root_size img) :: u32) = root_size img"
proof -
  show "root_size img < 2 ^ 31" using assms mult_div_mod_eq [of 512 "length img"] unfolding fat_volume_def by linarith
  then show "unat (of_nat (root_size img) :: u32) = root_size img" by (intro word_small) simp
qed

lemma headers_cong: "fp_header p = fp_header q \<Longrightarrow> primary_header p = primary_header q \<and> extended_header p = extended_header q"
  by (simp add: primary_header_def extended_header_def)

section \<open>Streams\<close>

lemma stream_new_run:
  assumes "kheap_rel st A" and "0 < free_blocks A" and "disk_addr st \<noteq> 0"
  shows "\<exists>s m. diskstreamer_new 0 st = Ret (kblock s, st\<lparr>pmem := m,
      disk_streams := (disk_streams st)(kblock s \<mapsto> \<lparr>ds_pos = 0, ds_disk = disk_addr st\<rparr>)\<rparr>) \<and> A s = None \<and> s < KBLOCKS \<and>
    kheap_rel (st\<lparr>pmem := m\<rparr>) (A(s \<mapsto> 1)) \<and> free_blocks (A(s \<mapsto> 1)) = free_blocks A - 1 \<and> keeps_live A (pmem st) m"
proof -
  obtain s m where S: "kzalloc 8 st = (kblock s, st\<lparr>pmem := m\<rparr>)" "A s = None" "s < KBLOCKS" "kheap_rel (st\<lparr>pmem := m\<rparr>) (A(s \<mapsto> 1))"
    "free_blocks (A(s \<mapsto> 1)) = free_blocks A - 1" "keeps_live A (pmem st) m"
    using kzalloc_live_one [OF assms(1), of 8] assms(2) by auto
  then show ?thesis using assms(3) by (intro exI [of _ s] exI [of _ m]) (simp add: diskstreamer_new_def disk_get_def)
qed

text \<open>
  The allocations of \<open>fat16_resolve\<close> before the disk is read: the private data in block \<open>p\<close> with its streams, and a
  temporary stream.
\<close>

definition fresh_private :: "nat \<Rightarrow> nat \<Rightarrow> nat \<Rightarrow> fat_private" where
  "fresh_private s1 s2 s3 =
     zero_fat_private\<lparr>fp_cluster_read_stream := kblock s1, fp_fat_read_stream := kblock s2, fp_directory_stream := kblock s3\<rparr>"

definition prepared :: "nat \<Rightarrow> nat \<Rightarrow> nat \<Rightarrow> nat \<Rightarrow> mem \<Rightarrow> ('d, 'a) fat_machine_scheme \<Rightarrow> ('d, 'a) fat_machine_scheme" where
  "prepared p s1 s2 s3 m st = (let z = \<lparr>ds_pos = 0, ds_disk = disk_addr st\<rparr> in
     st\<lparr>pmem := m, disk_streams := (disk_streams st)(kblock s1 \<mapsto> z, kblock s2 \<mapsto> z, kblock s3 \<mapsto> z),
       fat_privates := (fat_privates st)(kblock p \<mapsto> fresh_private s1 s2 s3)\<rparr>)"

definition attach :: "nat \<Rightarrow> ('d, 'a) fat_machine_scheme \<Rightarrow> ('d, 'a) fat_machine_scheme" where
  "attach p st = st\<lparr>the_disk := (the_disk st)\<lparr>d_fs_private := kblock p, d_filesystem := fat16_fs st\<rparr>\<rparr>"

lemma prepared_pmem: "prepared p s1 s2 s3 m (st\<lparr>pmem := m'\<rparr>) = prepared p s1 s2 s3 m st"
  by (simp add: prepared_def)

lemma prepared_fields:
  "the_disk (prepared p s1 s2 s3 m st) = the_disk st" "disk_addr (prepared p s1 s2 s3 m st) = disk_addr st"
  "fat16_fs (prepared p s1 s2 s3 m st) = fat16_fs st"
  by (simp_all add: prepared_def Let_def)

lemma init_private_run:
  assumes rel: "kheap_rel st A" and free: "3 \<le> free_blocks A" and disk: "disk_addr st \<noteq> 0" "d_id (the_disk st) = 0" and p: "kblock p \<noteq> 0"
  shows "\<exists>s1 s2 s3 m. fat16_init_private (disk_addr st) (kblock p) st = Ret (prepared p s1 s2 s3 m st) \<and>
    distinct [s1, s2, s3] \<and> {s1, s2, s3} \<subseteq> {..<KBLOCKS} \<and> (\<forall>s \<in> {s1, s2, s3}. A s = None) \<and>
    kheap_rel (st\<lparr>pmem := m\<rparr>) (grant A {s1, s2, s3}) \<and> free_blocks (grant A {s1, s2, s3}) = free_blocks A - 3 \<and> keeps_live A (pmem st) m"
proof -
  let ?z = "\<lparr>ds_pos = 0, ds_disk = disk_addr st\<rparr>"
  obtain s1 m1 where 1: "diskstreamer_new 0 st = Ret (kblock s1, st\<lparr>pmem := m1, disk_streams := (disk_streams st)(kblock s1 \<mapsto> ?z)\<rparr>)"
    "A s1 = None" "s1 < KBLOCKS" "kheap_rel (st\<lparr>pmem := m1\<rparr>) (A(s1 \<mapsto> 1))" "free_blocks (A(s1 \<mapsto> 1)) = free_blocks A - 1" "keeps_live A (pmem st) m1"
    using stream_new_run [OF rel _ disk(1)] free by auto
  let ?t1 = "st\<lparr>pmem := m1, disk_streams := (disk_streams st)(kblock s1 \<mapsto> ?z)\<rparr>" and ?A1 = "A(s1 \<mapsto> 1)"
  have "kheap_rel ?t1 ?A1" "0 < free_blocks ?A1" "disk_addr ?t1 \<noteq> 0" using 1 free disk by (simp_all add: kheap_rel_def)
  from stream_new_run [OF this] obtain s2 m2 where 2: "diskstreamer_new 0 ?t1 = Ret (kblock s2, ?t1\<lparr>pmem := m2, disk_streams := (disk_streams ?t1)(kblock s2 \<mapsto> ?z)\<rparr>)"
    "?A1 s2 = None" "s2 < KBLOCKS" "kheap_rel (?t1\<lparr>pmem := m2\<rparr>) (?A1(s2 \<mapsto> 1))" "free_blocks (?A1(s2 \<mapsto> 1)) = free_blocks ?A1 - 1" "keeps_live ?A1 (pmem ?t1) m2"
    by auto
  let ?t2 = "?t1\<lparr>pmem := m2, disk_streams := (disk_streams ?t1)(kblock s2 \<mapsto> ?z)\<rparr>" and ?A2 = "?A1(s2 \<mapsto> 1)"
  have "kheap_rel ?t2 ?A2" "0 < free_blocks ?A2" "disk_addr ?t2 \<noteq> 0" using 2 1(5) free disk by (simp_all add: kheap_rel_def)
  from stream_new_run [OF this] obtain s3 m3 where 3: "diskstreamer_new 0 ?t2 = Ret (kblock s3, ?t2\<lparr>pmem := m3, disk_streams := (disk_streams ?t2)(kblock s3 \<mapsto> ?z)\<rparr>)"
    "?A2 s3 = None" "s3 < KBLOCKS" "kheap_rel (?t2\<lparr>pmem := m3\<rparr>) (?A2(s3 \<mapsto> 1))" "free_blocks (?A2(s3 \<mapsto> 1)) = free_blocks ?A2 - 1" "keeps_live ?A2 (pmem ?t2) m3"
    by auto
  have g: "?A2(s3 \<mapsto> 1) = grant A {s1, s2, s3}" by (auto simp: grant_def)
  have new: "s2 \<noteq> s1" "A s2 = None" "s3 \<noteq> s1" "s3 \<noteq> s2" "A s3 = None" using 2(2) 3(2) by (auto split: if_splits)
  have "A \<subseteq>\<^sub>m ?A1" "A \<subseteq>\<^sub>m ?A2" using 1(2) new by (auto simp: map_le_def)
  then have k: "keeps_live A (pmem st) m3" using keeps_live_trans [OF keeps_live_trans [OF 1(6)]] 2(6) 3(6) by simp
  have run: "fat16_init_private (disk_addr st) (kblock p) st = Ret (prepared p s1 s2 s3 m3 st)"
    using 1(1) 2(1) 3(1) disk(2) p by (simp add: fat16_init_private_def deref_disk_def guardx_def prepared_def fresh_private_def Let_def)
  have rel3: "kheap_rel (st\<lparr>pmem := m3\<rparr>) (grant A {s1, s2, s3})" using 3(4) unfolding g by (simp add: kheap_rel_def)
  have fb: "free_blocks (grant A {s1, s2, s3}) = free_blocks A - 3" using 1(5) 2(5) 3(5) unfolding g by simp
  show ?thesis
    using run rel3 fb k new 1(2,3) 2(3) 3(3)
    by (intro exI [of _ s1] exI [of _ s2] exI [of _ s3] exI [of _ m3]) simp
qed

section \<open>The root directory\<close>

lemma items_loop_run:
  assumes conf: "ata_conforms io view img W" "W < fuel" "length img < 2 ^ 31"
    and fit: "q + 32 * t + 32 < 512 * (length img div 512)"
    and ents: "\<forall>i < t. img ! (q + 32 * i) \<notin> {0x00, 0xE5}" "img ! (q + 32 * t) = 0x00"
    and "i \<le> t" "t - i < n" and s: "disk_streams st s = Some \<lparr>ds_pos = int (q + 32 * i), ds_disk = disk_addr st\<rparr>"
  shows "\<exists>d. total_items_loop io fuel n s (int i) st = Ret (int t, st\<lparr>device := d,
    disk_streams := (disk_streams st)(s \<mapsto> \<lparr>ds_pos = int (q + 32 * t + 32), ds_disk = disk_addr st\<rparr>)\<rparr>)"
  using assms(7-9)
proof (induction n arbitrary: i st)
  case (Suc n)
  have fit': "q + 32 * i + 32 < 512 * (length img div 512)" using fit Suc.prems(1) by linarith
  obtain d where R: "diskstreamer_read io fuel s 32 st = Ret (0, take 32 (drop (q + 32 * i) img), st\<lparr>device := d,
      disk_streams := (disk_streams st)(s \<mapsto> \<lparr>ds_pos = int (q + 32 * i + 32), ds_disk = disk_addr st\<rparr>)\<rparr>)"
    using diskstreamer_run [OF conf Suc.prems(3) fit'] by auto
  have "512 * (length img div 512) \<le> length img" by simp
  then have c: "fdi_filename (item_of (take 32 (drop (q + 32 * i) img))) ! 0 = img ! (q + 32 * i)" using fit' by (simp add: item_of_def)
  let ?st = "st\<lparr>device := d, disk_streams := (disk_streams st)(s \<mapsto> \<lparr>ds_pos = int (q + 32 * i + 32), ds_disk = disk_addr st\<rparr>)\<rparr>"
  show ?case
  proof (cases "i = t")
    case True
    have "total_items_loop io fuel (Suc n) s (int i) st = Ret (int t, ?st)" using R c ents(2) True by simp
    then show ?thesis unfolding True by (rule exI)
  next
    case False
    have i: "Suc i \<le> t" "t - Suc i < n" using False Suc.prems(1,2) by simp_all
    have "disk_streams ?st s = Some \<lparr>ds_pos = int (q + 32 * Suc i), ds_disk = disk_addr ?st\<rparr>" by simp
    from Suc.IH [OF i this] obtain d' where "total_items_loop io fuel n s (int (Suc i)) ?st = Ret (int t, ?st\<lparr>device := d',
        disk_streams := (disk_streams ?st)(s \<mapsto> \<lparr>ds_pos = int (q + 32 * t + 32), ds_disk = disk_addr ?st\<rparr>)\<rparr>)" ..
    moreover have "total_items_loop io fuel (Suc n) s (int i) st = total_items_loop io fuel n s (int (Suc i)) ?st"
      using R c ents(1) i(1) by (simp add: add.commute)
    moreover have "?st\<lparr>device := d', disk_streams := (disk_streams ?st)(s \<mapsto> \<lparr>ds_pos = int (q + 32 * t + 32), ds_disk = disk_addr ?st\<rparr>)\<rparr> =
        st\<lparr>device := d', disk_streams := (disk_streams st)(s \<mapsto> \<lparr>ds_pos = int (q + 32 * t + 32), ds_disk = disk_addr st\<rparr>)\<rparr>" by simp
    ultimately show ?thesis by metis
  qed
qed simp

lemma total_items_run:
  assumes conf: "ata_conforms io view img W" "W < fuel" and vol: "fat_volume img t" and t: "t < fuel"
    and mnt: "fat_mounted st priv"
  shows "\<exists>d. fat16_get_total_items_for_directory io fuel (disk_addr st) (word_of_int (int (root_sector img))) st = Ret (int t, st\<lparr>device := d,
    disk_streams := (disk_streams st)(fp_directory_stream priv \<mapsto> \<lparr>ds_pos = int (root_sector img * 512 + 32 * t + 32), ds_disk = disk_addr st\<rparr>)\<rparr>)"
proof -
  let ?s = "fp_directory_stream priv" and ?q = "root_sector img * 512"
  have V: "length img < 2 ^ 31" "?q + root_size img < 512 * (length img div 512)" "32 * t + 32 \<le> root_size img"
    "\<forall>i < t. img ! (?q + 32 * i) \<notin> {0x00, 0xE5}" "img ! (?q + 32 * t) = 0x00"
    using vol by (simp_all add: fat_volume_def)
  have fit: "?q + 32 * t + 32 < 512 * (length img div 512)" using V(2,3) by linarith
  have "512 * (length img div 512) \<le> length img" by simp
  then have "sint (of_nat ?q :: u32) = int ?q" using V(1,2) by (intro sint_of_nat_small) linarith
  then have pos: "sint (word_of_int (int (root_sector img)) * 512 :: u32) = int ?q" by simp
  let ?st = "st\<lparr>disk_streams := (disk_streams st)(?s \<mapsto> \<lparr>ds_pos = int ?q, ds_disk = disk_addr st\<rparr>)\<rparr>"
  have seek: "diskstreamer_seek ?s (int ?q) st = Ret (0, ?st)" by (rule stream_seek [OF mnt]) simp
  have s: "disk_streams ?st ?s = Some \<lparr>ds_pos = int (?q + 32 * 0), ds_disk = disk_addr ?st\<rparr>" by simp
  obtain d where "total_items_loop io fuel fuel ?s (int 0) ?st = Ret (int t, ?st\<lparr>device := d,
      disk_streams := (disk_streams ?st)(?s \<mapsto> \<lparr>ds_pos = int (?q + 32 * t + 32), ds_disk = disk_addr ?st\<rparr>)\<rparr>)"
    using items_loop_run [OF conf V(1) fit V(4,5) _ _ s, of fuel] t by auto
  moreover have "fat16_get_total_items_for_directory io fuel (disk_addr st) (word_of_int (int (root_sector img))) st =
      total_items_loop io fuel fuel ?s (int 0) ?st"
    using mnt seek pos by (simp add: fat16_get_total_items_for_directory_def fat_mounted_def deref_disk_def derefx_def Let_def)
  moreover have "?st\<lparr>device := d, disk_streams := (disk_streams ?st)(?s \<mapsto> \<lparr>ds_pos = int (?q + 32 * t + 32), ds_disk = disk_addr ?st\<rparr>)\<rparr> =
      st\<lparr>device := d, disk_streams := (disk_streams st)(?s \<mapsto> \<lparr>ds_pos = int (?q + 32 * t + 32), ds_disk = disk_addr st\<rparr>)\<rparr>" by simp
  ultimately show ?thesis by metis
qed

text \<open>What the root directory is once it is read into block \<open>b\<close>.\<close>

definition root_dir :: "u8 list \<Rightarrow> nat \<Rightarrow> nat \<Rightarrow> fat_directory" where
  "root_dir img t b = \<lparr>fd_item = kblock b, fd_total = int t, fd_sector_pos = int (root_sector img),
     fd_ending_sector_pos = int (root_sector img) + int (root_size img) sdiv 512\<rparr>"

lemma root_directory_run:
  assumes conf: "ata_conforms io view img W" "W < fuel" and vol: "fat_volume img t" and t: "t < fuel"
    and mnt: "fat_mounted st priv" and pr: "d_fs_private (the_disk st) = pr" "fp_header priv = take 62 img"
    and rel: "kheap_rel st A" and nb: "nb = blocks_for (of_nat (root_size img))" and room: "fits A KBLOCKS nb w"
  shows "\<exists>d b m. fat16_get_root_directory io fuel (disk_addr st) pr st = Ret (0, st\<lparr>device := d, pmem := m,
      disk_streams := (disk_streams st)(fp_directory_stream priv \<mapsto> \<lparr>ds_pos = int (root_sector img * 512 + root_size img), ds_disk = disk_addr st\<rparr>),
      fat_privates := (fat_privates st)(pr \<mapsto> priv\<lparr>fp_root_directory := root_dir img t b\<rparr>)\<rparr>) \<and>
    A b = None \<and> b < KBLOCKS \<and> kheap_rel (st\<lparr>pmem := m\<rparr>) (A(b \<mapsto> nb)) \<and> keeps_live A (pmem st) m \<and>
    mem_bytes m (kblock b) (root_size img) = take (root_size img) (drop (root_sector img * 512) img)"
proof -
  let ?s = "fp_directory_stream priv" and ?q = "root_sector img * 512" and ?n = "root_size img"
  have V: "length img < 2 ^ 31" "?q + ?n < 512 * (length img div 512)" "32 * t + 32 \<le> ?n"
    using vol by (simp_all add: fat_volume_def)
  have M: "d_sector_size (the_disk st) = 512" "fat_privates st pr = Some priv" using mnt pr(1) by (auto simp: fat_mounted_def)
  have h: "primary_header priv = primary_header (volume img)" using pr(2) by (simp add: primary_header_def volume_def)
  have pos: "uint (fat_copies (primary_header priv)) * uint (sectors_per_fat (primary_header priv)) +
      uint (reserved_sectors (primary_header priv)) = int (root_sector img)"
    and size: "uint (root_dir_entries (primary_header priv)) * 32 = int ?n"
    by (simp_all add: h root_sector_def root_size_def Let_def)
  let ?v = "\<lambda>p. \<lparr>ds_pos = int p, ds_disk = disk_addr st\<rparr>"
  obtain d where T: "fat16_get_total_items_for_directory io fuel (disk_addr st) (word_of_int (int (root_sector img))) st =
      Ret (int t, st\<lparr>device := d, disk_streams := (disk_streams st)(?s \<mapsto> ?v (?q + 32 * t + 32))\<rparr>)"
    using total_items_run [OF conf vol t mnt] by blast
  let ?s1 = "st\<lparr>device := d, disk_streams := (disk_streams st)(?s \<mapsto> ?v (?q + 32 * t + 32))\<rparr>"
  have nb0: "0 < nb" "?n \<le> nb * 4096" using V(3) root_size_word [OF vol] by (simp_all add: nb blocks_for_ceil)
  have r1: "kheap_rel ?s1 A" using rel by (simp add: kheap_rel_def)
  obtain b m where K: "kzalloc (of_nat ?n) ?s1 = (kblock b, ?s1\<lparr>pmem := m\<rparr>)" "A b = None" "b < KBLOCKS"
    "kheap_rel (?s1\<lparr>pmem := m\<rparr>) (A(b \<mapsto> nb))" "keeps_live A (pmem st) m"
    using kzalloc_live [OF r1, of "of_nat ?n" w] nb0(1) room unfolding nb by auto
  let ?s2 = "?s1\<lparr>pmem := m\<rparr>"
  let ?s3 = "?s2\<lparr>disk_streams := (disk_streams st)(?s \<mapsto> ?v ?q)\<rparr>"
  have seek: "diskstreamer_seek ?s (int ?q) ?s2 = Ret (0, ?s3)" by (simp add: diskstreamer_seek_def derefx_def)
  have "disk_streams ?s3 ?s = Some \<lparr>ds_pos = int ?q, ds_disk = disk_addr ?s3\<rparr>" by simp
  then obtain d' where R: "diskstreamer_read io fuel ?s (int ?n) ?s3 = Ret (0, take ?n (drop ?q img),
      ?s3\<lparr>device := d', disk_streams := (disk_streams ?s3)(?s \<mapsto> \<lparr>ds_pos = int (?q + ?n), ds_disk = disk_addr ?s3\<rparr>)\<rparr>)"
    using diskstreamer_run [OF conf V(1) _ V(2)] by blast
  let ?bs = "take ?n (drop ?q img)"
  have len: "length ?bs = ?n" using V(2) mult_div_mod_eq [of 512 "length img"] by simp
  let ?m = "mem_write m (kblock b) ?bs"
  have into: "stream_into io fuel ?s (kblock b) (int ?n) ?s3 = Ret (0, st\<lparr>device := d', pmem := ?m, disk_streams := (disk_streams st)(?s \<mapsto> ?v (?q + ?n))\<rparr>)"
    using R by (simp add: stream_into_def)
  have W: "kheap_rel (?s2\<lparr>pmem := ?m\<rparr>) (A(b \<mapsto> nb))" "keeps_live (A(b := None)) m ?m" "mem_bytes ?m (kblock b) ?n = ?bs"
    using write_live [OF K(4), of b nb ?bs] nb0(2) len by simp_all
  have "A(b := None) = A" using K(2) by auto
  then have "keeps_live A (pmem st) ?m" using keeps_live_trans [OF K(5)] W(2) by simp
  moreover have "fat16_get_root_directory io fuel (disk_addr st) pr st = Ret (0, st\<lparr>device := d', pmem := ?m,
      disk_streams := (disk_streams st)(?s \<mapsto> ?v (?q + ?n)), fat_privates := (fat_privates st)(pr \<mapsto> priv\<lparr>fp_root_directory := root_dir img t b\<rparr>)\<rparr>)"
    using M T K(1,3) seek into
    by (simp add: fat16_get_root_directory_def deref_disk_def derefx_def guardx_def pos size root_dir_def
      fat16_sector_to_absolute_def Let_def del: of_int_add of_int_mult)
  ultimately show ?thesis
    using K(2,3) W(1,3) by (intro exI [of _ d'] exI [of _ b] exI [of _ ?m]) (simp add: kheap_rel_def)
qed

section \<open>Resolving\<close>

text \<open>The private data of the volume that \<open>fat16_resolve\<close> builds.\<close>

definition volume_private :: "u8 list \<Rightarrow> nat \<Rightarrow> nat \<Rightarrow> nat \<Rightarrow> nat \<Rightarrow> nat \<Rightarrow> fat_private" where
  "volume_private img t b s1 s2 s3 = \<lparr>fp_header = take 62 img, fp_root_directory = root_dir img t b,
     fp_cluster_read_stream = kblock s1, fp_fat_read_stream = kblock s2, fp_directory_stream = kblock s3\<rparr>"

lemma resolve_header_run:
  assumes conf: "ata_conforms io view img W" "W < fuel" and vol: "fat_volume img t" and t: "t < fuel"
    and mnt: "d_sector_size (the_disk st) = 512" "d_fs_private (the_disk st) = pr" "fat_privates st pr = Some priv" "length (fp_header priv) = 62"
    and streams: "\<forall>s \<in> {fp_cluster_read_stream priv, fp_fat_read_stream priv, fp_directory_stream priv}.
        s \<noteq> 0 \<and> s \<noteq> stream \<and> map_option ds_disk (disk_streams st s) = Some (disk_addr st)"
    and s: "disk_streams st stream = Some \<lparr>ds_pos = 0, ds_disk = disk_addr st\<rparr>"
    and rel: "kheap_rel st A" and nb: "nb = blocks_for (of_nat (root_size img))" and room: "fits A KBLOCKS nb w"
  shows "\<exists>d b m. fat16_resolve_header io fuel (disk_addr st) pr stream st = Ret (0, st\<lparr>device := d, pmem := m,
      disk_streams := (disk_streams st)(stream \<mapsto> \<lparr>ds_pos = 62, ds_disk = disk_addr st\<rparr>,
        fp_directory_stream priv \<mapsto> \<lparr>ds_pos = int (root_sector img * 512 + root_size img), ds_disk = disk_addr st\<rparr>),
      fat_privates := (fat_privates st)(pr \<mapsto> priv\<lparr>fp_header := take 62 img, fp_root_directory := root_dir img t b\<rparr>)\<rparr>) \<and>
    A b = None \<and> b < KBLOCKS \<and> kheap_rel (st\<lparr>pmem := m\<rparr>) (A(b \<mapsto> nb)) \<and> keeps_live A (pmem st) m \<and>
    mem_bytes m (kblock b) (root_size img) = take (root_size img) (drop (root_sector img * 512) img)"
proof -
  have V: "0 + 62 < 512 * (length img div 512)" "length img < 2 ^ 31" "signature (extended_header (volume img)) = 0x29"
    "0 < unat (sectors_per_cluster (primary_header (volume img)))"
    using vol by (simp_all add: fat_volume_def)
  obtain d where R: "diskstreamer_read io fuel stream (int 62) st = Ret (0, take 62 (drop 0 img), st\<lparr>device := d,
      disk_streams := (disk_streams st)(stream \<mapsto> \<lparr>ds_pos = int (0 + 62), ds_disk = disk_addr st\<rparr>)\<rparr>)"
    using diskstreamer_run [OF conf V(2) _ V(1), of st stream] s by auto
  have len: "62 \<le> length img" using V(1) mult_div_mod_eq [of 512 "length img"] by linarith
  let ?p = "priv\<lparr>fp_header := take 62 img\<rparr>"
  let ?st = "st\<lparr>device := d, disk_streams := (disk_streams st)(stream \<mapsto> \<lparr>ds_pos = 62, ds_disk = disk_addr st\<rparr>), fat_privates := (fat_privates st)(pr \<mapsto> ?p)\<rparr>"
  have h: "primary_header ?p = primary_header (volume img)" "extended_header ?p = extended_header (volume img)"
    using headers_cong [of ?p "volume img"] by (simp_all add: volume_def)
  have "fat_mounted ?st ?p" using mnt streams V(4) h(1) by (simp add: fat_mounted_def)
  moreover have "kheap_rel ?st A" using rel by (simp add: kheap_rel_def)
  ultimately obtain d' b m where D: "fat16_get_root_directory io fuel (disk_addr ?st) pr ?st = Ret (0, ?st\<lparr>device := d', pmem := m,
      disk_streams := (disk_streams ?st)(fp_directory_stream ?p \<mapsto> \<lparr>ds_pos = int (root_sector img * 512 + root_size img), ds_disk = disk_addr ?st\<rparr>),
      fat_privates := (fat_privates ?st)(pr \<mapsto> ?p\<lparr>fp_root_directory := root_dir img t b\<rparr>)\<rparr>)"
    "A b = None" "b < KBLOCKS" "kheap_rel (?st\<lparr>pmem := m\<rparr>) (A(b \<mapsto> nb))" "keeps_live A (pmem ?st) m"
    "mem_bytes m (kblock b) (root_size img) = take (root_size img) (drop (root_sector img * 512) img)"
    using root_directory_run [OF conf vol t _ _ _ _ nb room, of ?st ?p pr] mnt(2) by auto
  have "fat16_resolve_header io fuel (disk_addr st) pr stream st = Ret (0, st\<lparr>device := d', pmem := m,
      disk_streams := (disk_streams st)(stream \<mapsto> \<lparr>ds_pos = 62, ds_disk = disk_addr st\<rparr>,
        fp_directory_stream priv \<mapsto> \<lparr>ds_pos = int (root_sector img * 512 + root_size img), ds_disk = disk_addr st\<rparr>),
      fat_privates := (fat_privates st)(pr \<mapsto> priv\<lparr>fp_header := take 62 img, fp_root_directory := root_dir img t b\<rparr>)\<rparr>)"
    using R D(1) mnt(3,4) len h(2) V(3) by (simp add: fat16_resolve_header_def derefx_def Let_def min_def)
  then show ?thesis using D(2-6) by (intro exI [of _ d'] exI [of _ b] exI [of _ m]) (simp add: kheap_rel_def)
qed

text \<open>The state and the heap when the header is read through the temporary stream \<open>s4\<close>.\<close>

definition with_stream :: "nat \<Rightarrow> nat \<Rightarrow> nat \<Rightarrow> nat \<Rightarrow> nat \<Rightarrow> mem \<Rightarrow> ('d, 'a) fat_machine_scheme \<Rightarrow> ('d, 'a) fat_machine_scheme" where
  "with_stream p s1 s2 s3 s4 m st = (attach p (prepared p s1 s2 s3 m st))
     \<lparr>disk_streams := (disk_streams (prepared p s1 s2 s3 m st))(kblock s4 \<mapsto> \<lparr>ds_pos = 0, ds_disk = disk_addr st\<rparr>)\<rparr>"

lemma resolve_prepare:
  assumes disk: "disk_addr st \<noteq> 0" "d_id (the_disk st) = 0" and rel: "kheap_rel st A" and f: "5 \<le> free_blocks A"
  shows "\<exists>p m0 s1 s2 s3 m1 s4 m2. kzalloc 92 st = (kblock p, st\<lparr>pmem := m0\<rparr>) \<and>
    fat16_init_private (disk_addr st) (kblock p) (st\<lparr>pmem := m0\<rparr>) = Ret (prepared p s1 s2 s3 m1 st) \<and>
    diskstreamer_new 0 (attach p (prepared p s1 s2 s3 m1 st)) = Ret (kblock s4, with_stream p s1 s2 s3 s4 m2 st) \<and>
    distinct [p, s1, s2, s3, s4] \<and> (\<forall>x \<in> {p, s1, s2, s3, s4}. A x = None \<and> x < KBLOCKS) \<and>
    kheap_rel (st\<lparr>pmem := m2\<rparr>) ((grant A {p, s1, s2, s3})(s4 \<mapsto> 1)) \<and> keeps_live A (pmem st) m2"
proof -
  let ?z = "\<lparr>ds_pos = 0, ds_disk = disk_addr st\<rparr>"
  obtain p m0 where P: "kzalloc 92 st = (kblock p, st\<lparr>pmem := m0\<rparr>)" "A p = None" "p < KBLOCKS" "kheap_rel (st\<lparr>pmem := m0\<rparr>) (A(p \<mapsto> 1))"
    "free_blocks (A(p \<mapsto> 1)) = free_blocks A - 1" "keeps_live A (pmem st) m0"
    using kzalloc_live_one [OF rel, of 92] f by auto
  let ?t0 = "st\<lparr>pmem := m0\<rparr>" and ?Ap = "A(p \<mapsto> 1)"
  have pnz: "kblock p \<noteq> 0" and f0: "3 \<le> free_blocks ?Ap" using P(3,5) f by simp_all
  obtain s1 s2 s3 m1 where I: "fat16_init_private (disk_addr st) (kblock p) ?t0 = Ret (prepared p s1 s2 s3 m1 st)"
    "distinct [s1, s2, s3]" "{s1, s2, s3} \<subseteq> {..<KBLOCKS}" "\<forall>s \<in> {s1, s2, s3}. ?Ap s = None"
    "kheap_rel (?t0\<lparr>pmem := m1\<rparr>) (grant ?Ap {s1, s2, s3})" "free_blocks (grant ?Ap {s1, s2, s3}) = free_blocks ?Ap - 3" "keeps_live ?Ap m0 m1"
    using init_private_run [OF P(4) f0 _ _ pnz] disk unfolding prepared_pmem by auto
  let ?B = "grant A {p, s1, s2, s3}" and ?t1 = "attach p (prepared p s1 s2 s3 m1 st)"
  have g: "grant ?Ap {s1, s2, s3} = ?B" by (auto simp: grant_def)
  have r1: "kheap_rel ?t1 ?B" and f1: "0 < free_blocks ?B" and a1: "disk_addr ?t1 = disk_addr st"
    using I(5,6) P(5) f unfolding g by (simp_all add: kheap_rel_def prepared_def attach_def Let_def)
  obtain s4 m2 where S: "diskstreamer_new 0 ?t1 = Ret (kblock s4, ?t1\<lparr>pmem := m2, disk_streams := (disk_streams ?t1)(kblock s4 \<mapsto> ?z)\<rparr>)"
    "?B s4 = None" "s4 < KBLOCKS" "kheap_rel (?t1\<lparr>pmem := m2\<rparr>) (?B(s4 \<mapsto> 1))" "keeps_live ?B (pmem ?t1) m2"
    using stream_new_run [OF r1 f1] disk(1) unfolding a1 by auto
  have new: "distinct [p, s1, s2, s3, s4]" "\<forall>x \<in> {p, s1, s2, s3, s4}. A x = None \<and> x < KBLOCKS"
    using I(2-4) S(2,3) P(2,3) by (auto simp: grant_def split: if_splits)
  have "A \<subseteq>\<^sub>m ?Ap" "A \<subseteq>\<^sub>m ?B" using new(2) by (auto simp: map_le_def grant_def)
  moreover have "pmem ?t1 = m1" by (simp add: prepared_def attach_def Let_def)
  ultimately have k: "keeps_live A (pmem st) m2" using keeps_live_trans [OF keeps_live_trans [OF P(6) I(7)]] S(5) by simp
  have S': "diskstreamer_new 0 ?t1 = Ret (kblock s4, with_stream p s1 s2 s3 s4 m2 st)"
    unfolding S(1) by (simp add: with_stream_def prepared_def attach_def Let_def)
  have r2: "kheap_rel (st\<lparr>pmem := m2\<rparr>) (?B(s4 \<mapsto> 1))" using S(4) by (simp add: kheap_rel_def prepared_def attach_def Let_def)
  show ?thesis by (intro exI conjI) (rule P(1), rule I(1), rule S', rule new(1), rule new(2), rule r2, rule k)
qed

text \<open>The heap and the state after \<open>fat16_resolve\<close>; only the fields named here change.\<close>

definition resolved ::
  "u8 list \<Rightarrow> nat \<Rightarrow> nat list \<Rightarrow> allocs \<Rightarrow> ('d, 'a) fat_machine_scheme \<Rightarrow> ('d, 'a) fat_machine_scheme \<Rightarrow> bool" where
  "resolved img t bs A st st' \<longleftrightarrow> (\<exists>p s1 s2 s3 b. bs = [p, s1, s2, s3, b] \<and> distinct bs \<and> (\<forall>x \<in> set bs. A x = None \<and> x < KBLOCKS) \<and>
     kheap_rel st' ((grant A {p, s1, s2, s3})(b \<mapsto> blocks_for (of_nat (root_size img)))) \<and> keeps_live A (pmem st) (pmem st') \<and>
     mem_bytes (pmem st') (kblock b) (root_size img) = take (root_size img) (drop (root_sector img * 512) img) \<and>
     fat_privates st' = (fat_privates st)(kblock p \<mapsto> volume_private img t b s1 s2 s3) \<and>
     (\<forall>s \<in> {s1, s2, s3}. map_option ds_disk (disk_streams st' (kblock s)) = Some (disk_addr st)) \<and>
     st' = st\<lparr>the_disk := (the_disk st)\<lparr>d_fs_private := kblock p, d_filesystem := fat16_fs st\<rparr>, device := device st',
       fat_privates := fat_privates st', disk_streams := disk_streams st', pmem := pmem st'\<rparr>)"

lemma kfree_keeps: "kfree p st = st\<lparr>pmem := pmem (kfree p st)\<rparr>"
  by (simp add: kfree_def)

lemma header_run:
  assumes conf: "ata_conforms io view img W" "W < fuel" and vol: "fat_volume img t" and t: "t < fuel"
    and disk: "d_sector_size (the_disk st) = 512" and nb: "nb = blocks_for (of_nat (root_size img))"
    and room: "(used L K A + 6) * nb \<le> K" "L + K \<le> KBLOCKS" "0 < nb"
    and new: "distinct [p, s1, s2, s3, s4]" "\<forall>x \<in> {p, s1, s2, s3, s4}. A x = None \<and> x < KBLOCKS"
    and C: "C = (grant A {p, s1, s2, s3})(s4 \<mapsto> 1)" "kheap_rel (st\<lparr>pmem := m2\<rparr>) C"
  shows "\<exists>d b m D. fat16_resolve_header io fuel (disk_addr st) (kblock p) (kblock s4) (with_stream p s1 s2 s3 s4 m2 st) =
      Ret (0, (attach p st)\<lparr>device := d, pmem := m, disk_streams := D, fat_privates := (fat_privates st)(kblock p \<mapsto> volume_private img t b s1 s2 s3)\<rparr>) \<and>
    C b = None \<and> b < KBLOCKS \<and> kheap_rel (st\<lparr>pmem := m\<rparr>) (C(b \<mapsto> nb)) \<and> keeps_live C m2 m \<and>
    mem_bytes m (kblock b) (root_size img) = take (root_size img) (drop (root_sector img * 512) img) \<and>
    (\<forall>s \<in> {s1, s2, s3}. kblock s \<noteq> kblock s4 \<and> map_option ds_disk (D (kblock s)) = Some (disk_addr st))"
proof -
  let ?B = "grant A {p, s1, s2, s3}" and ?priv = "fresh_private s1 s2 s3" and ?t = "with_stream p s1 s2 s3 s4 m2 st"
  have kb: "kblock s1 \<noteq> kblock s4" "kblock s2 \<noteq> kblock s4" "kblock s3 \<noteq> kblock s4" "kblock s1 \<noteq> 0" "kblock s2 \<noteq> 0" "kblock s3 \<noteq> 0"
    using new by (simp_all add: kblock_inj)
  have T: "d_sector_size (the_disk ?t) = 512" "d_fs_private (the_disk ?t) = kblock p" "fat_privates ?t (kblock p) = Some ?priv"
      "length (fp_header ?priv) = 62"
    and ss: "\<forall>s \<in> {fp_cluster_read_stream ?priv, fp_fat_read_stream ?priv, fp_directory_stream ?priv}.
        s \<noteq> 0 \<and> s \<noteq> kblock s4 \<and> map_option ds_disk (disk_streams ?t s) = Some (disk_addr ?t)"
    and T': "disk_streams ?t (kblock s4) = Some \<lparr>ds_pos = 0, ds_disk = disk_addr ?t\<rparr>" "kheap_rel ?t C"
    and a: "disk_addr ?t = disk_addr st"
    using disk kb C(2) by (simp_all add: with_stream_def attach_def prepared_def fresh_private_def zero_fat_private_def kheap_rel_def Let_def)
  have "used L K C \<le> used L K ?B + 1" unfolding C(1) by (rule used_upd)
  moreover have "used L K ?B \<le> used L K A + card {p, s1, s2, s3}" by (rule used_grant) simp
  moreover have "card {p, s1, s2, s3} = 4" using new(1) by simp
  ultimately have "used L K C + 1 \<le> used L K A + 6" by simp
  then have "(used L K C + 1) * nb \<le> K" using room(1) mult_le_mono1 le_trans by blast
  then obtain w where w: "fits C KBLOCKS nb w" using used_fits room(2,3) by blast
  obtain d b m where H: "fat16_resolve_header io fuel (disk_addr ?t) (kblock p) (kblock s4) ?t = Ret (0, ?t\<lparr>device := d, pmem := m,
      disk_streams := (disk_streams ?t)(kblock s4 \<mapsto> \<lparr>ds_pos = 62, ds_disk = disk_addr ?t\<rparr>,
        fp_directory_stream ?priv \<mapsto> \<lparr>ds_pos = int (root_sector img * 512 + root_size img), ds_disk = disk_addr ?t\<rparr>),
      fat_privates := (fat_privates ?t)(kblock p \<mapsto> ?priv\<lparr>fp_header := take 62 img, fp_root_directory := root_dir img t b\<rparr>)\<rparr>)"
    "C b = None" "b < KBLOCKS" "kheap_rel (?t\<lparr>pmem := m\<rparr>) (C(b \<mapsto> nb))" "keeps_live C (pmem ?t) m"
    "mem_bytes m (kblock b) (root_size img) = take (root_size img) (drop (root_sector img * 512) img)"
    using resolve_header_run [OF conf vol t T ss T' nb w] by blast
  show ?thesis
    using H kb ss by (intro exI [of _ d] exI [of _ b] exI [of _ m] exI [of _ "(disk_streams ?t)(kblock s4 \<mapsto> \<lparr>ds_pos = 62, ds_disk = disk_addr ?t\<rparr>,
        fp_directory_stream ?priv \<mapsto> \<lparr>ds_pos = int (root_sector img * 512 + root_size img), ds_disk = disk_addr ?t\<rparr>)"])
      (simp add: with_stream_def attach_def prepared_def fresh_private_def zero_fat_private_def volume_private_def kheap_rel_def Let_def)
qed

lemma resolve_run:
  assumes conf: "ata_conforms io view img W" "W < fuel" and vol: "fat_volume img t" and t: "t < fuel"
    and disk: "disk_addr st \<noteq> 0" "d_id (the_disk st) = 0" "d_sector_size (the_disk st) = 512"
    and rel: "kheap_rel st A" and nb: "nb = blocks_for (of_nat (root_size img))"
    and room: "(used L K A + 6) * nb \<le> K" "L + K \<le> KBLOCKS" "0 < nb"
  shows "\<exists>bs st'. fat16_resolve io fuel (disk_addr st) st = Ret (0, st') \<and> resolved img t bs A st st'"
proof -
  have "used L K A + 6 \<le> (used L K A + 6) * nb" using room(3) by simp
  then have u: "used L K A + 6 \<le> K" using room(1) by (rule le_trans)
  have "6 \<le> free_blocks A" by (rule used_avail [OF room(2) u])
  then have f: "5 \<le> free_blocks A" by simp
  obtain p m0 s1 s2 s3 m1 s4 m2 where P: "kzalloc 92 st = (kblock p, st\<lparr>pmem := m0\<rparr>)"
    "fat16_init_private (disk_addr st) (kblock p) (st\<lparr>pmem := m0\<rparr>) = Ret (prepared p s1 s2 s3 m1 st)"
    "diskstreamer_new 0 (attach p (prepared p s1 s2 s3 m1 st)) = Ret (kblock s4, with_stream p s1 s2 s3 s4 m2 st)"
    and new: "distinct [p, s1, s2, s3, s4]" "\<forall>x \<in> {p, s1, s2, s3, s4}. A x = None \<and> x < KBLOCKS"
    and r2: "kheap_rel (st\<lparr>pmem := m2\<rparr>) ((grant A {p, s1, s2, s3})(s4 \<mapsto> 1))" and k2: "keeps_live A (pmem st) m2"
    using resolve_prepare [OF disk(1,2) rel f] by blast
  let ?B = "grant A {p, s1, s2, s3}"
  let ?C = "?B(s4 \<mapsto> 1)"
  obtain d b m D where H: "fat16_resolve_header io fuel (disk_addr st) (kblock p) (kblock s4) (with_stream p s1 s2 s3 s4 m2 st) =
      Ret (0, (attach p st)\<lparr>device := d, pmem := m, disk_streams := D, fat_privates := (fat_privates st)(kblock p \<mapsto> volume_private img t b s1 s2 s3)\<rparr>)"
    "?C b = None" "b < KBLOCKS" "kheap_rel (st\<lparr>pmem := m\<rparr>) (?C(b \<mapsto> nb))" "keeps_live ?C m2 m"
    "mem_bytes m (kblock b) (root_size img) = take (root_size img) (drop (root_sector img * 512) img)"
    "\<forall>s \<in> {s1, s2, s3}. kblock s \<noteq> kblock s4 \<and> map_option ds_disk (D (kblock s)) = Some (disk_addr st)"
    using header_run [OF conf vol t disk(3) nb room new refl r2] by blast
  let ?x = "(attach p st)\<lparr>device := d, pmem := m, fat_privates := (fat_privates st)(kblock p \<mapsto> volume_private img t b s1 s2 s3), disk_streams := D(kblock s4 := None)\<rparr>"
  obtain m' where F: "kfree (kblock s4) ?x = ?x\<lparr>pmem := m'\<rparr>" using kfree_keeps by metis
  let ?A' = "?B(b \<mapsto> nb)"
  have b: "b \<noteq> s4" "b \<notin> {p, s1, s2, s3}" "A b = None" "?B s4 = None" using H(2) new by (auto simp: grant_def split: if_splits)
  have kz: "kblock s4 \<noteq> 0" and sep: "p \<noteq> b" "s1 \<noteq> b" "s2 \<noteq> b" "s3 \<noteq> b" using new(2) b(2) by auto
  have A': "(?C(b \<mapsto> nb))(s4 := None) = ?A'" using b by auto
  have "kheap_rel ?x (?C(b \<mapsto> nb))" using H(4) by (simp add: kheap_rel_def attach_def)
  from kfree_live [OF this, of s4 1] have K: "kheap_rel (?x\<lparr>pmem := m'\<rparr>) ?A'" "keeps_live (?C(b \<mapsto> nb)) m m'"
    using b(1) unfolding A' F by simp_all
  have le: "A \<subseteq>\<^sub>m ?C" "A \<subseteq>\<^sub>m ?C(b \<mapsto> nb)" using new(2) b by (auto simp: map_le_def grant_def)
  have k: "keeps_live A (pmem st) m'" using keeps_live_trans [OF keeps_live_trans [OF k2 H(5) le(1)] K(2) le(2)] .
  have "root_size img \<le> nb * 4096"
    using blocks_for_bytes [of "of_nat (root_size img)"] room(3) root_size_word [OF vol] unfolding nb by simp
  then have bytes: "mem_bytes m' (kblock b) (root_size img) = take (root_size img) (drop (root_sector img * 512) img)"
    using keeps_live_bytes [OF K(2) kheap_rel_wf [OF H(4)], of b nb 0 "root_size img"] H(6) by simp
  have "fat16_resolve io fuel (disk_addr st) st = Ret (0, ?x\<lparr>pmem := m'\<rparr>)"
    using P(1,2) P(3) [unfolded attach_def prepared_fields] H(1) disk(2) kz F
    by (simp add: fat16_resolve_def deref_disk_def diskstreamer_close_def prepared_fields)
  moreover have "\<forall>s \<in> {s1, s2, s3}. map_option ds_disk ((D(kblock s4 := None)) (kblock s)) = Some (disk_addr st)"
    using H(7) unfolding fun_upd_apply by metis
  then have "resolved img t [p, s1, s2, s3, b] A st (?x\<lparr>pmem := m'\<rparr>)"
    using new b sep H(3) K(1) k bytes nb unfolding resolved_def by (intro exI conjI) (simp_all add: attach_def)
  ultimately show ?thesis by blast
qed

section \<open>Mounting\<close>

text \<open>Entry \<open>i\<close> of the root directory on the disk.\<close>

definition root_entry :: "u8 list \<Rightarrow> nat \<Rightarrow> fat_directory_item" where
  "root_entry img i = item_of (take 32 (drop (root_sector img * 512 + 32 * i) img))"

text \<open>
  A mounted state: the private data has the header of the volume and its streams, the root directory is in the
  allocation at \<open>b\<close>, and the file layer finds the driver \<open>f\<close>.
\<close>

definition mounted ::
  "u8 list \<Rightarrow> nat \<Rightarrow> u32 \<Rightarrow> nat \<Rightarrow> fat_private \<Rightarrow> ('d, 'a) file_machine_scheme \<Rightarrow> bool" where
  "mounted img t f b priv st \<longleftrightarrow> fat_mounted st priv \<and> served st \<and> d_filesystem (the_disk st) = f \<and>
     fp_header priv = take 62 img \<and> fp_root_directory priv = root_dir img t b \<and>
     (\<forall>i < t. dir_entry (pmem st) (kblock b) i = root_entry img i)"

lemma dir_bytes_entry:
  assumes "mem_bytes m p n = take n (drop q img)" and "32 * i + 32 \<le> n"
  shows "dir_entry m p i = item_of (take 32 (drop (q + 32 * i) img))"
proof -
  have "mem_bytes m (p + of_nat (32 * i)) 32 = take 32 (drop (32 * i) (mem_bytes m p n))"
    using assms(2) by (intro nth_equalityI) (simp_all add: mem_bytes_def algebra_simps)
  also have "\<dots> = take 32 (drop (q + 32 * i) img)"
    using assms(2) by (simp add: assms(1) drop_take add.commute)
  finally show ?thesis by (simp add: dir_entry_def item_at_def)
qed

lemma mount_run:
  assumes conf: "ata_conforms io view img W" "W < fuel" and vol: "fat_volume img t" and t: "t < fuel"
    and disk: "disk_addr st \<noteq> 0" and fs: "filesystems st = f # fs" "f \<noteq> 0" "filesystem_objects st f \<noteq> None"
    and rel: "kheap_rel st A" and nb: "nb = blocks_for (of_nat (root_size img))"
    and room: "(used L K A + 6) * nb \<le> K" "L + K \<le> KBLOCKS" "0 < nb"
  shows "\<exists>F b priv st'. disk_search_and_init io fuel st = Ret st' \<and> mounted img t f b priv st' \<and>
    card F = 4 \<and> b \<notin> F \<and> (\<forall>x \<in> insert b F. A x = None) \<and> kheap_rel st' ((grant A F)(b \<mapsto> nb)) \<and> keeps_live A (pmem st) (pmem st') \<and>
    (\<exists>d P D m k. st' = st\<lparr>device := d, fat_privates := P, disk_streams := D, pmem := m, the_disk := k\<rparr>)"
proof -
  let ?k = "\<lparr>d_type = MAEROS_DISK_TYPE_REAL, d_sector_size = MAEROS_SECTOR_SIZE, d_id = 0, d_filesystem = 0, d_fs_private = 0\<rparr>"
  let ?st = "st\<lparr>the_disk := ?k\<rparr>"
  have "kheap_rel ?st A" using rel by (simp add: kheap_rel_def)
  then obtain bs s1 where R: "fat16_resolve io fuel (disk_addr ?st) ?st = Ret (0, s1)" "resolved img t bs A ?st s1"
    using resolve_run [OF conf vol t _ _ _ _ nb room, of ?st] disk by auto
  from R(2) obtain p x1 x2 x3 b where bs: "bs = [p, x1, x2, x3, b]" "distinct bs" "\<forall>x \<in> set bs. A x = None \<and> x < KBLOCKS"
    and X: "kheap_rel s1 ((grant A {p, x1, x2, x3})(b \<mapsto> nb))" "keeps_live A (pmem ?st) (pmem s1)"
    "mem_bytes (pmem s1) (kblock b) (root_size img) = take (root_size img) (drop (root_sector img * 512) img)"
    "fat_privates s1 = (fat_privates ?st)(kblock p \<mapsto> volume_private img t b x1 x2 x3)"
    "\<forall>s \<in> {x1, x2, x3}. map_option ds_disk (disk_streams s1 (kblock s)) = Some (disk_addr ?st)"
    and s1: "s1 = ?st\<lparr>the_disk := (the_disk ?st)\<lparr>d_fs_private := kblock p, d_filesystem := fat16_fs ?st\<rparr>, device := device s1,
       fat_privates := fat_privates s1, disk_streams := disk_streams s1, pmem := pmem s1\<rparr>"
    unfolding resolved_def nb by blast
  let ?priv = "volume_private img t b x1 x2 x3" and ?s2 = "s1\<lparr>the_disk := (the_disk s1)\<lparr>d_filesystem := f\<rparr>\<rparr>"
  have S: "the_disk s1 = ?k\<lparr>d_fs_private := kblock p, d_filesystem := fat16_fs st\<rparr>" "disk_addr s1 = disk_addr st"
    "filesystem_objects s1 = filesystem_objects st"
    by (subst s1, simp)+
  have z: "kblock x1 \<noteq> 0" "kblock x2 \<noteq> 0" "kblock x3 \<noteq> 0" using bs by simp_all
  have "primary_header ?priv = primary_header (volume img)" by (simp add: primary_header_def volume_private_def volume_def)
  then have "0 < unat (sectors_per_cluster (primary_header ?priv))" using vol by (simp add: fat_volume_def)
  then have "fat_mounted ?s2 ?priv" using X(4,5) S z by (simp add: fat_mounted_def volume_private_def)
  moreover have "served ?s2" using fs(2,3) disk S by (simp add: served_def)
  moreover have "dir_entry (pmem s1) (kblock b) i = root_entry img i" if "i < t" for i
    using dir_bytes_entry [OF X(3), of i] that vol by (simp add: fat_volume_def root_entry_def)
  ultimately have m: "mounted img t f b ?priv ?s2" by (simp add: mounted_def volume_private_def)
  obtain o1 where "filesystem_objects st f = Some o1" "fsys_resolve o1 = Fat16_resolve"
    using fs(3) fs_resolve_function.exhaust by blast
  then have run: "disk_search_and_init io fuel st = Ret ?s2"
    using R(1) fs(1,2) by (simp add: disk_search_and_init_def fs_resolve_def call_resolve_def derefx_def)
  have r: "kheap_rel ?s2 ((grant A {p, x1, x2, x3})(b \<mapsto> nb))" and k: "keeps_live A (pmem st) (pmem ?s2)"
    using X(1,2) by (simp_all add: kheap_rel_def)
  have new: "card {p, x1, x2, x3} = 4" "b \<notin> {p, x1, x2, x3}" "\<forall>x \<in> insert b {p, x1, x2, x3}. A x = None"
    using bs by auto
  have "?s2 = st\<lparr>device := device s1, fat_privates := fat_privates s1, disk_streams := disk_streams s1, pmem := pmem s1,
      the_disk := (the_disk s1)\<lparr>d_filesystem := f\<rparr>\<rparr>" by (subst s1) simp
  then show ?thesis by (intro exI conjI) (rule run, rule m, rule new(1), rule new(2), rule new(3), rule r, rule k)
qed

section \<open>Programs of a volume\<close>

text \<open>Where the first cluster of a file lies, and the contents of a file of at most one cluster.\<close>

definition data_pos :: "u8 list \<Rightarrow> fat_directory_item \<Rightarrow> nat" where
  "data_pos img e = (root_sector img + root_size img div 512 +
     (nat (entry_cluster e) - 2) * unat (sectors_per_cluster (primary_header (volume img)))) * 512"

definition image_bytes :: "u8 list \<Rightarrow> fat_directory_item \<Rightarrow> u8 list" where
  "image_bytes img e = take (unat (fdi_filesize e)) (drop (data_pos img e) img)"

text \<open>The path names the file \<open>e\<close> of the root directory on the disk, and the file lies within one cluster.\<close>

definition image_program :: "u8 list \<Rightarrow> nat \<Rightarrow> u8 list \<Rightarrow> fat_directory_item \<Rightarrow> bool" where
  "image_program img t path e \<longleftrightarrow> valid_path path \<and> path ! 0 = 0x30 \<and>
     (\<exists>w k. components (drop 3 (cstr path)) = [w] \<and> terminated (buffer w) \<and> k < t \<and>
        (\<forall>i < t. named (root_entry img i) (buffer w) \<longleftrightarrow> i = k) \<and> e = root_entry img k) \<and>
     fdi_attribute e AND FAT_FILE_SUBDIRECTORY = 0 \<and> 2 \<le> entry_cluster e \<and> 0 < unat (fdi_filesize e) \<and>
     unat (fdi_filesize e) \<le> unat (sectors_per_cluster (primary_header (volume img))) * 512 \<and>
     data_pos img e + unat (fdi_filesize e) < 512 * (length img div 512)"

lemma mounted_header: "mounted img t f b priv st \<Longrightarrow> primary_header priv = primary_header (volume img)"
  using headers_cong [of priv "volume img"] by (simp add: mounted_def volume_def)

lemma mounted_cluster:
  assumes "mounted img t f b priv st" and "2 \<le> entry_cluster e"
  shows "0 \<le> fat16_cluster_to_sector priv (entry_cluster e)" "cluster_pos priv (entry_cluster e) = data_pos img e"
proof -
  have h: "primary_header priv = primary_header (volume img)" "fp_root_directory priv = root_dir img t b"
    using assms(1) mounted_header [OF assms(1)] by (simp_all add: mounted_def)
  have "int (root_size img) sdiv 512 = int (root_size img div 512)" by (cases "root_size img") (simp_all add: signed_divide_int_def zdiv_int)
  then have "fat16_cluster_to_sector priv (entry_cluster e) = int (root_sector img + root_size img div 512 +
     (nat (entry_cluster e) - 2) * unat (sectors_per_cluster (primary_header (volume img))))"
    using assms(2) by (simp add: fat16_cluster_to_sector_def h root_dir_def of_nat_diff)
  then show "0 \<le> fat16_cluster_to_sector priv (entry_cluster e)" "cluster_pos priv (entry_cluster e) = data_pos img e"
    by (simp_all only: cluster_pos_def data_pos_def nat_int of_nat_0_le_iff)
qed

lemma mounted_program:
  assumes m: "mounted img t f b priv st" and prog: "image_program img t path e" and A: "A b = Some nb" "32 * t \<le> nb * 4096"
  shows "program_file img st A priv path e" "file_bytes img priv e = image_bytes img e"
proof -
  have M: "fat_mounted st priv" "served st" "fp_root_directory priv = root_dir img t b" "primary_header priv = primary_header (volume img)"
    "\<And>i. i < t \<Longrightarrow> dir_entry (pmem st) (kblock b) i = root_entry img i"
    using m mounted_header [OF m] by (simp_all add: mounted_def)
  have P: "2 \<le> entry_cluster e" "fdi_attribute e AND FAT_FILE_SUBDIRECTORY = 0" using prog by (simp_all add: image_program_def)
  obtain w k where W: "components (drop 3 (cstr path)) = [w]" "terminated (buffer w)" "k < t"
    "\<forall>i < t. named (root_entry img i) (buffer w) \<longleftrightarrow> i = k" "e = root_entry img k"
    using prog unfolding image_program_def by blast
  note c = mounted_cluster [OF m P(1)]
  have has: "dir_has (pmem st) A (fp_root_directory priv) (buffer w) k"
    using W A P(2) M(5) unfolding dir_has_def M(3) root_dir_def by auto
  have "e = dir_entry (pmem st) (fd_item (fp_root_directory priv)) k" using M(5) [OF W(3)] W(5) by (simp add: M(3) root_dir_def)
  moreover have "nat (size_of_cluster_bytes priv (the_disk st)) = unat (sectors_per_cluster (primary_header (volume img))) * 512"
    using M(1) by (simp add: size_of_cluster_bytes_def fat_mounted_def M(4) nat_mult_distrib)
  ultimately show "program_file img st A priv path e"
    using prog M(1,2) W(1) has c P(1) unfolding program_file_def image_program_def by auto
  show "file_bytes img priv e = image_bytes img e" by (simp add: file_bytes_def image_bytes_def c(2))
qed

section \<open>Properties\<close>

lemma fs_init_run:
  assumes "filesystem_objects st (fat16_fs st) = Some fs" and "6 \<le> length (fsys_name fs)"
  shows "\<exists>fo. fs_init st = Ret (st\<lparr>file_descriptors := replicate 512 0, filesystem_objects := fo,
    filesystems := fat16_fs st # replicate 11 0\<rparr>) \<and> fo (fat16_fs st) \<noteq> None"
proof -
  let ?n = "[0x46, 0x41, 0x54, 0x31, 0x36, 0] :: u8 list"
  have "terminated ?n" "length (cstr ?n) = 5" by (simp_all add: terminated_def cstr_def)
  then obtain name where "strcpy (fsys_name fs) ?n = Ret name"
    using strcpy_loop_run [of ?n 0 "fsys_name fs"] assms(2) unfolding strcpy_def by simp
  moreover have "replicate 12 (0 :: u32) = 0 # replicate 11 0" using replicate_Suc [of 11 "0 :: u32"] by simp
  ultimately show ?thesis
    using assms(1) by (intro exI [of _ "(filesystem_objects st)(fat16_fs st \<mapsto> fs\<lparr>fsys_name := name\<rparr>)"])
      (simp add: fs_init_def fs_load_def fs_static_load_def fat16_init_def derefx_def fs_insert_filesystem_def fs_get_free_filesystem_def)
qed

lemma root_blocks:
  assumes "fat_volume img t"
  shows "0 < blocks_for (of_nat (root_size img))" "blocks_for (of_nat (root_size img)) \<le> 512" "32 * t \<le> blocks_for (of_nat (root_size img)) * 4096"
proof -
  have "unat (root_dir_entries (primary_header (volume img))) < 65536" by (rule order_less_le_trans [OF unsigned_less]) simp
  then have "root_size img < 65536 * 32" by (simp add: root_size_def)
  moreover have t: "32 * t + 32 \<le> root_size img" using assms by (simp add: fat_volume_def)
  ultimately show n: "0 < blocks_for (of_nat (root_size img))" "blocks_for (of_nat (root_size img)) \<le> 512"
    using root_size_word [OF assms] by (simp_all add: blocks_for_ceil)
  show "32 * t \<le> blocks_for (of_nat (root_size img)) * 4096" using blocks_for_bytes [OF n(1)] root_size_word [OF assms] t by linarith
qed

text \<open>The storage part of \<open>kernel_main\<close>: the heap, the table of file systems and the disk.\<close>

lemma storage_run:
  assumes conf: "ata_conforms io view img W" "W < fuel" and vol: "fat_volume img t" and t: "t < fuel"
    and disk: "disk_addr st \<noteq> 0" and fs: "fat16_fs st \<noteq> 0" "filesystem_objects st (fat16_fs st) = Some fs" "6 \<le> length (fsys_name fs)"
  shows "\<exists>F b priv st'. bindx (fs_init (snd (kheap_init st))) (disk_search_and_init io fuel) = Ret st' \<and>
    mounted img t (fat16_fs st) b priv st' \<and> card F = 4 \<and> b \<notin> F \<and>
    kheap_rel st' ((grant Map.empty F)(b \<mapsto> blocks_for (of_nat (root_size img)))) \<and> file_descriptors st' = replicate 512 0 \<and>
    processes st' = processes st \<and> task_head st' = task_head st \<and> task_tail st' = task_tail st \<and> tasks st' = tasks st"
proof -
  let ?s0 = "snd (kheap_init st)" and ?nb = "blocks_for (of_nat (root_size img))"
  obtain m h where s0: "?s0 = st\<lparr>pmem := m, kernel_heap := h\<rparr>" by (simp add: kheap_init_run)
  have "filesystem_objects ?s0 (fat16_fs ?s0) = Some fs" using fs(2) by (simp add: s0)
  from fs_init_run [OF this fs(3)] obtain fo where I: "fs_init ?s0 = Ret (?s0\<lparr>file_descriptors := replicate 512 0, filesystem_objects := fo,
      filesystems := fat16_fs st # replicate 11 0\<rparr>)" "fo (fat16_fs st) \<noteq> None"
    by (auto simp: s0)
  let ?s1 = "?s0\<lparr>file_descriptors := replicate 512 0, filesystem_objects := fo, filesystems := fat16_fs st # replicate 11 0\<rparr>"
  have rel: "kheap_rel ?s1 Map.empty" using kheap_init_empty [of st] by (simp add: kheap_rel_def)
  note nb = root_blocks [OF vol]
  have "used 0 KBLOCKS Map.empty = 0" by (rule used_empty) simp
  then have room: "(used 0 KBLOCKS Map.empty + 6) * ?nb \<le> KBLOCKS" "0 + KBLOCKS \<le> KBLOCKS" using nb(2) by simp_all
  have S: "disk_addr ?s1 \<noteq> 0" "filesystems ?s1 = fat16_fs st # replicate 11 0" "filesystem_objects ?s1 (fat16_fs st) \<noteq> None"
    using disk I(2) by (simp_all add: s0)
  obtain F b priv st' where M: "disk_search_and_init io fuel ?s1 = Ret st'" "mounted img t (fat16_fs st) b priv st'" "card F = 4" "b \<notin> F"
    "kheap_rel st' ((grant Map.empty F)(b \<mapsto> ?nb))" "\<exists>d P D m k. st' = ?s1\<lparr>device := d, fat_privates := P, disk_streams := D, pmem := m, the_disk := k\<rparr>"
    using mount_run [OF conf vol t S(1,2) fs(1) S(3) rel refl room nb(1)] by blast
  then have "file_descriptors st' = replicate 512 0 \<and> processes st' = processes st \<and> task_head st' = task_head st \<and>
      task_tail st' = task_tail st \<and> tasks st' = tasks st" by (auto simp: s0)
  with M(1-5) I(1) show ?thesis by auto
qed

text \<open>
  C4. Mounting. On a disk that holds a FAT16 volume whose root directory has \<open>t\<close> entries, the storage part of
  \<open>kernel_main\<close> (\<open>kheap_init\<close>, \<open>fs_init\<close>, \<open>disk_search_and_init\<close>) returns from any state with the static objects in
  place: the volume is mounted with the geometry of its header, the file layer has the FAT16 driver for the disk, the
  root directory in memory has exactly the \<open>t\<close> entries of the disk, and the heap holds exactly the private data, the
  three streams and the directory.
\<close>

theorem storage_mounts:
  assumes "ata_conforms io view img W" and "W < fuel" and "fat_volume img t" and "t < fuel" and "disk_addr st \<noteq> 0"
    and "fat16_fs st \<noteq> 0" and "filesystem_objects st (fat16_fs st) = Some fs" and "6 \<le> length (fsys_name fs)"
  shows "\<exists>st' priv dir A. bindx (fs_init (snd (kheap_init st))) (disk_search_and_init io fuel) = Ret st' \<and>
    fat_mounted st' priv \<and> served st' \<and> d_filesystem (the_disk st') = fat16_fs st \<and> primary_header priv = primary_header (volume img) \<and>
    fp_root_directory priv = dir \<and> fd_total dir = int t \<and> fd_sector_pos dir = int (root_sector img) \<and>
    (\<forall>i < t. dir_entry (pmem st') (fd_item dir) i = root_entry img i) \<and> kheap_rel st' A \<and> card (dom A) = 5"
proof -
  obtain F b priv st' where S: "bindx (fs_init (snd (kheap_init st))) (disk_search_and_init io fuel) = Ret st'"
    "mounted img t (fat16_fs st) b priv st'" "card F = 4" "b \<notin> F" "kheap_rel st' ((grant Map.empty F)(b \<mapsto> blocks_for (of_nat (root_size img))))"
    using storage_run [OF assms] by blast
  have "dom (grant Map.empty F) = F" by (auto simp: grant_def split: if_splits)
  moreover have "finite F" using S(3) by (simp add: card_ge_0_finite)
  ultimately have "card (dom ((grant Map.empty F)(b \<mapsto> blocks_for (of_nat (root_size img))))) = 5" using S(3,4) by simp
  moreover have "primary_header priv = primary_header (volume img)" using S(2) by (rule mounted_header)
  ultimately show ?thesis
    using S(1,2,5) unfolding mounted_def by (intro exI [of _ st'] exI [of _ priv] exI [of _ "root_dir img t b"]
      exI [of _ "(grant Map.empty F)(b \<mapsto> blocks_for (of_nat (root_size img)))"] conjI) (simp_all add: root_dir_def)
qed

text \<open>A disk with one file of three bytes.\<close>

definition demo_fat_image :: "u8 list" where
  "demo_fat_image = (replicate 1024 0)[13 := 1, 14 := 1, 16 := 1, 17 := 16, 22 := 1, 38 := 0x29] @ demo_entry @ replicate 480 0 @
     [10, 20, 30] @ replicate 1021 0"

lemma demo_fat_image_header:
  "primary_header (volume demo_fat_image) = primary_header (volume ((replicate 62 0)[13 := 1, 14 := 1, 16 := 1, 17 := 16, 22 := 1, 38 := 0x29]))"
  "extended_header (volume demo_fat_image) = extended_header (volume ((replicate 62 0)[13 := 1, 14 := 1, 16 := 1, 17 := 16, 22 := 1, 38 := 0x29]))"
  by (simp_all add: volume_def demo_fat_image_def take_update_swap primary_header_def extended_header_def)

lemma demo_fat_image_geometry:
  "root_sector demo_fat_image = 2" "root_size demo_fat_image = 512" "sectors_per_cluster (primary_header (volume demo_fat_image)) = 1"
  "signature (extended_header (volume demo_fat_image)) = 0x29"
  unfolding root_sector_def root_size_def demo_fat_image_header
  by (simp_all add: volume_def primary_header_def extended_header_def le16_def)

lemma demo_fat_image_length: "length demo_fat_image = 2560"
  by (simp add: demo_fat_image_def demo_entry_def)

lemma demo_fat_image_volume: "fat_volume demo_fat_image 1"
proof -
  have "demo_fat_image ! 1024 = 0x41" "demo_fat_image ! 1056 = 0" by (simp_all add: demo_fat_image_def demo_entry_def nth_append)
  then show ?thesis by (simp add: fat_volume_def demo_fat_image_geometry demo_fat_image_length)
qed

lemma demo_start:
  "disk_addr demo_program \<noteq> 0" "fat16_fs demo_program = 0xB00" "filesystem_objects demo_program (fat16_fs demo_program) = Some fat16_fs_value"
  "6 \<le> length (fsys_name fat16_fs_value)"
  by (simp_all add: demo_program_def fat_machine.extend_def file_machine.fields_def demo_dir_def demo_volume_def
      disk_machine.extend_def fat_machine.fields_def demo_disk_def fat16_fs_value_def)

lemma demo_fat_image_entry: "root_entry demo_fat_image 0 = item_of demo_entry"
proof -
  have "take 32 (drop 1024 demo_fat_image) = demo_entry" by (simp add: demo_fat_image_def demo_entry_def)
  then show ?thesis by (simp add: root_entry_def demo_fat_image_geometry)
qed

theorem storage_mounts_witness:
  "\<exists>st' priv. bindx (fs_init (snd (kheap_init demo_program))) (disk_search_and_init (sim_ports demo_fat_image) 3) = Ret st' \<and>
     fat_mounted st' priv \<and> fd_total (fp_root_directory priv) = 1 \<and>
     dir_entry (pmem st') (fd_item (fp_root_directory priv)) 0 = item_of demo_entry"
proof -
  have "1 < (3 :: nat)" "fat16_fs demo_program \<noteq> 0" by (simp_all add: demo_start)
  from storage_mounts [OF sim_conforms this(1) demo_fat_image_volume this(1) demo_start(1) this(2) demo_start(3,4)]
  obtain st' priv where "bindx (fs_init (snd (kheap_init demo_program))) (disk_search_and_init (sim_ports demo_fat_image) 3) = Ret st'"
    "fat_mounted st' priv" "fd_total (fp_root_directory priv) = int 1"
    "\<forall>i < 1. dir_entry (pmem st') (fd_item (fp_root_directory priv)) i = root_entry demo_fat_image i"
    by blast
  then show ?thesis by (intro exI [of _ st'] exI [of _ priv]) (simp add: demo_fat_image_entry)
qed

text \<open>Everything that \<open>process_load\<close> of a program of the volume needs is there once the volume is mounted.\<close>

lemma storage_ready:
  assumes "ata_conforms io view img W" and "W < fuel" and "fat_volume img t" and "t < fuel" and "disk_addr st \<noteq> 0"
    and "fat16_fs st \<noteq> 0" and "filesystem_objects st (fat16_fs st) = Some fs" and "6 \<le> length (fsys_name fs)"
    and "image_program img t path e"
    and "first_slot 0 (take MAEROS_MAX_PROCESSES (processes st)) = Some 0" and "task_list st []" and nb: "nb = blocks_for (fdi_filesize e)"
  shows "\<exists>A priv s. bindx (fs_init (snd (kheap_init st))) (disk_search_and_init io fuel) = Ret s \<and> kheap_rel s A \<and>
    program_file img s A priv path e \<and> file_bytes img priv e = image_bytes img e \<and> free_entry s 0 \<and>
    (used 0 KBLOCKS A + nb + 15) * max nb 4 + 1100 \<le> KBLOCKS \<and> first_slot 0 (take MAEROS_MAX_PROCESSES (processes s)) = Some 0 \<and>
    task_list s [] \<and> tasks_live A [] \<and> processes s = processes st"
proof -
  let ?nr = "blocks_for (of_nat (root_size img))"
  obtain F b priv s where S: "bindx (fs_init (snd (kheap_init st))) (disk_search_and_init io fuel) = Ret s"
    "mounted img t (fat16_fs st) b priv s" "card F = 4" "b \<notin> F" "kheap_rel s ((grant Map.empty F)(b \<mapsto> ?nr))"
    "file_descriptors s = replicate 512 0" "processes s = processes st" "task_head s = task_head st" "task_tail s = task_tail st" "tasks s = tasks st"
    using storage_run [OF assms(1-8)] by blast
  let ?A = "(grant Map.empty F)(b \<mapsto> ?nr)"
  have nr: "0 < ?nr" "?nr \<le> 512" "32 * t \<le> ?nr * 4096" using root_blocks [OF assms(3)] by simp_all
  have prog: "program_file img s ?A priv path e" "file_bytes img priv e = image_bytes img e"
    using mounted_program [OF S(2) assms(9), of ?A ?nr] nr(3) by simp_all
  have slot: "free_entry s 0" using replicate_Suc [of 511 "0 :: u32"] by (simp add: free_entry_def S(6))
  have "finite F" using S(3) by (simp add: card_ge_0_finite)
  moreover have "used 0 KBLOCKS Map.empty = 0" by (rule used_empty) simp
  ultimately have "used 0 KBLOCKS ?A \<le> 516"
    using used_upd [of 0 KBLOCKS "grant Map.empty F" b ?nr] used_grant [of F 0 KBLOCKS Map.empty] S(3) nr(2) by simp
  then have "(used 0 KBLOCKS ?A + nb + 15) * max nb 4 \<le> (516 + 32 + 15) * 32"
    using blocks_for_cluster(2) [OF prog(1)] nb by (intro mult_le_mono) simp_all
  then have room: "(used 0 KBLOCKS ?A + nb + 15) * max nb 4 + 1100 \<le> KBLOCKS" by simp
  have tl: "task_list s []" "tasks_live ?A []" and fs: "first_slot 0 (take 12 (processes s)) = Some 0"
    using assms(10,11) S(7-10) by (simp_all add: task_list_def tasks_live_def)
  show ?thesis
    using S(1,5,7) prog slot room fs tl by (intro exI [of _ ?A] exI [of _ priv] exI [of _ s]) simp
qed

text \<open>
  C1. From power-on to a program. When the disk holds a FAT16 volume with a raw binary of at most one cluster in the
  root directory, the storage part of \<open>kernel_main\<close> followed by \<open>process_load\<close> returns zero from any state with empty
  process and task lists: the first slot of the table has a process whose task is the only one and starts at the base
  of the program, where user mode reads the bytes that the volume has for the file.
\<close>

theorem storage_boots_program:
  assumes "ata_conforms io view img W" and "W < fuel" and "fat_volume img t" and "t < fuel" and "disk_addr st \<noteq> 0"
    and "fat16_fs st \<noteq> 0" and "filesystem_objects st (fat16_fs st) = Some fs" and "6 \<le> length (fsys_name fs)"
    and "image_program img t path e" and "image_bytes img e ! 0 \<noteq> 0x7F"
    and "first_slot 0 (take MAEROS_MAX_PROCESSES (processes st)) = Some 0" and "task_list st []"
  shows "\<exists>process p u st'. bindx (bindx (fs_init (snd (kheap_init st))) (disk_search_and_init io fuel)) (process_load io fuel path) =
      Ret (0, process, st') \<and> processes st' = (processes st)[0 := process] \<and> procs st' process = Some p \<and> p_id p = 0 \<and>
    tasks st' (p_task p) = Some u \<and> t_process u = process \<and> task_list st' [p_task p] \<and>
    t_registers u = start_registers MAEROS_PROGRAM_VIRTUAL_ADDRESS \<and>
    (\<forall>k < unat (fdi_filesize e). user_byte st' u (MAEROS_PROGRAM_VIRTUAL_ADDRESS + of_nat k) = image_bytes img e ! k)"
proof -
  obtain A priv s where S: "bindx (fs_init (snd (kheap_init st))) (disk_search_and_init io fuel) = Ret s" "kheap_rel s A"
    "program_file img s A priv path e" "file_bytes img priv e = image_bytes img e" "free_entry s 0"
    "(used 0 KBLOCKS A + blocks_for (fdi_filesize e) + 15) * max (blocks_for (fdi_filesize e)) 4 + 1100 \<le> KBLOCKS"
    "first_slot 0 (take 12 (processes s)) = Some 0" "task_list s []" "tasks_live A []" "processes s = processes st"
    using storage_ready [OF assms(1-9,11,12) refl] by blast
  have img: "length img < 2 ^ 31" "0 + KBLOCKS \<le> KBLOCKS" using assms(3) by (simp_all add: fat_volume_def)
  have raw: "file_bytes img priv e ! 0 \<noteq> 0x7F" using assms(10) by (simp add: S(4))
  obtain z A' st' where R: "process_load io fuel path s = Ret (0, kblock z, st')" "loaded img priv path e [] 0 (kblock z) st' A'"
    "processes st' = (processes s)[0 := kblock z]"
    using process_load_run [OF assms(1,2) img(1) S(2,3,5) refl S(6) img(2) raw S(7-9)] by blast
  obtain p u where U: "procs st' (kblock z) = Some p" "p_id p = of_nat 0" "tasks st' (p_task p) = Some u" "t_process u = kblock z"
    "task_list st' ([] @ [p_task p])" "t_registers u = start_registers 0x400000"
    "\<forall>k < unat (fdi_filesize e). user_byte st' u (0x400000 + of_nat k) = image_bytes img e ! k"
    using loaded_user [OF R(2) blocks_for_cluster(1) [OF S(3)]] unfolding S(4) by blast
  show ?thesis using R(1,3) S(1,10) U by (intro exI [of _ "kblock z"] exI [of _ p] exI [of _ u] exI [of _ st']) auto
qed

text \<open>The path is \<open>0:/a.txt\<close>.\<close>

lemma demo_image_program: "image_program demo_fat_image 1 [0x30, 0x3A, 0x2F, 0x61, 0x2E, 0x74, 0x78, 0x74, 0] (item_of demo_entry)"
proof -
  let ?w = "[0x61, 0x2E, 0x74, 0x78, 0x74] :: u8 list" and ?path = "[0x30, 0x3A, 0x2F, 0x61, 0x2E, 0x74, 0x78, 0x74, 0] :: u8 list"
  have "full_name (item_of demo_entry) = [0x41, 0x2E, 0x54, 0x58, 0x54]" by (simp add: full_name_def demo_entry_simps trim_def)
  then have "named (item_of demo_entry) (buffer ?w)" by (simp add: named_def buffer_def cstr_def tolower_def)
  then have "\<forall>i < 1. named (root_entry demo_fat_image i) (buffer ?w) \<longleftrightarrow> i = 0" by (simp add: demo_fat_image_entry)
  moreover have "valid_path ?path" by (simp add: valid_path_def isdigit_def)
  moreover have "components (drop 3 (cstr ?path)) = [?w]" by (simp add: components.simps Let_def)
  moreover have "terminated (buffer ?w)" by (simp add: buffer_def terminated_def)
  moreover have "data_pos demo_fat_image (item_of demo_entry) = 1536" by (simp add: data_pos_def demo_cluster demo_fat_image_geometry)
  ultimately show ?thesis
    unfolding image_program_def by (auto simp: demo_fat_image_entry demo_cluster demo_entry_simps demo_fat_image_geometry demo_fat_image_length
      intro!: exI [of _ ?w] exI [of _ 0])
qed

theorem storage_boots_program_witness:
  "\<exists>process p u st'. bindx (bindx (fs_init (snd (kheap_init demo_program))) (disk_search_and_init (sim_ports demo_fat_image) 3))
       (process_load (sim_ports demo_fat_image) 3 [0x30, 0x3A, 0x2F, 0x61, 0x2E, 0x74, 0x78, 0x74, 0]) = Ret (0, process, st') \<and>
     procs st' process = Some p \<and> tasks st' (p_task p) = Some u \<and> user_byte st' u 0x400000 = 10"
proof -
  have W: "1 < (3 :: nat)" "fat16_fs demo_program \<noteq> 0" by (simp_all add: demo_start)
  have "data_pos demo_fat_image (item_of demo_entry) = 1536" by (simp add: data_pos_def demo_cluster demo_fat_image_geometry)
  moreover have "take 3 (drop 1536 demo_fat_image) = [10, 20, 30]" by (simp add: demo_fat_image_def demo_entry_def)
  ultimately have bytes: "image_bytes demo_fat_image (item_of demo_entry) = [10, 20, 30]" by (simp add: image_bytes_def demo_entry_simps)
  then have raw: "image_bytes demo_fat_image (item_of demo_entry) ! 0 \<noteq> 0x7F" by simp
  have ps: "first_slot 0 (take 12 (processes demo_program)) = Some 0" and tl: "task_list demo_program []"
    using replicate_Suc [of 11 "0 :: u32"] by (simp_all add: demo_program_simps task_list_def last0_def)
  have "\<exists>process p u st'. bindx (bindx (fs_init (snd (kheap_init demo_program))) (disk_search_and_init (sim_ports demo_fat_image) 3))
       (process_load (sim_ports demo_fat_image) 3 [0x30, 0x3A, 0x2F, 0x61, 0x2E, 0x74, 0x78, 0x74, 0]) = Ret (0, process, st') \<and>
     procs st' process = Some p \<and> tasks st' (p_task p) = Some u \<and> (\<forall>k < 3. user_byte st' u (0x400000 + of_nat k) = [10, 20, 30] ! k)"
    using storage_boots_program [OF sim_conforms W(1) demo_fat_image_volume W(1) demo_start(1) W(2) demo_start(3,4) demo_image_program raw ps tl]
    unfolding bytes by (auto simp: demo_entry_simps)
  then show ?thesis by force
qed

end
