(* ===== verification/Load_Elf.thy ===== *)
theory Load_Elf
  imports Mount
begin

text \<open>
  Loading an ELF program, the way \<open>kernel_main\<close> and the shell start programs: \<open>process_load\<close> reads the file, \<open>elf_load\<close>
  accepts it, \<open>process_map_elf\<close> maps the segments its program headers describe, and the task starts at the entry
  point. What the program headers say is read from the bytes of the file.
\<close>

section \<open>Files as images\<close>

text \<open>The bytes of a file as memory from address zero on, and memory that holds them from \<open>h\<close> on.\<close>

definition file_image :: "u8 list \<Rightarrow> mem" where
  "file_image bs = (\<lambda>a. if unat a < length bs then bs ! unat a else 0)"

definition holds_image :: "mem \<Rightarrow> u32 \<Rightarrow> u8 list \<Rightarrow> bool" where
  "holds_image m h bs \<longleftrightarrow> length bs < 2 ^ 31 \<and> (\<forall>a. unat a < length bs \<longrightarrow> m (h + a) = file_image bs a)"

lemma holds_imageI:
  assumes "mem_bytes m h (length bs) = bs" and "length bs < 2 ^ 31"
  shows "holds_image m h bs"
  unfolding holds_image_def
proof (intro conjI allI impI)
  fix a :: u32 assume a: "unat a < length bs"
  have "m (h + of_nat (unat a)) = bs ! unat a" using mem_bytes_nth [OF a, of m h] assms(1) by simp
  then show "m (h + a) = file_image bs a" using a by (simp add: file_image_def)
qed (rule assms(2))

lemma image_loads:
  assumes "holds_image m h bs"
  shows "unat a + 4 \<le> length bs \<Longrightarrow> load32 m (h + a) = load32 (file_image bs) a"
    "unat a + 2 \<le> length bs \<Longrightarrow> load16 m (h + a) = load16 (file_image bs) a"
proof -
  have len: "length bs < 2 ^ 31" and byte: "\<And>k. unat (a + of_nat k) < length bs \<Longrightarrow> m (h + a + of_nat k) = file_image bs (a + of_nat k)"
    using assms by (simp_all add: holds_image_def add.assoc)
  have u: "unat (a + of_nat k) = unat a + k" if "unat a + k < length bs" for k
    using that len by (simp add: unat_word_ariths unat_of_nat)
  show "unat a + 4 \<le> length bs \<Longrightarrow> load32 m (h + a) = load32 (file_image bs) a"
    using byte [of 0] byte [of 1] byte [of 2] byte [of 3] u [of 0] u [of 1] u [of 2] u [of 3] by (simp add: load32_def)
  show "unat a + 2 \<le> length bs \<Longrightarrow> load16 m (h + a) = load16 (file_image bs) a"
    using byte [of 0] byte [of 1] u [of 0] u [of 1] by (simp add: load16_def)
qed

lemma image_header:
  assumes "holds_image m h bs" and "52 \<le> length bs"
  shows "header_at m h = header_at (file_image bs) 0"
proof -
  have "m (h + of_nat i) = file_image bs (of_nat i)" if "i < 16" for i
    using assms that by (simp add: holds_image_def unat_of_nat)
  then have "mem_bytes m h 16 = mem_bytes (file_image bs) 0 16" by (simp add: mem_bytes_def)
  moreover note L = image_loads [OF assms(1)]
  ultimately show ?thesis
    using assms(2) L(2) [of 16] L(2) [of 18] L(1) [of 20] L(1) [of 24] L(1) [of 28] L(1) [of 32] L(1) [of 36] L(2) [of 40] L(2) [of 42]
      L(2) [of 44] L(2) [of 46] L(2) [of 48] L(2) [of 50] by (simp add: header_at_def)
qed

lemma image_validate:
  assumes "holds_image m h bs" and "52 \<le> length bs"
  shows "elf_validate_loaded m h = elf_validate_loaded (file_image bs) 0"
proof -
  have "m (h + of_nat i) = file_image bs (of_nat i)" if "i < 6" for i
    using assms that by (simp add: holds_image_def unat_of_nat)
  from this [of 0] this [of 1] this [of 2] this [of 3] this [of 4] this [of 5] show ?thesis
    using image_loads(1) [OF assms(1), of 28] assms(2) by (simp add: validate_loaded_char)
qed

lemma image_phdr:
  assumes "holds_image m h bs" and "unat a + 32 \<le> length bs"
  shows "phdr_at m (h + a) = phdr_at (file_image bs) a"
proof -
  have len: "length bs < 2 ^ 31" using assms(1) by (simp add: holds_image_def)
  have "load32 m (h + a + of_nat k) = load32 (file_image bs) (a + of_nat k)" if "k \<le> 28" for k
  proof -
    have "unat (a + of_nat k) = unat a + k" using that assms(2) len by (simp add: unat_word_ariths unat_of_nat)
    then show ?thesis using image_loads(1) [OF assms(1), of "a + of_nat k"] that assms(2) by (simp add: add.assoc)
  qed
  from this [of 0] this [of 4] this [of 8] this [of 12] this [of 16] this [of 20] this [of 24] this [of 28]
  show ?thesis by (simp add: phdr_at_def)
qed

section \<open>Segments\<close>

text \<open>The pages a segment occupies, and the flags its pages get.\<close>

definition seg_pages :: "elf32_phdr \<Rightarrow> nat set" where
  "seg_pages s = {unat (p_vaddr s) div 4096..<(unat (p_vaddr s) + unat (p_memsz s) + 4095) div 4096}"

definition seg_flags :: "elf32_phdr \<Rightarrow> int" where
  "seg_flags s = (if p_flags s AND PF_W \<noteq> 0 then 7 else 5)"

text \<open>
  A segment that can be mapped page by page: its address and its place in the file agree within a page, the part that
  is in the file is inside the file, nothing wraps around, and it stays clear of the pages of the stack.
\<close>

definition seg_ok :: "u8 list \<Rightarrow> elf32_phdr \<Rightarrow> bool" where
  "seg_ok bs s \<longleftrightarrow> unat (p_vaddr s) mod 4096 = unat (p_offset s) mod 4096 \<and> p_filesz s \<le> p_memsz s \<and>
     unat (p_offset s) + unat (p_filesz s) \<le> length bs \<and> unat (p_offset s) + unat (p_memsz s) < 2 ^ 31 \<and>
     unat (p_vaddr s) + unat (p_memsz s) < 2 ^ 32 - 4096 \<and> seg_pages s \<inter> {0x3FB..<0x3FF} = {}"

text \<open>The segment of the image at block \<open>x\<close> is mapped in the directory at block \<open>d\<close>.\<close>

definition seg_mapped :: "mem \<Rightarrow> nat \<Rightarrow> nat \<Rightarrow> elf32_phdr \<Rightarrow> bool" where
  "seg_mapped m d x s \<longleftrightarrow> (\<forall>k < unat (p_memsz s). paging_get (kblock d) ((p_vaddr s + of_nat k) AND 0xfffff000) m =
     ((kblock x + p_offset s + of_nat k) AND 0xfffff000) OR word_of_int (seg_flags s))"

lemma lower_page: "paging_align_to_lower_page a = a AND 0xfffff000"
  using page_split(1) by (simp add: paging_align_to_lower_page_def)

lemma align_address_unat:
  assumes "unat a + 4095 < 2 ^ 32"
  shows "unat (paging_align_address a) = (unat a + 4095) div 4096 * 4096"
proof (cases "a mod 4096 = 0")
  case True
  then have "unat a mod 4096 = 0" by (simp add: page_aligned_mod page_aligned_def)
  then obtain q where q: "unat a = q * 4096" by (metis dvdE mod_0_imp_dvd mult.commute)
  then have "(unat a + 4095) div 4096 = q" by simp
  then show ?thesis using True q by (simp add: paging_align_address_def)
next
  case False
  define q r where "q = unat a div 4096" and "r = unat a mod 4096"
  have qr: "unat a = q * 4096 + r" "r < 4096" by (simp_all add: q_def r_def)
  have "0 < r" using False by (auto simp: page_aligned_mod page_aligned_def r_def)
  then have "(unat a + 4095) div 4096 = q + 1" using qr by (intro div_nat_eqI) simp_all
  then have "(unat a + 4095) div 4096 * 4096 = q * 4096 + 4096" by simp
  moreover have "paging_align_address a = (a AND 0xfffff000) + 4096" using False page_split(1) [of a] by (simp add: paging_align_address_def)
  moreover have "unat (a AND 0xfffff000) = q * 4096" by (simp add: unat_page_mask q_def)
  moreover have "q * 4096 + 4096 < 2 ^ 32" using qr assms \<open>0 < r\<close> by simp
  ultimately show ?thesis by (simp add: unat_word_ariths)
qed

lemma seg_page:
  assumes "seg_ok bs s" and "k < unat (p_memsz s)"
  shows "unat ((p_vaddr s + of_nat k) AND 0xfffff000) div 4096 \<in> seg_pages s"
proof -
  have "unat (p_vaddr s + of_nat k) = unat (p_vaddr s) + k" using assms by (simp add: seg_ok_def unat_word_ariths unat_of_nat)
  then have "unat ((p_vaddr s + of_nat k) AND 0xfffff000) div 4096 = (unat (p_vaddr s) + k) div 4096" by (simp add: unat_page_mask)
  moreover have "(unat (p_vaddr s) + k) div 4096 < (unat (p_vaddr s) + unat (p_memsz s) + 4095) div 4096" using assms(2) by simp
  ultimately show ?thesis by (simp add: seg_pages_def div_le_mono)
qed

lemma seg_mapped_keep:
  assumes "seg_mapped m d x s" and "seg_ok bs s"
    and "\<And>w. page_aligned w \<Longrightarrow> unat w div 4096 \<in> seg_pages s \<Longrightarrow> paging_get (kblock d) w m' = paging_get (kblock d) w m"
  shows "seg_mapped m' d x s"
  using assms(1,3) seg_page [OF assms(2)] unfolding seg_mapped_def by simp

lemma segment_run:
  assumes own: "owns_chunk m A c d us" and x: "x < KBLOCKS" and ok: "seg_ok bs s" and fl: "0 \<le> fl" "fl < 4096"
  shows "\<exists>m'. paging_map_to (kblock c) (paging_align_to_lower_page (p_vaddr s)) (paging_align_to_lower_page (kblock x + p_offset s))
      (paging_align_address (kblock x + p_offset s + p_memsz s)) fl m = (0, m') \<and> owns_chunk m' A c d us \<and> same_but (set us) m m' \<and>
    (\<forall>k < unat (p_memsz s). paging_get (kblock d) ((p_vaddr s + of_nat k) AND 0xfffff000) m' =
       ((kblock x + p_offset s + of_nat k) AND 0xfffff000) OR word_of_int fl) \<and>
    (\<forall>w. page_aligned w \<longrightarrow> unat w div 4096 \<notin> seg_pages s \<longrightarrow> paging_get (kblock d) w m' = paging_get (kblock d) w m)"
proof -
  let ?v = "p_vaddr s AND 0xfffff000" and ?P = "kblock x + p_offset s" and ?n = "unat (p_memsz s)"
  let ?p = "?P AND 0xfffff000" and ?e = "paging_align_address (?P + p_memsz s)"
  define r where "r = unat (p_vaddr s) mod 4096"
  have S: "r = unat (p_offset s) mod 4096" "unat (p_offset s) + ?n < 2 ^ 31" "unat (p_vaddr s) + ?n < 2 ^ 32 - 4096"
    using ok by (simp_all add: seg_ok_def r_def)
  have kb: "unat (kblock x) = 0x01000000 + x * 4096" using unat_kblock [of x] x by simp
  have P: "unat ?P = unat (kblock x) + unat (p_offset s)" using kb x S(2) by (simp add: unat_word_ariths)
  have Pn: "unat (?P + p_memsz s) = unat ?P + ?n" using P kb x S(2) by (simp add: unat_word_ariths)
  have r: "unat ?P mod 4096 = r" using mod_mult_self2 [of "unat (p_offset s)" 4096 "4096 + x"] unfolding P kb S(1) by (simp add: algebra_simps)
  define q where "q = unat ?P div 4096"
  have q: "unat ?P = q * 4096 + r" "r < 4096" using r div_mult_mod_eq [of "unat ?P" 4096] by (simp_all add: q_def r_def)
  define g where "g = (r + ?n + 4095) div 4096"
  have e: "unat ?e = q * 4096 + g * 4096"
  proof -
    have "unat ?e = (unat ?P + ?n + 4095) div 4096 * 4096" using Pn P kb x S(2) by (subst align_address_unat) simp_all
    also have "(unat ?P + ?n + 4095) div 4096 = q + g" unfolding q(1) g_def by (simp add: add.assoc)
    finally show ?thesis by (simp add: algebra_simps)
  qed
  have p: "unat ?p = q * 4096" by (simp add: unat_page_mask q_def)
  have le: "?p \<le> ?e" using e p by (simp add: word_le_nat_alt)
  then have d: "unat (?e - ?p) = g * 4096" using e p by (simp add: unat_sub)
  define u where "u = unat (p_vaddr s) div 4096"
  have v: "unat ?v = u * 4096" by (simp add: unat_page_mask u_def)
  have u: "unat (p_vaddr s) = u * 4096 + r" by (simp add: u_def r_def)
  have g: "(unat (p_vaddr s) + ?n + 4095) div 4096 = u + g" unfolding u g_def by (simp add: add.assoc)
  have "g * 4096 \<le> r + ?n + 4095" by (simp add: g_def)
  then have wrap: "unat ?v + unat (?e - ?p) \<le> 2 ^ 32" using S(3) unfolding d v u by simp
  have ea: "page_aligned ?e" using e by (simp add: page_aligned_def mod_simps)
  have dir: "directory_entry m (kblock c) = kblock d" using own by (simp add: owns_chunk_def)
  from map_to_run [OF owns_chunk_wf [OF own] page_aligned_mask page_aligned_mask ea le wrap fl] obtain m' where
    M: "paging_map_to (kblock c) ?v ?p ?e fl m = (0, m')"
    "\<forall>k < g * 4096. paging_get (directory_entry m' (kblock c)) ((?v + of_nat k) AND 0xfffff000) m' = ((?p + of_nat k) AND 0xfffff000) OR word_of_int fl"
    "\<forall>w. page_aligned w \<longrightarrow> \<not> (unat ?v \<le> unat w \<and> unat w < unat ?v + g * 4096) \<longrightarrow>
       paging_get (directory_entry m' (kblock c)) w m' = paging_get (kblock d) w m"
    unfolding d dir by blast
  have O: "owns_chunk m' A c d us" "same_but (set us) m m'" using map_to_owned [OF own, of ?v ?p ?e fl] M(1) by simp_all
  then have dir': "directory_entry m' (kblock c) = kblock d" by (simp add: owns_chunk_def)
  have "paging_get (kblock d) ((p_vaddr s + of_nat k) AND 0xfffff000) m' = ((?P + of_nat k) AND 0xfffff000) OR word_of_int fl"
    if k: "k < ?n" for k
  proof -
    have "r + k < g * 4096" using k unfolding g_def by linarith
    moreover have "p_vaddr s + of_nat k = ?v + of_nat (r + k)" "?P + of_nat k = ?p + of_nat (r + k)"
      using page_split(2) [of "p_vaddr s"] page_split(2) [of ?P] r by (simp_all add: r_def)
    ultimately show ?thesis using M(2) dir' by (simp only:)
  qed
  moreover have "paging_get (kblock d) w m' = paging_get (kblock d) w m" if "page_aligned w" "unat w div 4096 \<notin> seg_pages s" for w
  proof -
    have "\<not> (unat ?v \<le> unat w \<and> unat w < unat ?v + g * 4096)"
      using that(2) unfolding seg_pages_def g v by (auto simp: u_def [symmetric])
    then show ?thesis using M(3) that(1) dir' by simp
  qed
  ultimately show ?thesis using M(1) O unfolding lower_page by blast
qed

section \<open>Programs\<close>

text \<open>The program headers of a file, and the address its program starts at.\<close>

definition elf_segments :: "u8 list \<Rightarrow> elf32_phdr list" where
  "elf_segments bs = pheaders (file_image bs) 0"

definition elf_entry :: "u8 list \<Rightarrow> u32" where
  "elf_entry bs = e_entry (header_at (file_image bs) 0)"

text \<open>
  A file that the loader accepts: its header is valid, the table of program headers is inside the file, and all
  segments, whatever their type, can be mapped and are on pages of their own.
\<close>

definition elf_program :: "u8 list \<Rightarrow> bool" where
  "elf_program bs \<longleftrightarrow> 52 \<le> length bs \<and> length bs < 2 ^ 31 \<and> elf_validate_loaded (file_image bs) 0 = 0 \<and>
     unat (e_phoff (header_at (file_image bs) 0)) + 32 * length (elf_segments bs) \<le> length bs \<and>
     (\<forall>s \<in> set (elf_segments bs). seg_ok bs s) \<and> sorted_wrt (\<lambda>s r. seg_pages s \<inter> seg_pages r = {}) (elf_segments bs)"

lemma segments_length: "length (elf_segments bs) = unat (e_phnum (header_at (file_image bs) 0))"
  by (simp add: elf_segments_def pheaders_def)

lemma program_header:
  assumes "elf_program bs" and "i < length (elf_segments bs)"
  shows "elf_segments bs ! i = phdr_at (file_image bs) (e_phoff (header_at (file_image bs) 0) + 32 * of_nat i)"
    "unat (e_phoff (header_at (file_image bs) 0) + 32 * of_nat i) + 32 \<le> length bs"
proof -
  let ?o = "e_phoff (header_at (file_image bs) 0)"
  have o: "?o \<noteq> 0" using assms(1) by (simp add: elf_program_def elf_validate_loaded_def elf_has_program_header_def split: if_splits)
  then show "elf_segments bs ! i = phdr_at (file_image bs) (?o + 32 * of_nat i)"
    using assms(2) by (simp add: elf_segments_def pheaders_def elf_program_header_def elf_pheader_def)
  have b: "unat ?o + 32 * length (elf_segments bs) \<le> length bs" "length bs < 2 ^ 31" using assms(1) by (simp_all add: elf_program_def)
  then have "unat (?o + of_nat (32 * i)) = unat ?o + 32 * i" using assms(2) by (simp add: unat_word_ariths unat_of_nat del: of_nat_mult)
  then show "unat (?o + 32 * of_nat i) + 32 \<le> length bs" using b assms(2) by simp
qed

text \<open>Page tables outside the blocks of the image leave the image as it is.\<close>

lemma holds_image_same:
  assumes "holds_image m (kblock x) bs" and "same_but S m m'" and "length bs \<le> n * 4096" and "x + n \<le> KBLOCKS"
    and "\<And>b. b \<in> S \<Longrightarrow> b < KBLOCKS \<and> (b < x \<or> x + n \<le> b)"
  shows "holds_image m' (kblock x) bs"
proof -
  have "m' (kblock x + a) = m (kblock x + a)" if a: "unat a < length bs" for a
  proof -
    have "unat (kblock x) = 0x01000000 + x * 4096" using unat_kblock [of x] assms(4) by simp
    then have "unat (kblock x + a) = 0x01000000 + x * 4096 + unat a" using a assms(3,4) by (simp add: unat_word_ariths)
    then have "\<not> in_block b (kblock x + a)" if "b \<in> S" for b using assms(5) [OF that] a assms(3) by (auto simp: in_block_def)
    then show ?thesis using assms(2) by (simp add: same_but_def)
  qed
  then show ?thesis using assms(1) by (simp add: holds_image_def)
qed

lemma map_elf_step:
  assumes "i < int (unat (e_phnum (header_at m (elf_header_of f))))" and "phdr_at m (phdrs + 32 * word_of_int i) = s"
    and "paging_map_to chunk (paging_align_to_lower_page (p_vaddr s)) (paging_align_to_lower_page (elf_phdr_phys_address f s))
      (paging_align_address (elf_phdr_phys_address f s + p_memsz s)) (seg_flags s) m = (0, m1)"
  shows "map_elf_loop (Suc n) i f chunk phdrs res m = map_elf_loop n (i + 1) f chunk phdrs 0 m1"
proof (cases "p_flags s AND PF_W = 0")
  case True
  with assms(1,3) show ?thesis by (simp add: assms(2) seg_flags_def)
next
  case False
  with assms(1,3) show ?thesis by (simp add: assms(2) seg_flags_def)
qed

lemma map_segments_run:
  assumes prog: "elf_program bs" and f: "ef_elf_memory f = kblock x" and x: "x + n \<le> KBLOCKS" "0 < n" "length bs \<le> n * 4096"
    and us: "\<And>b. b \<in> set us \<Longrightarrow> b < KBLOCKS \<and> (b < x \<or> x + n \<le> b)"
  shows "length (elf_segments bs) \<le> i + rounds \<Longrightarrow> i \<le> length (elf_segments bs) \<Longrightarrow> owns_chunk m A c d us \<Longrightarrow> holds_image m (kblock x) bs \<Longrightarrow>
    \<exists>m'. map_elf_loop rounds (int i) f (kblock c) (kblock x + e_phoff (header_at (file_image bs) 0)) 0 m = (0, m') \<and>
      owns_chunk m' A c d us \<and> same_but (set us) m m' \<and> (\<forall>s \<in> set (drop i (elf_segments bs)). seg_mapped m' d x s) \<and>
      (\<forall>w. page_aligned w \<longrightarrow> (\<forall>s \<in> set (drop i (elf_segments bs)). unat w div 4096 \<notin> seg_pages s) \<longrightarrow>
         paging_get (kblock d) w m' = paging_get (kblock d) w m)"
proof (induction rounds arbitrary: i m)
  case 0
  then show ?case by (intro exI [of _ m]) simp
next
  case (Suc rounds)
  let ?S = "elf_segments bs" and ?o = "e_phoff (header_at (file_image bs) 0)"
  have len: "52 \<le> length bs" using prog by (simp add: elf_program_def)
  have num: "unat (e_phnum (header_at m (elf_header_of f))) = length ?S"
    using image_header [OF Suc.prems(4) len] f by (simp add: segments_length elf_header_of_def)
  show ?case
  proof (cases "i < length ?S")
    case False
    then show ?thesis using Suc.prems num by (intro exI [of _ m]) simp
  next
    case True
    let ?s = "?S ! i"
    note P = program_header [OF prog True]
    have hdr: "phdr_at m (kblock x + ?o + 32 * word_of_int (int i)) = ?s"
      using image_phdr [OF Suc.prems(4) P(2)] P(1) by (simp add: add.assoc)
    have ok: "seg_ok bs ?s" "sorted_wrt (\<lambda>s r. seg_pages s \<inter> seg_pages r = {}) (drop i ?S)"
      using prog nth_mem [OF True] by (auto simp: elf_program_def intro: sorted_wrt_drop)
    have D: "drop i ?S = ?s # drop (Suc i) ?S" using True by (rule Cons_nth_drop_Suc [symmetric])
    have fl: "0 \<le> seg_flags ?s" "seg_flags ?s < 4096" by (simp_all add: seg_flags_def)
    have "x < KBLOCKS" using x by simp
    from segment_run [OF Suc.prems(3) this ok(1) fl] obtain m1 where
      M: "paging_map_to (kblock c) (paging_align_to_lower_page (p_vaddr ?s)) (paging_align_to_lower_page (kblock x + p_offset ?s))
        (paging_align_address (kblock x + p_offset ?s + p_memsz ?s)) (seg_flags ?s) m = (0, m1)" "owns_chunk m1 A c d us" "same_but (set us) m m1"
      "seg_mapped m1 d x ?s" "\<forall>w. page_aligned w \<longrightarrow> unat w div 4096 \<notin> seg_pages ?s \<longrightarrow> paging_get (kblock d) w m1 = paging_get (kblock d) w m"
      unfolding seg_mapped_def by blast
    have img: "holds_image m1 (kblock x) bs" by (rule holds_image_same [OF Suc.prems(4) M(3) x(3,1) us])
    have step: "map_elf_loop (Suc rounds) (int i) f (kblock c) (kblock x + ?o) 0 m =
        map_elf_loop rounds (int (Suc i)) f (kblock c) (kblock x + ?o) 0 m1"
      using map_elf_step [OF _ hdr, of f "kblock c" m1 rounds 0] True num M(1) f
      by (simp add: elf_phdr_phys_address_def elf_memory_def add.commute [of _ 1])
    obtain m' where R: "map_elf_loop rounds (int (Suc i)) f (kblock c) (kblock x + ?o) 0 m1 = (0, m')" "owns_chunk m' A c d us"
      "same_but (set us) m1 m'" "\<forall>s \<in> set (drop (Suc i) ?S). seg_mapped m' d x s"
      "\<forall>w. page_aligned w \<longrightarrow> (\<forall>s \<in> set (drop (Suc i) ?S). unat w div 4096 \<notin> seg_pages s) \<longrightarrow> paging_get (kblock d) w m' = paging_get (kblock d) w m1"
      using Suc.IH [of "Suc i" m1] Suc.prems(1) True M(2) img by auto
    have "seg_mapped m' d x ?s"
      by (rule seg_mapped_keep [OF M(4) ok(1)], rule R(5) [rule_format]) (use ok(2) in \<open>auto simp: D\<close>)
    then show ?thesis using step R M(3,5) same_but_trans unfolding D by (intro exI [of _ m']) auto
  qed
qed

section \<open>Mapping\<close>

lemma holds_image_live:
  assumes "holds_image m (kblock x) bs" and "keeps_live A m m'" and "allocs_wf KBLOCKS A" "A x = Some n" "length bs \<le> n * 4096"
  shows "holds_image m' (kblock x) bs"
proof -
  have "m' (kblock x + a) = m (kblock x + a)" if "unat a < length bs" for a
    using keeps_live_bytes [OF assms(2-4), of "unat a" 1] that assms(5) by (simp add: mem_bytes_def)
  then show ?thesis using assms(1) by (simp add: holds_image_def)
qed

lemma maps_elf:
  fixes s0 :: "'a process_machine_scheme"
  assumes prog: "elf_program bs" and p: "p_filetype p = PROCESS_FILETYPE_ELF" "p_ptr p = kblock y" "p_size p = 0"
    and f: "elf_files s0 (kblock y) = Some f" "ef_elf_memory f = kblock x"
    and x: "A x = Some n" "0 < n" "length bs \<le> n * 4096" "holds_image (pmem s0) (kblock x) bs" and y: "y < KBLOCKS" and wf: "allocs_wf KBLOCKS A"
  shows "maps_program A s0 p (\<lambda>d w m. (\<forall>s \<in> set (elf_segments bs). seg_mapped m d x s) \<and> mapped_at m d 0x3FB000 4 w \<and> holds_image m (kblock x) bs)"
  unfolding maps_program_def
proof (intro allI impI, elim conjE)
  fix s :: "'a process_machine_scheme" and B c d us w t and q :: process
  assume rel: "kheap_rel s B" and le: "A \<subseteq>\<^sub>m B" and t: "tasks s (p_task q) = Some t" "t_page_directory t = kblock c"
    and own: "owns_chunk (pmem s) B c d us" and fresh: "\<forall>b \<in> set us. A b = None" and keep: "keeps_live A (pmem s0) (pmem s)"
    and q: "elf_files s = elf_files s0" "p_filetype q = p_filetype p" "p_ptr q = p_ptr p" "p_size q = p_size p" "p_stack q = kblock w" "w + 4 \<le> KBLOCKS"
  let ?S = "elf_segments bs" and ?o = "e_phoff (header_at (file_image bs) 0)"
  have bound: "x + n \<le> KBLOCKS" using allocs_wfD(2) [OF wf x(1)] .
  have us: "b < KBLOCKS \<and> (b < x \<or> x + n \<le> b)" if b: "b \<in> set us" for b
  proof -
    have "B x = A x" using le x(1) unfolding map_le_def by (metis domI)
    then have B: "B b = Some 1" "b < KBLOCKS" "B x = Some n" "b \<noteq> x" using own b x(1) fresh by (auto simp: owns_chunk_def)
    note W = kheap_rel_wf [OF rel]
    show ?thesis using allocs_wfD(3) [OF W B(1) B(3)] allocs_wfD(3) [OF W B(3) B(1)] B(2,4) by linarith
  qed
  have img: "holds_image (pmem s) (kblock x) bs" by (rule holds_image_live [OF x(4) keep wf x(1,3)])
  have "page_aligned (kblock y)" using y unat_kblock [of y] by (simp add: page_aligned_def)
  then have al: "paging_align_address (kblock y) = kblock y" by (simp add: paging_align_address_def page_aligned_mod)
  have al': "paging_align_address (kblock w + 16384) = kblock (w + 4)" using align_address_block [of w 16384] q(6) by (simp add: blocks_for_ceil)
  obtain m1 where M1: "paging_map_to (kblock c) 0x400000 (kblock y) (kblock y) 7 (pmem s) = (0, m1)" "owns_chunk m1 B c d us" "same_but (set us) (pmem s) m1"
    using map_pages_run [OF own, of y 0 "0x400000"] y by (auto simp: page_aligned_def)
  have img1: "holds_image m1 (kblock x) bs" by (rule holds_image_same [OF img M1(3) x(3) bound us])
  have "unat (e_phnum (header_at (file_image bs) 0)) < 2 ^ LENGTH(16)" by (rule unsigned_less)
  then have "length ?S \<le> 65536" by (simp add: segments_length)
  then obtain m2 where M2: "map_elf_loop 65536 0 f (kblock c) (kblock x + ?o) 0 m1 = (0, m2)" "owns_chunk m2 B c d us" "same_but (set us) m1 m2"
    "\<forall>s \<in> set ?S. seg_mapped m2 d x s"
    using map_segments_run [OF prog f(2) bound x(2,3) us _ _ M1(2) img1, of 0 65536] by auto
  obtain m3 where M3: "paging_map_to (kblock c) 0x3FB000 (kblock w) (kblock (w + 4)) 7 m2 = (0, m3)" "owns_chunk m3 B c d us"
    "same_but (set us) m2 m3" "mapped_at m3 d 0x3FB000 4 w"
    "\<forall>z. page_aligned z \<longrightarrow> \<not> (unat (0x3FB000 :: u32) \<le> unat z \<and> unat z < unat (0x3FB000 :: u32) + 4 * 4096) \<longrightarrow>
       paging_get (kblock d) z m3 = paging_get (kblock d) z m2"
    using map_pages_run [OF M2(2) q(6), of "0x3FB000"] unfolding mapped_at_def by (auto simp: page_aligned_def)
  have segs: "seg_mapped m3 d x g" if g: "g \<in> set ?S" for g
  proof (rule seg_mapped_keep)
    show ok: "seg_ok bs g" using prog g by (simp add: elf_program_def)
    show "seg_mapped m2 d x g" using M2(4) g by blast
    fix z :: u32 assume z: "page_aligned z" "unat z div 4096 \<in> seg_pages g"
    then have "unat z div 4096 \<notin> {0x3FB..<0x3FF}" using ok unfolding seg_ok_def by blast
    then have "\<not> (unat (0x3FB000 :: u32) \<le> unat z \<and> unat z < unat (0x3FB000 :: u32) + 4 * 4096)" by auto
    then show "paging_get (kblock d) z m3 = paging_get (kblock d) z m2" using M3(5) z(1) by blast
  qed
  have same: "same_but (set us) (pmem s) m3" using M1(3) M2(3) M3(3) same_but_trans by blast
  have img3: "holds_image m3 (kblock x) bs" by (rule holds_image_same [OF img same x(3) bound us])
  have "elf_pheader m1 (kblock x) = kblock x + ?o"
    using image_header [OF img1] prog
    by (auto simp: elf_pheader_def elf_program_def elf_validate_loaded_def elf_has_program_header_def split: if_splits)
  then have "process_map_memory q s = Ret (0, s\<lparr>pmem := m3\<rparr>)"
    using t q p f al al' M1(1) M2(1) M3(1)
    by (simp add: process_map_memory_def process_map_binary_def process_map_elf_def derefx_def elf_header_of_def)
  with M3(2,4) segs same img3 show "\<exists>m. process_map_memory q s = Ret (0, s\<lparr>pmem := m\<rparr>) \<and> owns_chunk m B c d us \<and> same_but (set us) (pmem s) m \<and>
      (\<forall>s \<in> set ?S. seg_mapped m d x s) \<and> mapped_at m d 0x3FB000 4 w \<and> holds_image m (kblock x) bs" by blast
qed

section \<open>Loading\<close>

text \<open>Reading the file: the structure of the loader is at block \<open>y\<close>, the bytes of the file are at block \<open>x\<close>.\<close>

lemma load_data_elf_run:
  assumes conf: "ata_conforms io view img W" "W < fuel" "length img < 2 ^ 31"
    and rel: "kheap_rel st A" and prog: "program_file img st A priv path e" and slot: "free_entry st i"
    and room: "(used L K A + 9) * nb \<le> K" "L + K \<le> KBLOCKS" and nb: "nb = blocks_for (fdi_filesize e)" "0 < nb"
    and elf: "elf_program (file_bytes img priv e)" and p: "procs st process = Some p"
  shows "\<exists>A1 x y f s1. process_load_data io fuel path process st = Ret (0, s1) \<and> kheap_rel s1 A1 \<and> A \<subseteq>\<^sub>m A1 \<and> A1 x = Some nb \<and>
    A1 y \<noteq> None \<and> y < KBLOCKS \<and> used L K A1 \<le> used L K A + nb + 4 \<and> keeps_live A (pmem st) (pmem s1) \<and>
    holds_image (pmem s1) (kblock x) (file_bytes img priv e) \<and> ef_elf_memory f = kblock x \<and>
    file_descriptors s1 = file_descriptors st \<and> fat_mounted s1 priv \<and>
    file_frame (st\<lparr>elf_files := (elf_files st)(kblock y \<mapsto> f),
      procs := (procs st)(process \<mapsto> p\<lparr>p_filetype := PROCESS_FILETYPE_ELF, p_ptr := kblock y\<rparr>)\<rparr>) s1"
proof -
  let ?n = "unat (fdi_filesize e)" and ?bs = "file_bytes img priv e"
  obtain P x y m f' res s1 where E: "elf_load io fuel path st = Ret (res, if res < 0 then 0 else kblock y, s1)"
    "elf_process_loaded m (zero_elf_file\<lparr>ef_elf_memory := kblock x\<rparr>) = (res, f')" "mem_bytes m (kblock x) ?n = ?bs"
    "card P = 3" "y \<notin> P" "x \<notin> insert y P" "y < KBLOCKS" "\<forall>z \<in> insert x (insert y P). A z = None"
    "kheap_rel s1 (grant A (insert y P) ++ [x \<mapsto> nb])" "keeps_live A (pmem st) (pmem s1)"
    "keeps_live (grant A (insert y P) ++ [x \<mapsto> nb]) m (pmem s1)"
    "file_frame (st\<lparr>elf_files := (elf_files st)(kblock y \<mapsto> f')\<rparr>) s1" "file_descriptors s1 = file_descriptors st" "fat_mounted s1 priv"
    using elf_load_run [OF conf rel prog slot room nb] by blast
  let ?B = "grant A (insert y P) ++ [x \<mapsto> nb]" and ?F = "zero_elf_file\<lparr>ef_elf_memory := kblock x\<rparr>"
  have bs: "length ?bs = ?n" "52 \<le> length ?bs" "length ?bs < 2 ^ 31" "elf_validate_loaded (file_image ?bs) 0 = 0"
    using file_bytes_length [OF prog] elf by (simp_all add: elf_program_def)
  have img: "holds_image m (kblock x) ?bs" using E(3) bs(1,3) by (intro holds_imageI) simp_all
  have "elf_process_loaded m ?F = (0, load_all (loadable (pheaders m (kblock x))) ?F)"
    using image_validate [OF img bs(2)] bs(4) by (simp add: elf_process_loaded_def elf_header_of_def process_pheaders_run)
  then have f: "res = 0" "ef_elf_memory f' = kblock x" using E(2) by auto
  have x: "?B x = Some nb" "?B y \<noteq> None" using E(6) by (simp_all add: grant_def)
  have "length ?bs \<le> nb * 4096" using blocks_for_bytes nb bs(1) by simp
  then have img1: "holds_image (pmem s1) (kblock x) ?bs" by (rule holds_image_live [OF img E(11) kheap_rel_wf [OF E(9)] x(1)])
  have fin: "finite P" using E(4) by (simp add: card_ge_0_finite)
  have u: "used L K ?B \<le> used L K A + nb + 4"
    using used_grant [of "insert y P" L K A] used_upd [of L K "grant A (insert y P)" x nb] fin E(4,5) by simp
  let ?ps = "(procs st)(process \<mapsto> p\<lparr>p_filetype := PROCESS_FILETYPE_ELF, p_ptr := kblock y\<rparr>)"
  have ps: "procs s1 = procs st" using file_frame_fields(1) [OF E(12)] by simp
  have run: "process_load_data io fuel path process st = Ret (0, s1\<lparr>procs := ?ps\<rparr>)"
    using E(1) f(1) p ps by (simp add: process_load_data_def process_load_elf_def derefx_def)
  have frame: "file_frame (st\<lparr>elf_files := (elf_files st)(kblock y \<mapsto> f'), procs := ?ps\<rparr>) (s1\<lparr>procs := ?ps\<rparr>)"
    using file_frame_procs [OF E(12), of ?ps] by simp
  have le: "A \<subseteq>\<^sub>m ?B" using E(8) by (intro map_le_loaded) simp_all
  show ?thesis
    using run frame E(7,9,10,13,14) le x u img1 f(2)
    by (intro exI [of _ ?B] exI [of _ x] exI [of _ y] exI [of _ f'] exI [of _ "s1\<lparr>procs := ?ps\<rparr>"]) (simp add: kheap_rel_def fat_mounted_def)
qed

text \<open>What a process that has been loaded from an ELF file with the bytes \<open>bs\<close> looks like.\<close>

definition loaded_elf ::
  "u8 list \<Rightarrow> u8 list \<Rightarrow> u32 list \<Rightarrow> nat \<Rightarrow> u32 \<Rightarrow> 'a process_machine_scheme \<Rightarrow> allocs \<Rightarrow> bool" where
  "loaded_elf bs path ts slot process st A \<longleftrightarrow> (\<exists>x y. x < KBLOCKS \<and> started PROCESS_FILETYPE_ELF (elf_entry bs) path ts slot process y
     (\<lambda>d w m. (\<forall>s \<in> set (elf_segments bs). seg_mapped m d x s) \<and> mapped_at m d 0x3FB000 4 w \<and> holds_image m (kblock x) bs) st A)"

lemma load_parts_elf_run:
  assumes conf: "ata_conforms io view img W" "W < fuel" "length img < 2 ^ 31"
    and rel: "kheap_rel st A" and prog: "program_file img st A priv path e" and slot: "free_entry st i"
    and room: "(used L K A + nb + 12) * max nb 4 + 1100 \<le> K" "L + K \<le> KBLOCKS" and nb: "nb = blocks_for (fdi_filesize e)" "0 < nb"
    and elf: "elf_program (file_bytes img priv e)" and p: "procs st process = Some zero_process"
    and tl: "task_list st ts" "tasks_live A ts"
  shows "\<exists>A' st'. process_load_parts io fuel path process slot st = Ret (0, process, st') \<and>
    loaded_elf (file_bytes img priv e) path ts slot process st' A' \<and> beside L K (nb + 4 + 1031) A st ts process st' A' \<and> fat_mounted st' priv \<and>
    processes st' = (processes st)[slot := process]"
proof -
  let ?bs = "file_bytes img priv e"
  have "(used L K A + 9) * nb \<le> (used L K A + nb + 12) * max nb 4" "(used L K A + nb + 12) * 4 \<le> (used L K A + nb + 12) * max nb 4"
    by (rule mult_le_mono, simp, simp)+
  then have room1: "(used L K A + 9) * nb \<le> K" and big: "(used L K A + nb + 12) * 4 + 1100 \<le> K" using room(1) by linarith+
  obtain A1 x y f s1 where D: "process_load_data io fuel path process st = Ret (0, s1)" "kheap_rel s1 A1" "A \<subseteq>\<^sub>m A1" "A1 x = Some nb"
    "A1 y \<noteq> None" "y < KBLOCKS" "used L K A1 \<le> used L K A + nb + 4" "keeps_live A (pmem st) (pmem s1)"
    "holds_image (pmem s1) (kblock x) ?bs" "ef_elf_memory f = kblock x"
    "file_frame (st\<lparr>elf_files := (elf_files st)(kblock y \<mapsto> f),
      procs := (procs st)(process \<mapsto> zero_process\<lparr>p_filetype := PROCESS_FILETYPE_ELF, p_ptr := kblock y\<rparr>)\<rparr>) s1"
    "file_descriptors s1 = file_descriptors st" "fat_mounted s1 priv"
    using load_data_elf_run [OF conf rel prog slot room1 room(2) nb elf p] by blast
  let ?p = "zero_process\<lparr>p_filetype := PROCESS_FILETYPE_ELF, p_ptr := kblock y\<rparr>"
  let ?Q = "\<lambda>d w m. (\<forall>s \<in> set (elf_segments ?bs). seg_mapped m d x s) \<and> mapped_at m d 0x3FB000 4 w \<and> holds_image m (kblock x) ?bs"
  note wf = kheap_rel_wf [OF D(2)]
  have len: "length ?bs \<le> nb * 4096" "52 \<le> length ?bs" using blocks_for_bytes nb file_bytes_length [OF prog] elf by (simp_all add: elf_program_def)
  have es: "elf_files s1 (kblock y) = Some f" using file_frame_fields(6) [OF D(11)] by simp
  have maps: "maps_program A1 s1 ?p ?Q"
    using maps_elf [OF elf _ _ _ es D(10,4) nb(2) len(1) D(9,6) wf, of ?p] by (simp add: zero_process_def)
  have used: "(used L K A1 + 1) * 4 \<le> K" "used L K A1 + 1031 \<le> K" using D(7) big by simp_all
  have path: "terminated path" using prog by (simp add: program_file_def valid_path_def)
  have ip: "start_ip s ?p = elf_entry ?bs"
    if "keeps_live A1 (pmem s1) (pmem s)" "elf_files s = (elf_files st)(kblock y \<mapsto> f)" for s :: "('a, 'b) file_machine_scheme"
    using image_header [OF holds_image_live [OF D(9) that(1) wf D(4) len(1)] len(2)] that(2) D(10)
    by (simp add: start_ip_def elf_entry_def elf_header_of_def)
  have u: "used L K A1 \<le> used L K A + (nb + 4)" using D(7) by simp
  have pf: "p_ptr ?p = kblock y" "p_filename ?p = replicate 108 0" "p_allocations ?p = replicate 1024 \<lparr>pa_ptr = 0, pa_size = 0\<rparr>"
    "((elf_files st)(kblock y \<mapsto> f)) (p_ptr ?p) \<noteq> None" by (simp_all add: zero_process_def)
  obtain A' st' where R: "process_load_parts io fuel path process slot st = Ret (0, process, st')"
    "started (p_filetype ?p) (elf_entry ?bs) path ts slot process y ?Q st' A'" "beside L K (nb + 4 + 1031) A st ts process st' A'" "fat_mounted st' priv"
    "processes st' = (processes st)[slot := process]"
    using parts_run [OF D(1-3,5) u D(12,13,8,11) pf maps ip used room(2) path tl, of slot] by blast
  then have "loaded_elf ?bs path ts slot process st' A'" using allocs_wfD(1,2) [OF wf D(4)] unfolding loaded_elf_def
    by (intro exI [of _ x] exI [of _ y]) simp
  with R show ?thesis by blast
qed

lemma process_load_elf_run:
  assumes conf: "ata_conforms io view img W" "W < fuel" "length img < 2 ^ 31"
    and rel: "kheap_rel st A" and prog: "program_file img st A priv path e" and slot: "free_entry st i"
    and nb: "nb = blocks_for (fdi_filesize e)" and room: "(used L K A + nb + 15) * max nb 4 + 1100 \<le> K" "L + K \<le> KBLOCKS"
    and elf: "elf_program (file_bytes img priv e)" and j: "first_slot 0 (take 12 (processes st)) = Some j"
    and tl: "task_list st ts" "tasks_live A ts"
  shows "\<exists>z A' st'. process_load io fuel path st = Ret (0, kblock z, st') \<and> loaded_elf (file_bytes img priv e) path ts j (kblock z) st' A' \<and>
    A z = None \<and> z < KBLOCKS \<and> A' z = Some 3 \<and> beside L K (nb + 4 + 1031 + 3) A st ts (kblock z) st' A' \<and> fat_mounted st' priv \<and>
    processes st' = (processes st)[j := kblock z]"
proof -
  have nb0: "0 < nb" using blocks_for_cluster [OF prog] by (simp add: nb)
  show ?thesis
    using slot_run [OF rel prog slot room_slot(1) [OF room(1) nb0] room(2) j tl, of io fuel "loaded_elf (file_bytes img priv e) path ts j" "nb + 4 + 1031"]
      load_parts_elf_run [OF conf _ _ _ room_slot(2) [OF room(1) nb0] room(2) nb nb0 elf, where slot = j] by blast
qed

section \<open>Properties\<close>

text \<open>Whether user mode may read the page of \<open>v\<close>.\<close>

definition user_readable :: "'a task_machine_scheme \<Rightarrow> task \<Rightarrow> u32 \<Rightarrow> bool" where
  "user_readable st t v \<longleftrightarrow> page_allows 5 st t v"

text \<open>The segment \<open>s\<close> of the file \<open>bs\<close> as the task \<open>t\<close> sees it.\<close>

definition seg_seen :: "u8 list \<Rightarrow> 'a task_machine_scheme \<Rightarrow> task \<Rightarrow> elf32_phdr \<Rightarrow> bool" where
  "seg_seen bs st t s \<longleftrightarrow>
     (\<forall>k < unat (p_filesz s). user_byte st t (p_vaddr s + of_nat k) = bs ! (unat (p_offset s) + k)) \<and>
     (\<forall>k < unat (p_memsz s). user_readable st t (p_vaddr s + of_nat k) \<and>
        (user_writable st t (p_vaddr s + of_nat k) \<longleftrightarrow> p_flags s AND PF_W \<noteq> 0))"

lemma page_flags:
  assumes "page_aligned a"
  shows "(a OR 7) AND 5 = 5" "(a OR 7) AND 7 = 7" "(a OR 5) AND 5 = 5" "(a OR 5) AND 7 \<noteq> 7"
proof -
  have "a = a AND 0xfffff000" using mask_page_aligned [OF assms] by simp
  then have "a AND 7 = (a AND 0xfffff000) AND 7" "a AND 5 = (a AND 0xfffff000) AND 5" by simp_all
  then have "a AND 7 = 0" "a AND 5 = 0" by (simp_all add: and.assoc)
  then show "(a OR 7) AND 5 = 5" "(a OR 7) AND 7 = 7" "(a OR 5) AND 5 = 5" "(a OR 5) AND 7 \<noteq> 7"
    by (simp_all add: bit.conj_disj_distrib2)
qed

lemma seg_mapped_seen:
  assumes m: "seg_mapped (pmem st) d x s" and ok: "seg_ok bs s" and img: "holds_image (pmem st) (kblock x) bs" and x: "x < KBLOCKS"
    and dir: "directory_entry (pmem st) (t_page_directory t) = kblock d" "dir_open (pmem st) d"
  shows "seg_seen bs st t s"
proof -
  have S: "unat (p_vaddr s) mod 4096 = unat (p_offset s) mod 4096" "unat (p_offset s) + unat (p_memsz s) < 2 ^ 31"
    "unat (p_vaddr s) + unat (p_memsz s) < 2 ^ 32 - 4096" "unat (p_filesz s) \<le> unat (p_memsz s)" "unat (p_offset s) + unat (p_filesz s) \<le> length bs"
    using ok by (simp_all add: seg_ok_def word_le_nat_alt)
  have get: "paging_get (kblock d) ((p_vaddr s + of_nat k) AND 0xfffff000) (pmem st) =
      ((kblock x + p_offset s + of_nat k) AND 0xfffff000) OR word_of_int (seg_flags s)" if "k < unat (p_memsz s)" for k
    using m that by (simp add: seg_mapped_def)
  have off: "unat (p_offset s + of_nat k) = unat (p_offset s) + k" "unat (kblock x + p_offset s + of_nat k) mod 4096 = unat (p_vaddr s + of_nat k) mod 4096"
    if "k < unat (p_memsz s)" for k
  proof -
    show o: "unat (p_offset s + of_nat k) = unat (p_offset s) + k" using that S(2) by (simp add: unat_word_ariths unat_of_nat)
    have "unat (kblock x + (p_offset s + of_nat k)) = 0x01000000 + x * 4096 + (unat (p_offset s) + k)"
      using unat_kblock [of x] x that S(2) o by (subst unat_word_ariths) simp
    then have "unat (kblock x + p_offset s + of_nat k) mod 4096 = (unat (p_offset s) + k + (4096 + x) * 4096) mod 4096"
      by (simp add: add.assoc algebra_simps)
    also have "\<dots> = (unat (p_vaddr s) + k) mod 4096" unfolding mod_mult_self1 by (rule mod_add_cong [OF S(1) refl, symmetric])
    also have "unat (p_vaddr s) + k = unat (p_vaddr s + of_nat k)" using that S(3) by (simp add: unat_word_ariths unat_of_nat)
    finally show "unat (kblock x + p_offset s + of_nat k) mod 4096 = unat (p_vaddr s + of_nat k) mod 4096" .
  qed
  have fl: "(word_of_int (seg_flags s) :: u32) AND 0xfffff000 = 0" by (simp add: seg_flags_def)
  have phys: "paging_get_physical_address (kblock d) (p_vaddr s + of_nat k) (pmem st) = kblock x + p_offset s + of_nat k"
    if "k < unat (p_memsz s)" for k
    using page_split(2) [of "kblock x + p_offset s + of_nat k"] page_split(2) [of "p_vaddr s + of_nat k"] off(2) [OF that]
    unfolding physical_get get [OF that] or_flags_mask [OF page_aligned_mask fl] by (metis add_diff_cancel_left')
  have "user_byte st t (p_vaddr s + of_nat k) = bs ! (unat (p_offset s) + k)" if "k < unat (p_filesz s)" for k
    using that S(4,5) phys [of k] off(1) [of k] img unfolding user_byte_def dir(1)
    by (simp add: holds_image_def file_image_def add.assoc)
  moreover have "user_readable st t (p_vaddr s + of_nat k)" "user_writable st t (p_vaddr s + of_nat k) \<longleftrightarrow> p_flags s AND PF_W \<noteq> 0"
    if "k < unat (p_memsz s)" for k
    using page_flags [OF page_aligned_mask, of "kblock x + p_offset s + of_nat k"]
    unfolding user_readable_def user_writable_def page_allows_def Let_def dir(1) get [OF that] seg_flags_def
    by (simp_all add: dir_open_entry [OF dir(2)])
  ultimately show ?thesis by (simp add: seg_seen_def)
qed

lemma loaded_elf_user:
  assumes "loaded_elf bs path ts j process st' A'" and "elf_program bs"
  shows "\<exists>p t. procs st' process = Some p \<and> p_id p = of_nat j \<and> p_filetype p = PROCESS_FILETYPE_ELF \<and>
    cstr (p_filename p) = take 107 (cstr path) \<and> tasks st' (p_task p) = Some t \<and> t_process t = process \<and>
    task_list st' (ts @ [p_task p]) \<and> t_registers t = start_registers (elf_entry bs) \<and>
    (\<forall>s \<in> set (elf_segments bs). seg_seen bs st' t s) \<and>
    (\<forall>k < MAEROS_USER_PROGRAM_STACK_SIZE. user_writable st' t (MAEROS_PROGRAM_VIRTUAL_STACK_ADDRESS_END + of_nat k))"
proof -
  from assms(1) obtain p t c d us b x y w where P: "x < KBLOCKS" "running st' A' process p t c d us ts b y w" "p_id p = of_nat j"
    "p_filetype p = PROCESS_FILETYPE_ELF" "cstr (p_filename p) = take 107 (cstr path)" "t_process t = process"
    "t_registers t = start_registers (elf_entry bs)" "\<forall>s \<in> set (elf_segments bs). seg_mapped (pmem st') d x s"
    "mapped_at (pmem st') d 0x3FB000 4 w" "holds_image (pmem st') (kblock x) bs" "dir_open (pmem st') d"
    unfolding loaded_elf_def started_def by blast
  have Q: "procs st' process = Some p" "tasks st' (p_task p) = Some t" "task_list st' (ts @ [p_task p])"
    "directory_entry (pmem st') (t_page_directory t) = kblock d"
    using P(2) unfolding running_def proc_ok_def owns_chunk_def by auto
  have "seg_seen bs st' t s" if "s \<in> set (elf_segments bs)" for s
    using seg_mapped_seen [OF _ _ P(10,1) Q(4) P(11), of s] P(8) that assms(2) by (simp add: elf_program_def)
  moreover have "user_writable st' t (0x3FB000 + of_nat k)" if "k < 16384" for k
    using mapped_at_user(2) [OF P(9) Q(4) _ P(11), of k] that by simp
  ultimately show ?thesis using P(3-7) Q(1-3) by auto
qed

text \<open>
  C3. Loading an ELF program. For a path that names an ELF file of at most one cluster in the root directory of the
  mounted volume, whose header is valid and whose segments are inside the file, on pages of their own and clear of the
  stack, with a free slot in the process table, a free descriptor and enough memory, \<open>process_load\<close> returns zero and a new process in the first free slot. Its
  task is the last of the task list and starts at the entry point of the file in user mode. At the address of every
  segment user mode reads the bytes the file has for it; it may write the segment exactly if its header says so; the
  16 kilobytes of the stack are writable; and the contents of all memory that was allocated before are unchanged.
\<close>

theorem process_load_elf_program:
  assumes "ata_conforms io view img W" and "W < fuel" and "length img < 2 ^ 31"
    and "kheap_rel st A" and "program_file img st A priv path e" and "free_entry st i" and "nb = blocks_for (fdi_filesize e)"
    and "(used L K A + nb + 15) * max nb 4 + 1100 \<le> K" and "L + K \<le> KBLOCKS"
    and "elf_program (file_bytes img priv e)" and "first_slot 0 (take MAEROS_MAX_PROCESSES (processes st)) = Some j"
    and "task_list st ts" and "tasks_live A ts"
  shows "\<exists>process p t st'. process_load io fuel path st = Ret (0, process, st') \<and>
    processes st' = (processes st)[j := process] \<and> procs st' process = Some p \<and> p_id p = of_nat j \<and>
    p_filetype p = PROCESS_FILETYPE_ELF \<and> cstr (p_filename p) = take 107 (cstr path) \<and>
    tasks st' (p_task p) = Some t \<and> t_process t = process \<and> task_list st' (ts @ [p_task p]) \<and>
    t_registers t = start_registers (elf_entry (file_bytes img priv e)) \<and>
    (\<forall>s \<in> set (elf_segments (file_bytes img priv e)). seg_seen (file_bytes img priv e) st' t s) \<and>
    (\<forall>k < MAEROS_USER_PROGRAM_STACK_SIZE. user_writable st' t (MAEROS_PROGRAM_VIRTUAL_STACK_ADDRESS_END + of_nat k)) \<and>
    keeps_live A (pmem st) (pmem st')"
proof -
  obtain z A' st' where R: "process_load io fuel path st = Ret (0, kblock z, st')"
    "loaded_elf (file_bytes img priv e) path ts j (kblock z) st' A'"
    "keeps_live A (pmem st) (pmem st')" "processes st' = (processes st)[j := kblock z]"
    using process_load_elf_run [OF assms] by (auto simp: beside_def)
  show ?thesis using R(1,3,4) loaded_elf_user [OF R(2) assms(10)] by auto
qed

section \<open>Example\<close>

text \<open>An ELF file of 88 bytes with one read-only segment, which is the whole file; the code is its last four bytes.\<close>

definition demo_elf_bytes :: "u8 list" where
  "demo_elf_bytes =
     [0x7F, 0x45, 0x4C, 0x46, 1, 1, 1, 0, 0, 0, 0, 0, 0, 0, 0, 0,
      2, 0, 3, 0, 1, 0, 0, 0, 0x54, 0, 0x40, 0, 52, 0, 0, 0,
      0, 0, 0, 0, 0, 0, 0, 0, 52, 0, 32, 0, 1, 0, 0, 0,
      0, 0, 0, 0,
      1, 0, 0, 0, 0, 0, 0, 0, 0, 0, 0x40, 0, 0, 0, 0, 0,
      88, 0, 0, 0, 88, 0, 0, 0, 5, 0, 0, 0, 0, 0x10, 0, 0,
      0x90, 0x90, 0xEB, 0xFE]"

lemma demo_elf_load:
  "load32 (file_image demo_elf_bytes) 28 = 52" "load16 (file_image demo_elf_bytes) 44 = 1" "load32 (file_image demo_elf_bytes) 24 = 0x400054"
  "phdr_at (file_image demo_elf_bytes) 52 = \<lparr>p_type = 1, p_offset = 0, p_vaddr = 0x400000, p_paddr = 0, p_filesz = 88, p_memsz = 88, p_flags = 5, p_align = 0x1000\<rparr>"
  by (simp_all add: phdr_at_def load32_def load16_def file_image_def demo_elf_bytes_def)

lemma demo_elf_segments:
  "elf_segments demo_elf_bytes = [\<lparr>p_type = 1, p_offset = 0, p_vaddr = 0x400000, p_paddr = 0, p_filesz = 88, p_memsz = 88, p_flags = 5, p_align = 0x1000\<rparr>]"
  "elf_entry demo_elf_bytes = 0x400054"
  by (simp_all add: elf_segments_def elf_entry_def pheaders_def header_at_def elf_program_header_def elf_pheader_def demo_elf_load)

lemma demo_elf_program: "elf_program demo_elf_bytes"
proof -
  have "elf_validate_loaded (file_image demo_elf_bytes) 0 = 0"
    by (simp add: validate_loaded_char demo_elf_load) (simp add: file_image_def demo_elf_bytes_def)
  moreover have "length demo_elf_bytes = 88" by (simp add: demo_elf_bytes_def)
  ultimately show ?thesis
    by (simp add: elf_program_def demo_elf_segments seg_ok_def seg_pages_def header_at_def demo_elf_load)
qed

text \<open>A disk with the files \<open>blank.elf\<close> and \<open>shell.elf\<close>, of one cluster each.\<close>

definition demo_elf_entry :: "u8 list \<Rightarrow> u8 \<Rightarrow> u8 list" where
  "demo_elf_entry name cluster = name @ replicate 3 0x20 @ [0x45, 0x4C, 0x46, 0x20] @ replicate 14 0 @ [cluster, 0, 88, 0, 0, 0]"

definition demo_elf_image :: "u8 list" where
  "demo_elf_image = (replicate 1024 0)[13 := 1, 14 := 1, 16 := 1, 17 := 16, 22 := 1, 38 := 0x29] @
     demo_elf_entry [0x42, 0x4C, 0x41, 0x4E, 0x4B] 2 @ demo_elf_entry [0x53, 0x48, 0x45, 0x4C, 0x4C] 3 @ replicate 448 0 @
     demo_elf_bytes @ replicate 424 0 @ demo_elf_bytes @ replicate 424 0"

definition demo_blank :: "u8 list" where
  "demo_blank = [0x30, 0x3A, 0x2F, 0x62, 0x6C, 0x61, 0x6E, 0x6B, 0x2E, 0x65, 0x6C, 0x66, 0]"

definition demo_shell :: "u8 list" where
  "demo_shell = [0x30, 0x3A, 0x2F, 0x73, 0x68, 0x65, 0x6C, 0x6C, 0x2E, 0x65, 0x6C, 0x66, 0]"

lemma demo_elf_image_header:
  "primary_header (volume demo_elf_image) = primary_header (volume ((replicate 62 0)[13 := 1, 14 := 1, 16 := 1, 17 := 16, 22 := 1, 38 := 0x29]))"
  "extended_header (volume demo_elf_image) = extended_header (volume ((replicate 62 0)[13 := 1, 14 := 1, 16 := 1, 17 := 16, 22 := 1, 38 := 0x29]))"
  by (simp_all add: volume_def demo_elf_image_def take_update_swap primary_header_def extended_header_def)

lemma demo_elf_image_geometry:
  "root_sector demo_elf_image = 2" "root_size demo_elf_image = 512" "sectors_per_cluster (primary_header (volume demo_elf_image)) = 1"
  "signature (extended_header (volume demo_elf_image)) = 0x29"
  unfolding root_sector_def root_size_def demo_elf_image_header
  by (simp_all add: volume_def primary_header_def extended_header_def le16_def)

lemma demo_elf_image_parts:
  "length demo_elf_image = 2560" "take 32 (drop 1024 demo_elf_image) = demo_elf_entry [0x42, 0x4C, 0x41, 0x4E, 0x4B] 2"
  "take 32 (drop 1056 demo_elf_image) = demo_elf_entry [0x53, 0x48, 0x45, 0x4C, 0x4C] 3" "demo_elf_image ! 1088 = 0"
  "take 88 (drop 1536 demo_elf_image) = demo_elf_bytes" "take 88 (drop 2048 demo_elf_image) = demo_elf_bytes"
proof -
  have e: "length (demo_elf_entry [a, b, c, d, e] k) = 32" for a b c d e k by (simp add: demo_elf_entry_def)
  have b: "length demo_elf_bytes = 88" by (simp add: demo_elf_bytes_def)
  show "length demo_elf_image = 2560" "take 32 (drop 1024 demo_elf_image) = demo_elf_entry [0x42, 0x4C, 0x41, 0x4E, 0x4B] 2"
    "take 32 (drop 1056 demo_elf_image) = demo_elf_entry [0x53, 0x48, 0x45, 0x4C, 0x4C] 3" "demo_elf_image ! 1088 = 0"
    "take 88 (drop 1536 demo_elf_image) = demo_elf_bytes" "take 88 (drop 2048 demo_elf_image) = demo_elf_bytes"
    unfolding demo_elf_image_def by (simp_all add: e b nth_append)
qed

lemma demo_elf_image_entry:
  "root_entry demo_elf_image 0 = item_of (demo_elf_entry [0x42, 0x4C, 0x41, 0x4E, 0x4B] 2)"
  "root_entry demo_elf_image (Suc 0) = item_of (demo_elf_entry [0x53, 0x48, 0x45, 0x4C, 0x4C] 3)"
  by (simp_all add: root_entry_def demo_elf_image_geometry demo_elf_image_parts)

lemma demo_elf_image_volume: "fat_volume demo_elf_image 2"
proof -
  have "demo_elf_image ! 1024 = take 32 (drop 1024 demo_elf_image) ! 0" "demo_elf_image ! 1056 = take 32 (drop 1056 demo_elf_image) ! 0"
    by (simp_all add: demo_elf_image_parts(1))
  then have "demo_elf_image ! 1024 = 0x42" "demo_elf_image ! 1056 = 0x53"
    unfolding demo_elf_image_parts by (simp_all add: demo_elf_entry_def)
  then show ?thesis by (simp add: fat_volume_def demo_elf_image_geometry demo_elf_image_parts(1,4) less_2_cases_iff)
qed

lemma demo_elf_entry_simps:
  "length name = 5 \<Longrightarrow> fdi_filename (item_of (demo_elf_entry name k)) = name @ replicate 3 0x20"
  "length name = 5 \<Longrightarrow> fdi_ext (item_of (demo_elf_entry name k)) = [0x45, 0x4C, 0x46]"
  "length name = 5 \<Longrightarrow> fdi_attribute (item_of (demo_elf_entry name k)) = 0x20"
  "length name = 5 \<Longrightarrow> entry_cluster (item_of (demo_elf_entry name 2)) = 2"
  "length name = 5 \<Longrightarrow> entry_cluster (item_of (demo_elf_entry name 3)) = 3"
  "length name = 5 \<Longrightarrow> fdi_filesize (item_of (demo_elf_entry name k)) = 88"
  by (simp_all add: item_of_def demo_elf_entry_def le16_def le32_of_def nth_append fat16_get_first_cluster_def)

lemma demo_elf_files:
  "image_program demo_elf_image 2 demo_blank (root_entry demo_elf_image 0)" "image_bytes demo_elf_image (root_entry demo_elf_image 0) = demo_elf_bytes"
  "image_program demo_elf_image 2 demo_shell (root_entry demo_elf_image 1)" "image_bytes demo_elf_image (root_entry demo_elf_image 1) = demo_elf_bytes"
proof -
  let ?b = "[0x62, 0x6C, 0x61, 0x6E, 0x6B, 0x2E, 0x65, 0x6C, 0x66] :: u8 list" and ?s = "[0x73, 0x68, 0x65, 0x6C, 0x6C, 0x2E, 0x65, 0x6C, 0x66] :: u8 list"
  note E = demo_elf_entry_simps demo_elf_image_entry
  have fn: "full_name (root_entry demo_elf_image 0) = [0x42, 0x4C, 0x41, 0x4E, 0x4B, 0x2E, 0x45, 0x4C, 0x46]"
    "full_name (root_entry demo_elf_image (Suc 0)) = [0x53, 0x48, 0x45, 0x4C, 0x4C, 0x2E, 0x45, 0x4C, 0x46]"
    by (simp_all add: full_name_def E trim_def)
  have nm: "\<forall>i < 2. named (root_entry demo_elf_image i) (buffer ?b) \<longleftrightarrow> i = 0" "\<forall>i < 2. named (root_entry demo_elf_image i) (buffer ?s) \<longleftrightarrow> i = 1"
    by (auto simp: less_2_cases_iff named_def fn buffer_def cstr_def tolower_def)
  have path: "valid_path demo_blank" "valid_path demo_shell" "components (drop 3 (cstr demo_blank)) = [?b]" "components (drop 3 (cstr demo_shell)) = [?s]"
    "demo_blank ! 0 = 0x30" "demo_shell ! 0 = 0x30"
    by (simp_all add: valid_path_def isdigit_def demo_blank_def demo_shell_def components.simps Let_def)
  have bt: "terminated (buffer ?b)" "terminated (buffer ?s)" by (simp_all add: buffer_def terminated_def)
  have pos: "data_pos demo_elf_image (root_entry demo_elf_image 0) = 1536" "data_pos demo_elf_image (root_entry demo_elf_image (Suc 0)) = 2048"
    by (simp_all add: data_pos_def E demo_elf_image_geometry)
  show "image_bytes demo_elf_image (root_entry demo_elf_image 0) = demo_elf_bytes" "image_bytes demo_elf_image (root_entry demo_elf_image 1) = demo_elf_bytes"
    by (simp_all add: image_bytes_def pos) (simp_all add: E demo_elf_image_parts)
  show "image_program demo_elf_image 2 demo_blank (root_entry demo_elf_image 0)"
    unfolding image_program_def using nm(1) path bt
    by (intro conjI exI [of _ ?b] exI [of _ 0]) (simp_all add: pos demo_elf_image_geometry demo_elf_image_parts(1), simp_all add: E)
  show "image_program demo_elf_image 2 demo_shell (root_entry demo_elf_image 1)"
    unfolding image_program_def using nm(2) path bt
    by (intro conjI exI [of _ ?s] exI [of _ 1]) (simp_all add: pos demo_elf_image_geometry demo_elf_image_parts(1), simp_all add: E)
qed

theorem process_load_elf_program_witness:
  "\<exists>(st :: ata file_machine) process p t st'. process_load (sim_ports demo_elf_image) 3 demo_blank st = Ret (0, process, st') \<and>
     procs st' process = Some p \<and> tasks st' (p_task p) = Some t \<and> r_ip (t_registers t) = 0x400054 \<and>
     user_byte st' t 0x400056 = 0xEB \<and> user_readable st' t 0x400056 \<and> \<not> user_writable st' t 0x400056"
proof -
  let ?e = "root_entry demo_elf_image 0"
  have W: "1 < (3 :: nat)" "2 < (3 :: nat)" "fat16_fs demo_program \<noteq> 0" "length demo_elf_image < 2 ^ 31" "0 + KBLOCKS \<le> KBLOCKS"
    by (simp_all add: demo_start demo_elf_image_parts)
  have ps: "first_slot 0 (take 12 (processes demo_program)) = Some 0" and tl: "task_list demo_program []"
    using replicate_Suc [of 11 "0 :: u32"] by (simp_all add: demo_program_simps task_list_def last0_def)
  obtain A priv and s :: "ata file_machine" where S: "kheap_rel s A" "program_file demo_elf_image s A priv demo_blank ?e"
    "file_bytes demo_elf_image priv ?e = image_bytes demo_elf_image ?e" "free_entry s 0"
    "(used 0 KBLOCKS A + blocks_for (fdi_filesize ?e) + 15) * max (blocks_for (fdi_filesize ?e)) 4 + 1100 \<le> KBLOCKS"
    "first_slot 0 (take 12 (processes s)) = Some 0" "task_list s []" "tasks_live A []"
    using storage_ready [OF sim_conforms W(1) demo_elf_image_volume W(2) demo_start(1) W(3) demo_start(3,4) demo_elf_files(1) ps tl refl] by blast
  have bs: "file_bytes demo_elf_image priv ?e = demo_elf_bytes" using S(3) demo_elf_files(2) by simp
  have prog: "elf_program (file_bytes demo_elf_image priv ?e)" unfolding bs by (rule demo_elf_program)
  obtain process p t st' where R: "process_load (sim_ports demo_elf_image) 3 demo_blank s = Ret (0, process, st')" "procs st' process = Some p"
    "tasks st' (p_task p) = Some t" "t_registers t = start_registers (elf_entry demo_elf_bytes)" "\<forall>g \<in> set (elf_segments demo_elf_bytes). seg_seen demo_elf_bytes st' t g"
    using process_load_elf_program [OF sim_conforms W(1,4) S(1,2,4) refl S(5) W(5) prog S(6-8)] unfolding bs by blast
  have "seg_seen demo_elf_bytes st' t \<lparr>p_type = 1, p_offset = 0, p_vaddr = 0x400000, p_paddr = 0, p_filesz = 88, p_memsz = 88, p_flags = 5, p_align = 0x1000\<rparr>"
    using R(5) by (simp add: demo_elf_segments)
  then have "user_byte st' t (0x400000 + of_nat 86) = demo_elf_bytes ! 86" "user_readable st' t (0x400000 + of_nat 86)"
    "\<not> user_writable st' t (0x400000 + of_nat 86)"
    unfolding seg_seen_def by (simp_all del: of_nat_numeral)
  moreover have "demo_elf_bytes ! 86 = 0xEB" by (simp add: demo_elf_bytes_def)
  moreover have "r_ip (t_registers t) = 0x400054" using R(4) by (simp add: start_registers_def demo_elf_segments)
  ultimately show ?thesis using R(1-3) by (intro exI [of _ s] exI [of _ process] exI [of _ p] exI [of _ t] exI [of _ st']) simp
qed

end
