(* ===== verification/Arguments.thy ===== *)
theory Arguments
  imports Load_Process
begin

text \<open>
  The arguments of a program: \<open>process_inject_arguments\<close> of \<open>src/src/task/process.c\<close> copies a linked list of
  \<open>command_argument\<close> structures into memory of the process and records where its vector of strings is.
\<close>

section \<open>Copying a string\<close>

lemma copy_loop_run:
  assumes "\<And>a. in_range dest (Suc n) a \<Longrightarrow> \<not> in_range src n a" and "n < 2 ^ 31"
  shows "mem_strncpy_loop n dest src m = mem_write m dest (cstr (mem_bytes m src n) @ [0])"
  using assms
proof (induction n arbitrary: dest src m)
  case (Suc n)
  let ?m = "m(dest := m src)"
  have ap: "\<not> in_range (src + 1) n a" if "in_range (dest + 1) (Suc n) a" for a
    using Suc.prems(1) [of a] that by (simp add: in_range_Suc)
  have "\<not> in_range (src + 1) n dest" using Suc.prems(1) [of dest] by (simp add: in_range_Suc)
  then have "src + 1 + of_nat k \<noteq> dest" if "k < n" for k
    using that Suc.prems(2) in_range_offset [of k "src + 1" n] by auto
  then have same: "mem_bytes ?m (src + 1) n = mem_bytes m (src + 1) n" by (simp add: mem_bytes_def)
  have IH: "mem_strncpy_loop n (dest + 1) (src + 1) ?m = mem_write ?m (dest + 1) (cstr (mem_bytes ?m (src + 1) n) @ [0])"
    using Suc.prems(2) by (intro Suc.IH ap) simp_all
  show ?case
  proof (cases "m src = 0")
    case True
    then show ?thesis by (simp add: mem_bytes_Suc cstr_def)
  next
    case False
    then show ?thesis using IH unfolding same by (simp add: mem_bytes_Suc cstr_def)
  qed
qed (simp add: cstr_def mem_bytes_def)

section \<open>Memory that an allocation leaves alone\<close>

text \<open>
  Bytes outside the block table of the heap that are not heap memory, or that belong to a live allocation which is
  not a page table of the process.
\<close>

definition untouched :: "allocs \<Rightarrow> nat list \<Rightarrow> u32 \<Rightarrow> bool" where
  "untouched A us a \<longleftrightarrow> KBLOCKS \<le> tbl_off (h_table kernel_heap_value) a \<and>
     (in_data a \<longrightarrow> (\<exists>b n. A b = Some n \<and> in_blocks b n a \<and> b \<notin> set us))"

lemma untouched_le: "untouched A us a \<Longrightarrow> A \<subseteq>\<^sub>m A' \<Longrightarrow> untouched A' us a"
  unfolding untouched_def map_le_def by (metis domI)

lemma untouched_disjoint:
  assumes "untouched A us a" and "kheap_rel st (A(f \<mapsto> n))" and "A f = None" and "\<forall>b \<in> set us. A b = Some 1"
  shows "\<not> in_blocks f n a" "\<forall>b \<in> set us. \<not> in_block b a"
proof -
  let ?A = "A(f \<mapsto> n)"
  have bound: "f + n \<le> KBLOCKS" using allocs_wfD(2) [OF kheap_rel_wf [OF assms(2)]] by simp
  have us: "?A b = Some 1" "b + 1 \<le> KBLOCKS" if "b \<in> set us" for b
  proof -
    show b: "?A b = Some 1" using that assms(3,4) by auto
    show "b + 1 \<le> KBLOCKS" using allocs_wfD(2) [OF kheap_rel_wf [OF assms(2)] b] .
  qed
  show "\<not> in_blocks f n a"
  proof
    assume f: "in_blocks f n a"
    then obtain b k where b: "A b = Some k" "in_blocks b k a" using assms(1) in_blocks_data [OF bound] unfolding untouched_def by blast
    then have "b \<noteq> f" using assms(3) by auto
    then show False using kz.live_disjoint [OF assms(2), of b k f n a] b f by simp
  qed
  show "\<forall>b \<in> set us. \<not> in_block b a"
  proof (intro ballI notI)
    fix u assume u: "u \<in> set us" "in_block u a"
    then have "in_data a" using us(2) [OF u(1)] block_data [of u a] by linarith
    then obtain b k where b: "A b = Some k" "in_blocks b k a" "b \<notin> set us" using assms(1) unfolding untouched_def by blast
    then have "b \<noteq> f" "b \<noteq> u" using assms(3) u by auto
    then show False using kz.live_disjoint [OF assms(2), of b k u 1 a] b us(1) [OF u(1)] u(2) by (simp add: in_blocks_one)
  qed
qed

section \<open>One string\<close>

text \<open>The entries of the allocation table that are free.\<close>

definition free_entries :: "process \<Rightarrow> nat" where
  "free_entries p = length (filter (\<lambda>a. pa_ptr a = 0) (p_allocations p))"

lemma free_entries_take:
  assumes "first_ptr 0 0 (p_allocations p) = Some i" and "pa_ptr a \<noteq> 0"
  shows "free_entries (p\<lparr>p_allocations := (p_allocations p)[i := a]\<rparr>) = free_entries p - 1"
proof -
  let ?as = "p_allocations p"
  have i: "i < length ?as" "pa_ptr (?as ! i) = 0" using first_ptr_Some [OF assms(1)] by auto
  have "length (filter (\<lambda>a. pa_ptr a = 0) ?as) = length (filter (\<lambda>a. pa_ptr a = 0) (take i ?as @ [?as ! i] @ drop (Suc i) ?as))"
    using id_take_nth_drop [OF i(1)] by simp
  then show ?thesis using i assms(2) by (simp add: free_entries_def upd_conv_take_nth_drop)
qed

lemma free_entry_first: "0 < free_entries p \<Longrightarrow> \<exists>i. first_ptr 0 0 (p_allocations p) = Some i"
  using first_ptr_None [of 0 0 "p_allocations p"] by (cases "first_ptr 0 0 (p_allocations p)") (auto simp: free_entries_def)

text \<open>A block of heap memory that the page directory maps onto itself for user mode.\<close>

definition own_page :: "mem \<Rightarrow> nat \<Rightarrow> nat \<Rightarrow> bool" where
  "own_page m d f \<longleftrightarrow> (\<forall>v. in_block f v \<longrightarrow> paging_get (kblock d) (v AND 0xfffff000) m = (v AND 0xfffff000) OR 7)"

lemma malloc_block_run:
  assumes ok: "proc_ok st A process p t c d us" and sz: "0 < unat sz" "unat sz \<le> 4096" and free: "0 < free_blocks A" "0 < free_entries p"
  shows "\<exists>f m al. process_malloc process sz st = Ret (kblock f, st\<lparr>pmem := m, procs := (procs st)(process \<mapsto> p\<lparr>p_allocations := al\<rparr>)\<rparr>) \<and>
    A f = None \<and> f < KBLOCKS \<and> free_blocks (A(f \<mapsto> 1)) = free_blocks A - 1 \<and> free_entries (p\<lparr>p_allocations := al\<rparr>) = free_entries p - 1 \<and>
    proc_ok (st\<lparr>pmem := m, procs := (procs st)(process \<mapsto> p\<lparr>p_allocations := al\<rparr>)\<rparr>) (A(f \<mapsto> 1)) process (p\<lparr>p_allocations := al\<rparr>) t c d us \<and>
    own_page m d f \<and> (\<forall>w. page_aligned w \<longrightarrow> \<not> in_block f w \<longrightarrow> paging_get (kblock d) w m = paging_get (kblock d) w (pmem st)) \<and>
    (\<forall>a. untouched A us a \<longrightarrow> m a = pmem st a)"
proof -
  have one: "blocks_for sz = 1" using sz by (rule blocks_for_one)
  obtain s where s: "fits A KBLOCKS 1 s" using free_blocks_fits [OF free(1)] ..
  obtain i where i: "first_ptr 0 0 (p_allocations p) = Some i" using free_entry_first [OF free(2)] ..
  have rel: "kheap_rel st A" and us: "\<forall>b \<in> set us. A b = Some 1" using ok by (auto simp: proc_ok_def owns_chunk_def)
  have n: "0 < blocks_for sz" "fits A KBLOCKS (blocks_for sz) s" using s by (simp_all add: one)
  obtain f m p' where M: "process_malloc process sz st = Ret (kblock f, st\<lparr>pmem := m, procs := (procs st)(process \<mapsto> p')\<rparr>)"
    "p' = p\<lparr>p_allocations := (p_allocations p)[i := \<lparr>pa_ptr = kblock f, pa_size = sz\<rparr>]\<rparr>" "fits A KBLOCKS 1 f" "f < KBLOCKS" "A f = None"
    "proc_ok (st\<lparr>pmem := m, procs := (procs st)(process \<mapsto> p')\<rparr>) (A(f \<mapsto> 1)) process p' t c d us"
    "\<forall>v. in_blocks f 1 v \<longrightarrow> paging_get (kblock d) (v AND 0xfffff000) m = (v AND 0xfffff000) OR 7"
    "\<forall>w. page_aligned w \<longrightarrow> \<not> in_blocks f 1 w \<longrightarrow> paging_get (kblock d) w m = paging_get (kblock d) w (pmem st)"
    "\<forall>a. KBLOCKS \<le> tbl_off (h_table kernel_heap_value) a \<longrightarrow> \<not> in_blocks f 1 a \<longrightarrow> (\<forall>b \<in> set us. \<not> in_block b a) \<longrightarrow> m a = pmem st a"
    using process_malloc_run [OF ok n i] unfolding one by blast
  have rel': "kheap_rel (st\<lparr>pmem := m, procs := (procs st)(process \<mapsto> p')\<rparr>) (A(f \<mapsto> 1))" using M(6) by (simp add: proc_ok_def)
  have "m a = pmem st a" if "untouched A us a" for a
    using untouched_disjoint [OF that rel' M(5) us] M(9) that by (simp add: untouched_def)
  moreover have "free_entries p' = free_entries p - 1" using free_entries_take [OF i] M(4) by (simp add: M(2))
  moreover have "free_blocks (A(f \<mapsto> 1)) = free_blocks A - 1" using free_blocks_one [OF kheap_rel_wf [OF rel] M(3)] .
  ultimately show ?thesis
    using M(1,4-8) unfolding M(2) own_page_def in_blocks_one
    by (intro exI [of _ f] exI [of _ m] exI [of _ "(p_allocations p)[i := \<lparr>pa_ptr = kblock f, pa_size = sz\<rparr>]"]) simp
qed

text \<open>The process may write to a block of its own that holds no part of its page directory.\<close>

lemma write_block_run:
  assumes ok: "proc_ok st A process p t c d us" and x: "A x = Some 1" "x \<notin> set (c # d # us)"
    and m: "\<And>a. \<not> in_block x a \<Longrightarrow> m a = pmem st a"
  shows "proc_ok (st\<lparr>pmem := m\<rparr>) A process p t c d us" "paging_get (kblock d) w m = paging_get (kblock d) w (pmem st)"
proof -
  have P: "kheap_rel st A" "owns_chunk (pmem st) A c d us" using ok by (simp_all add: proc_ok_def)
  have xb: "x < KBLOCKS" using allocs_wfD(2) [OF kheap_rel_wf [OF P(1)] x(1)] by simp
  have keep: "m a = pmem st a" if "b \<in> set (c # d # us)" "in_block b a" for b a
  proof (rule m)
    have "b \<noteq> x" "A b = Some 1" using that(1) x(2) P(2) by (auto simp: owns_chunk_def)
    then show "\<not> in_block x a" using live_one_disjoint [OF P(1), of b x 1 a] x(1) that(2) by (simp add: in_blocks_one)
  qed
  have "owns_chunk m A c d us" using keep by (intro owns_chunk_frame [OF P(2)]) auto
  moreover have "kheap_rel (st\<lparr>pmem := m\<rparr>) A" using block_data [OF xb] by (intro kheap_rel_upd [OF P(1)] m) blast
  ultimately show "proc_ok (st\<lparr>pmem := m\<rparr>) A process p t c d us" using ok by (simp add: proc_ok_def)
  show "paging_get (kblock d) w m = paging_get (kblock d) w (pmem st)" by (rule paging_get_keep [OF P(2) keep])
qed

text \<open>The text of an argument: at most 511 bytes, as \<open>strncpy\<close> copies them.\<close>

definition arg_text :: "mem \<Rightarrow> u32 \<Rightarrow> u8 list" where
  "arg_text m a = cstr (mem_bytes m a 511)"

lemma arg_text_length: "length (arg_text m a) \<le> 511"
  using length_takeWhile_le [of "\<lambda>c. c \<noteq> 0" "mem_bytes m a 511"] by (simp add: arg_text_def cstr_def)

lemma untouched_own: "A b = Some 1 \<Longrightarrow> b < KBLOCKS \<Longrightarrow> b \<notin> set us \<Longrightarrow> in_block b a \<Longrightarrow> untouched A us a"
  unfolding untouched_def using in_data_off block_data in_blocks_one(1) by blast

lemma copy_text:
  assumes "\<forall>k < 516. \<not> in_block f (a + of_nat k)" and "f < KBLOCKS"
  shows "mem_strncpy (kblock f) a 512 m = mem_write m (kblock f) (arg_text m a @ [0])"
    "length (arg_text m a) \<le> 511" "\<not> in_block f x \<Longrightarrow> mem_write m (kblock f) (arg_text m a @ [0]) x = m x"
proof -
  have range: "in_block f x" if "in_range (kblock f) 512 x" for x
    using in_range_blocks [of f 1 512 x] assms(2) that by (simp add: in_blocks_one)
  have "\<not> in_range a 511 x" if "in_range (kblock f) (Suc 511) x" for x
  proof
    assume "in_range a 511 x"
    then have "unat (x - a) < 516" "x = a + of_nat (unat (x - a))" by (simp_all add: in_range_def)
    moreover have "in_block f x" using range [of x] that by simp
    ultimately show False using assms(1) by metis
  qed
  then show "mem_strncpy (kblock f) a 512 m = mem_write m (kblock f) (arg_text m a @ [0])"
    using copy_loop_run [of "kblock f" 511 a m] by (simp add: mem_strncpy_def arg_text_def)
  show len: "length (arg_text m a) \<le> 511" by (rule arg_text_length)
  assume "\<not> in_block f x"
  then have "\<not> in_range (kblock f) 512 x" using range by blast
  then have "\<not> in_range (kblock f) (length (arg_text m a @ [0])) x" using len by (simp add: in_range_def)
  then show "mem_write m (kblock f) (arg_text m a @ [0]) x = m x" using len by (simp add: mem_write_apply)
qed

text \<open>The text goes into block \<open>f\<close> and the address of that block into entry \<open>i\<close> of the vector in block \<open>g\<close>.\<close>

lemma write_argument:
  assumes ok: "proc_ok st A process p t c d us" and f: "A f = Some 1" "f \<notin> set (c # d # us)"
    and g: "A g = Some 1" "g \<notin> set (c # d # us)" "f \<noteq> g" and i: "i < 1024"
    and cur: "\<forall>k < 516. \<not> in_block f (cur + of_nat k)"
    and m: "m = store32 (mem_strncpy (kblock f) cur 512 (pmem st)) (cell (kblock g) i) (kblock f)"
  shows "proc_ok (st\<lparr>pmem := m\<rparr>) A process p t c d us" "paging_get (kblock d) w m = paging_get (kblock d) w (pmem st)"
    "mem_bytes m (kblock f) (Suc (length (arg_text (pmem st) cur))) = arg_text (pmem st) cur @ [0]"
    "load32 m (cell (kblock g) i) = kblock f"
    "j < 1024 \<Longrightarrow> j \<noteq> i \<Longrightarrow> load32 m (cell (kblock g) j) = load32 (pmem st) (cell (kblock g) j)"
    "\<not> in_block f a \<Longrightarrow> \<not> in_block g a \<Longrightarrow> m a = pmem st a"
proof -
  have rel: "kheap_rel st A" using ok by (simp add: proc_ok_def)
  have b: "f < KBLOCKS" "g < KBLOCKS" using live_bound [OF rel] f(1) g(1) by auto
  have fg: "\<not> in_block f x" if "in_block g x" for x
    using live_one_disjoint [OF rel g(1), of f 1 x] f(1) g(3) that by (simp add: in_blocks_one)
  let ?t = "arg_text (pmem st) cur"
  define m2 where "m2 = mem_write (pmem st) (kblock f) (?t @ [0])"
  note cp = copy_text [where m = "pmem st", OF cur b(1), folded m2_def]
  have m: "m = store32 m2 (cell (kblock g) i) (kblock f)" by (simp add: m cp(1))
  have m3: "m x = m2 x" if "\<not> in_block g x" for x using store_block_frame [OF b(2) i] that by (simp add: m)
  have P2: "proc_ok (st\<lparr>pmem := m2\<rparr>) A process p t c d us" "\<And>w. paging_get (kblock d) w m2 = paging_get (kblock d) w (pmem st)"
    using write_block_run [OF ok f, of m2] cp(3) by simp_all
  show "proc_ok (st\<lparr>pmem := m\<rparr>) A process p t c d us" "paging_get (kblock d) w m = paging_get (kblock d) w (pmem st)"
    using write_block_run [OF P2(1) g(1,2), of m] m3 P2(2) by simp_all
  have "m (kblock f + of_nat k) = m2 (kblock f + of_nat k)" if "k < 512" for k
  proof (rule m3)
    have "in_block f (kblock f + of_nat k)" using in_range_blocks [of f 1 512] b(1) that by (simp add: in_range_offset in_blocks_one)
    then show "\<not> in_block g (kblock f + of_nat k)" using fg by blast
  qed
  then have "mem_bytes m (kblock f) (Suc (length ?t)) = mem_bytes m2 (kblock f) (Suc (length ?t))"
    using cp(2) by (simp add: mem_bytes_def del: upt_Suc)
  then show "mem_bytes m (kblock f) (Suc (length ?t)) = ?t @ [0]"
    using mem_bytes_write [of "?t @ [0]" "pmem st" "kblock f"] cp(2) by (simp add: m2_def)
  show "load32 m (cell (kblock g) i) = kblock f" by (simp add: m load32_store32_same)
  show "m a = pmem st a" if "\<not> in_block f a" "\<not> in_block g a" using m3 [OF that(2)] cp(3) [OF that(1)] by simp
  assume j: "j < 1024" "j \<noteq> i"
  have "load32 m (cell (kblock g) j) = load32 m2 (cell (kblock g) j)"
    unfolding m using j i b(2) cell_eq [of "kblock g" "kblock g" i j] by (intro load32_store32_other) auto
  then show "load32 m (cell (kblock g) j) = load32 (pmem st) (cell (kblock g) j)"
    using load_block_cong [OF b(2) j(1), of m2 "pmem st"] cp(3) [OF fg] by simp
qed

lemma inject_step:
  assumes ok: "proc_ok st A process p t c d us" and free: "0 < free_blocks A" "0 < free_entries p"
    and g: "A g = Some 1" "g \<notin> set (c # d # us)" and i: "i < 1024" and cur: "cur \<noteq> 0"
    and src: "\<forall>k < 516. untouched A us (cur + of_nat k) \<and> \<not> in_block g (cur + of_nat k)"
  shows "\<exists>f m al. inject_loop (Suc fuel) process (kblock g) cur i st = inject_loop fuel process (kblock g) (argument_next (pmem st) cur) (Suc i)
      (st\<lparr>procs := (procs st)(process \<mapsto> p\<lparr>p_allocations := al\<rparr>), pmem := m\<rparr>) \<and>
    A f = None \<and> f < KBLOCKS \<and> free_blocks (A(f \<mapsto> 1)) = free_blocks A - 1 \<and> free_entries (p\<lparr>p_allocations := al\<rparr>) = free_entries p - 1 \<and>
    proc_ok (st\<lparr>procs := (procs st)(process \<mapsto> p\<lparr>p_allocations := al\<rparr>), pmem := m\<rparr>) (A(f \<mapsto> 1)) process (p\<lparr>p_allocations := al\<rparr>) t c d us \<and>
    load32 m (cell (kblock g) i) = kblock f \<and> mem_bytes m (kblock f) (Suc (length (arg_text (pmem st) cur))) = arg_text (pmem st) cur @ [0] \<and>
    own_page m d f \<and> (\<forall>j < 1024. j \<noteq> i \<longrightarrow> load32 m (cell (kblock g) j) = load32 (pmem st) (cell (kblock g) j)) \<and>
    (\<forall>w. page_aligned w \<longrightarrow> \<not> in_block f w \<longrightarrow> paging_get (kblock d) w m = paging_get (kblock d) w (pmem st)) \<and>
    (\<forall>a. untouched A us a \<longrightarrow> \<not> in_block g a \<longrightarrow> m a = pmem st a)"
proof -
  obtain f m1 al where M: "process_malloc process 512 st = Ret (kblock f, st\<lparr>pmem := m1, procs := (procs st)(process \<mapsto> p\<lparr>p_allocations := al\<rparr>)\<rparr>)"
    "A f = None" "f < KBLOCKS" "free_blocks (A(f \<mapsto> 1)) = free_blocks A - 1" "free_entries (p\<lparr>p_allocations := al\<rparr>) = free_entries p - 1"
    "proc_ok (st\<lparr>pmem := m1, procs := (procs st)(process \<mapsto> p\<lparr>p_allocations := al\<rparr>)\<rparr>) (A(f \<mapsto> 1)) process (p\<lparr>p_allocations := al\<rparr>) t c d us"
    "own_page m1 d f" "\<forall>w. page_aligned w \<longrightarrow> \<not> in_block f w \<longrightarrow> paging_get (kblock d) w m1 = paging_get (kblock d) w (pmem st)"
    "\<forall>a. untouched A us a \<longrightarrow> m1 a = pmem st a"
    using malloc_block_run [OF ok, of 512] free by auto
  let ?p = "p\<lparr>p_allocations := al\<rparr>" and ?A = "A(f \<mapsto> 1)"
  let ?st = "st\<lparr>pmem := m1, procs := (procs st)(process \<mapsto> ?p)\<rparr>"
  have own: "owns_chunk (pmem st) A c d us" "kheap_rel st A" "kheap_rel ?st ?A" using ok M(6) by (simp_all add: proc_ok_def)
  have gb: "g < KBLOCKS" using live_bound [OF own(2) g(1)] by simp
  have fg: "f \<noteq> g" "f \<notin> set (c # d # us)" and us: "\<forall>b \<in> set us. A b = Some 1"
    using g(1) M(2) own(1) by (auto simp: owns_chunk_def)
  have sep: "\<not> in_block f a" if "untouched A us a" for a
    using untouched_disjoint(1) [OF that own(3) M(2) us] by (simp add: in_blocks_one)
  have "mem_bytes m1 cur 511 = mem_bytes (pmem st) cur 511" unfolding mem_bytes_def using M(9) src by (intro map_cong) auto
  then have tx: "arg_text m1 cur = arg_text (pmem st) cur" by (simp add: arg_text_def)
  define m where "m = store32 (mem_strncpy (kblock f) cur 512 m1) (cell (kblock g) i) (kblock f)"
  have m': "m = store32 (mem_strncpy (kblock f) cur 512 (pmem ?st)) (cell (kblock g) i) (kblock f)" by (simp add: m_def)
  have A: "?A f = Some 1" "?A g = Some 1" and cf: "\<forall>k < 516. \<not> in_block f (cur + of_nat k)" using g(1) fg(1) sep src by auto
  note W = write_argument [OF M(6) A(1) fg(2) A(2) g(2) fg(1) i cf m']
  have W1: "proc_ok (st\<lparr>procs := (procs st)(process \<mapsto> ?p), pmem := m\<rparr>) ?A process ?p t c d us" using W(1) by (simp add: fun_upd_def)
  have frame: "m a = pmem st a" if "untouched A us a" "\<not> in_block g a" for a using W(6) [OF sep [OF that(1)] that(2)] M(9) that(1) by simp
  have other: "load32 m (cell (kblock g) j) = load32 (pmem st) (cell (kblock g) j)" if "j < 1024" "j \<noteq> i" for j
    using W(5) [OF that] load_block_cong [OF gb that(1), of m1 "pmem st"] M(9) untouched_own [of A g us] g gb by auto
  have "m (cur + 512 + of_nat k) = pmem st (cur + 512 + of_nat k)" if "k < 4" for k
    using frame [of "cur + of_nat (512 + k)"] src [rule_format, of "512 + k"] that by (simp add: add.assoc)
  then have "argument_next m cur = argument_next (pmem st) cur" unfolding argument_next_def by (rule load32_cong)
  then have "inject_loop (Suc fuel) process (kblock g) cur i st =
      inject_loop fuel process (kblock g) (argument_next (pmem st) cur) (Suc i) (?st\<lparr>pmem := m\<rparr>)"
    using cur M(1,3) by (simp add: m_def cell_def Let_def)
  moreover have "own_page m d f" using M(7) W(2) by (simp add: own_page_def)
  ultimately show ?thesis
    using M(2-5,8) W1 W(2-4) tx other frame by (intro exI [of _ f] exI [of _ m] exI [of _ al]) simp
qed

section \<open>The list\<close>

text \<open>The structures at the addresses \<open>as\<close> are linked through their last field.\<close>

fun arg_chain :: "mem \<Rightarrow> u32 \<Rightarrow> u32 list \<Rightarrow> bool" where
  "arg_chain m cur [] \<longleftrightarrow> cur = 0"
| "arg_chain m cur (a # as) \<longleftrightarrow> cur = a \<and> a \<noteq> 0 \<and> arg_chain m (argument_next m a) as"

lemma count_run: "arg_chain m cur as \<Longrightarrow> length as < fuel \<Longrightarrow> process_count_command_arguments fuel cur m = Ret (int (length as))"
proof (induction as arbitrary: cur fuel)
  case Nil
  then show ?case by (cases fuel) simp_all
next
  case (Cons a as)
  then show ?case by (cases fuel) (simp_all add: add.commute)
qed

text \<open>The structures lie where neither the allocations nor the copies write.\<close>

definition args_apart :: "allocs \<Rightarrow> nat list \<Rightarrow> nat \<Rightarrow> u32 list \<Rightarrow> bool" where
  "args_apart A us g as \<longleftrightarrow> (\<forall>a \<in> set as. \<forall>k < 516. untouched A us (a + of_nat k) \<and> \<not> in_block g (a + of_nat k))"

lemma arg_frame:
  assumes "args_apart A us g as" and "\<forall>a. untouched A us a \<longrightarrow> \<not> in_block g a \<longrightarrow> m' a = m a"
  shows "arg_chain m cur as \<Longrightarrow> arg_chain m' cur as" "map (arg_text m') as = map (arg_text m) as"
proof -
  have eq: "m' (a + of_nat k) = m (a + of_nat k)" if "a \<in> set as" "k < 516" for a k using assms that by (simp add: args_apart_def)
  have "argument_next m' a = argument_next m a" if "a \<in> set as" for a
    unfolding argument_next_def using eq [OF that, of "512 + _"] by (intro load32_cong) (simp add: add.assoc)
  then show "arg_chain m cur as \<Longrightarrow> arg_chain m' cur as" by (induction as arbitrary: cur) auto
  have "mem_bytes m' a 511 = mem_bytes m a 511" if "a \<in> set as" for a
    unfolding mem_bytes_def using eq [OF that] by (intro map_cong) auto
  then show "map (arg_text m') as = map (arg_text m) as" by (simp add: arg_text_def)
qed

text \<open>
  What a process finds for a list of texts: from entry \<open>i\<close> of the vector in block \<open>g\<close> on, the address of a block of
  its own with the text.
\<close>

definition passed :: "mem \<Rightarrow> nat \<Rightarrow> nat \<Rightarrow> nat \<Rightarrow> nat list \<Rightarrow> u8 list list \<Rightarrow> bool" where
  "passed m d g i fs xs \<longleftrightarrow> length fs = length xs \<and>
     (\<forall>j < length fs. load32 m (cell (kblock g) (i + j)) = kblock (fs ! j) \<and>
        mem_bytes m (kblock (fs ! j)) (Suc (length (xs ! j))) = xs ! j @ [0] \<and> own_page m d (fs ! j))"

lemma passedD:
  assumes "passed m d g i fs xs" and "j < length xs"
  shows "load32 m (cell (kblock g) (i + j)) = kblock (fs ! j)" "mem_bytes m (kblock (fs ! j)) (Suc (length (xs ! j))) = xs ! j @ [0]"
    "own_page m d (fs ! j)" "fs ! j \<in> set fs"
  using assms by (auto simp: passed_def)

lemma passed_Cons:
  assumes "load32 m (cell (kblock g) i) = kblock f" and "mem_bytes m (kblock f) (Suc (length x)) = x @ [0]" and "own_page m d f"
    and "passed m d g (Suc i) fs xs"
  shows "passed m d g i (f # fs) (x # xs)"
  using assms unfolding passed_def by (auto simp: less_Suc_eq_0_disj nth_Cons')

lemma in_block_unique: "in_block x a \<Longrightarrow> in_block y a \<Longrightarrow> x = y"
  by (simp add: in_block_def)

lemma in_block_page:
  assumes "in_block f v"
  shows "in_block f (v AND 0xfffff000)"
proof -
  have "unat v div 4096 = 4096 + f" using assms by (intro div_nat_eqI) (simp_all add: in_block_def)
  then show ?thesis by (simp add: in_block_def unat_page_mask)
qed

lemma block_bytes_cong:
  assumes "f < KBLOCKS" and "\<And>a. in_block f a \<Longrightarrow> m' a = m a" and "n \<le> 4096"
  shows "mem_bytes m' (kblock f) n = mem_bytes m (kblock f) n"
  unfolding mem_bytes_def
proof (intro map_cong refl)
  fix k assume "k \<in> set [0..<n]"
  then have "in_range (kblock f) 4096 (kblock f + of_nat k)" using assms(3) by (simp add: in_range_offset)
  then show "m' (kblock f + of_nat k) = m (kblock f + of_nat k)"
    using in_range_blocks [of f 1 4096] assms(1,2) by (simp add: in_blocks_one)
qed

lemma own_page_keep:
  assumes "own_page m d f" and "f \<notin> F"
    and "\<forall>w. page_aligned w \<longrightarrow> (\<forall>x \<in> F. \<not> in_block x w) \<longrightarrow> paging_get (kblock d) w m' = paging_get (kblock d) w m"
  shows "own_page m' d f"
  unfolding own_page_def
proof (intro allI impI)
  fix v assume v: "in_block f v"
  then have "\<forall>x \<in> F. \<not> in_block x (v AND 0xfffff000)" using in_block_unique [OF in_block_page [OF v]] assms(2) by blast
  then show "paging_get (kblock d) (v AND 0xfffff000) m' = (v AND 0xfffff000) OR 7" using assms(1,3) v by (simp add: own_page_def)
qed

text \<open>The first text stays in place while the others are copied.\<close>

lemma passed_step:
  assumes "load32 m (cell (kblock g) i) = kblock f" and "mem_bytes m (kblock f) (Suc (length x)) = x @ [0]" and "length x \<le> 511"
    and "own_page m d f" and "f \<notin> set fs" and "f < KBLOCKS" and "\<And>a. in_block f a \<Longrightarrow> m' a = m a"
    and "load32 m' (cell (kblock g) i) = load32 m (cell (kblock g) i)"
    and "\<forall>w. page_aligned w \<longrightarrow> (\<forall>x \<in> set fs. \<not> in_block x w) \<longrightarrow> paging_get (kblock d) w m' = paging_get (kblock d) w m"
    and "passed m' d g (Suc i) fs xs"
  shows "passed m' d g i (f # fs) (x # xs)"
proof (rule passed_Cons)
  show "mem_bytes m' (kblock f) (Suc (length x)) = x @ [0]" using block_bytes_cong [of f m' m] assms(2,3,6,7) by simp
  show "own_page m' d f" by (rule own_page_keep [OF assms(4,5,9)])
qed (use assms in simp_all)

lemma inject_run:
  assumes "proc_ok st A process p t c d us" and "arg_chain (pmem st) cur as" and "length as < fuel"
    and "length as \<le> free_blocks A" "length as \<le> free_entries p" and "A g = Some 1" "g \<notin> set (c # d # us)"
    and "i + length as \<le> 1024" and "args_apart A us g as"
  shows "\<exists>fs m al. inject_loop fuel process (kblock g) cur i st = Ret (0, st\<lparr>procs := (procs st)(process \<mapsto> p\<lparr>p_allocations := al\<rparr>), pmem := m\<rparr>) \<and>
    proc_ok (st\<lparr>procs := (procs st)(process \<mapsto> p\<lparr>p_allocations := al\<rparr>), pmem := m\<rparr>) (grant A (set fs)) process (p\<lparr>p_allocations := al\<rparr>) t c d us \<and>
    (\<forall>f \<in> set fs. A f = None \<and> f < KBLOCKS) \<and> passed m d g i fs (map (arg_text (pmem st)) as) \<and>
    (\<forall>j < i. load32 m (cell (kblock g) j) = load32 (pmem st) (cell (kblock g) j)) \<and>
    (\<forall>w. page_aligned w \<longrightarrow> (\<forall>f \<in> set fs. \<not> in_block f w) \<longrightarrow> paging_get (kblock d) w m = paging_get (kblock d) w (pmem st)) \<and>
    (\<forall>a. untouched A us a \<longrightarrow> \<not> in_block g a \<longrightarrow> m a = pmem st a)"
  using assms
proof (induction as arbitrary: st A p cur i fuel)
  case Nil
  have st: "st\<lparr>procs := (procs st)(process \<mapsto> p\<lparr>p_allocations := p_allocations p\<rparr>), pmem := pmem st\<rparr> = st"
    using Nil.prems(1) by (simp add: proc_ok_def fun_upd_idem)
  have "inject_loop fuel process (kblock g) cur i st = Ret (0, st)" using Nil.prems(2,3) by (cases fuel) simp_all
  then show ?case
    using Nil.prems(1) st
    by (intro exI [of _ "[] :: nat list"] exI [of _ "pmem st"] exI [of _ "p_allocations p"]) (simp add: passed_def grant_def fun_upd_def)
next
  case (Cons a as)
  obtain n where n: "fuel = Suc n" using Cons.prems(3) by (cases fuel) auto
  have pre: "0 < free_blocks A" "0 < free_entries p" "i < 1024" "cur \<noteq> 0" "cur = a"
    "\<forall>k < 516. untouched A us (cur + of_nat k) \<and> \<not> in_block g (cur + of_nat k)"
    using Cons.prems by (auto simp: args_apart_def)
  obtain f m al where S: "inject_loop fuel process (kblock g) cur i st = inject_loop n process (kblock g) (argument_next (pmem st) cur) (Suc i)
      (st\<lparr>procs := (procs st)(process \<mapsto> p\<lparr>p_allocations := al\<rparr>), pmem := m\<rparr>)"
    "A f = None" "f < KBLOCKS" "free_blocks (A(f \<mapsto> 1)) = free_blocks A - 1" "free_entries (p\<lparr>p_allocations := al\<rparr>) = free_entries p - 1"
    "proc_ok (st\<lparr>procs := (procs st)(process \<mapsto> p\<lparr>p_allocations := al\<rparr>), pmem := m\<rparr>) (A(f \<mapsto> 1)) process (p\<lparr>p_allocations := al\<rparr>) t c d us"
    "load32 m (cell (kblock g) i) = kblock f" "mem_bytes m (kblock f) (Suc (length (arg_text (pmem st) cur))) = arg_text (pmem st) cur @ [0]"
    "own_page m d f" "\<forall>j < 1024. j \<noteq> i \<longrightarrow> load32 m (cell (kblock g) j) = load32 (pmem st) (cell (kblock g) j)"
    "\<forall>w. page_aligned w \<longrightarrow> \<not> in_block f w \<longrightarrow> paging_get (kblock d) w m = paging_get (kblock d) w (pmem st)"
    "\<forall>a. untouched A us a \<longrightarrow> \<not> in_block g a \<longrightarrow> m a = pmem st a"
    unfolding n using inject_step [OF Cons.prems(1) pre(1,2) Cons.prems(6,7) pre(3,4,6)] by blast
  let ?p = "p\<lparr>p_allocations := al\<rparr>" and ?A = "A(f \<mapsto> 1)"
  let ?st = "st\<lparr>procs := (procs st)(process \<mapsto> ?p), pmem := m\<rparr>"
  have le: "A \<subseteq>\<^sub>m ?A" and fg: "f \<noteq> g" "?A g = Some 1" and fc: "f \<notin> set us"
    using S(2) Cons.prems(1,6) by (auto simp: map_le_def proc_ok_def owns_chunk_def)
  have ap: "args_apart A us g as" using Cons.prems(9) by (simp add: args_apart_def)
  then have ap': "args_apart ?A us g as" using untouched_le [OF _ le] by (simp add: args_apart_def)
  have ch: "arg_chain (pmem ?st) (argument_next (pmem st) cur) as" and tx: "map (arg_text m) as = map (arg_text (pmem st)) as"
    using arg_frame [OF ap S(12)] Cons.prems(2) by auto
  have l: "length as < n" "length as \<le> free_blocks ?A" "length as \<le> free_entries ?p" "Suc i + length as \<le> 1024"
    using Cons.prems(3-5,8) S(4,5) n by simp_all
  from Cons.IH [OF S(6) ch l(1-3) fg(2) Cons.prems(7) l(4) ap'] obtain fs m' al' where
    R0: "inject_loop n process (kblock g) (argument_next (pmem st) cur) (Suc i) ?st =
        Ret (0, ?st\<lparr>procs := (procs ?st)(process \<mapsto> ?p\<lparr>p_allocations := al'\<rparr>), pmem := m'\<rparr>)"
    "proc_ok (?st\<lparr>procs := (procs ?st)(process \<mapsto> ?p\<lparr>p_allocations := al'\<rparr>), pmem := m'\<rparr>) (grant ?A (set fs)) process (?p\<lparr>p_allocations := al'\<rparr>) t c d us"
    and R: "\<forall>f \<in> set fs. ?A f = None \<and> f < KBLOCKS" "passed m' d g (Suc i) fs (map (arg_text (pmem ?st)) as)"
    "\<forall>j < Suc i. load32 m' (cell (kblock g) j) = load32 (pmem ?st) (cell (kblock g) j)"
    "\<forall>w. page_aligned w \<longrightarrow> (\<forall>f \<in> set fs. \<not> in_block f w) \<longrightarrow> paging_get (kblock d) w m' = paging_get (kblock d) w (pmem ?st)"
    "\<forall>a. untouched ?A us a \<longrightarrow> \<not> in_block g a \<longrightarrow> m' a = pmem ?st a"
    by blast
  have eq: "?st\<lparr>procs := (procs ?st)(process \<mapsto> ?p\<lparr>p_allocations := al'\<rparr>), pmem := m'\<rparr> =
      st\<lparr>procs := (procs st)(process \<mapsto> p\<lparr>p_allocations := al'\<rparr>), pmem := m'\<rparr>" "?p\<lparr>p_allocations := al'\<rparr> = p\<lparr>p_allocations := al'\<rparr>" by simp_all
  have R2: "passed m' d g (Suc i) fs (map (arg_text (pmem st)) as)" using R(2) unfolding tx [symmetric] by simp
  have gr: "grant ?A (set fs) = grant A (set (f # fs))" by (auto simp: grant_def)
  have new: "\<forall>x \<in> set (f # fs). A x = None \<and> x < KBLOCKS" and ff: "f \<notin> set fs" using R(1) S(2,3) by (auto split: if_splits)
  have "m' a = m a" if "in_block f a" for a
    using R(5) untouched_own [OF _ S(3) fc that, of ?A] in_block_unique [OF that, of g] fg(1) by auto
  then have pa: "passed m' d g i (f # fs) (map (arg_text (pmem st)) (a # as))"
    using passed_step [OF S(7,8) arg_text_length S(9) ff S(3), of m'] R(3,4) R2 pre(5) by simp
  have c0: "\<forall>j < i. load32 m' (cell (kblock g) j) = load32 (pmem st) (cell (kblock g) j)" using R(3) S(10) pre(3) by simp
  have fr: "\<forall>a. untouched A us a \<longrightarrow> \<not> in_block g a \<longrightarrow> m' a = pmem st a" using R(5) S(12) untouched_le [OF _ le] by simp
  have pg: "\<forall>w. page_aligned w \<longrightarrow> (\<forall>x \<in> set (f # fs). \<not> in_block x w) \<longrightarrow> paging_get (kblock d) w m' = paging_get (kblock d) w (pmem st)"
    using R(4) S(11) by simp
  have ok: "proc_ok (st\<lparr>procs := (procs st)(process \<mapsto> p\<lparr>p_allocations := al'\<rparr>), pmem := m'\<rparr>) (grant A (set (f # fs))) process
      (p\<lparr>p_allocations := al'\<rparr>) t c d us" using R0(2) unfolding eq(1) gr unfolding eq(2) .
  have run: "inject_loop fuel process (kblock g) cur i st = Ret (0, st\<lparr>procs := (procs st)(process \<mapsto> p\<lparr>p_allocations := al'\<rparr>), pmem := m'\<rparr>)"
    unfolding S(1) R0(1) eq(1) ..
  show ?case by (intro exI conjI) (rule run, rule ok, rule new, rule pa, rule c0, rule pg, rule fr)
qed

section \<open>Properties\<close>

text \<open>In its own pages a task sees memory as it is.\<close>

lemma own_page_user:
  assumes "own_page (pmem st) d f" and "directory_entry (pmem st) (t_page_directory t) = kblock d" and "in_block f v"
  shows "user_byte st t v = pmem st v"
proof -
  have "paging_get (kblock d) (v AND 0xfffff000) (pmem st) AND 0xfffff000 = v AND 0xfffff000"
    using assms(1,3) or_flags_mask [of "v AND 0xfffff000" 7] by (simp add: own_page_def flags_mask)
  then have "paging_get_physical_address (kblock d) v (pmem st) = v" by (simp add: physical_get)
  then show ?thesis by (simp add: user_byte_def assms(2))
qed

lemma own_page_bytes:
  assumes "own_page (pmem st) d f" and "directory_entry (pmem st) (t_page_directory t) = kblock d" and "f < KBLOCKS"
  shows "n \<le> 4096 \<Longrightarrow> mem_bytes (user_byte st t) (kblock f) n = mem_bytes (pmem st) (kblock f) n"
    and "k < 1024 \<Longrightarrow> load32 (user_byte st t) (cell (kblock f) k) = load32 (pmem st) (cell (kblock f) k)"
  using block_bytes_cong [OF assms(3), of "user_byte st t" "pmem st" n] load_block_cong [OF assms(3), of k "user_byte st t" "pmem st"]
    own_page_user [OF assms(1,2)] by auto

lemma free_entries_bound: "allocs_ok A (p_allocations p) \<Longrightarrow> free_entries p \<le> 1024"
  using length_filter_le [of "\<lambda>a. pa_ptr a = 0" "p_allocations p"] by (simp add: free_entries_def allocs_ok_def)

lemma inject_arguments_run:
  assumes ok: "proc_ok st A process p t c d us" and ch: "arg_chain (pmem st) root as" "as \<noteq> []" "length as < fuel"
    and free: "length as < free_blocks A" "length as < free_entries p" and src: "\<forall>a \<in> set as. \<forall>k < 516. untouched A us (a + of_nat k)"
  shows "\<exists>g fs m al. process_inject_arguments fuel process root st = Ret (0, st\<lparr>procs := (procs st)(process \<mapsto>
        p\<lparr>p_allocations := al, p_arguments := \<lparr>pg_argc = int (length as), pg_argv = kblock g\<rparr>\<rparr>), pmem := m\<rparr>) \<and>
    proc_ok (st\<lparr>procs := (procs st)(process \<mapsto> p\<lparr>p_allocations := al\<rparr>), pmem := m\<rparr>) (grant A (set (g # fs))) process (p\<lparr>p_allocations := al\<rparr>) t c d us \<and>
    (\<forall>f \<in> set (g # fs). A f = None \<and> f < KBLOCKS) \<and> own_page m d g \<and> passed m d g 0 fs (map (arg_text (pmem st)) as) \<and>
    (\<forall>a. untouched A us a \<longrightarrow> m a = pmem st a)"
proof -
  let ?n = "length as"
  have "?n < 1024" using free(2) free_entries_bound [of A p] ok by (simp add: proc_ok_def)
  then have sz: "unat (4 * word_of_int (int ?n) :: u32) = 4 * ?n" by (simp add: unat_word_ariths unat_of_nat)
  have sz': "0 < unat (4 * word_of_int (int ?n) :: u32)" "unat (4 * word_of_int (int ?n) :: u32) \<le> 4096"
    unfolding sz using ch(2) \<open>?n < 1024\<close> by (cases as; simp)+
  have fr: "0 < free_blocks A" "0 < free_entries p" using free by simp_all
  obtain g m0 al0 where M: "process_malloc process (4 * word_of_int (int ?n)) st =
      Ret (kblock g, st\<lparr>pmem := m0, procs := (procs st)(process \<mapsto> p\<lparr>p_allocations := al0\<rparr>)\<rparr>)"
    "A g = None" "g < KBLOCKS" "free_blocks (A(g \<mapsto> 1)) = free_blocks A - 1" "free_entries (p\<lparr>p_allocations := al0\<rparr>) = free_entries p - 1"
    "proc_ok (st\<lparr>pmem := m0, procs := (procs st)(process \<mapsto> p\<lparr>p_allocations := al0\<rparr>)\<rparr>) (A(g \<mapsto> 1)) process (p\<lparr>p_allocations := al0\<rparr>) t c d us"
    "own_page m0 d g" "\<forall>a. untouched A us a \<longrightarrow> m0 a = pmem st a"
    using malloc_block_run [OF ok sz' fr] by blast
  let ?p = "p\<lparr>p_allocations := al0\<rparr>" and ?A = "A(g \<mapsto> 1)" and ?st = "st\<lparr>pmem := m0, procs := (procs st)(process \<mapsto> p\<lparr>p_allocations := al0\<rparr>)\<rparr>"
  have own: "owns_chunk (pmem st) A c d us" "kheap_rel ?st ?A" using ok M(6) by (simp_all add: proc_ok_def)
  have gc: "g \<notin> set (c # d # us)" and us: "\<forall>b \<in> set us. A b = Some 1" and le: "A \<subseteq>\<^sub>m ?A"
    using own(1) M(2) by (auto simp: owns_chunk_def map_le_def)
  have gu: "\<not> in_block g a" if "untouched A us a" for a using untouched_disjoint(1) [OF that own(2) M(2) us] by (simp add: in_blocks_one)
  have ap: "args_apart A us g as" "args_apart ?A us g as" using src gu untouched_le [OF _ le] by (simp_all add: args_apart_def)
  have "\<forall>a. untouched A us a \<longrightarrow> \<not> in_block g a \<longrightarrow> m0 a = pmem st a" using M(8) by simp
  note fm = arg_frame [OF ap(1) this]
  have l: "?n \<le> free_blocks ?A" "?n \<le> free_entries ?p" "0 + ?n \<le> 1024" "arg_chain (pmem ?st) root as" "?A g = Some 1"
    using free M(4,5) \<open>?n < 1024\<close> fm(1) [OF ch(1)] by simp_all
  obtain fs m al where R: "inject_loop fuel process (kblock g) root 0 ?st = Ret (0, ?st\<lparr>procs := (procs ?st)(process \<mapsto> ?p\<lparr>p_allocations := al\<rparr>), pmem := m\<rparr>)"
    "proc_ok (?st\<lparr>procs := (procs ?st)(process \<mapsto> ?p\<lparr>p_allocations := al\<rparr>), pmem := m\<rparr>) (grant ?A (set fs)) process (?p\<lparr>p_allocations := al\<rparr>) t c d us"
    "\<forall>f \<in> set fs. ?A f = None \<and> f < KBLOCKS" "passed m d g 0 fs (map (arg_text (pmem ?st)) as)"
    "\<forall>w. page_aligned w \<longrightarrow> (\<forall>f \<in> set fs. \<not> in_block f w) \<longrightarrow> paging_get (kblock d) w m = paging_get (kblock d) w (pmem ?st)"
    "\<forall>a. untouched ?A us a \<longrightarrow> \<not> in_block g a \<longrightarrow> m a = pmem ?st a"
    using inject_run [OF M(6) l(4) ch(3) l(1,2,5) gc l(3) ap(2)] by blast
  have eq: "?st\<lparr>procs := (procs ?st)(process \<mapsto> ?p\<lparr>p_allocations := al\<rparr>), pmem := m\<rparr> =
      st\<lparr>procs := (procs st)(process \<mapsto> p\<lparr>p_allocations := al\<rparr>), pmem := m\<rparr>" "?p\<lparr>p_allocations := al\<rparr> = p\<lparr>p_allocations := al\<rparr>" by simp_all
  have gr: "grant ?A (set fs) = grant A (set (g # fs))" by (auto simp: grant_def)
  have run: "process_inject_arguments fuel process root st = Ret (0, st\<lparr>procs := (procs st)(process \<mapsto>
        p\<lparr>p_allocations := al, p_arguments := \<lparr>pg_argc = int ?n, pg_argv = kblock g\<rparr>\<rparr>), pmem := m\<rparr>)"
    using count_run [OF ch(1,3)] ch(2) M(1,3) R(1) by (simp add: process_inject_arguments_def derefx_def)
  have ok': "proc_ok (st\<lparr>procs := (procs st)(process \<mapsto> p\<lparr>p_allocations := al\<rparr>), pmem := m\<rparr>) (grant A (set (g # fs))) process
      (p\<lparr>p_allocations := al\<rparr>) t c d us" using R(2) unfolding eq(1) gr unfolding eq(2) .
  have new: "\<forall>f \<in> set (g # fs). A f = None \<and> f < KBLOCKS" "g \<notin> set fs" using R(3) M(2,3) by (auto split: if_splits)
  have og: "own_page m d g" using own_page_keep [OF M(7) new(2)] R(5) by simp
  have pa: "passed m d g 0 fs (map (arg_text (pmem st)) as)" using R(4) unfolding fm(2) [symmetric] by simp
  have fr: "\<forall>a. untouched A us a \<longrightarrow> m a = pmem st a" using R(6) M(8) gu untouched_le [OF _ le] by simp
  show ?thesis by (intro exI conjI) (rule run, rule ok', rule new(1), rule og, rule pa, rule fr)
qed

text \<open>
  C15. Arguments. For a list of \<open>command_argument\<close> structures that lies in live or non-heap memory, and a process with
  enough free memory and table entries, \<open>process_inject_arguments\<close> returns zero and leaves in the process the length
  of the list and a vector: for each structure the process finds, through its own page tables, the address of a copy of
  the text, ended by a zero byte. No byte that was in use before changes.
\<close>

theorem process_inject_arguments_passes:
  assumes "proc_ok st A process p t c d us" and "arg_chain (pmem st) root as" and "as \<noteq> []" and "length as < fuel"
    and "length as < free_blocks A" and "length as < free_entries p" and "\<forall>a \<in> set as. \<forall>k < 516. untouched A us (a + of_nat k)"
  shows "\<exists>st' p' argv. process_inject_arguments fuel process root st = Ret (0, st') \<and> procs st' process = Some p' \<and>
    process_get_arguments p' = (int (length as), argv) \<and>
    (\<forall>j < length as. mem_bytes (user_byte st' t) (load32 (user_byte st' t) (argv + 4 * of_nat j)) (Suc (length (arg_text (pmem st) (as ! j)))) =
       arg_text (pmem st) (as ! j) @ [0]) \<and>
    (\<forall>a. untouched A us a \<longrightarrow> pmem st' a = pmem st a)"
proof -
  obtain g fs m al where R: "process_inject_arguments fuel process root st = Ret (0, st\<lparr>procs := (procs st)(process \<mapsto>
        p\<lparr>p_allocations := al, p_arguments := \<lparr>pg_argc = int (length as), pg_argv = kblock g\<rparr>\<rparr>), pmem := m\<rparr>)"
    "proc_ok (st\<lparr>procs := (procs st)(process \<mapsto> p\<lparr>p_allocations := al\<rparr>), pmem := m\<rparr>) (grant A (set (g # fs))) process (p\<lparr>p_allocations := al\<rparr>) t c d us"
    "\<forall>f \<in> set (g # fs). A f = None \<and> f < KBLOCKS" "own_page m d g" "passed m d g 0 fs (map (arg_text (pmem st)) as)"
    "\<forall>a. untouched A us a \<longrightarrow> m a = pmem st a"
    using inject_arguments_run [OF assms] by blast
  let ?p = "p\<lparr>p_allocations := al, p_arguments := \<lparr>pg_argc = int (length as), pg_argv = kblock g\<rparr>\<rparr>"
  let ?st = "st\<lparr>procs := (procs st)(process \<mapsto> ?p), pmem := m\<rparr>"
  have dir: "directory_entry (pmem ?st) (t_page_directory t) = kblock d" using R(2) by (simp add: proc_ok_def owns_chunk_def)
  have n: "length as \<le> 1024" using assms(1,6) free_entries_bound [of A p] by (simp add: proc_ok_def)
  have "mem_bytes (user_byte ?st t) (load32 (user_byte ?st t) (kblock g + 4 * of_nat j)) (Suc (length (arg_text (pmem st) (as ! j)))) =
      arg_text (pmem st) (as ! j) @ [0]" if j: "j < length as" for j
  proof -
    have P: "load32 m (cell (kblock g) j) = kblock (fs ! j)" "own_page m d (fs ! j)" "fs ! j < KBLOCKS"
      "mem_bytes m (kblock (fs ! j)) (Suc (length (arg_text (pmem st) (as ! j)))) = arg_text (pmem st) (as ! j) @ [0]"
      using passedD [OF R(5), of j] R(3) j by simp_all
    have "load32 (user_byte ?st t) (cell (kblock g) j) = kblock (fs ! j)"
      using own_page_bytes(2) [OF _ dir, of g j] R(3,4) P(1) j n by simp
    moreover have "mem_bytes (user_byte ?st t) (kblock (fs ! j)) (Suc (length (arg_text (pmem st) (as ! j)))) = arg_text (pmem st) (as ! j) @ [0]"
      using own_page_bytes(1) [OF _ dir, of "fs ! j"] P arg_text_length [of "pmem st" "as ! j"] by simp
    ultimately show ?thesis by (simp add: cell_def)
  qed
  then show ?thesis
    using R(1,6) by (intro exI [of _ ?st] exI [of _ ?p] exI [of _ "kblock g"]) (simp add: process_get_arguments_def)
qed

text \<open>The argument \<open>hi\<close> in low memory.\<close>

definition demo_arguments :: process_machine where
  "demo_arguments = demo_process_machine\<lparr>pmem := mem_write (pmem demo_process_machine) 0x500 ([0x68, 0x69] @ replicate 514 0)\<rparr>"

lemma demo_argument_bytes:
  "k < 516 \<Longrightarrow> pmem demo_arguments (0x500 + of_nat k) = ([0x68, 0x69] @ replicate 514 0) ! k"
  by (simp add: demo_arguments_def mem_write_apply in_range_offset unat_of_nat del: append_Cons)

lemma demo_arguments_ok:
  "\<exists>A p t c d us. proc_ok demo_arguments A 0x10 p t c d us \<and> free_entries p = 1024 \<and> 100 < free_blocks A \<and>
     (\<forall>k < 516. untouched A us (0x500 + of_nat k))"
proof -
  have low: "\<not> in_data (0x500 + of_nat k) \<and> KBLOCKS \<le> tbl_off (h_table kernel_heap_value) (0x500 + of_nat k)" if "k < 516" for k
  proof -
    have "unat (0x500 + of_nat k :: u32) = 0x500 + k" using that by (simp add: unat_word_ariths unat_of_nat)
    moreover have "unat (0x500 + of_nat k - 0x7E00 :: u32) = 2 ^ 32 + 0x500 + k - 0x7E00"
      using that by (simp add: unat_sub_if' unat_word_ariths unat_of_nat)
    ultimately show ?thesis using that by (simp add: in_data_def tbl_off_def kernel_heap_value_def)
  qed
  obtain A p t c d us where D: "proc_ok demo_process_machine A 0x10 p t c d us" "p_allocations p = replicate 1024 \<lparr>pa_ptr = 0, pa_size = 0\<rparr>"
    "100 < free_blocks A" using demo_process_ok by blast
  have "proc_ok demo_arguments A 0x10 p t c d us"
    unfolding demo_arguments_def
  proof (rule proc_ok_outside [OF D(1)])
    fix a :: u32 assume a: "in_data a \<or> tbl_off (h_table kernel_heap_value) a < KBLOCKS"
    have "\<not> in_range 0x500 516 a"
    proof
      assume "in_range 0x500 516 a"
      then have "unat (a - 0x500) < 516" "a = 0x500 + of_nat (unat (a - 0x500))" by (simp_all add: in_range_def)
      then show False using low [of "unat (a - 0x500)"] a by simp
    qed
    then show "mem_write (pmem demo_process_machine) 0x500 ([0x68, 0x69] @ replicate 514 0) a = pmem demo_process_machine a"
      by (simp add: mem_write_apply del: append_Cons)
  qed
  moreover have "free_entries p = 1024" by (simp add: free_entries_def D(2))
  moreover have "\<forall>k < 516. untouched A us (0x500 + of_nat k)" using low by (simp add: untouched_def)
  ultimately show ?thesis using D(3) by blast
qed

theorem process_inject_arguments_passes_witness:
  "\<exists>st' p' argv t. process_inject_arguments 2 0x10 0x500 demo_arguments = Ret (0, st') \<and> procs st' 0x10 = Some p' \<and>
     process_get_arguments p' = (1, argv) \<and> mem_bytes (user_byte st' t) (load32 (user_byte st' t) argv) 3 = [0x68, 0x69, 0]"
proof -
  obtain A p t c d us where D: "proc_ok demo_arguments A 0x10 p t c d us" "free_entries p = 1024" "100 < free_blocks A"
    "\<forall>k < 516. untouched A us (0x500 + of_nat k)"
    using demo_arguments_ok by blast
  have "mem_bytes (pmem demo_arguments) 0x500 511 = take 511 ([0x68, 0x69] @ replicate 514 0)"
    by (rule nth_equalityI) (simp_all add: mem_bytes_nth demo_argument_bytes nth_Cons')
  then have tx: "arg_text (pmem demo_arguments) 0x500 = [0x68, 0x69]" by (simp add: arg_text_def cstr_def)
  have "load32 (pmem demo_arguments) 0x700 = load32 (\<lambda>_. 0) 0x700"
    using demo_argument_bytes [of "512 + _"] by (intro load32_cong) (simp add: nth_Cons')
  then have "argument_next (pmem demo_arguments) 0x500 = 0" by (simp add: argument_next_def load32_def)
  then have ch: "arg_chain (pmem demo_arguments) 0x500 [0x500]" by simp
  show ?thesis
    using process_inject_arguments_passes [OF D(1) ch, of 2] D(2-4) by (auto simp: tx numeral_3_eq_3)
qed

end
