(* ===== verification/User_Lib.thy ===== *)
theory User_Lib
  imports Process
begin

text \<open>
  The library the user programs are linked with, \<open>src/programs/stdlib/src\<close>: \<open>strtok\<close>, \<open>itoa\<close>, \<open>printf\<close>, reading a line
  and splitting a command into arguments. The other functions of the library are in
  \<open>User_String\<close>. The memory here is the one the
  program sees; the system calls it makes are listed in the order it makes them, and what they return comes in
  as an argument.
\<close>

section \<open>string.c: strtok\<close>

text \<open>The loop over the delimiters: the index of the first that equals the character, or their number.\<close>

fun delimiter_index :: "u8 \<Rightarrow> nat \<Rightarrow> u8 list \<Rightarrow> nat" where
  "delimiter_index c i [] = i"
| "delimiter_index c i (d # ds) = (if c = d then i else delimiter_index c (Suc i) ds)"

text \<open>The loop that skips delimiters, and the one that looks for the end of the token and cuts it off.\<close>

primrec strtok_skip :: "nat \<Rightarrow> u8 list \<Rightarrow> u32 \<Rightarrow> mem \<Rightarrow> u32 exec" where
  "strtok_skip 0 ds p_start m = Trap Diverge"
| "strtok_skip (Suc fuel) ds p_start m =
     (let i = delimiter_index (m p_start) 0 ds
      in if i < length ds then strtok_skip fuel ds (p_start + 1) m else Ret p_start)"

primrec strtok_cut :: "nat \<Rightarrow> u8 list \<Rightarrow> u32 \<Rightarrow> mem \<Rightarrow> (u32 \<times> mem) exec" where
  "strtok_cut 0 ds sp m = Trap Diverge"
| "strtok_cut (Suc fuel) ds sp m =
     (if m sp \<noteq> 0 then
        let i = delimiter_index (m sp) 0 ds;
            m = (if i < length ds then m(sp := 0) else m);
            sp = sp + 1
        in if i < length ds then Ret (sp, m) else strtok_cut fuel ds sp m
      else Ret (sp, m))"

text \<open>The static variable \<open>sp\<close> is an argument and a result; \<open>ds\<close> is the string of the delimiters without its terminator.\<close>

definition strtok :: "nat \<Rightarrow> u32 \<Rightarrow> u8 list \<Rightarrow> u32 \<Rightarrow> mem \<Rightarrow> (u32 \<times> u32 \<times> mem) exec" where
  "strtok fuel str ds sp m =
     (if str = 0 \<and> sp = 0 then Ret (0, sp, m)
      else
        let sp = (if str \<noteq> 0 \<and> sp = 0 then str else sp)
        in bindx (strtok_skip fuel ds sp m) (\<lambda>p_start.
             if m p_start = 0 then Ret (0, 0, m)
             else bindx (strtok_cut fuel ds p_start m) (\<lambda>(sp, m). Ret (p_start, sp, m))))"

section \<open>stdlib.c: itoa\<close>

text \<open>The buffer, and \<open>loc\<close>; the value is not positive here. A store before the buffer is a \<open>Fault\<close>.\<close>

definition put_before :: "u8 list \<times> nat \<Rightarrow> u8 \<Rightarrow> (u8 list \<times> nat) exec" where
  "put_before b c = (case snd b of 0 \<Rightarrow> Trap Fault | Suc loc \<Rightarrow> Ret ((fst b)[loc := c], loc))"

function itoa_loop :: "int \<Rightarrow> u8 list \<times> nat \<Rightarrow> (u8 list \<times> nat) exec" where
  "itoa_loop i b =
     (if i = 0 then Ret b else bindx (put_before b (word_of_int (48 - i smod 10))) (\<lambda>b. itoa_loop (i sdiv 10) b))"
  by pat_completeness auto
termination
proof (relation "measure (\<lambda>(i, b). nat \<bar>i\<bar>)")
  fix i :: int and b b' :: "u8 list \<times> nat"
  assume "i \<noteq> 0"
  moreover have "\<bar>i sdiv 10\<bar> = \<bar>i\<bar> div 10" by (cases "i = 0") (simp_all add: signed_divide_int_def abs_mult)
  ultimately show "((i sdiv 10, b'), (i, b)) \<in> measure (\<lambda>(i, b). nat \<bar>i\<bar>)" by auto
qed simp

declare itoa_loop.simps [simp del]

text \<open>The result is the buffer and the index of the first character.\<close>

definition itoa :: "int \<Rightarrow> u8 list \<Rightarrow> (u8 list \<times> nat) exec" where
  "itoa i text =
     (let neg = \<not> i \<ge> 0; i = (if i \<ge> 0 then - i else i)
      in bindx (itoa_loop i (text[11 := 0], 11)) (\<lambda>b.
         bindx (if snd b = 11 then put_before b 48 else Ret b) (\<lambda>b.
           if neg then put_before b 45 else Ret b)))"

section \<open>stdio.c: printf\<close>

text \<open>The system calls of the functions that write, and the variable arguments.\<close>

datatype outcall = Maeros_putchar u8 | Print "u8 list"

datatype argument = Int_arg int | String_arg "u8 list"

text \<open>
  \<open>p\<close> points into the format; the result is the calls. A \<open>va_arg\<close> without an argument of its type is a
  \<open>Fault\<close>, and so is to run past the end of the format. \<open>text\<close> is the static buffer of \<open>itoa\<close>.
\<close>

fun printf_loop :: "u8 list \<Rightarrow> argument list \<Rightarrow> u8 list \<Rightarrow> outcall list exec" where
  "printf_loop [] ap text = Trap Fault"
| "printf_loop (c # p) ap text =
     (if c = 0 then Ret []
      else if c \<noteq> 0x25 then bindx (printf_loop p ap text) (\<lambda>out. Ret (Maeros_putchar c # out))
      else case p of
        [] \<Rightarrow> Trap Fault
      | d # p \<Rightarrow>
          if d = 0x69 then
            (case ap of
               Int_arg ival # ap \<Rightarrow>
                 bindx (itoa ival text) (\<lambda>(text, loc).
                 bindx (printf_loop p ap text) (\<lambda>out. Ret (Print (drop loc text) # out)))
             | _ \<Rightarrow> Trap Fault)
          else if d = 0x73 then
            (case ap of
               String_arg sval # ap \<Rightarrow> bindx (printf_loop p ap text) (\<lambda>out. Ret (Print sval # out))
             | _ \<Rightarrow> Trap Fault)
          else bindx (printf_loop p ap text) (\<lambda>out. Ret (Maeros_putchar d # out)))"

definition printf :: "u8 list \<Rightarrow> argument list \<Rightarrow> u8 list \<Rightarrow> outcall list exec" where
  "printf fmt ap text = printf_loop fmt ap text"

section \<open>peachos.c\<close>

text \<open>The answers of successive \<open>peachos_getkey\<close> calls; when none is left the program waits for ever.\<close>

fun peachos_getkeyblock :: "u32 list \<Rightarrow> (u32 \<times> u32 list) exec" where
  "peachos_getkeyblock [] = Trap Diverge"
| "peachos_getkeyblock (val # keys) = (if val = 0 then peachos_getkeyblock keys else Ret (val, keys))"

lemma getkeyblock_shrinks: "peachos_getkeyblock keys = Ret (v, keys') \<Longrightarrow> length keys' < length keys"
  by (induction keys) (auto split: if_splits)

text \<open>The loop of \<open>peachos_terminal_readline\<close>: the final index, the buffer, the characters echoed, the keys left.\<close>

function readline_loop ::
  "nat \<Rightarrow> int \<Rightarrow> bool \<Rightarrow> u8 list \<Rightarrow> u32 list \<Rightarrow> (nat \<times> u8 list \<times> outcall list \<times> u32 list) exec" where
  "readline_loop i mx echo out keys =
     (if int i < mx - 1 then
        bindx (peachos_getkeyblock keys) (\<lambda>(v, keys').
          let key = (ucast v :: u8)
          in if key = 13 then Ret (i, out, [], keys')
             else
               let calls = (if echo then [Maeros_putchar key] else [])
               in if key = 0x08 \<and> i \<ge> 1
                  then bindx (put_byte out (i - 1) 0x00) (\<lambda>out.
                       bindx (readline_loop (i - 1) mx echo out keys') (\<lambda>(j, out, more, rest). Ret (j, out, calls @ more, rest)))
                  else bindx (put_byte out i key) (\<lambda>out.
                       bindx (readline_loop (Suc i) mx echo out keys') (\<lambda>(j, out, more, rest). Ret (j, out, calls @ more, rest))))
      else Ret (i, out, [], keys))"
  by pat_completeness auto
termination
  by (relation "measure (\<lambda>(i, mx, echo, out, keys). length keys)") (auto dest: getkeyblock_shrinks)

declare readline_loop.simps [simp del]

definition peachos_terminal_readline ::
  "u8 list \<Rightarrow> int \<Rightarrow> bool \<Rightarrow> u32 list \<Rightarrow> (u8 list \<times> outcall list \<times> u32 list) exec" where
  "peachos_terminal_readline out mx output_while_typing keys =
     bindx (readline_loop 0 mx output_while_typing out keys) (\<lambda>(i, out, calls, rest).
     bindx (put_byte out i 0x00) (\<lambda>out. Ret (out, calls, rest)))"

text \<open>
  The memory of a program with the static variable \<open>sp\<close>; \<open>scommand\<close> and \<open>buf\<close> are the addresses of the arrays of
  these names on its stack. \<open>alloc\<close> is what the system call \<open>maeros_malloc\<close> does to it. A \<open>command_argument\<close> is 512
  bytes of text and the pointer to the next.
\<close>

record user_machine =
  umem :: mem
  strtok_sp :: u32
  scommand :: u32
  buf :: u32

definition user_strtok :: "nat \<Rightarrow> u32 \<Rightarrow> u8 list \<Rightarrow> user_machine \<Rightarrow> (u32 \<times> user_machine) exec" where
  "user_strtok fuel str ds st =
     bindx (strtok fuel str ds (strtok_sp st) (umem st)) (\<lambda>(p, sp, m). Ret (p, st\<lparr>umem := m, strtok_sp := sp\<rparr>))"

definition set_argument_text :: "u32 \<Rightarrow> u32 \<Rightarrow> user_machine \<Rightarrow> user_machine" where
  "set_argument_text cmd token st =
     st\<lparr>umem := store32 (mem_strncpy cmd token 512 (umem st)) (cmd + 512) 0\<rparr>"

primrec parse_command_loop ::
  "nat \<Rightarrow> (u32 \<Rightarrow> user_machine \<Rightarrow> u32 \<times> user_machine) \<Rightarrow> u32 \<Rightarrow> u32 \<Rightarrow> user_machine \<Rightarrow> user_machine exec" where
  "parse_command_loop 0 alloc current token st = Trap Diverge"
| "parse_command_loop (Suc fuel) alloc current token st =
     (if token = 0 then Ret st
      else
        let (new_command, st) = alloc 516 st
        in if new_command = 0 then Ret st
           else
             let st = set_argument_text new_command token st;
                 st = st\<lparr>umem := store32 (umem st) (current + 512) new_command\<rparr>
             in bindx (user_strtok (Suc fuel) 0 [0x20] st) (\<lambda>(token, st).
                  parse_command_loop fuel alloc new_command token st))"

definition peachos_parse_command ::
  "nat \<Rightarrow> (u32 \<Rightarrow> user_machine \<Rightarrow> u32 \<times> user_machine) \<Rightarrow> u32 \<Rightarrow> int \<Rightarrow> user_machine \<Rightarrow> (u32 \<times> user_machine) exec" where
  "peachos_parse_command fuel alloc command mx st =
     (if mx \<ge> 1025 then Ret (0, st)
      else
        let st = st\<lparr>umem := mem_strncpy (scommand st) command 1025 (umem st)\<rparr>
        in bindx (user_strtok fuel (scommand st) [0x20] st) (\<lambda>(token, st).
             if token = 0 then Ret (0, st)
             else
               let (root_command, st) = alloc 516 st
               in if root_command = 0 then Ret (0, st)
                  else
                    let st = set_argument_text root_command token st
                    in bindx (user_strtok fuel 0 [0x20] st) (\<lambda>(token, st).
                       bindx (parse_command_loop fuel alloc root_command token st) (\<lambda>st. Ret (root_command, st)))))"

text \<open>\<open>system\<close> is what the system call \<open>maeros_system\<close> does, when it comes back.\<close>

definition maeros_system_run ::
  "nat \<Rightarrow> (u32 \<Rightarrow> user_machine \<Rightarrow> u32 \<times> user_machine) \<Rightarrow> (u32 \<Rightarrow> user_machine \<Rightarrow> (int \<times> user_machine) exec) \<Rightarrow>
    u32 \<Rightarrow> user_machine \<Rightarrow> (int \<times> user_machine) exec" where
  "maeros_system_run fuel alloc system command st =
     (let st = st\<lparr>umem := mem_strncpy (buf st) command 1024 (umem st)\<rparr>
      in bindx (peachos_parse_command fuel alloc (buf st) 1024 st) (\<lambda>(root_command_argument, st).
           if root_command_argument = 0 then Ret (- 1, st) else system root_command_argument st))"

end
