(* ===== verification/User_Proofs.thy ===== *)
theory User_Proofs
  imports User_Lib
begin

text \<open>
  What the library of the user programs does, against reference definitions: the decimal text of a number, the
  words of a string, the text a format stands for, and a line editor.
\<close>

section \<open>Numbers\<close>

text \<open>The decimal digits of a positive number, none for zero, and the text of a number.\<close>

fun digits :: "nat \<Rightarrow> u8 list" where
  "digits n = (if n = 0 then [] else digits (n div 10) @ [of_nat (48 + n mod 10)])"

declare digits.simps [simp del]

definition show_int :: "int \<Rightarrow> u8 list" where
  "show_int i = (if i < 0 then [45] else []) @ (if i = 0 then [48] else digits (nat \<bar>i\<bar>))"

lemma digits_length: "n < 10 ^ k \<Longrightarrow> length (digits n) \<le> k"
proof (induction k arbitrary: n)
  case 0
  then show ?case by (simp add: digits.simps)
next
  case (Suc k)
  have "n div 10 < 10 ^ k" using Suc.prems by (simp add: less_mult_imp_div_less mult.commute)
  then show ?case using Suc.IH [of "n div 10"] by (subst digits.simps) simp
qed

lemma digit_nonzero: "of_nat (48 + n mod 10) \<noteq> (0 :: u8)"
proof -
  have "n mod 10 < 10" by simp
  then have "unat (of_nat (48 + n mod 10) :: u8) = 48 + n mod 10" by (simp add: unat_of_nat del: of_nat_add)
  then show ?thesis by (metis add_is_0 unsigned_0 zero_neq_numeral)
qed

lemma digits_nonzero: "0 \<notin> set (digits n)"
proof (induction n rule: digits.induct)
  case (1 n)
  then show ?case using digit_nonzero [of n] by (subst digits.simps) auto
qed

lemma neg_quotient: "(- int n) sdiv 10 = - int (n div 10)" "(- int n) smod 10 = - int (n mod 10)"
  by (cases "n = 0"; simp add: signed_divide_int_def signed_modulo_int_def zdiv_int zmod_int)+

lemma itoa_loop_run:
  assumes "length (digits n) \<le> loc" and "loc \<le> length bs"
  shows "itoa_loop (- int n) (bs, loc) =
    Ret (take (loc - length (digits n)) bs @ digits n @ drop loc bs, loc - length (digits n))"
  using assms
proof (induction n arbitrary: bs loc rule: less_induct)
  case (less n)
  show ?case
  proof (cases "n = 0")
    case True
    then show ?thesis by (subst itoa_loop.simps) (simp add: digits.simps)
  next
    case False
    define d where "d = (of_nat (48 + n mod 10) :: u8)"
    have dn: "digits n = digits (n div 10) @ [d]" using False by (subst digits.simps) (simp add: d_def)
    then obtain l where l: "loc = Suc l" using less.prems(1) by (cases loc) simp_all
    have "(word_of_int (48 - (- int n) smod 10) :: u8) = word_of_int (int (48 + n mod 10))"
      unfolding neg_quotient by simp
    then have c: "(word_of_int (48 - (- int n) smod 10) :: u8) = d" unfolding d_def by (simp only: of_int_of_nat_eq)
    have "itoa_loop (- int (n div 10)) (bs[l := d], l) =
        Ret (take (l - length (digits (n div 10))) (bs[l := d]) @ digits (n div 10) @ drop l (bs[l := d]), l - length (digits (n div 10)))"
      using False less.prems dn l by (intro less.IH) simp_all
    moreover have "drop l (bs[l := d]) = d # drop (Suc l) bs"
      using less.prems(2) l by (simp add: drop_update_swap Cons_nth_drop_Suc [symmetric])
    ultimately have "itoa_loop (- int (n div 10)) (bs[l := d], l) =
        Ret (take (l - length (digits (n div 10))) bs @ digits (n div 10) @ d # drop (Suc l) bs, l - length (digits (n div 10)))"
      by simp
    then show ?thesis
      using False c by (subst itoa_loop.simps) (simp only: neg_quotient, simp add: put_before_def l dn)
  qed
qed

lemma itoa_run:
  assumes "- (2 ^ 31) \<le> i" "i < 2 ^ 31" and "length text = 12"
  shows "\<exists>text' loc. itoa i text = Ret (text', loc) \<and> length text' = 12 \<and> loc \<le> 11 \<and> drop loc text' = show_int i @ [0]"
proof -
  define n where "n = nat \<bar>i\<bar>"
  have "n < 10 ^ 10" using assms(1,2) by (simp add: n_def)
  then have len: "length (digits n) \<le> 10" by (rule digits_length)
  let ?t = "text[11 := 0]" and ?k = "11 - length (digits n)"
  have ii: "(if i \<ge> 0 then - i else i) = - int n" by (simp add: n_def)
  define b where "b = take ?k ?t @ digits n @ [0]"
  have d11: "drop 11 ?t = [0]" using assms(3) by (simp add: drop_update_swap Cons_nth_drop_Suc [symmetric])
  have B: "itoa_loop (- int n) (?t, 11) = Ret (b, ?k)"
    using itoa_loop_run [of n 11 ?t] len assms(3) d11 by (simp add: b_def)
  have lb: "length b = 12" using len assms(3) by (simp add: b_def)
  show ?thesis
  proof (cases "i = 0")
    case True
    then have "digits n = []" by (simp add: n_def digits.simps)
    then have "b = take 11 ?t @ [0]" by (simp add: b_def)
    then have "drop 10 (b[10 := 48]) = [48, 0]" using assms(3) by (simp add: drop_update_swap list_update_append nth_append Cons_nth_drop_Suc [symmetric])
    then show ?thesis using B True ii \<open>digits n = []\<close> lb
      by (simp add: itoa_def put_before_def show_int_def Let_def n_def eval_nat_numeral)
  next
    case False
    then have ne: "digits n \<noteq> []" by (subst digits.simps) (simp add: n_def)
    then have k: "?k \<noteq> 11" "?k \<noteq> 0" using len by (cases "digits n"; simp)+
    then obtain l where l: "?k = Suc l" by (cases ?k) simp_all
    have db: "drop ?k b = digits n @ [0]" using len assms(3) by (simp add: b_def)
    have "drop l (b[l := 45]) = 45 # digits n @ [0]"
      using db lb l by (simp add: drop_update_swap Cons_nth_drop_Suc [symmetric])
    with B ii k l lb db False show ?thesis
      by (auto simp: itoa_def put_before_def show_int_def Let_def n_def [symmetric])
  qed
qed

section \<open>Words\<close>

text \<open>The words of a string: the maximal parts without delimiters.\<close>

function words :: "u8 list \<Rightarrow> u8 list \<Rightarrow> u8 list list" where
  "words ds s =
     (let r = dropWhile (\<lambda>c. c \<in> set ds) s
      in if r = [] then []
         else takeWhile (\<lambda>c. c \<notin> set ds) r # words ds (dropWhile (\<lambda>c. c \<notin> set ds) r))"
  by pat_completeness auto
termination
proof (relation "measure (\<lambda>(ds, s). length s)")
  fix ds s r :: "u8 list"
  assume r: "r = dropWhile (\<lambda>c. c \<in> set ds) s" "r \<noteq> []"
  then have "hd r \<notin> set ds" by (metis hd_dropWhile)
  with r(2) have "length (dropWhile (\<lambda>c. c \<notin> set ds) r) < length r"
    by (cases r) (auto intro: le_imp_less_Suc length_dropWhile_le)
  also have "length r \<le> length s" unfolding r(1) by (rule length_dropWhile_le)
  finally show "((ds, dropWhile (\<lambda>c. c \<notin> set ds) r), ds, s) \<in> measure (\<lambda>(ds, s). length s)" by simp
qed simp

declare words.simps [simp del]

text \<open>The string \<open>s\<close> stands at address \<open>a\<close>.\<close>

definition string_at :: "mem \<Rightarrow> nat \<Rightarrow> u8 list \<Rightarrow> bool" where
  "string_at m a s \<longleftrightarrow> (\<forall>i < length s. m (of_nat (a + i)) = s ! i) \<and> m (of_nat (a + length s)) = 0 \<and>
     0 \<notin> set s \<and> 0 < a \<and> a + length s + 1 < 2 ^ 32"

lemma string_at_Cons:
  "string_at m a (c # s) \<longleftrightarrow> m (of_nat a) = c \<and> c \<noteq> 0 \<and> 0 < a \<and> string_at m (Suc a) s"
  by (auto simp: string_at_def All_less_Suc2 add_ac)

lemma string_at_Nil: "string_at m a [] \<longleftrightarrow> m (of_nat a) = 0 \<and> 0 < a \<and> a + 1 < 2 ^ 32"
  by (simp add: string_at_def)

text \<open>Changes below the string do not matter.\<close>

lemma string_at_upd:
  assumes "string_at m a s" and "b < a \<or> a + length s < b \<and> b < 2 ^ 32"
  shows "string_at (m(of_nat b := x)) a s"
proof -
  have "(of_nat (a + i) :: u32) \<noteq> of_nat b" if "i \<le> length s" for i
    using that assms by (subst of_nat_inj32) (auto simp: string_at_def)
  then show ?thesis using assms(1) by (auto simp: string_at_def)
qed

lemma delimiter_index_less: "delimiter_index c i ds < i + length ds \<longleftrightarrow> c \<in> set ds"
proof (induction ds arbitrary: i)
  case (Cons d ds)
  then show ?case using Cons.IH [of "Suc i"] by simp
qed simp

lemma delimiter_index_iff: "delimiter_index c 0 ds < length ds \<longleftrightarrow> c \<in> set ds"
  using delimiter_index_less [of c 0 ds] by simp

lemma skip_run:
  assumes "string_at m a s" and "0 \<notin> set ds" and "length s < fuel"
  shows "strtok_skip fuel ds (of_nat a) m = Ret (of_nat (a + length s - length (dropWhile (\<lambda>c. c \<in> set ds) s)))"
  using assms(1,3)
proof (induction s arbitrary: a fuel)
  case Nil
  then show ?case using assms(2) by (cases fuel) (auto simp: string_at_Nil delimiter_index_iff Let_def)
next
  case (Cons c s)
  then obtain f where f: "fuel = Suc f" "length s < f" by (cases fuel) auto
  have "strtok_skip f ds (of_nat (Suc a)) m = Ret (of_nat (Suc a + length s - length (dropWhile (\<lambda>c. c \<in> set ds) s)))"
    using Cons.prems f by (intro Cons.IH) (auto simp: string_at_Cons)
  with Cons.prems(1) f show ?case
    by (auto simp: string_at_Cons delimiter_index_iff Let_def add.commute)
qed

text \<open>What is left behind the token, and where it starts.\<close>

lemma cut_run:
  fixes ds :: "u8 list"
  assumes "string_at m a s" and "length s < fuel"
  defines "w \<equiv> takeWhile (\<lambda>c. c \<notin> set ds) s" and "r \<equiv> dropWhile (\<lambda>c. c \<notin> set ds) s"
  shows "strtok_cut fuel ds (of_nat a) m =
    (if r = [] then Ret (of_nat (a + length w), m)
     else Ret (of_nat (a + length w + 1), m(of_nat (a + length w) := 0)))"
  using assms(1,2) unfolding w_def r_def
proof (induction s arbitrary: a fuel)
  case Nil
  then show ?case by (cases fuel) (auto simp: string_at_Nil)
next
  case (Cons c s)
  then obtain f where f: "fuel = Suc f" "length s < f" by (cases fuel) auto
  show ?case
  proof (cases "c \<in> set ds")
    case True
    with Cons.prems(1) f show ?thesis by (simp add: string_at_Cons delimiter_index_iff Let_def add.commute)
  next
    case False
    have "string_at m (Suc a) s" using Cons.prems(1) by (simp add: string_at_Cons)
    from Cons.IH [OF this f(2)] False Cons.prems(1) f(1) show ?thesis
      by (simp add: string_at_Cons delimiter_index_iff Let_def add.commute fun_upd_def)
  qed
qed

text \<open>One call: the next word, cut off where it stands, and the rest of the string behind it.\<close>

lemma strtok_run:
  assumes at: "string_at m a s" and ds: "0 \<notin> set ds" and fuel: "length s < fuel"
    and start: "str = of_nat a \<and> sp = 0 \<or> str = 0 \<and> sp = of_nat a"
  shows "(words ds s = [] \<longrightarrow> strtok fuel str ds sp m = Ret (0, 0, m)) \<and>
    (\<forall>w ws. words ds s = w # ws \<longrightarrow> (\<exists>b c m' r. strtok fuel str ds sp m = Ret (of_nat b, of_nat c, m') \<and>
      a \<le> b \<and> b + length w \<le> c \<and> c + length r \<le> a + length s \<and> length r < length s \<and> 0 < c \<and>
      string_at m' b w \<and> string_at m' c r \<and> words ds r = ws \<and>
      (\<forall>x. m' x \<noteq> m x \<longrightarrow> x = of_nat (b + length w) \<and> b + length w < c)))"
proof -
  let ?r = "dropWhile (\<lambda>c. c \<in> set ds) s"
  define b where "b = a + length s - length ?r"
  have lr: "length ?r \<le> length s" by (rule length_dropWhile_le)
  have a0: "(of_nat a :: u32) \<noteq> 0" using at of_nat_inj32 [of a 0] by (auto simp: string_at_def)
  then have unf: "strtok fuel str ds sp m = bindx (strtok_skip fuel ds (of_nat a) m) (\<lambda>p_start.
      if m p_start = 0 then Ret (0, 0, m)
      else bindx (strtok_cut fuel ds p_start m) (\<lambda>(sp, m). Ret (p_start, sp, m)))"
    using start by (auto simp: strtok_def)
  have skip: "strtok_skip fuel ds (of_nat a) m = Ret (of_nat b)" using skip_run [OF at ds fuel] by (simp add: b_def)
  have atb: "string_at m b ?r"
    using at unfolding b_def
  proof (induction s arbitrary: a)
    case (Cons c s)
    then show ?case
      using Cons.IH [of "Suc a"] length_dropWhile_le [of "\<lambda>c. c \<in> set ds" s] by (auto simp: string_at_Cons Suc_diff_le)
  qed simp
  show ?thesis
  proof (cases "?r = []")
    case True
    then have "words ds s = []" by (subst words.simps) (simp add: Let_def)
    moreover have "m (of_nat b) = 0" using atb True by (simp add: string_at_Nil)
    ultimately show ?thesis using unf skip by simp
  next
    case False
    define w where "w = takeWhile (\<lambda>c. c \<notin> set ds) ?r"
    define q where "q = dropWhile (\<lambda>c. c \<notin> set ds) ?r"
    have W: "words ds s = w # words ds q" using False by (subst words.simps) (simp add: Let_def w_def q_def)
    have rq: "?r = w @ q" by (simp add: w_def q_def)
    have "hd ?r \<notin> set ds" using False by (metis hd_dropWhile)
    then have w0: "w \<noteq> []" using False by (cases ?r) (auto simp: w_def)
    have nz: "m (of_nat b) \<noteq> 0" using atb False by (cases ?r) (auto simp: string_at_Cons)
    have cut: "strtok_cut fuel ds (of_nat b) m = (if q = [] then Ret (of_nat (b + length w), m)
       else Ret (of_nat (b + length w + 1), m(of_nat (b + length w) := 0)))"
      unfolding w_def q_def using fuel lr by (intro cut_run [OF atb]) simp
    have le: "a \<le> b" "b + length w + length q = a + length s" using lr unfolding b_def rq by simp_all
    have zq: "0 \<notin> set w" "0 \<notin> set q" "0 < b" "b + length w + length q + 1 < 2 ^ 32"
      "\<forall>i < length w + length q. m (of_nat (b + i)) = (w @ q) ! i" "m (of_nat (b + length w + length q)) = 0"
      using atb unfolding rq by (simp_all add: string_at_def add.assoc)
    show ?thesis
    proof (cases q)
      case Nil
      then have "string_at m b w" "string_at m (b + length w) []" using zq by (auto simp: string_at_def nth_append)
      moreover have "strtok fuel str ds sp m = Ret (of_nat b, of_nat (b + length w), m)"
        unfolding unf skip using nz cut Nil by simp
      moreover have "length s > 0" "b + length w \<le> a + length s" using w0 le Nil by (auto simp: w_def)
      ultimately show ?thesis
        using W le(1) Nil zq(3) by (intro conjI) (simp, intro allI impI, rule exI [of _ b], rule exI [of _ "b + length w"], rule exI [of _ m], rule exI [of _ "[]"], auto)
    next
      case (Cons d r)
      then have dd: "d \<in> set ds" by (metis hd_dropWhile list.sel(1) list.discI q_def)
      then have wr: "words ds q = words ds r" unfolding Cons by (subst (1 2) words.simps) simp
      let ?m = "m(of_nat (b + length w) := 0)"
      have "m (of_nat (b + length w + 1 + i)) = r ! i" if "i < length r" for i
        using zq(5) that Cons by (auto dest!: spec [of _ "length w + Suc i"] simp: nth_append add_ac)
      then have "string_at m (b + length w + 1) r" using zq Cons by (auto simp: string_at_def)
      then have sr: "string_at ?m (b + length w + 1) r" by (rule string_at_upd) simp
      have ne: "(of_nat (b + i) :: u32) \<noteq> of_nat (b + length w)" if "i < length w" for i
        using that zq(4) by (subst of_nat_inj32) auto
      have "\<forall>i < length w. m (of_nat (b + i)) = w ! i" using zq(5) by (auto simp: nth_append)
      then have sw: "string_at ?m b w" using ne zq by (auto simp: string_at_def)
      have cut': "strtok_cut fuel ds (of_nat b) m = Ret (of_nat (b + length w + 1), ?m)" using cut Cons by simp
      have "strtok fuel str ds sp m = Ret (of_nat b, of_nat (b + length w + 1), ?m)"
        unfolding unf skip using nz by (simp only: bindx_Ret cut' if_False prod.case)
      moreover have "b + length w + 1 + length r \<le> a + length s" "length r < length s" using le w0 Cons by simp_all
      ultimately show ?thesis
        using W wr sr sw le(1) by (intro conjI) (simp, intro allI impI, rule exI [of _ b], rule exI [of _ "b + length w + 1"], rule exI [of _ ?m], rule exI [of _ r], auto split: if_splits)
    qed
  qed
qed

text \<open>The loop of a caller: the first call with the string, the others with a null pointer, until null comes back.\<close>

primrec tokens :: "nat \<Rightarrow> nat \<Rightarrow> u32 \<Rightarrow> u8 list \<Rightarrow> u32 \<Rightarrow> mem \<Rightarrow> (u32 list \<times> u32 \<times> mem) exec" where
  "tokens 0 fuel str ds sp m = Trap Diverge"
| "tokens (Suc n) fuel str ds sp m =
     bindx (strtok fuel str ds sp m) (\<lambda>(p, sp, m).
       if p = 0 then Ret ([], sp, m)
       else bindx (tokens n fuel 0 ds sp m) (\<lambda>(ps, sp, m). Ret (p # ps, sp, m)))"

lemma string_at_keep:
  assumes "string_at m b w" and "b + length w < c" and "\<And>x. m' x \<noteq> m x \<Longrightarrow> \<exists>y. x = of_nat y \<and> c \<le> y \<and> y < 2 ^ 32"
  shows "string_at m' b w"
proof -
  have "m' (of_nat (b + i)) = m (of_nat (b + i))" if "i \<le> length w" for i
  proof (rule ccontr)
    assume "m' (of_nat (b + i)) \<noteq> m (of_nat (b + i))"
    then obtain y where "(of_nat (b + i) :: u32) = of_nat y" "c \<le> y" "y < 2 ^ 32" using assms(3) by blast
    then show False using that assms(1,2) by (subst (asm) of_nat_inj32) (auto simp: string_at_def)
  qed
  then show ?thesis using assms(1) by (simp add: string_at_def)
qed

lemma tokens_run:
  assumes "string_at m a s" and "0 \<notin> set ds" and "length s < fuel" and "length s < n"
    and "str = of_nat a \<and> sp = 0 \<or> str = 0 \<and> sp = of_nat a"
  shows "\<exists>bs m'. tokens n fuel str ds sp m = Ret (map of_nat bs, 0, m') \<and> list_all2 (string_at m') bs (words ds s) \<and>
    (\<forall>x. m' x \<noteq> m x \<longrightarrow> (\<exists>y. x = of_nat y \<and> a \<le> y \<and> y < a + length s))"
  using assms(1,3-5)
proof (induction n arbitrary: m a s str sp)
  case (Suc n)
  note S = strtok_run [OF Suc.prems(1) assms(2) Suc.prems(2) Suc.prems(4)]
  show ?case
  proof (cases "words ds s")
    case Nil
    then show ?thesis using S by (intro exI [of _ "[]"]) auto
  next
    case (Cons w ws)
    then obtain b c m1 r where R: "strtok fuel str ds sp m = Ret (of_nat b, of_nat c, m1)"
      "a \<le> b" "b + length w \<le> c" "c + length r \<le> a + length s" "length r < length s" "0 < c"
      "string_at m1 b w" "string_at m1 c r" "words ds r = ws"
      "\<forall>x. m1 x \<noteq> m x \<longrightarrow> x = of_nat (b + length w) \<and> b + length w < c"
      using S by blast
    have lim: "a + length s + 1 < 2 ^ 32" using Suc.prems(1) by (simp add: string_at_def)
    obtain bs m' where IH: "tokens n fuel 0 ds (of_nat c) m1 = Ret (map of_nat bs, 0, m')"
      "list_all2 (string_at m') bs (words ds r)" "\<forall>x. m' x \<noteq> m1 x \<longrightarrow> (\<exists>y. x = of_nat y \<and> c \<le> y \<and> y < c + length r)"
      using Suc.IH [OF R(8), of 0 "of_nat c"] R(5) Suc.prems(2,3) by auto
    have b0: "(of_nat b :: u32) \<noteq> 0" using R(7) of_nat_inj32 [of b 0] by (auto simp: string_at_def)
    have "string_at m' b w"
    proof (cases "b + length w < c")
      case True
      then show ?thesis using R(7) IH(3) lim R(4) by (intro string_at_keep [OF R(7) True]) (meson le_less_trans less_le_trans less_trans less_add_one order.strict_trans2)
    next
      case False
      then have "c = b + length w" using R(3) by simp
      moreover have "r = []"
      proof (cases r)
        case (Cons d t)
        have "m1 (of_nat c) = 0" using R(7) \<open>c = b + length w\<close> by (simp add: string_at_def)
        moreover have "m1 (of_nat c) \<noteq> 0" using R(8) unfolding Cons by (simp add: string_at_Cons)
        ultimately show ?thesis by simp
      qed
      ultimately have "\<And>x. m' x = m1 x" using IH(3) by auto
      then show ?thesis using R(7) by (simp add: string_at_def)
    qed
    then have "list_all2 (string_at m') (b # bs) (words ds s)" using IH(2) R(9) Cons by simp
    moreover have "\<exists>y. x = of_nat y \<and> a \<le> y \<and> y < a + length s" if "m' x \<noteq> m x" for x
    proof (cases "m' x = m1 x")
      case True
      with that have "x = of_nat (b + length w)" "b + length w < c" using R(10) by auto
      then show ?thesis using R(2,4) by (intro exI [of _ "b + length w"]) simp
    next
      case False
      then obtain y where "x = of_nat y" "c \<le> y" "y < c + length r" using IH(3) by blast
      then show ?thesis using R(2-4) by (intro exI [of _ y]) simp
    qed
    moreover have "tokens (Suc n) fuel str ds sp m = Ret (map of_nat (b # bs), 0, m')" using R(1) IH(1) b0 by simp
    ultimately show ?thesis by blast
  qed
qed simp

section \<open>Formats\<close>

text \<open>A format that has the arguments it names, and the text it stands for.\<close>

fun format_ok :: "u8 list \<Rightarrow> argument list \<Rightarrow> bool" where
  "format_ok [] ap = True"
| "format_ok (c # p) ap =
     (c \<noteq> 0 \<and> (if c \<noteq> 0x25 then format_ok p ap
      else case p of
        [] \<Rightarrow> False
      | d # p \<Rightarrow> d \<noteq> 0 \<and>
          (if d = 0x69 then (case ap of Int_arg i # ap \<Rightarrow> - (2 ^ 31) \<le> i \<and> i < 2 ^ 31 \<and> format_ok p ap | _ \<Rightarrow> False)
           else if d = 0x73 then (case ap of String_arg s # ap \<Rightarrow> terminated s \<and> format_ok p ap | _ \<Rightarrow> False)
           else format_ok p ap)))"

fun render :: "u8 list \<Rightarrow> argument list \<Rightarrow> u8 list" where
  "render [] ap = []"
| "render (c # p) ap =
     (if c \<noteq> 0x25 then c # render p ap
      else case p of
        [] \<Rightarrow> []
      | d # p \<Rightarrow>
          if d = 0x69 then (case ap of Int_arg i # ap \<Rightarrow> show_int i @ render p ap | _ \<Rightarrow> [])
          else if d = 0x73 then (case ap of String_arg s # ap \<Rightarrow> take 1023 (cstr s) @ render p ap | _ \<Rightarrow> [])
          else d # render p ap)"

text \<open>What the kernel writes for a call: \<open>isr80h_command1_print\<close> copies the string into 1024 bytes, which cuts it at 1023.\<close>

fun call_text :: "outcall \<Rightarrow> u8 list" where
  "call_text (Maeros_putchar c) = [c]"
| "call_text (Print s) = take 1023 (cstr s)"

lemma show_int_nonzero: "0 \<notin> set (show_int i)"
  using digits_nonzero by (simp add: show_int_def)

lemma printf_run:
  assumes "format_ok p ap" and "length bs = 12"
  shows "\<exists>out. printf_loop (p @ 0 # junk) ap bs = Ret out \<and> concat (map call_text out) = render p ap"
  using assms
proof (induction p ap arbitrary: bs rule: format_ok.induct)
  case (2 c p ap)
  show ?case
  proof (cases "c = 0x25")
    case False
    then show ?thesis using 2 by (auto dest!: 2(1))
  next
    case True
    then obtain d q where p: "p = d # q" using 2(5) by (cases p) auto
    consider "d = 0x69" | "d = 0x73" | "d \<noteq> 0x69" "d \<noteq> 0x73" by blast
    then show ?thesis
    proof cases
      case 1
      then obtain i as where a: "ap = Int_arg i # as" "- (2 ^ 31) \<le> i" "i < 2 ^ 31" "format_ok q as"
        using 2(5) True p by (auto split: list.splits argument.splits)
      then obtain bs' loc where I: "itoa i bs = Ret (bs', loc)" "length bs' = 12" "drop loc bs' = show_int i @ [0]"
        using itoa_run 2(6) by blast
      have "\<exists>out. printf_loop (q @ 0 # junk) as bs' = Ret out \<and> concat (map call_text out) = render q as"
        using True p 1 a I(2) by (intro 2(2)) auto
      moreover have "length (show_int i) \<le> 1023" using arg_cong [OF I(3), of length] I(2) by simp
      ultimately show ?thesis using True p 1 a(1) I show_int_nonzero [of i] by (auto simp: cstr_append)
    next
      case 2
      then obtain t as where a: "ap = String_arg t # as" "format_ok q as"
        using 2 \<open>format_ok (c # p) ap\<close> True p by (auto split: list.splits argument.splits)
      have "\<exists>out. printf_loop (q @ 0 # junk) as bs = Ret out \<and> concat (map call_text out) = render q as"
        using True p 2 a \<open>length bs = 12\<close> by (intro "2.IH"(3)) auto
      then show ?thesis using True p 2 a(1) by auto
    next
      case 3
      have "\<exists>out. printf_loop (q @ 0 # junk) ap bs = Ret out \<and> concat (map call_text out) = render q ap"
        using True p 3 "2.prems" by (intro "2.IH"(4)) auto
      then show ?thesis using True p 3 by auto
    qed
  qed
qed simp

section \<open>Lines\<close>

text \<open>What the keys before the carriage return make of a line; a backspace in an empty line is kept as a character.\<close>

fun edit :: "u8 list \<Rightarrow> u8 list \<Rightarrow> u8 list" where
  "edit line [] = line"
| "edit line (k # ks) = edit (if k = 0x08 \<and> line \<noteq> [] then butlast line else line @ [k]) ks"

lemma getkeyblock_run:
  "filter (\<lambda>v. v \<noteq> 0) keys = v # vs \<Longrightarrow> \<exists>keys'. peachos_getkeyblock keys = Ret (v, keys') \<and> filter (\<lambda>v. v \<noteq> 0) keys' = vs"
  by (induction keys) (auto split: if_splits)

lemma readline_run:
  assumes "map ucast (filter (\<lambda>v. v \<noteq> 0) keys) = ks @ 13 # later" and "13 \<notin> set ks" and "0 \<notin> set ks" and "0 \<notin> set line"
    and "take (length line) out = line" and "int (length line + length ks) < mx - 1" and "length line + length ks < length out"
  shows "\<exists>out' rest. readline_loop (length line) mx echo out keys =
      Ret (length (edit line ks), out', if echo then map Maeros_putchar ks else [], rest) \<and>
    length out' = length out \<and> take (length (edit line ks)) out' = edit line ks \<and> length (edit line ks) < length out \<and>
    0 \<notin> set (edit line ks) \<and> map ucast (filter (\<lambda>v. v \<noteq> 0) rest) = later"
  using assms
proof (induction ks arbitrary: keys line out)
  case Nil
  then obtain v vs where v: "filter (\<lambda>v. v \<noteq> 0) keys = v # vs" "ucast v = (13 :: u8)" "map ucast vs = later" by auto
  then obtain keys' where "peachos_getkeyblock keys = Ret (v, keys')" "filter (\<lambda>v. v \<noteq> 0) keys' = vs" using getkeyblock_run by blast
  then show ?case using Nil v by (subst readline_loop.simps) simp
next
  case (Cons k ks)
  then obtain v vs where v: "filter (\<lambda>v. v \<noteq> 0) keys = v # vs" "ucast v = k" "map ucast vs = ks @ 13 # later" by auto
  then obtain keys' where g: "peachos_getkeyblock keys = Ret (v, keys')" "filter (\<lambda>v. v \<noteq> 0) keys' = vs" using getkeyblock_run by blast
  define b where "b \<longleftrightarrow> k = 0x08 \<and> line \<noteq> []"
  define line' where "line' = (if b then butlast line else line @ [k])"
  define out1 where "out1 = (if b then out[length line - 1 := 0] else out[length line := k])"
  have L: "length line < length out" using Cons.prems(7) by simp
  have t: "take (length line') out1 = line'"
  proof (cases b)
    case True
    have "take (length line - 1) out = butlast line"
      using L Cons.prems(5) by (metis butlast_take less_imp_le)
    then show ?thesis using True by (simp add: line'_def out1_def)
  next
    case False
    then show ?thesis using L Cons.prems(5) by (simp add: line'_def out1_def take_Suc_conv_app_nth)
  qed
  have z: "0 \<notin> set line'" using Cons.prems(3,4) by (auto simp: line'_def dest: in_set_butlastD)
  have l: "length line' \<le> length line + 1" by (auto simp: line'_def)
  have e: "edit line (k # ks) = edit line' ks" by (simp add: line'_def b_def)
  have "\<exists>out' rest. readline_loop (length line') mx echo out1 keys' =
      Ret (length (edit line' ks), out', if echo then map Maeros_putchar ks else [], rest) \<and>
    length out' = length out1 \<and> take (length (edit line' ks)) out' = edit line' ks \<and> length (edit line' ks) < length out1 \<and>
    0 \<notin> set (edit line' ks) \<and> map ucast (filter (\<lambda>v. v \<noteq> 0) rest) = later"
    using Cons.prems v g t z l by (intro Cons.IH) (auto simp: out1_def)
  then obtain out' rest where I: "readline_loop (length line') mx echo out1 keys' =
      Ret (length (edit line' ks), out', if echo then map Maeros_putchar ks else [], rest)"
    "length out' = length out" "take (length (edit line' ks)) out' = edit line' ks" "length (edit line' ks) < length out"
    "0 \<notin> set (edit line' ks)" "map ucast (filter (\<lambda>v. v \<noteq> 0) rest) = later"
    by (auto simp: out1_def)
  have "readline_loop (length line) mx echo out keys =
      Ret (length (edit line' ks), out', if echo then map Maeros_putchar (k # ks) else [], rest)"
  proof (cases b)
    case True
    then have "Suc 0 \<le> length line" by (cases line) (auto simp: b_def)
    with True I(1) g(1) v(2) Cons.prems(2,6) L show ?thesis
      by (subst readline_loop.simps) (auto simp: b_def line'_def out1_def put_byte_def)
  next
    case False
    then have "\<not> (k = 0x08 \<and> Suc 0 \<le> length line)" by (auto simp: b_def)
    moreover have "put_byte out (length line) k = Ret (out[length line := k])" using L by (simp add: put_byte_def)
    ultimately show ?thesis
      using False I(1) g(1) v(2) Cons.prems(2,6) by (subst readline_loop.simps) (auto simp: line'_def out1_def)
  qed
  then show ?case using I unfolding e by blast
qed

section \<open>Properties\<close>

text \<open>
  C23. Decimal text. For every 32-bit integer, the smallest included, \<open>itoa\<close> stays inside its static buffer of
  twelve bytes and returns the decimal text of the number, as the reference definition \<open>show_int\<close> gives it:
  a minus sign if it is negative, no leading zeros, and a terminator.
\<close>

theorem itoa_decimal:
  assumes "- (2 ^ 31) \<le> i" and "i < 2 ^ 31" and "length bs = 12"
  shows "\<exists>bs' loc. itoa i bs = Ret (bs', loc) \<and> length bs' = 12 \<and> loc \<le> 11 \<and> drop loc bs' = show_int i @ [0]"
  using assms by (rule itoa_run)

theorem itoa_decimal_witness:
  "\<exists>bs loc. itoa (- 2147483648) (replicate 12 0) = Ret (bs, loc) \<and>
     drop loc bs = [0x2D, 0x32, 0x31, 0x34, 0x37, 0x34, 0x38, 0x33, 0x36, 0x34, 0x38, 0]"
  using itoa_decimal [of "- 2147483648" "replicate 12 0"] by (auto simp: show_int_def digits.simps)

text \<open>
  C24. Splitting a string. Calling \<open>strtok\<close> with a string and then with null pointers ends and returns pointers
  to exactly the words of the string in order, each terminated where it stands; only bytes of the string
  change, and the last call leaves the static pointer null, so the next string starts afresh.
\<close>

theorem strtok_words:
  assumes "string_at m a s" and "0 \<notin> set ds" and "length s < fuel"
  shows "\<exists>bs m'. tokens fuel fuel (of_nat a) ds 0 m = Ret (map of_nat bs, 0, m') \<and> list_all2 (string_at m') bs (words ds s) \<and>
    (\<forall>x. m' x \<noteq> m x \<longrightarrow> (\<exists>y. x = of_nat y \<and> a \<le> y \<and> y < a + length s))"
  using assms by (intro tokens_run) simp_all

theorem strtok_words_witness:
  "\<exists>b c m'. tokens 9 9 0x1000 [0x20] 0 (mem_write (\<lambda>_. 0) 0x1000 [0x20, 0x61, 0x62, 0x20, 0x20, 0x63]) = Ret ([of_nat b, of_nat c], 0, m') \<and>
     string_at m' b [0x61, 0x62] \<and> string_at m' c [0x63]"
proof -
  let ?m = "mem_write (\<lambda>_. 0) 0x1000 [0x20, 0x61, 0x62, 0x20, 0x20, 0x63]" and ?s = "[0x20, 0x61, 0x62, 0x20, 0x20, 0x63] :: u8 list"
  have "string_at ?m 0x1000 ?s" by (simp add: string_at_Cons string_at_Nil)
  moreover have "words [0x20] ?s = [[0x61, 0x62], [0x63]]" by (simp add: words.simps)
  ultimately obtain bs m' where "tokens 9 9 0x1000 [0x20] 0 ?m = Ret (map of_nat bs, 0, m')"
    "list_all2 (string_at m') bs [[0x61, 0x62], [0x63]]"
    using strtok_words [of ?m "0x1000" ?s "[0x20]" 9] by auto
  then show ?thesis by (fastforce simp: list_all2_Cons2)
qed

text \<open>
  C25. \<open>printf\<close>. For a format whose arguments are there, the system calls \<open>printf\<close> makes write, one after the
  other, exactly the text the format stands for: its characters, \<open>%i\<close> the decimal text of a number, \<open>%s\<close> a
  string, of which the kernel writes at most 1023 characters, and \<open>%\<close> before any other character that character.
\<close>

theorem printf_renders:
  assumes "format_ok p ap" and "length bs = 12"
  shows "\<exists>out. printf (p @ [0]) ap bs = Ret out \<and> concat (map call_text out) = render p ap"
  using printf_run [OF assms, of "[]"] by (simp add: printf_def)

theorem printf_renders_witness:
  "\<exists>out. printf ([0x61, 0x25, 0x69, 0x25, 0x25, 0x25, 0x73] @ [0]) [Int_arg (- 12), String_arg [0x62, 0]] (replicate 12 0) = Ret out \<and>
     concat (map call_text out) = [0x61, 0x2D, 0x31, 0x32, 0x25, 0x62]"
  using printf_renders [of "[0x61, 0x25, 0x69, 0x25, 0x25, 0x25, 0x73]" "[Int_arg (- 12), String_arg [0x62, 0]]" "replicate 12 0"]
  by (auto simp: show_int_def digits.simps terminated_def)

text \<open>
  C26. Reading a line. If the keys before the carriage return fit the buffer, \<open>peachos_terminal_readline\<close> ends at
  the carriage return with the line the abstract editor makes of the keys, terminated in the buffer, has
  echoed each of them if it was asked to, and leaves the later keys.
\<close>

theorem readline_edits:
  assumes "map ucast (filter (\<lambda>v. v \<noteq> 0) keys) = ks @ 13 # later" and "13 \<notin> set ks" and "0 \<notin> set ks"
    and "int (length ks) < mx - 1" and "length ks < length out"
  shows "\<exists>out' rest. peachos_terminal_readline out mx echo keys = Ret (out', if echo then map Maeros_putchar ks else [], rest) \<and>
    length out' = length out \<and> cstr out' = edit [] ks \<and> map ucast (filter (\<lambda>v. v \<noteq> 0) rest) = later"
proof -
  obtain out' rest where R: "readline_loop 0 mx echo out keys =
      Ret (length (edit [] ks), out', if echo then map Maeros_putchar ks else [], rest)"
    "length out' = length out" "take (length (edit [] ks)) out' = edit [] ks" "length (edit [] ks) < length out"
    "0 \<notin> set (edit [] ks)" "map ucast (filter (\<lambda>v. v \<noteq> 0) rest) = later"
    using readline_run [of keys ks later "[]" out mx echo] assms by auto
  have "out'[length (edit [] ks) := 0] = edit [] ks @ 0 # drop (Suc (length (edit [] ks))) out'"
    using R(2-4) by (simp add: upd_conv_take_nth_drop)
  then have "cstr (out'[length (edit [] ks) := 0]) = edit [] ks" using R(5) by (simp add: cstr_append)
  then show ?thesis using R(1,2,4,6) by (simp add: peachos_terminal_readline_def put_byte_def)
qed

theorem readline_edits_witness:
  "\<exists>out rest. peachos_terminal_readline (replicate 16 0) 16 True [0, 0x61, 0, 0x62, 8, 0x63, 13, 0x64] =
     Ret (out, [Maeros_putchar 0x61, Maeros_putchar 0x62, Maeros_putchar 8, Maeros_putchar 0x63], rest) \<and> cstr out = [0x61, 0x63]"
  using readline_edits [of "[0, 0x61, 0, 0x62, 8, 0x63, 13, 0x64]" "[0x61, 0x62, 8, 0x63]" "[0x64]" 16 "replicate 16 0" True] by auto

end
