(* ===== verification/User_String.thy ===== *)
theory User_String
  imports User_Lib "HOL-Library.Stream"
begin

text \<open>
  The rest of the library of the user programs and the programs themselves: \<open>string.c\<close> apart from \<open>strtok\<close>,
  \<open>memory.c\<close>, the functions of \<open>stdlib.c\<close> and \<open>stdio.c\<close> that forward to system calls, \<open>start.c\<close>, and \<open>main\<close> of
  \<open>blank.c\<close> and \<open>shell.c\<close>. The functions have the names of the kernel's, so they carry the suffix \<open>_user\<close>. They
  work on the memory of the program, an address wraps at 2^32.
\<close>

section \<open>string.c\<close>

definition tolower_user :: "u8 \<Rightarrow> u8" where
  "tolower_user s1 = (if sint s1 \<ge> 65 \<and> sint s1 \<le> 90 then s1 + 32 else s1)"

text \<open>The counter \<open>i\<close> is an \<open>int\<close> of 32 bits; the loop ends at a zero byte only.\<close>

primrec strlen_user_loop :: "nat \<Rightarrow> u32 \<Rightarrow> u32 \<Rightarrow> mem \<Rightarrow> u32 exec" where
  "strlen_user_loop 0 i ptr m = Trap Diverge"
| "strlen_user_loop (Suc fuel) i ptr m = (if m ptr \<noteq> 0 then strlen_user_loop fuel (i + 1) (ptr + 1) m else Ret i)"

definition strlen_user :: "nat \<Rightarrow> u32 \<Rightarrow> mem \<Rightarrow> int exec" where
  "strlen_user fuel ptr m = bindx (strlen_user_loop fuel 0 ptr m) (\<lambda>i. Ret (sint i))"

function strnlen_user_loop :: "int \<Rightarrow> u32 \<Rightarrow> int \<Rightarrow> mem \<Rightarrow> int" where
  "strnlen_user_loop i ptr mx m =
     (if i < mx then if m (ptr + word_of_int i) = 0 then i else strnlen_user_loop (i + 1) ptr mx m else i)"
  by pat_completeness auto
termination
  by (relation "measure (\<lambda>(i, ptr, mx, m). nat (mx - i))") auto

definition strnlen_user :: "u32 \<Rightarrow> int \<Rightarrow> mem \<Rightarrow> int" where
  "strnlen_user ptr mx m = strnlen_user_loop 0 ptr mx m"

function strnlen_terminator_user_loop :: "int \<Rightarrow> u32 \<Rightarrow> int \<Rightarrow> u8 \<Rightarrow> mem \<Rightarrow> int" where
  "strnlen_terminator_user_loop i str mx terminator m =
     (if i < mx
      then if m (str + word_of_int i) = 0 \<or> m (str + word_of_int i) = terminator then i
           else strnlen_terminator_user_loop (i + 1) str mx terminator m
      else i)"
  by pat_completeness auto
termination
  by (relation "measure (\<lambda>(i, str, mx, terminator, m). nat (mx - i))") auto

definition strnlen_terminator_user :: "u32 \<Rightarrow> int \<Rightarrow> u8 \<Rightarrow> mem \<Rightarrow> int" where
  "strnlen_terminator_user str mx terminator m = strnlen_terminator_user_loop 0 str mx terminator m"

function istrncmp_user :: "u32 \<Rightarrow> u32 \<Rightarrow> int \<Rightarrow> mem \<Rightarrow> int" where
  "istrncmp_user s1 s2 n m =
     (if n > 0 then
        let u1 = m s1; u2 = m s2
        in if u1 \<noteq> u2 \<and> tolower_user u1 \<noteq> tolower_user u2 then int (unat u1) - int (unat u2)
           else if u1 = 0 then 0
           else istrncmp_user (s1 + 1) (s2 + 1) (n - 1) m
      else 0)"
  by pat_completeness auto
termination
  by (relation "measure (\<lambda>(s1, s2, n, m). nat n)") auto

function strncmp_user :: "u32 \<Rightarrow> u32 \<Rightarrow> int \<Rightarrow> mem \<Rightarrow> int" where
  "strncmp_user str1 str2 n m =
     (if n > 0 then
        let u1 = m str1; u2 = m str2
        in if u1 \<noteq> u2 then int (unat u1) - int (unat u2)
           else if u1 = 0 then 0
           else strncmp_user (str1 + 1) (str2 + 1) (n - 1) m
      else 0)"
  by pat_completeness auto
termination
  by (relation "measure (\<lambda>(s1, s2, n, m). nat n)") auto

primrec strcpy_user_loop :: "nat \<Rightarrow> u32 \<Rightarrow> u32 \<Rightarrow> mem \<Rightarrow> mem exec" where
  "strcpy_user_loop 0 dest src m = Trap Diverge"
| "strcpy_user_loop (Suc fuel) dest src m =
     (if m src \<noteq> 0 then strcpy_user_loop fuel (dest + 1) (src + 1) (m(dest := m src)) else Ret (m(dest := 0x00)))"

definition strcpy_user :: "nat \<Rightarrow> u32 \<Rightarrow> u32 \<Rightarrow> mem \<Rightarrow> (u32 \<times> mem) exec" where
  "strcpy_user fuel dest src m = bindx (strcpy_user_loop fuel dest src m) (\<lambda>m. Ret (dest, m))"

text \<open>The result of the loop is \<open>i\<close> and the memory.\<close>

function strncpy_user_loop :: "int \<Rightarrow> u32 \<Rightarrow> u32 \<Rightarrow> int \<Rightarrow> mem \<Rightarrow> int \<times> mem" where
  "strncpy_user_loop i dest src count m =
     (if i < count - 1
      then if m (src + word_of_int i) = 0x00 then (i, m)
           else strncpy_user_loop (i + 1) dest src count (m(dest + word_of_int i := m (src + word_of_int i)))
      else (i, m))"
  by pat_completeness auto
termination
  by (relation "measure (\<lambda>(i, dest, src, count, m). nat (count - i))") auto

definition strncpy_user :: "u32 \<Rightarrow> u32 \<Rightarrow> int \<Rightarrow> mem \<Rightarrow> u32 \<times> mem" where
  "strncpy_user dest src count m =
     (let (i, m) = strncpy_user_loop 0 dest src count m in (dest, m(dest + word_of_int i := 0x00)))"

definition isdigit_user :: "u8 \<Rightarrow> bool" where
  "isdigit_user c \<longleftrightarrow> sint c \<ge> 48 \<and> sint c \<le> 57"

definition tonumericdigit_user :: "u8 \<Rightarrow> int" where
  "tonumericdigit_user c = sint c - 48"

section \<open>memory.c\<close>

text \<open>The index is compared with the unsigned size.\<close>

function memset_user_loop :: "nat \<Rightarrow> u32 \<Rightarrow> u8 \<Rightarrow> u32 \<Rightarrow> mem \<Rightarrow> mem" where
  "memset_user_loop i c_ptr c sz m =
     (if i < unat sz then memset_user_loop (Suc i) c_ptr c sz (m(c_ptr + of_nat i := c)) else m)"
  by pat_completeness auto
termination
  by (relation "measure (\<lambda>(i, c_ptr, c, sz, m). unat sz - i)") auto

definition memset_user :: "u32 \<Rightarrow> int \<Rightarrow> u32 \<Rightarrow> mem \<Rightarrow> u32 \<times> mem" where
  "memset_user ptr c sz m = (ptr, memset_user_loop 0 ptr (word_of_int c) sz m)"

function memcmp_user :: "u32 \<Rightarrow> u32 \<Rightarrow> int \<Rightarrow> mem \<Rightarrow> int" where
  "memcmp_user c1 c2 count m =
     (if count > 0
      then if m c1 \<noteq> m c2 then if sint (m c1) < sint (m c2) then -1 else 1
           else memcmp_user (c1 + 1) (c2 + 1) (count - 1) m
      else 0)"
  by pat_completeness auto
termination
  by (relation "measure (\<lambda>(c1, c2, count, m). nat count)") auto

text \<open>\<open>while (len--)\<close> ends when \<open>len\<close> is zero; the count wraps.\<close>

function memcpy_user_loop :: "u32 \<Rightarrow> u32 \<Rightarrow> u32 \<Rightarrow> mem \<Rightarrow> mem" where
  "memcpy_user_loop len d s m = (if len \<noteq> 0 then memcpy_user_loop (len - 1) (d + 1) (s + 1) (m(d := m s)) else m)"
  by pat_completeness auto
termination
  by (relation "measure (\<lambda>(len, d, s, m). unat len)") (auto simp: unat_gt_0 unat_minus_one)

definition memcpy_user :: "u32 \<Rightarrow> u32 \<Rightarrow> int \<Rightarrow> mem \<Rightarrow> u32 \<times> mem" where
  "memcpy_user dest src len m = (dest, memcpy_user_loop (word_of_int len) dest src m)"

declare strnlen_user_loop.simps [simp del] strnlen_terminator_user_loop.simps [simp del] istrncmp_user.simps [simp del]
  strncmp_user.simps [simp del] strncpy_user_loop.simps [simp del] memset_user_loop.simps [simp del] memcmp_user.simps [simp del]
  memcpy_user_loop.simps [simp del]

section \<open>stdlib.c, stdio.c and start.c\<close>

text \<open>\<open>maeros_malloc\<close> and \<open>maeros_free\<close> are the system calls 4 and 5.\<close>

definition malloc_user :: "(u32 \<Rightarrow> 's \<Rightarrow> u32 \<times> 's) \<Rightarrow> u32 \<Rightarrow> 's \<Rightarrow> u32 \<times> 's" where
  "malloc_user maeros_malloc sz st = maeros_malloc sz st"

definition free_user :: "(u32 \<Rightarrow> 's \<Rightarrow> 's) \<Rightarrow> u32 \<Rightarrow> 's \<Rightarrow> 's" where
  "free_user maeros_free ptr st = maeros_free ptr st"

text \<open>The result and the system call.\<close>

definition putchar_user :: "int \<Rightarrow> int \<times> outcall" where
  "putchar_user c = (0, Maeros_putchar (word_of_int c))"

text \<open>
  \<open>arguments\<close> is the address of the local structure, the count followed by the pointer to the vector;
  \<open>get_arguments\<close> is system call 8 and \<open>main\<close> the function of the program.
\<close>

definition c_start ::
  "u32 \<Rightarrow> (u32 \<Rightarrow> mem \<Rightarrow> mem exec) \<Rightarrow> (int \<Rightarrow> u32 \<Rightarrow> mem \<Rightarrow> (int \<times> mem) exec) \<Rightarrow> mem \<Rightarrow> mem exec" where
  "c_start arguments get_arguments main m =
     bindx (get_arguments arguments m) (\<lambda>m.
     bindx (main (sint (load32 m arguments)) (load32 m (arguments + 4)) m) (\<lambda>(res, m). Ret m))"

section \<open>The programs\<close>

text \<open>
  The programs never return; what they do is the stream of their system calls, \<open>print\<close> of a string constant or of
  the string at an address, and \<open>maeros_putchar\<close>. The counting loop between two calls has no effect.
\<close>

datatype user_call = Print_literal "u8 list" | Print_at u32 | Put_char u8

primcorec print_forever :: "u32 \<Rightarrow> mem \<Rightarrow> user_call stream" where
  "print_forever argv m = Print_at (load32 m argv) ## print_forever argv m"

definition shell_main :: "int \<Rightarrow> u32 \<Rightarrow> mem \<Rightarrow> user_call stream" where
  "shell_main argc argv m = Print_literal (map (of_nat \<circ> of_char) (''MaerOS v1.0.0'' @ [CHR 0x0A]) @ [0]) ## print_forever argv m"

definition call_of :: "outcall \<Rightarrow> user_call" where
  "call_of c = (case c of Maeros_putchar x \<Rightarrow> Put_char x | Print s \<Rightarrow> Print_literal s)"

definition blank_main :: "u8 list \<Rightarrow> int \<Rightarrow> u32 \<Rightarrow> mem \<Rightarrow> user_call stream exec" where
  "blank_main text argc argv m =
     bindx (printf (map (of_nat \<circ> of_char) (''Hi lmi World! Blank'' @ [CHR 0x0A]) @ [0]) [] text) (\<lambda>calls.
       Ret (map call_of calls @- print_forever argv m))"

section \<open>Bytes of an object\<close>

lemma tolower_user_eq: "tolower_user = tolower"
  by (auto simp: tolower_user_def tolower_def)

lemma isdigit_user_eq: "isdigit_user = isdigit" "tonumericdigit_user = tonumericdigit"
  by (auto simp: isdigit_user_def isdigit_def tonumericdigit_user_def tonumericdigit_def)

section \<open>The kernel's routines on the same bytes\<close>

lemma strlen_user_loop_agrees:
  "strlen (mem_bytes m p k) = Ret r \<Longrightarrow> k \<le> fuel \<Longrightarrow> strlen_user_loop fuel i p m = Ret (i + word_of_int r) \<and> 0 \<le> r \<and> r < int k"
proof (induction k arbitrary: fuel i p r)
  case (Suc k)
  then obtain f where f: "fuel = Suc f" by (cases fuel) simp_all
  show ?case
  proof (cases "m p = 0")
    case False
    then obtain r' where r': "strlen (mem_bytes m (p + 1) k) = Ret r'" "r = r' + 1" using Suc.prems(1) by (auto simp: mem_bytes_Suc)
    with Suc.IH [OF r'(1), of f "i + 1"] Suc.prems(2) False show ?thesis by (simp add: f)
  qed (use Suc.prems in \<open>simp_all add: mem_bytes_Suc f\<close>)
qed (simp add: mem_bytes_def)

lemma strlen_user_agrees:
  assumes "strlen (mem_bytes m p k) = Ret r" and "k \<le> fuel" and "k < 2 ^ 31"
  shows "strlen_user fuel p m = Ret r"
proof -
  have L: "strlen_user_loop fuel 0 p m = Ret (word_of_int r)" "0 \<le> r" "r < int k"
    using strlen_user_loop_agrees [OF assms(1,2), of 0] by simp_all
  then have "nat r < 2 ^ 31" using assms(3) by simp
  then have "sint (of_nat (nat r) :: u32) = int (nat r)" by (rule sint_of_nat_small)
  then have "sint (word_of_int r :: u32) = r" using L(2) by simp
  with L(1) show ?thesis by (simp add: strlen_user_def)
qed

lemma strnlen_user_loop_agrees:
  assumes "strnlen_loop n (mem_bytes m (p + word_of_int i) k) = Ret r"
  shows "strnlen_user_loop i p (i + int n) m = i + r"
  using assms
proof (induction n arbitrary: i k r)
  case 0
  then show ?case by (subst strnlen_user_loop.simps) simp
next
  case (Suc n)
  obtain l where k: "k = Suc l" using Suc.prems by (cases k) (simp_all add: mem_bytes_def)
  have e: "i + int (Suc n) = (i + 1) + int n" and a: "p + word_of_int i + 1 = p + word_of_int (i + 1)" by simp_all
  show ?case
    using Suc.prems Suc.IH [of "i + 1" l] unfolding e k
    by (subst strnlen_user_loop.simps) (auto simp: mem_bytes_Suc a split: if_splits)
qed

lemma strnlen_terminator_user_loop_agrees:
  assumes "strnlen_terminator_loop n (mem_bytes m (p + word_of_int i) k) t = Ret r"
  shows "strnlen_terminator_user_loop i p (i + int n) t m = i + r"
  using assms
proof (induction n arbitrary: i k r)
  case 0
  then show ?case by (subst strnlen_terminator_user_loop.simps) simp
next
  case (Suc n)
  obtain l where k: "k = Suc l" using Suc.prems by (cases k) (simp_all add: mem_bytes_def)
  have e: "i + int (Suc n) = (i + 1) + int n" and a: "p + word_of_int i + 1 = p + word_of_int (i + 1)" by simp_all
  show ?case
    using Suc.prems Suc.IH [of "i + 1" l] unfolding e k
    by (subst strnlen_terminator_user_loop.simps) (auto simp: mem_bytes_Suc a split: if_splits)
qed

lemma istrncmp_user_agrees:
  "istrncmp_loop n (mem_bytes m p k) (mem_bytes m q l) = Ret r \<Longrightarrow> istrncmp_user p q (int n) m = r"
proof (induction n arbitrary: p q k l)
  case (Suc n)
  obtain k' l' where kl: "k = Suc k'" "l = Suc l'" using Suc.prems by (cases k; cases l) (simp_all add: mem_bytes_def)
  show ?case
    using Suc.prems Suc.IH [of "p + 1" k' "q + 1" l'] unfolding kl
    by (subst istrncmp_user.simps) (auto simp: mem_bytes_Suc tolower_user_eq split: if_splits)
qed (subst istrncmp_user.simps, simp)

lemma strncmp_user_agrees:
  "strncmp_loop n (mem_bytes m p k) (mem_bytes m q l) = Ret r \<Longrightarrow> strncmp_user p q (int n) m = r"
proof (induction n arbitrary: p q k l)
  case (Suc n)
  obtain k' l' where kl: "k = Suc k'" "l = Suc l'" using Suc.prems by (cases k; cases l) (simp_all add: mem_bytes_def)
  show ?case
    using Suc.prems Suc.IH [of "p + 1" k' "q + 1" l'] unfolding kl
    by (subst strncmp_user.simps) (auto simp: mem_bytes_Suc split: if_splits)
qed (subst strncmp_user.simps, simp)

lemma memcmp_user_agrees:
  "memcmp_loop n (mem_bytes m p k) (mem_bytes m q l) = Ret r \<Longrightarrow> memcmp_user p q (int n) m = r"
proof (induction n arbitrary: p q k l)
  case (Suc n)
  obtain k' l' where kl: "k = Suc k'" "l = Suc l'" using Suc.prems by (cases k; cases l) (simp_all add: mem_bytes_def)
  show ?case
    using Suc.prems Suc.IH [of "p + 1" k' "q + 1" l'] unfolding kl
    by (subst memcmp_user.simps) (auto simp: mem_bytes_Suc split: if_splits)
qed (subst memcmp_user.simps, simp)

lemma memset_user_agrees: "snd (memset_user p c sz m) = memset p c sz m"
proof -
  have "memset_user_loop i p x sz m = memset_loop p x sz i m" for i x
  proof (induction p x sz i m rule: memset_loop.induct)
    case (1 p x sz i m)
    show ?case
      by (cases "i < unat sz") (simp_all only: memset_user_loop.simps [of i] memset_loop.simps [of _ _ _ i] 1 if_True if_False)
  qed
  then show ?thesis by (simp add: memset_user_def memset_def)
qed

lemma memcpy_user_agrees: "snd (memcpy_user d s len m) = memcpy d s len m"
proof -
  have "memcpy_user_loop n d s m = memcpy_loop (unat n) d s m" for n
  proof (induction n d s m rule: memcpy_user_loop.induct)
    case (1 len d s m)
    show ?case
    proof (cases "len = 0")
      case False
      then have n: "unat len = Suc (unat (len - 1))" using unat_gt_0 [of len] by (simp add: unat_minus_one)
      have "memcpy_user_loop len d s m = memcpy_user_loop (len - 1) (d + 1) (s + 1) (m(d := m s))"
        by (subst memcpy_user_loop.simps) (simp only: False not_False_eq_True if_True)
      also have "\<dots> = memcpy_loop (unat len) d s m" unfolding 1 [OF False] n by (simp only: memcpy_loop.simps)
      finally show ?thesis .
    qed (subst memcpy_user_loop.simps, simp)
  qed
  then show ?thesis by (simp add: memcpy_user_def memcpy_def)
qed

lemma nonpositive_user:
  assumes "n \<le> 0"
  shows "strnlen_user p n m = 0" "strnlen_terminator_user p n t m = 0" "istrncmp_user p q n m = 0" "strncmp_user p q n m = 0" "memcmp_user p q n m = 0"
  using assms by (simp_all add: strnlen_user_def strnlen_terminator_user_def strnlen_user_loop.simps strnlen_terminator_user_loop.simps
      istrncmp_user.simps strncmp_user.simps memcmp_user.simps)

section \<open>Bounded copies\<close>

text \<open>The copy that the command parser of \<open>User_Lib\<close> uses, written with moving pointers.\<close>

lemma strncpy_user_loop_agrees:
  "(case strncpy_user_loop i dest src count m of (j, m') \<Rightarrow> m'(dest + word_of_int j := 0)) =
     mem_strncpy_loop (nat (count - 1 - i)) (dest + word_of_int i) (src + word_of_int i) m"
proof (induction "nat (count - 1 - i)" arbitrary: i m)
  case 0
  then show ?case by (subst strncpy_user_loop.simps) simp
next
  case (Suc x)
  then have x: "x = nat (count - 1 - (i + 1))" "nat (count - 1 - i) = Suc x" "i < count - 1" by linarith+
  have a: "dest + word_of_int i + 1 = dest + word_of_int (i + 1)" "src + word_of_int i + 1 = src + word_of_int (i + 1)" by simp_all
  show ?case
    using Suc.hyps(1) [OF x(1)] x unfolding x(2) by (subst strncpy_user_loop.simps) (simp add: a)
qed

lemma strncpy_user_agrees: "strncpy_user dest src count m = (dest, mem_strncpy dest src count m)"
  using strncpy_user_loop_agrees [where i = 0 and dest = dest and src = src and count = count and m = m] by (simp add: strncpy_user_def mem_strncpy_def split: prod.splits)

lemma takeWhile_of_take: "takeWhile P (take n xs) = take n (takeWhile P xs)"
  by (induction xs arbitrary: n) (simp_all add: take_Cons' split: nat.splits)

lemma mem_write_snoc: "mem_write m p (xs @ [x]) = (mem_write m p xs)(p + of_nat (length xs) := x)"
  by (induction xs arbitrary: m p) (simp_all add: algebra_simps)

text \<open>The two strings, of at most \<open>n\<close> bytes each, lie apart.\<close>

definition apart :: "u32 \<Rightarrow> u32 \<Rightarrow> nat \<Rightarrow> bool" where
  "apart dest src n \<longleftrightarrow> (\<forall>a. in_range dest n a \<longrightarrow> \<not> in_range src n a)"

lemma read_apart:
  assumes "apart dest src n" and "length xs \<le> n" and "j < n" and "n < 2 ^ 32"
  shows "mem_write m dest xs (src + of_nat j) = m (src + of_nat j)"
proof -
  have "in_range src n (src + of_nat j)" using assms(3,4) by (simp add: in_range_offset)
  then have "\<not> in_range dest n (src + of_nat j)" using assms(1) unfolding apart_def by blast
  then have "\<not> in_range dest (length xs) (src + of_nat j)" using assms(2) by (simp add: in_range_def)
  then show ?thesis using assms(2,4) by (simp add: mem_write_apply)
qed

lemma strncpy_user_loop_run:
  assumes ap: "apart dest src n" and n: "n < 2 ^ 31" and k: "k = length (cstr (mem_bytes m src (n - 1)))" and "i \<le> k" "0 < n"
  shows "strncpy_user_loop (int i) dest src (int n) (mem_write m dest (take i (mem_bytes m src (n - 1)))) =
    (int k, mem_write m dest (take k (mem_bytes m src (n - 1))))"
  using assms(4)
proof (induction "k - i" arbitrary: i)
  case 0
  let ?S = "mem_bytes m src (n - 1)" and ?m = "mem_write m dest (take k (mem_bytes m src (n - 1)))"
  have "?m (src + of_nat k) = 0" if "k < n - 1"
  proof -
    have "?S ! k = 0" using that nth_length_takeWhile [of "\<lambda>c. c \<noteq> 0" ?S] k by (simp add: cstr_def)
    then show ?thesis using read_apart [OF ap, of "take k ?S" k m] that n by (simp add: mem_bytes_nth)
  qed
  moreover have "i = k" using 0 by simp
  ultimately show ?case by (subst strncpy_user_loop.simps) auto
next
  case (Suc x)
  let ?S = "mem_bytes m src (n - 1)"
  have i: "i < k" "k \<le> n - 1" using Suc.hyps(2) k length_takeWhile_le [of "\<lambda>c. c \<noteq> 0" ?S] by (simp_all add: cstr_def)
  have nz: "?S ! i \<noteq> 0" using i(1) k cstr_nonzero [of ?S] takeWhile_nth [of i "\<lambda>c. c \<noteq> 0" ?S] nth_mem [of i "cstr ?S"] by (auto simp: cstr_def)
  have rd: "mem_write m dest (take i ?S) (src + of_nat i) = ?S ! i"
    using read_apart [OF ap, of "take i ?S" i m] i n by (simp add: mem_bytes_nth)
  have step: "(mem_write m dest (take i ?S))(dest + of_nat i := ?S ! i) = mem_write m dest (take (Suc i) ?S)"
    using i mem_write_snoc [of m dest "take i ?S" "?S ! i"] by (simp add: take_Suc_conv_app_nth)
  have IH: "strncpy_user_loop (int (Suc i)) dest src (int n) (mem_write m dest (take (Suc i) ?S)) = (int k, mem_write m dest (take k ?S))"
    using Suc.hyps i(1) by (intro Suc.hyps(1)) simp_all
  have lt: "int i < int n - 1" using i by simp
  show ?case
    using IH nz rd step lt by (subst strncpy_user_loop.simps) (simp add: add.commute)
qed

section \<open>Properties\<close>

text \<open>
  C27. The string routines of the user programs. On the same bytes the library of the programs and the kernel's files
  compute the same: whenever a routine of the kernel returns on the objects at the addresses, the one of the library
  returns the same value there, with its arguments as addresses; \<open>memset\<close> and \<open>memcpy\<close> change memory alike.
\<close>

theorem user_string_agrees:
  "(strlen (mem_bytes m p k) = Ret r \<longrightarrow> k \<le> fuel \<longrightarrow> k < 2 ^ 31 \<longrightarrow> strlen_user fuel p m = Ret r) \<and>
   (strnlen (mem_bytes m p k) n = Ret r \<longrightarrow> strnlen_user p n m = r) \<and>
   (strnlen_terminator (mem_bytes m p k) n t = Ret r \<longrightarrow> strnlen_terminator_user p n t m = r) \<and>
   (istrncmp (mem_bytes m p k) (mem_bytes m q l) n = Ret r \<longrightarrow> istrncmp_user p q n m = r) \<and>
   (strncmp (mem_bytes m p k) (mem_bytes m q l) n = Ret r \<longrightarrow> strncmp_user p q n m = r) \<and>
   (memcmp (mem_bytes m p k) (mem_bytes m q l) n = Ret r \<longrightarrow> memcmp_user p q n m = r) \<and>
   memset_user p c sz m = (p, memset p c sz m) \<and> memcpy_user p q n m = (p, memcpy p q n m)"
proof (intro conjI impI)
  show "strlen_user fuel p m = Ret r" if "strlen (mem_bytes m p k) = Ret r" "k \<le> fuel" "k < 2 ^ 31"
    using that by (rule strlen_user_agrees)
  have pos: "int (nat n) = n" if "\<not> n \<le> 0" using that by simp
  show "strnlen_user p n m = r" if "strnlen (mem_bytes m p k) n = Ret r"
    using that strnlen_user_loop_agrees [of "nat n" m p 0 k r] nonpositive_user(1) [of n p m] pos
    by (cases "n \<le> 0") (simp_all add: strnlen_def strnlen_user_def)
  show "strnlen_terminator_user p n t m = r" if "strnlen_terminator (mem_bytes m p k) n t = Ret r"
    using that strnlen_terminator_user_loop_agrees [of "nat n" m p 0 k t r] nonpositive_user(2) [of n p t m] pos
    by (cases "n \<le> 0") (simp_all add: strnlen_terminator_def strnlen_terminator_user_def)
  show "istrncmp_user p q n m = r" if "istrncmp (mem_bytes m p k) (mem_bytes m q l) n = Ret r"
    using that istrncmp_user_agrees [of "nat n" m p k q l r] nonpositive_user(3) [of n p q m] pos
    by (cases "n \<le> 0") (simp_all add: istrncmp_def)
  show "strncmp_user p q n m = r" if "strncmp (mem_bytes m p k) (mem_bytes m q l) n = Ret r"
    using that strncmp_user_agrees [of "nat n" m p k q l r] nonpositive_user(4) [of n p q m] pos
    by (cases "n \<le> 0") (simp_all add: strncmp_def)
  show "memcmp_user p q n m = r" if "memcmp (mem_bytes m p k) (mem_bytes m q l) n = Ret r"
    using that memcmp_user_agrees [of "nat n" m p k q l r] nonpositive_user(5) [of n p q m] pos
    by (cases "n \<le> 0") (simp_all add: memcmp_def)
  show "memset_user p c sz m = (p, memset p c sz m)" using memset_user_agrees [of p c sz m] by (simp add: memset_user_def)
  show "memcpy_user p q n m = (p, memcpy p q n m)" using memcpy_user_agrees [of p q n m] by (simp add: memcpy_user_def)
qed

text \<open>
  C28. The bounds of \<open>strncpy\<close> in the library of the programs. With a positive \<open>count\<close> and strings that lie apart,
  it changes only the \<open>count\<close> bytes at \<open>dest\<close>, which afterwards hold at most \<open>count - 1\<close> bytes of the source string
  and a terminator.
\<close>

theorem strncpy_user_bounds:
  assumes "0 < n" and "n < 2 ^ 31" and "apart dest src n"
  shows "\<exists>m'. strncpy_user dest src (int n) m = (dest, m') \<and> (\<forall>a. \<not> in_range dest n a \<longrightarrow> m' a = m a) \<and>
    terminated (mem_bytes m' dest n) \<and> cstr (mem_bytes m' dest n) = take (n - 1) (cstr (mem_bytes m src n))"
proof -
  let ?S = "mem_bytes m src (n - 1)"
  define k where "k = length (cstr ?S)"
  define m' where "m' = mem_write m dest (cstr ?S @ [0])"
  have tk: "take k ?S = cstr ?S" unfolding k_def cstr_def by (rule takeWhile_eq_take [symmetric])
  have k: "k \<le> n - 1" unfolding k_def cstr_def using length_takeWhile_le [of "\<lambda>c. c \<noteq> 0" ?S] by simp
  have len: "length (cstr ?S @ [0]) = Suc k" "Suc k \<le> n" "Suc k \<le> 2 ^ 32" using k assms(1,2) by (simp_all add: k_def)
  have "strncpy_user_loop 0 dest src (int n) m = (int k, mem_write m dest (cstr ?S))"
    using strncpy_user_loop_run [OF assms(3,2) k_def, of 0] assms(1) tk by simp
  then have run: "strncpy_user dest src (int n) m = (dest, m')"
    using mem_write_snoc [of m dest "cstr ?S" 0] by (simp add: strncpy_user_def m'_def k_def)
  have frame: "m' a = m a" if "\<not> in_range dest n a" for a
  proof -
    have "\<not> in_range dest (Suc k) a" using that len(2) by (simp add: in_range_def)
    then show ?thesis using mem_write_apply [of "cstr ?S @ [0]" m dest a] len by (simp add: m'_def)
  qed
  have pre: "take (Suc k) (mem_bytes m' dest n) = cstr ?S @ [0]"
  proof (rule nth_equalityI)
    show "length (take (Suc k) (mem_bytes m' dest n)) = length (cstr ?S @ [0])" using len by simp
    show "take (Suc k) (mem_bytes m' dest n) ! j = (cstr ?S @ [0]) ! j" if "j < length (take (Suc k) (mem_bytes m' dest n))" for j
      using that len mem_write_apply [of "cstr ?S @ [0]" m dest "dest + of_nat j"] by (simp add: m'_def mem_bytes_nth in_range_offset word_small)
  qed
  have split: "mem_bytes m' dest n = cstr ?S @ 0 # drop (Suc k) (mem_bytes m' dest n)"
    using append_take_drop_id [of "Suc k" "mem_bytes m' dest n"] unfolding pre by simp
  have "terminated (mem_bytes m' dest n)" by (subst split) simp
  moreover have "cstr (mem_bytes m' dest n) = cstr ?S" by (subst split) (simp add: cstr_append cstr_nonzero)
  moreover have "cstr ?S = take (n - 1) (cstr (mem_bytes m src n))"
  proof -
    have "?S = take (n - 1) (mem_bytes m src n)" by (simp add: mem_bytes_def take_map)
    then show ?thesis by (simp add: cstr_def takeWhile_of_take)
  qed
  ultimately show ?thesis using run frame by simp
qed

definition demo_user_mem :: mem where
  "demo_user_mem = mem_write (\<lambda>_. 0) 0x500 [0x61, 0x62, 0, 0x41, 0x62, 0]"

lemma demo_user_bytes: "mem_bytes demo_user_mem 0x500 3 = [0x61, 0x62, 0]" "mem_bytes demo_user_mem 0x503 3 = [0x41, 0x62, 0]"
  by (simp_all add: mem_bytes_def demo_user_mem_def upt_conv_Cons)

theorem user_string_agrees_witness:
  "strlen_user 3 0x500 demo_user_mem = Ret 2 \<and> strnlen_user 0x500 1 demo_user_mem = 1 \<and> strnlen_terminator_user 0x500 3 0x62 demo_user_mem = 1 \<and>
   istrncmp_user 0x500 0x503 3 demo_user_mem = 0 \<and> strncmp_user 0x500 0x503 3 demo_user_mem = 32 \<and> memcmp_user 0x500 0x503 3 demo_user_mem = 1"
proof -
  note B = demo_user_bytes
  have "strlen (mem_bytes demo_user_mem 0x500 3) = Ret 2" "strnlen (mem_bytes demo_user_mem 0x500 3) 1 = Ret 1"
    "strnlen_terminator (mem_bytes demo_user_mem 0x500 3) 3 0x62 = Ret 1"
    "istrncmp (mem_bytes demo_user_mem 0x500 3) (mem_bytes demo_user_mem 0x503 3) 3 = Ret 0"
    "strncmp (mem_bytes demo_user_mem 0x500 3) (mem_bytes demo_user_mem 0x503 3) 3 = Ret 32"
    "memcmp (mem_bytes demo_user_mem 0x500 3) (mem_bytes demo_user_mem 0x503 3) 3 = Ret 1"
    unfolding B by (simp_all add: strnlen_def strnlen_terminator_def istrncmp_def strncmp_def memcmp_def tolower_def numeral_3_eq_3)
  then show ?thesis
    using user_string_agrees [of demo_user_mem "0x500" 3 2 3] user_string_agrees [of demo_user_mem "0x500" 3 1 3 1]
      user_string_agrees [of demo_user_mem "0x500" 3 1 3 3 "0x62"] user_string_agrees [of demo_user_mem "0x500" 3 0 3 3 0 "0x503" 3]
      user_string_agrees [of demo_user_mem "0x500" 3 32 3 3 0 "0x503" 3] user_string_agrees [of demo_user_mem "0x500" 3 1 3 3 0 "0x503" 3]
    by simp
qed

theorem strncpy_user_bounds_witness:
  "\<exists>m'. strncpy_user 0x600 0x500 2 demo_user_mem = (0x600, m') \<and> cstr (mem_bytes m' 0x600 2) = [0x61] \<and>
     (\<forall>a. \<not> in_range 0x600 2 a \<longrightarrow> m' a = demo_user_mem a)"
proof -
  have "apart 0x600 0x500 2" unfolding apart_def by (simp add: in_range_nowrap)
  moreover have "mem_bytes demo_user_mem 0x500 2 = [0x61, 0x62]" by (simp add: mem_bytes_def demo_user_mem_def upt_conv_Cons)
  ultimately show ?thesis using strncpy_user_bounds [of 2 "0x600" "0x500" demo_user_mem] by auto
qed

end
