(* ===== verification/Spec2Isabelle.thy ===== *)
theory Spec2Isabelle
  imports Kernel_Main Preemption Load_Missing Load_Elf Arguments User_Proofs User_String
begin

text \<open>
  A verification of the kernel maerOS (a 32-bit x86 teaching kernel in C) and of the library its user programs
  are linked with. The kernel boots into \<open>kernel_main\<close>, which sets up a text terminal, segment descriptors, a block
  heap, a FAT16 file system on an ATA disk, interrupt gates, paging, ten system calls and a keyboard, then loads
  two ELF programs and enters the first task. From then on it runs only in interrupt handlers: the timer switches
  tasks, the keyboard fills the buffer of a process, interrupt 0x80 serves the system calls.

  \<^bold>\<open>State.\<close> The state of the kernel is a chain of extensible records, one extension for each component, so that a
  component sees the state of those below it: \<open>machine\<close> (physical memory and the heap), \<open>pg_machine\<close> (\<open>cr3\<close>),
  \<open>path_machine\<close>, \<open>elf_machine\<close>, \<open>task_machine\<close>, \<open>process_machine\<close>, \<open>term_machine\<close>, \<open>idt_machine\<close> (gates, callbacks, the
  device), \<open>kbd_machine\<close>, \<open>disk_machine\<close>, \<open>fat_machine\<close>, \<open>file_machine\<close>, \<open>sys_machine\<close>, \<open>kernel_machine\<close>. Raw memory is a
  total function from 32-bit addresses to bytes; it holds the block table, page tables, program images, the screen
  and directory entries. Structures with pointers (tasks, processes, path parts, descriptors, streams) are objects
  in maps from the address the allocator returned; to read through a null or released pointer is a \<open>Fault\<close>.

  \<^bold>\<open>Outcomes.\<close> A function that can fail returns \<open>exec\<close>: a result, \<open>Fault\<close> (an access outside an object), \<open>Panic\<close>
  (the kernel's own) or \<open>Diverge\<close>. Loops are structural recursion or functions with a measure; a loop that ends
  only if the outside cooperates has fuel and gives \<open>Diverge\<close> without it: polling the disk (more polls than the
  controller needs, \<open>W < fuel\<close>), scanning a directory for its end marker, the parts of a path, the list of
  arguments of a user program, \<open>strtok\<close> (more than the length of the string). The statements name the bound.
  Unsigned integers are words and wrap; a C \<open>int\<close> is an integer, and the statements keep it in range.

  \<^bold>\<open>Outside code.\<close> The devices behind the ports are the argument \<open>io\<close>; what the disk driver relies on is
  \<open>ata_conforms\<close>, which the example device \<open>sim_ports\<close> satisfies. Addresses the linker chooses are arguments or
  fields. In the library of the user programs the results of system calls are arguments.

  \<^bold>\<open>Theories.\<close>
  \<^item> \<open>Maeros_Prelude\<close>: types, outcomes, constants of \<open>config.h\<close> and \<open>status.h\<close>, memory.
  \<^item> \<open>C_Memory\<close>, \<open>C_String\<close>: \<open>memory/memory.c\<close>, \<open>string/string.c\<close>.
  \<^item> \<open>Kernel_Heap\<close>: \<open>memory/heap/heap.c\<close>; the block table refines a map of allocations, first fit, with the case in
    which no run is long enough. \<open>KHeap\<close>: \<open>kheap.c\<close>, the allocator as the locale \<open>page_allocator\<close>, interpreted for
    \<open>kmalloc\<close> and \<open>kzalloc\<close>.
  \<^item> \<open>Paging\<close>: \<open>memory/paging/paging.c\<close>; translation by the processor as the specification of mapping.
  \<^item> \<open>Path_Parser\<close>: \<open>fs/pparser.c\<close>; components of a path, the round trip of parsing and releasing.
  \<^item> \<open>Elf_Loader\<close>: \<open>loader/formats/elf.c\<close>, \<open>elfloader.c\<close>; bounds of the loadable segments.
  \<^item> \<open>Task\<close>: \<open>task/task.c\<close>; the list of tasks and round-robin scheduling, the locale \<open>ring_scheduler\<close>. A task is entered
    with its saved registers but with the flags of the kernel (\<open>kernel_flags\<close>), as \<open>task.asm\<close> does it.
  \<^item> \<open>Process\<close>: \<open>task/process.c\<close> except loading; memory of a process, arguments, and termination of raw binaries and
    ELF programs with their task anywhere in the list.
  \<^item> \<open>Terminal\<close>: the terminal of \<open>kernel.c\<close> refines an abstract one of cells and a cursor, which has no result where
    the code leaves its cells. \<open>Gdt\<close>: \<open>gdt/gdt.c\<close>.
  \<^item> \<open>Interrupt_Table\<close>: the tables of \<open>idt/idt.c\<close>. \<open>Keyboard\<close>: \<open>keyboard/keyboard.c\<close>, \<open>classic.c\<close>; the buffer of a
    process as the locale \<open>fifo_store\<close>.
  \<^item> \<open>Disk\<close>: \<open>disk/disk.c\<close>, \<open>streamer.c\<close>; the controller and the bytes a stream delivers.
  \<^item> \<open>Fat16\<close>: \<open>fs/fat/fat16.c\<close>. \<open>Fat16_Files\<close>: names, clusters, the place of table entries. \<open>Fat16_Open\<close>: from the
    name of a file to its bytes. \<open>File\<close>: \<open>fs/file.c\<close>, the invariant of the descriptor table.
  \<^item> \<open>File_Access\<close>: a file through the whole stack, from the text of the path to the bytes on the disk and back to the
    heap when it is closed; each step keeps the contents of live memory (\<open>keeps_live\<close>).
  \<^item> \<open>Loader\<close>: \<open>elf_load\<close> and the loading functions of \<open>process.c\<close>. \<open>Load_Program\<close>: reading a program, with a bound on
    the blocks in use (\<open>used\<close>) that guarantees room for runs of blocks. \<open>Load_Process\<close>: \<open>process_load\<close> from the name
    of a raw binary to a mapped process. \<open>Load_Missing\<close>: the same for a name that is not there.
  \<^item> \<open>Mount\<close>: the heap, the file system and the disk brought up as \<open>kernel_main\<close> does, on the image of a volume: the
    file system binds, the root directory is in memory, and a program of the image can be loaded from there.
    \<open>Load_Elf\<close>: \<open>process_load\<close> of an ELF program, from its program headers to the segments as user mode sees them.
    \<open>Arguments\<close>: \<open>process_inject_arguments\<close>, from the list of arguments to the vector the program reads through its
    own page directory.
  \<^item> \<open>Syscalls\<close>: \<open>isr80h/*.c\<close> and the dispatch of \<open>idt.c\<close>. \<open>Preemption\<close>: timer interrupts as a step relation, the
    contexts tasks resume with, system calls through the page directory of the caller. \<open>Kernel_Main\<close>: \<open>kernel_main\<close>.
  \<^item> \<open>User_Lib\<close>, \<open>User_Proofs\<close>: \<open>programs/stdlib/src\<close>; decimal text, words, formats and line input against reference
    definitions. \<open>User_String\<close>: the rest of the library, against the kernel's routines, and the two programs.
  \<^item> This theory: fairness of the timer, which composes the interrupt handler, the saving of registers and the
    scheduler.

  \<^bold>\<open>Not modelled.\<close> The boot sector and the other assembly files (entry stubs, port instructions, loads of control
  registers, the stubs of the system calls), except for the effect of the instructions the C code relies on:
  \<open>task_return\<close>, the loads of \<open>cr3\<close> and of the descriptor tables. The translation of addresses applies where the code
  switches to the directory of a task; elsewhere the kernel's own directory maps every address to itself, as
  \<open>paging_new_4gb\<close> builds it. There is a theorem about each of the phases that \<open>kernel_main\<close> composes
  but none about \<open>kernel_main\<close> as a whole, nor about directories below the root and files of more than one cluster, which
  the code follows through the wrong table entries.
\<close>

section \<open>Scheduling by the timer\<close>

text \<open>One timer interrupt, which finds the running task with the frame \<open>g\<close> gives for the state.\<close>

definition clock_step ::
  "'d ports \<Rightarrow> (('d, 'a) sys_machine_scheme \<Rightarrow> interrupt_frame) \<Rightarrow> ('d, 'a) sys_machine_scheme \<Rightarrow> ('d, 'a) sys_machine_scheme exec" where
  "clock_step io g st = bindx (interrupt_handler io 0x20 (g st) st) (\<lambda>(_, st). Ret st)"

interpretation clk: ring_scheduler "clock_step (io :: 'd ports) (g :: ('d, 'a) sys_machine_scheme \<Rightarrow> interrupt_frame)" current_task scheduled
proof
  fix st :: "('d, 'a) sys_machine_scheme" and ts i
  assume "scheduled st ts" "i < length ts" "current_task st = ts ! i"
  from clock_run_at [OF this, of io "g st"]
  show "\<exists>s'. clock_step io g st = Ret s' \<and> scheduled s' ts \<and> current_task s' = ts ! ((i + 1) mod length ts)"
    by (auto simp: clock_step_def)
qed

text \<open>
  C10. Fairness. While the timer runs a ring of tasks, whatever state the interrupts find the tasks in, no
  interrupt faults and every task of the ring becomes the running one within as many interrupts as the ring
  has tasks.
\<close>

theorem clock_fair:
  assumes "scheduled st ts" and "t \<in> set ts"
  shows "\<exists>k st'. 1 \<le> k \<and> k \<le> length ts \<and> iterx k (clock_step io g) st = Ret st' \<and> scheduled st' ts \<and> current_task st' = t"
proof -
  obtain i where "i < length ts" "current_task st = ts ! i" using assms(1) by (auto simp: scheduled_def in_set_conv_nth)
  from clk.fair [OF assms(1) this assms(2)] show ?thesis .
qed

theorem clock_fair_witness:
  "\<exists>k st'. 1 \<le> k \<and> k \<le> 3 \<and> iterx k (clock_step (sim_ports []) (\<lambda>_. demo_frame 0)) demo_clock = Ret st' \<and> current_task st' = 3"
  using clock_fair [OF demo_scheduled, of 3 "sim_ports []" "\<lambda>_. demo_frame 0"] by auto

end
